(* ===== verification/Rust_Prelude.thy ===== *)
theory Rust_Prelude
  imports Main "HOL-Library.Word" "HOL-Library.Code_Target_Nat"
begin

text \<open>
  Shared vocabulary of the development: the outcome of a Rust function (a value, an error
  returned with the question-mark operator, or a panic), \<open>usize\<close> arithmetic on a 64-bit
  target, little-endian integers, slices and chunks, decimal text, and UTF-8.

  A \<open>usize\<close> is a natural number below \<open>2 ^ 64\<close>. The checked and saturating operations of
  the source are written out. Plain additions of the source that only ever combine positions
  inside one slice are plain additions here: a Rust slice is never longer than \<open>isize::MAX\<close>,
  so they cannot wrap. Every slice expression, index and \<open>expect\<close> of the source is a \<open>Panic\<close>
  branch of the model when it is out of range.
\<close>

named_theorems result_simps \<open>case analysis of results and their sequencing\<close>
named_theorems no_panic \<open>introduction rules for the absence of panics\<close>
named_theorems bytes_simps \<open>lengths and round trips of little-endian integers\<close>

subsection \<open>Outcomes\<close>

datatype ('a, 'e) result = Ok 'a | Err 'e | Panic

text \<open>Sequencing: the question-mark operator followed by the rest of the function.\<close>

fun rbind :: "('a, 'e) result \<Rightarrow> ('a \<Rightarrow> ('b, 'e) result) \<Rightarrow> ('b, 'e) result" where
  "rbind (Ok x) f = f x"
| "rbind (Err e) f = Err e"
| "rbind Panic f = Panic"

fun map_err :: "('e \<Rightarrow> 'f) \<Rightarrow> ('a, 'e) result \<Rightarrow> ('a, 'f) result" where
  "map_err f (Ok x) = Ok x"
| "map_err f (Err e) = Err (f e)"
| "map_err f Panic = Panic"

definition ok_or :: "'a option \<Rightarrow> 'e \<Rightarrow> ('a, 'e) result" where
  "ok_or v e = (case v of None \<Rightarrow> Err e | Some x \<Rightarrow> Ok x)"

definition expect :: "'a option \<Rightarrow> ('a, 'e) result" where
  "expect v = (case v of None \<Rightarrow> Panic | Some x \<Rightarrow> Ok x)"

text \<open>\<open>iter().map(f).collect::<Result<Vec<_>, _>>()\<close>, and the same with \<open>enumerate\<close>.\<close>

fun try_map :: "('a \<Rightarrow> ('b, 'e) result) \<Rightarrow> 'a list \<Rightarrow> ('b list, 'e) result" where
  "try_map f [] = Ok []"
| "try_map f (x # xs) = rbind (f x) (\<lambda>y. rbind (try_map f xs) (\<lambda>ys. Ok (y # ys)))"

fun try_map_from :: "nat \<Rightarrow> (nat \<Rightarrow> 'a \<Rightarrow> ('b, 'e) result) \<Rightarrow> 'a list \<Rightarrow> ('b list, 'e) result" where
  "try_map_from row f [] = Ok []"
| "try_map_from row f (x # xs) =
     rbind (f row x) (\<lambda>y. rbind (try_map_from (Suc row) f xs) (\<lambda>ys. Ok (y # ys)))"

lemma rbind_Ok_iff [result_simps]: "rbind r f = Ok y \<longleftrightarrow> (\<exists>x. r = Ok x \<and> f x = Ok y)"
  by (cases r) auto

lemma rbind_OkE: "rbind r f = Ok y \<Longrightarrow> (\<And>x. r = Ok x \<Longrightarrow> f x = Ok y \<Longrightarrow> thesis) \<Longrightarrow> thesis"
  by (cases r) auto

lemma rbind_Panic_iff [result_simps]: "rbind r f = Panic \<longleftrightarrow> r = Panic \<or> (\<exists>x. r = Ok x \<and> f x = Panic)"
  by (cases r) auto

lemma rbind_Err_iff [result_simps]:
  "rbind r f = Err e \<longleftrightarrow> r = Err e \<or> (\<exists>x. r = Ok x \<and> f x = Err e)"
  by (cases r) auto

lemma rbind_assoc: "rbind (rbind r f) g = rbind r (\<lambda>x. rbind (f x) g)"
  by (cases r) auto

lemma rbind_if: "rbind (if c then r else s) f = (if c then rbind r f else rbind s f)"
  by simp

lemma rbind_prod: "rbind (case x of (a, b) \<Rightarrow> g a b) f = (case x of (a, b) \<Rightarrow> rbind (g a b) f)"
  by (cases x) simp

lemma rbind_cong [fundef_cong]:
  "r = r' \<Longrightarrow> (\<And>x. r' = Ok x \<Longrightarrow> f x = f' x) \<Longrightarrow> rbind r f = rbind r' f'"
  by (cases r') auto

lemma map_err_Ok_iff [result_simps]: "map_err f r = Ok x \<longleftrightarrow> r = Ok x"
  by (cases r) auto

lemma map_err_Panic_iff [result_simps]: "map_err f r = Panic \<longleftrightarrow> r = Panic"
  by (cases r) auto

lemma ok_or_simps [simp]: "ok_or (Some x) e = Ok x" "ok_or None e = Err e"
  by (simp_all add: ok_or_def)

lemma ok_or_Ok_iff [result_simps]: "ok_or v e = Ok x \<longleftrightarrow> v = Some x"
  by (cases v) auto

lemma ok_or_not_Panic [simp]: "ok_or v e \<noteq> Panic"
  by (cases v) auto

lemma expect_simps [simp]: "expect (Some x) = Ok x" "expect None = Panic"
  by (simp_all add: expect_def)

lemma no_panic_Ok [no_panic]: "Ok x \<noteq> Panic"
  by simp

lemma no_panic_Err [no_panic]: "Err e \<noteq> Panic"
  by simp

lemma no_panic_ok_or [no_panic]: "ok_or v e \<noteq> Panic"
  by simp

lemma no_panic_rbind [no_panic]: "r \<noteq> Panic \<Longrightarrow> (\<And>x. r = Ok x \<Longrightarrow> f x \<noteq> Panic) \<Longrightarrow> rbind r f \<noteq> Panic"
  by (cases r) auto

lemma no_panic_if [no_panic]: "(c \<Longrightarrow> a \<noteq> Panic) \<Longrightarrow> (\<not> c \<Longrightarrow> b \<noteq> Panic) \<Longrightarrow> (if c then a else b) \<noteq> Panic"
  by simp

lemma no_panic_prod [no_panic]: "(\<And>a b. p = (a, b) \<Longrightarrow> f a b \<noteq> Panic) \<Longrightarrow> (case p of (a, b) \<Rightarrow> f a b) \<noteq> Panic"
  by (cases p) simp

lemma no_panic_option [no_panic]:
  "(v = None \<Longrightarrow> a \<noteq> Panic) \<Longrightarrow> (\<And>x. v = Some x \<Longrightarrow> f x \<noteq> Panic) \<Longrightarrow>
   (case v of None \<Rightarrow> a | Some x \<Rightarrow> f x) \<noteq> Panic"
  by (cases v) auto

lemma no_panic_map_err [no_panic]: "r \<noteq> Panic \<Longrightarrow> map_err f r \<noteq> Panic"
  by (cases r) auto

lemma try_map_length: "try_map f xs = Ok ys \<Longrightarrow> length ys = length xs"
  by (induction xs arbitrary: ys) (auto simp: result_simps)

lemma try_map_nth: "try_map f xs = Ok ys \<Longrightarrow> i < length xs \<Longrightarrow> f (xs ! i) = Ok (ys ! i)"
  by (induction xs arbitrary: ys i) (auto simp: result_simps nth_Cons split: nat.splits)

lemma try_map_not_Panic [no_panic]: "(\<And>x. x \<in> set xs \<Longrightarrow> f x \<noteq> Panic) \<Longrightarrow> try_map f xs \<noteq> Panic"
  by (induction xs) (auto simp: result_simps)

lemma try_map_all_Ok: "(\<And>x. x \<in> set xs \<Longrightarrow> f x = Ok (g x)) \<Longrightarrow> try_map f xs = Ok (map g xs)"
  by (induction xs) auto

lemma try_map_from_length: "try_map_from n f xs = Ok ys \<Longrightarrow> length ys = length xs"
  by (induction xs arbitrary: n ys) (auto simp: result_simps)

lemma try_map_from_nth:
  "try_map_from n f xs = Ok ys \<Longrightarrow> i < length xs \<Longrightarrow> f (n + i) (xs ! i) = Ok (ys ! i)"
proof (induction xs arbitrary: n ys i)
  case (Cons x xs)
  then obtain y ys' where y: "f n x = Ok y" and ys': "try_map_from (Suc n) f xs = Ok ys'"
    and eq: "ys = y # ys'"
    by (auto simp: result_simps)
  show ?case
  proof (cases i)
    case 0
    with y eq show ?thesis by simp
  next
    case (Suc j)
    with Cons.prems have "j < length xs" by simp
    from Cons.IH [OF ys' this] Suc eq show ?thesis by simp
  qed
qed simp

lemma try_map_from_not_Panic [no_panic]:
  "(\<And>i x. x \<in> set xs \<Longrightarrow> f i x \<noteq> Panic) \<Longrightarrow> try_map_from n f xs \<noteq> Panic"
  by (induction xs arbitrary: n) (auto simp: result_simps)

lemma try_map_from_all_Ok:
  "(\<And>i x. x \<in> set xs \<Longrightarrow> f i x = Ok (g x)) \<Longrightarrow> try_map_from n f xs = Ok (map g xs)"
  by (induction xs arbitrary: n) auto

lemma try_map_from_append:
  "try_map_from n f xs = Ok as \<Longrightarrow> try_map_from (n + length xs) f ys = Ok bs \<Longrightarrow>
   try_map_from n f (xs @ ys) = Ok (as @ bs)"
  by (induction xs arbitrary: n as) (auto simp: result_simps)

lemma try_map_from_each: "try_map_from n f xs = Ok ys \<Longrightarrow> x \<in> set xs \<Longrightarrow> \<exists>i y. f i x = Ok y"
  by (induction xs arbitrary: n ys) (auto simp: result_simps)

lemma try_map_from_Err:
  "try_map_from n f xs = Err e \<Longrightarrow> \<exists>i < length xs. f (n + i) (xs ! i) = Err e"
proof (induction xs arbitrary: n)
  case (Cons x xs)
  show ?case
  proof (cases "f n x = Err e")
    case True
    then show ?thesis by (intro exI [of _ 0]) simp
  next
    case False
    with Cons.prems have "try_map_from (Suc n) f xs = Err e" by (auto simp: result_simps)
    from Cons.IH [OF this] obtain i where "i < length xs" "f (Suc n + i) (xs ! i) = Err e" by blast
    then show ?thesis by (intro exI [of _ "Suc i"]) simp
  qed
qed simp

subsection \<open>Machine sizes\<close>

abbreviation usize_max :: nat where "usize_max \<equiv> 2 ^ 64 - 1"
abbreviation isize_max :: nat where "isize_max \<equiv> 2 ^ 63 - 1"
abbreviation i32_max :: nat where "i32_max \<equiv> 2 ^ 31 - 1"

definition checked_add :: "nat \<Rightarrow> nat \<Rightarrow> nat option" where
  "checked_add a b = (if a + b \<le> usize_max then Some (a + b) else None)"

definition checked_mul :: "nat \<Rightarrow> nat \<Rightarrow> nat option" where
  "checked_mul a b = (if a * b \<le> usize_max then Some (a * b) else None)"

definition saturating_add :: "nat \<Rightarrow> nat \<Rightarrow> nat" where
  "saturating_add a b = min (a + b) usize_max"

definition saturating_mul :: "nat \<Rightarrow> nat \<Rightarrow> nat" where
  "saturating_mul a b = min (a * b) usize_max"

lemma checked_add_Some_iff [simp]: "checked_add a b = Some c \<longleftrightarrow> c = a + b \<and> a + b \<le> usize_max"
  by (auto simp: checked_add_def)

lemma checked_mul_Some_iff [simp]: "checked_mul a b = Some c \<longleftrightarrow> c = a * b \<and> a * b \<le> usize_max"
  by (auto simp: checked_mul_def)

text \<open>\<open>usize::try_from\<close> and its siblings: a signed value in the range of the target.\<close>

definition usize_try_from :: "int \<Rightarrow> nat option" where
  "usize_try_from i = (if 0 \<le> i \<and> i \<le> int usize_max then Some (nat i) else None)"

definition in_signed :: "nat \<Rightarrow> int \<Rightarrow> bool" where
  "in_signed w i \<longleftrightarrow> - (2 ^ (8 * w - 1)) \<le> i \<and> i < 2 ^ (8 * w - 1)"

definition int_min :: "nat \<Rightarrow> int" where
  "int_min w = - (2 ^ (8 * w - 1))"

definition int_try_from :: "nat \<Rightarrow> int \<Rightarrow> int option" where
  "int_try_from w i = (if in_signed w i then Some i else None)"

text \<open>Rust's signed division truncates towards zero; \<open>rem_euclid\<close> and \<open>div_euclid\<close> do not.\<close>

definition trunc_div :: "int \<Rightarrow> int \<Rightarrow> int" where
  "trunc_div a b = sgn a * sgn b * (\<bar>a\<bar> div \<bar>b\<bar>)"

definition trunc_rem :: "int \<Rightarrow> int \<Rightarrow> int" where
  "trunc_rem a b = a - b * trunc_div a b"

lemma trunc_div_nonneg [simp]: "0 \<le> a \<Longrightarrow> 0 < b \<Longrightarrow> trunc_div a b = a div b"
  by (cases "a = 0") (auto simp: trunc_div_def)

lemma trunc_rem_nonneg [simp]: "0 \<le> a \<Longrightarrow> 0 < b \<Longrightarrow> trunc_rem a b = a mod b"
  by (simp add: trunc_rem_def minus_mult_div_eq_mod)

lemma trunc_rem_zero_iff: "0 < b \<Longrightarrow> trunc_rem a b = 0 \<longleftrightarrow> b dvd a"
proof -
  assume b: "0 < b"
  have key: "b * trunc_div a b = sgn a * (b * (\<bar>a\<bar> div b))"
    using b by (simp add: trunc_div_def)
  have "trunc_rem a b = sgn a * \<bar>a\<bar> - sgn a * (b * (\<bar>a\<bar> div b))"
    by (simp only: trunc_rem_def key sgn_mult_abs)
  also have "\<dots> = sgn a * (\<bar>a\<bar> - b * (\<bar>a\<bar> div b))"
    by (rule right_diff_distrib [symmetric])
  finally have "trunc_rem a b = sgn a * (\<bar>a\<bar> mod b)"
    by (simp only: minus_mult_div_eq_mod)
  moreover have "\<bar>a\<bar> mod b = 0 \<longleftrightarrow> b dvd a" by (simp add: mod_eq_0_iff_dvd)
  ultimately show ?thesis by (auto simp: sgn_0_0)
qed

lemma trunc_div_exact: "0 < b \<Longrightarrow> b dvd a \<Longrightarrow> b * trunc_div a b = a"
  using trunc_rem_zero_iff [of b a] by (simp add: trunc_rem_def)

end
