(* ===== verification/Bytes.thy ===== *)
theory Bytes
  imports Rust_Prelude "HOL-Library.Multiset"
begin

text \<open>
  Byte strings: slices and searches, little-endian integers of any width, fixed-width chunks,
  and the decimal text of integers as the Rust standard library prints and parses it.
\<close>

type_synonym u8 = "8 word"

subsection \<open>Slices and searches\<close>

definition slice :: "'a list \<Rightarrow> nat \<Rightarrow> nat \<Rightarrow> 'a list" where
  "slice xs a b = take (b - a) (drop a xs)"

text \<open>\<open>&xs[a..b]\<close> panics out of range, \<open>xs.get(a..b)\<close> is \<open>None\<close> there.\<close>

definition slice_at :: "'a list \<Rightarrow> nat \<Rightarrow> nat \<Rightarrow> ('a list, 'e) result" where
  "slice_at xs a b = (if a \<le> b \<and> b \<le> length xs then Ok (slice xs a b) else Panic)"

definition get_range :: "'a list \<Rightarrow> nat \<Rightarrow> nat \<Rightarrow> 'a list option" where
  "get_range xs a b = (if a \<le> b \<and> b \<le> length xs then Some (slice xs a b) else None)"

definition get :: "'a list \<Rightarrow> nat \<Rightarrow> 'a option" where
  "get xs i = (if i < length xs then Some (xs ! i) else None)"

fun position :: "('a \<Rightarrow> bool) \<Rightarrow> 'a list \<Rightarrow> nat option" where
  "position P [] = None"
| "position P (x # xs) = (if P x then Some 0 else map_option Suc (position P xs))"

lemma length_slice [simp]: "b \<le> length xs \<Longrightarrow> length (slice xs a b) = b - a"
  by (simp add: slice_def)

lemma slice_full [simp]: "slice xs 0 (length xs) = xs"
  by (simp add: slice_def)

lemma slice_empty [simp]: "slice xs a a = []"
  by (simp add: slice_def)

lemma slice_append_left: "b \<le> length xs \<Longrightarrow> slice (xs @ ys) a b = slice xs a b"
  by (simp add: slice_def)

lemma slice_append_right: "length xs \<le> a \<Longrightarrow> slice (xs @ ys) a b = slice ys (a - length xs) (b - length xs)"
  by (simp add: slice_def)

lemma slice_middle [simp]: "slice (xs @ ys @ zs) (length xs) (length xs + length ys) = ys"
  by (simp add: slice_def)

lemma set_slice: "set (slice xs a b) \<subseteq> set xs"
  by (auto simp: slice_def dest: in_set_takeD in_set_dropD)

lemma slice_at_Ok_iff [result_simps]:
  "slice_at xs a b = Ok ys \<longleftrightarrow> a \<le> b \<and> b \<le> length xs \<and> ys = slice xs a b"
  by (auto simp: slice_at_def)

lemma slice_at_Panic_iff [result_simps]: "slice_at xs a b = Panic \<longleftrightarrow> \<not> (a \<le> b \<and> b \<le> length xs)"
  by (auto simp: slice_at_def)

lemma slice_at_not_Err [result_simps]: "slice_at xs a b \<noteq> Err e"
  by (auto simp: slice_at_def)

lemma position_None_iff: "position P xs = None \<longleftrightarrow> (\<forall>x \<in> set xs. \<not> P x)"
  by (induction xs) auto

lemma position_SomeD:
  "position P xs = Some i \<Longrightarrow> i < length xs \<and> P (xs ! i) \<and> (\<forall>j < i. \<not> P (xs ! j))"
proof (induction xs arbitrary: i)
  case (Cons x xs)
  show ?case
  proof (cases "P x")
    case True
    with Cons.prems show ?thesis by simp
  next
    case False
    with Cons.prems obtain k where "position P xs = Some k" "i = Suc k" by auto
    with Cons.IH [of k] False show ?thesis by (auto simp: nth_Cons split: nat.splits)
  qed
qed simp

lemma position_less: "position P xs = Some i \<Longrightarrow> i < length xs"
  by (simp add: position_SomeD)

lemma position_append:
  "position P (xs @ ys) =
     (case position P xs of Some i \<Rightarrow> Some i | None \<Rightarrow> map_option (\<lambda>i. i + length xs) (position P ys))"
  by (induction xs) (auto simp: option.map_comp comp_def option.map_ident split: option.splits)

lemma position_none_Cons [simp]: "\<forall>x \<in> set xs. \<not> P x \<Longrightarrow> P y \<Longrightarrow> position P (xs @ y # ys) = Some (length xs)"
  using position_None_iff [of P xs] by (simp add: position_append)

lemma take_position: "position P xs = Some i \<Longrightarrow> \<forall>x \<in> set (take i xs). \<not> P x"
  by (auto dest!: position_SomeD simp: in_set_conv_nth)

lemma take_past: "length xs < n \<Longrightarrow> take n (xs @ y # ys) = xs @ y # take (n - Suc (length xs)) ys"
  by (simp add: take_Cons')

subsection \<open>Little-endian integers\<close>

fun le_bytes :: "nat \<Rightarrow> nat \<Rightarrow> u8 list" where
  "le_bytes 0 n = []"
| "le_bytes (Suc w) n = word_of_nat n # le_bytes w (n div 256)"

fun le_nat :: "u8 list \<Rightarrow> nat" where
  "le_nat [] = 0"
| "le_nat (b # bs) = unat b + 256 * le_nat bs"

text \<open>\<open>to_le_bytes\<close> of a signed integer of \<open>w\<close> bytes, and \<open>from_le_bytes\<close> of a byte array.\<close>

definition to_le :: "nat \<Rightarrow> int \<Rightarrow> u8 list" where
  "to_le w i = le_bytes w (nat (i mod 2 ^ (8 * w)))"

definition from_le :: "u8 list \<Rightarrow> int" where
  "from_le bs =
     (let n = int (le_nat bs); w = length bs
      in if n < 2 ^ (8 * w - 1) then n else n - 2 ^ (8 * w))"

lemma length_le_bytes [bytes_simps, simp]: "length (le_bytes w n) = w"
  by (induction w arbitrary: n) auto

lemma length_to_le [bytes_simps, simp]: "length (to_le w i) = w"
  by (simp add: to_le_def)

lemma unat_byte_of_nat: "unat (word_of_nat n :: u8) = n mod 256"
  by (simp add: unat_of_nat)

lemma le_nat_less: "le_nat bs < 256 ^ length bs"
proof (induction bs)
  case (Cons b bs)
  have "unat b < 256" using unsigned_less [of b, where 'a = nat] by simp
  with Cons show ?case by simp
qed simp

lemma le_nat_le_bytes: "le_nat (le_bytes w n) = n mod 256 ^ w"
proof (induction w arbitrary: n)
  case (Suc w)
  have "le_nat (le_bytes (Suc w) n) = n mod 256 + 256 * (n div 256 mod 256 ^ w)"
    by (simp add: unat_byte_of_nat Suc)
  also have "\<dots> = n mod (256 * 256 ^ w)"
    by (simp add: mod_mult2_eq)
  finally show ?case by simp
qed simp

lemma le_bytes_le_nat [bytes_simps, simp]: "le_bytes (length bs) (le_nat bs) = bs"
proof (induction bs)
  case (Cons b bs)
  have b: "unat b < 256" using unsigned_less [of b, where 'a = nat] by simp
  then have "(unat b + 256 * le_nat bs) div 256 = le_nat bs" by simp
  moreover have "(word_of_nat (unat b + 256 * le_nat bs) :: u8) = b"
  proof (rule word_unat_eq_iff [THEN iffD2])
    show "unat (word_of_nat (unat b + 256 * le_nat bs) :: u8) = unat b"
      using b unfolding unat_byte_of_nat by simp
  qed
  ultimately show ?case using Cons by simp
qed simp

lemma pow256: "(256::nat) ^ w = 2 ^ (8 * w)"
  by (simp add: power_mult)

lemma from_le_in_signed: "bs \<noteq> [] \<Longrightarrow> in_signed (length bs) (from_le bs)"
proof -
  assume "bs \<noteq> []"
  then obtain k where k: "8 * length bs = Suc k" by (cases bs) auto
  have "int (le_nat bs) < 2 ^ (8 * length bs)"
    using le_nat_less [of bs] by (simp add: pow256 flip: of_nat_power_less_of_nat_cancel_iff)
  then show ?thesis using k by (auto simp: in_signed_def from_le_def Let_def)
qed

lemma from_le_to_le [bytes_simps, simp]: "0 < w \<Longrightarrow> in_signed w i \<Longrightarrow> from_le (to_le w i) = i"
proof -
  assume "0 < w" and i: "in_signed w i"
  then obtain k where k: "8 * w = Suc k" by (cases w) auto
  let ?m = "i mod 2 ^ (8 * w)"
  have "0 \<le> ?m" "?m < 2 ^ (8 * w)" by simp_all
  then have n: "int (le_nat (to_le w i)) = ?m"
    by (simp add: to_le_def le_nat_le_bytes pow256 zmod_int)
  have "?m = (if i < 0 then i + 2 ^ (8 * w) else i)"
  proof (cases "i < 0")
    case True
    with i k have "(i + 2 ^ (8 * w)) mod 2 ^ (8 * w) = i + 2 ^ (8 * w)"
      by (intro mod_pos_pos_trivial) (auto simp: in_signed_def)
    with True show ?thesis by simp
  next
    case False
    with i k have "i mod 2 ^ (8 * w) = i"
      by (intro mod_pos_pos_trivial) (auto simp: in_signed_def)
    with False show ?thesis by simp
  qed
  with n i k show ?thesis by (auto simp: from_le_def Let_def in_signed_def)
qed

lemma to_le_from_le [bytes_simps, simp]: "to_le (length bs) (from_le bs) = bs"
proof -
  have "int (le_nat bs) < 2 ^ (8 * length bs)"
    using le_nat_less [of bs] by (simp add: pow256 flip: of_nat_power_less_of_nat_cancel_iff)
  then have "nat (from_le bs mod 2 ^ (8 * length bs)) = le_nat bs"
    by (auto simp: from_le_def Let_def)
  then show ?thesis by (simp add: to_le_def)
qed

lemma to_le_inject: "0 < w \<Longrightarrow> in_signed w i \<Longrightarrow> in_signed w j \<Longrightarrow> to_le w i = to_le w j \<longleftrightarrow> i = j"
  by (metis from_le_to_le)

text \<open>Unsigned integers of \<open>w\<close> bytes.\<close>

lemma le_nat_le_bytes_id [bytes_simps, simp]: "n < 256 ^ w \<Longrightarrow> le_nat (le_bytes w n) = n"
  by (simp add: le_nat_le_bytes)

subsection \<open>Fixed-width chunks\<close>

function chunks_exact :: "nat \<Rightarrow> 'a list \<Rightarrow> 'a list list" where
  "chunks_exact n xs = (if n = 0 \<or> length xs < n then [] else take n xs # chunks_exact n (drop n xs))"
  by pat_completeness auto
termination
  by (relation "measure (\<lambda>(n, xs). length xs)") auto

declare chunks_exact.simps [simp del]

lemma chunks_exact_Nil [simp]: "chunks_exact n [] = []"
  by (subst chunks_exact.simps) auto

lemma chunks_exact_append [simp]:
  "0 < n \<Longrightarrow> length x = n \<Longrightarrow> chunks_exact n (x @ xs) = x # chunks_exact n xs"
  by (simp add: chunks_exact.simps [of n "x @ xs"])

lemma chunks_exact_concat:
  "0 < n \<Longrightarrow> \<forall>x \<in> set xss. length x = n \<Longrightarrow> chunks_exact n (concat xss) = xss"
  by (induction xss) auto

lemma length_concat_same: "\<forall>x \<in> set xss. length x = n \<Longrightarrow> length (concat xss) = length xss * n"
  by (induction xss) auto

lemma chunks_exact_widths: "x \<in> set (chunks_exact n xs) \<Longrightarrow> length x = n"
  by (induction n xs rule: chunks_exact.induct)
    (subst (asm) (2) chunks_exact.simps, auto split: if_splits)

lemma concat_chunks_exact: "length xs = k * n \<Longrightarrow> 0 < n \<Longrightarrow> concat (chunks_exact n xs) = xs"
proof (induction k arbitrary: xs)
  case (Suc k)
  then have "n \<le> length xs" "length (drop n xs) = k * n" by auto
  with Suc show ?case by (subst chunks_exact.simps) simp
qed simp

lemma length_chunks_exact: "length xs = k * n \<Longrightarrow> 0 < n \<Longrightarrow> length (chunks_exact n xs) = k"
proof (induction k arbitrary: xs)
  case (Suc k)
  then have "n \<le> length xs" "length (drop n xs) = k * n" by auto
  with Suc show ?case by (subst chunks_exact.simps) simp
qed simp

end
