(* ===== verification/Text.thy ===== *)
theory Text
  imports Bytes
begin

text \<open>
  Text of the Rust standard library at the byte level: UTF-8 validity and the lossy decoding of
  \<open>core::str\<close>, \<open>split_ascii_whitespace\<close>, and the decimal parser and printer of the integer types.
  A Rust \<open>str\<close> is the list of its bytes.
\<close>

subsection \<open>UTF-8\<close>

definition safe_get :: "u8 list \<Rightarrow> nat \<Rightarrow> u8" where
  "safe_get bs i = (if i < length bs then bs ! i else 0)"

definition continuation :: "u8 \<Rightarrow> bool" where
  "continuation b \<longleftrightarrow> 0x80 \<le> b \<and> b \<le> 0xBF"

definition second_of_three :: "u8 \<Rightarrow> u8 \<Rightarrow> bool" where
  "second_of_three b0 b1 \<longleftrightarrow>
     (b0 = 0xE0 \<and> 0xA0 \<le> b1 \<and> b1 \<le> 0xBF) \<or> (0xE1 \<le> b0 \<and> b0 \<le> 0xEC \<and> continuation b1)
     \<or> (b0 = 0xED \<and> 0x80 \<le> b1 \<and> b1 \<le> 0x9F) \<or> (0xEE \<le> b0 \<and> b0 \<le> 0xEF \<and> continuation b1)"

definition second_of_four :: "u8 \<Rightarrow> u8 \<Rightarrow> bool" where
  "second_of_four b0 b1 \<longleftrightarrow>
     (b0 = 0xF0 \<and> 0x90 \<le> b1 \<and> b1 \<le> 0xBF) \<or> (0xF1 \<le> b0 \<and> b0 \<le> 0xF3 \<and> continuation b1)
     \<or> (b0 = 0xF4 \<and> 0x80 \<le> b1 \<and> b1 \<le> 0x8F)"

text \<open>One scalar value: whether the next bytes are well formed, and how many are consumed.\<close>

definition utf8_step :: "u8 list \<Rightarrow> bool \<times> nat" where
  "utf8_step bs =
     (let b0 = safe_get bs 0; b1 = safe_get bs 1; b2 = safe_get bs 2; b3 = safe_get bs 3
      in if b0 < 0x80 then (True, 1)
         else if 0xC2 \<le> b0 \<and> b0 \<le> 0xDF then
           (if continuation b1 then (True, 2) else (False, 1))
         else if 0xE0 \<le> b0 \<and> b0 \<le> 0xEF then
           (if \<not> second_of_three b0 b1 then (False, 1)
            else if \<not> continuation b2 then (False, 2) else (True, 3))
         else if 0xF0 \<le> b0 \<and> b0 \<le> 0xF4 then
           (if \<not> second_of_four b0 b1 then (False, 1)
            else if \<not> continuation b2 then (False, 2)
            else if \<not> continuation b3 then (False, 3) else (True, 4))
         else (False, 1))"

lemma utf8_step_pos: "utf8_step bs = (v, n) \<Longrightarrow> 0 < n"
  by (auto simp: utf8_step_def Let_def split: if_splits)

function utf8_valid :: "u8 list \<Rightarrow> bool" where
  "utf8_valid bs =
     (if bs = [] then True
      else case utf8_step bs of (v, n) \<Rightarrow> if v then utf8_valid (drop n bs) else False)"
  by pat_completeness auto
termination
  by (relation "measure length") (auto dest!: utf8_step_pos [OF sym])

declare utf8_valid.simps [simp del]

function from_utf8_lossy :: "u8 list \<Rightarrow> u8 list" where
  "from_utf8_lossy bs =
     (if bs = [] then []
      else case utf8_step bs of (v, n) \<Rightarrow>
        (if v then take n bs else [0xEF, 0xBF, 0xBD]) @ from_utf8_lossy (drop n bs))"
  by pat_completeness auto
termination
  by (relation "measure length") (auto dest!: utf8_step_pos [OF sym])

declare from_utf8_lossy.simps [simp del]

lemma utf8_valid_Nil [simp]: "utf8_valid []"
  by (subst utf8_valid.simps) simp

lemma utf8_valid_ascii_Cons: "b < 0x80 \<Longrightarrow> utf8_valid (b # bs) = utf8_valid bs"
  by (subst utf8_valid.simps) (simp add: utf8_step_def safe_get_def)

lemma utf8_valid_ascii: "\<forall>b \<in> set bs. b < 0x80 \<Longrightarrow> utf8_valid bs"
  by (induction bs) (auto simp: utf8_valid_ascii_Cons)

text \<open>A well-formed string never starts with a continuation byte.\<close>

lemma utf8_valid_hd: "utf8_valid (b # bs) \<Longrightarrow> \<not> continuation b"
proof
  assume v: "utf8_valid (b # bs)" and "continuation b"
  then have c: "0x80 \<le> b" "b \<le> 0xBF" by (auto simp: continuation_def)
  then have "\<not> b < 0x80" "\<not> 0xC2 \<le> b" "\<not> 0xE0 \<le> b" "\<not> 0xF0 \<le> b"
    by (auto simp: word_le_nat_alt word_less_nat_alt)
  then have "utf8_step (b # bs) = (False, 1)" by (simp add: utf8_step_def safe_get_def)
  with v show False by (subst (asm) utf8_valid.simps) simp
qed

lemma from_utf8_lossy_valid: "utf8_valid bs \<Longrightarrow> from_utf8_lossy bs = bs"
proof (induction bs rule: utf8_valid.induct)
  case (1 bs)
  show ?case
  proof (cases "bs = []")
    case True
    then show ?thesis by (simp add: from_utf8_lossy.simps)
  next
    case False
    obtain v n where s: "utf8_step bs = (v, n)" by fastforce
    with 1(2) False have v: "v" "utf8_valid (drop n bs)"
      by (auto simp: utf8_valid.simps [of bs] split: if_splits)
    from 1(1) [OF False s [symmetric]] v have "from_utf8_lossy (drop n bs) = drop n bs" by simp
    with False s v show ?thesis by (subst from_utf8_lossy.simps) simp
  qed
qed

subsection \<open>ASCII whitespace\<close>

definition ascii_whitespace :: "u8 \<Rightarrow> bool" where
  "ascii_whitespace b \<longleftrightarrow> b = 0x09 \<or> b = 0x0A \<or> b = 0x0C \<or> b = 0x0D \<or> b = 0x20"

function split_ascii_whitespace :: "u8 list \<Rightarrow> u8 list list" where
  "split_ascii_whitespace bs =
     (let s = dropWhile ascii_whitespace bs
      in if s = [] then []
         else takeWhile (\<lambda>b. \<not> ascii_whitespace b) s
                # split_ascii_whitespace (dropWhile (\<lambda>b. \<not> ascii_whitespace b) s))"
  by pat_completeness auto
termination
proof (relation "measure length", goal_cases)
  case (2 bs s)
  then have s: "s \<noteq> []" "s = dropWhile ascii_whitespace bs" by auto
  then have "\<not> ascii_whitespace (hd s)" by (metis hd_dropWhile)
  with s(1) have "length (dropWhile (\<lambda>b. \<not> ascii_whitespace b) s) < length s"
    by (cases s) (auto simp: le_imp_less_Suc length_dropWhile_le)
  with s(2) show ?case by (simp add: less_le_trans length_dropWhile_le)
qed simp

declare split_ascii_whitespace.simps [simp del]

lemma split_ascii_whitespace_Nil [simp]: "split_ascii_whitespace [] = []"
  by (subst split_ascii_whitespace.simps) simp

lemma split_ascii_whitespace_field:
  assumes "t \<noteq> []" "\<forall>b \<in> set t. \<not> ascii_whitespace b" "ascii_whitespace w"
  shows "split_ascii_whitespace (t @ w # rest) = t # split_ascii_whitespace rest"
proof -
  have s: "dropWhile ascii_whitespace (t @ w # rest) = t @ w # rest"
    using assms by (cases t) auto
  have tk: "takeWhile (\<lambda>b. \<not> ascii_whitespace b) (t @ w # rest) = t"
    and dr: "dropWhile (\<lambda>b. \<not> ascii_whitespace b) (t @ w # rest) = w # rest"
    using assms(2,3) by (induction t) auto
  have skip: "split_ascii_whitespace (w # rest) = split_ascii_whitespace rest"
    using assms(3)
    by (simp add: split_ascii_whitespace.simps [of "w # rest"] split_ascii_whitespace.simps [of rest])
  show ?thesis
    using assms(1) by (subst split_ascii_whitespace.simps) (simp add: s tk dr skip Let_def)
qed

lemma split_ascii_whitespace_last:
  assumes "t \<noteq> []" "\<forall>b \<in> set t. \<not> ascii_whitespace b"
  shows "split_ascii_whitespace t = [t]"
proof -
  have s: "dropWhile ascii_whitespace t = t"
    using assms by (cases t) auto
  have tk: "takeWhile (\<lambda>b. \<not> ascii_whitespace b) t = t"
    and dr: "dropWhile (\<lambda>b. \<not> ascii_whitespace b) t = []"
    using assms(2) by (auto simp: takeWhile_eq_all_conv dropWhile_eq_Nil_conv)
  show ?thesis
    using assms(1) by (subst split_ascii_whitespace.simps) (simp add: s tk dr Let_def)
qed

subsection \<open>Decimal integers\<close>

definition is_digit :: "u8 \<Rightarrow> bool" where
  "is_digit b \<longleftrightarrow> 0x30 \<le> b \<and> b \<le> 0x39"

definition digit_byte :: "nat \<Rightarrow> u8" where
  "digit_byte d = word_of_nat (0x30 + d)"

fun parse_digits :: "nat \<Rightarrow> u8 list \<Rightarrow> nat option" where
  "parse_digits acc [] = Some acc"
| "parse_digits acc (d # ds) =
     (if is_digit d then parse_digits (10 * acc + (unat d - 0x30)) ds else None)"

text \<open>\<open>str::parse\<close> for an unsigned type with maximum \<open>m\<close>, and for a signed type of \<open>w\<close> bytes.\<close>

definition parse_unsigned :: "nat \<Rightarrow> u8 list \<Rightarrow> nat option" where
  "parse_unsigned m bs =
     (let ds = (case bs of [] \<Rightarrow> [] | b # r \<Rightarrow> if b = 0x2B then r else bs)
      in if ds = [] then None
         else case parse_digits 0 ds of
           None \<Rightarrow> None
         | Some n \<Rightarrow> if n \<le> m then Some n else None)"

definition parse_signed :: "nat \<Rightarrow> u8 list \<Rightarrow> int option" where
  "parse_signed w bs =
     (let (neg, ds) = (case bs of [] \<Rightarrow> (False, [])
                       | b # r \<Rightarrow> if b = 0x2D then (True, r)
                                  else if b = 0x2B then (False, r) else (False, bs))
      in if ds = [] then None
         else case parse_digits 0 ds of
           None \<Rightarrow> None
         | Some n \<Rightarrow> int_try_from w (if neg then - int n else int n))"

function print_nat :: "nat \<Rightarrow> u8 list" where
  "print_nat n = (if n < 10 then [digit_byte n] else print_nat (n div 10) @ [digit_byte (n mod 10)])"
  by pat_completeness auto
termination
  by (relation "measure id") auto

declare print_nat.simps [simp del]

definition print_int :: "int \<Rightarrow> u8 list" where
  "print_int i = (if i < 0 then 0x2D # print_nat (nat (- i)) else print_nat (nat i))"

lemma unat_digit_byte: "d < 10 \<Longrightarrow> unat (digit_byte d) = 0x30 + d"
  unfolding digit_byte_def unat_byte_of_nat by simp

lemma is_digit_digit_byte: "d < 10 \<Longrightarrow> is_digit (digit_byte d)"
  by (simp add: is_digit_def word_le_nat_alt unat_digit_byte)

lemma print_nat_digits: "\<forall>b \<in> set (print_nat n). is_digit b"
  by (induction n rule: print_nat.induct)
    (subst print_nat.simps, auto simp: is_digit_digit_byte)

lemma print_nat_not_Nil [simp]: "print_nat n \<noteq> []"
  by (subst print_nat.simps) simp

lemma parse_digits_append:
  "parse_digits acc (xs @ ys) = (case parse_digits acc xs of None \<Rightarrow> None | Some n \<Rightarrow> parse_digits n ys)"
  by (induction acc xs rule: parse_digits.induct) auto

lemma parse_digits_print_nat: "parse_digits 0 (print_nat n) = Some n"
proof (induction n rule: print_nat.induct)
  case (1 n)
  show ?case
  proof (cases "n < 10")
    case True
    then show ?thesis
      by (subst print_nat.simps) (simp add: is_digit_digit_byte unat_digit_byte)
  next
    case False
    with 1 show ?thesis
      by (subst print_nat.simps) (simp add: parse_digits_append is_digit_digit_byte unat_digit_byte)
  qed
qed

lemma is_digit_not_sign: "is_digit b \<Longrightarrow> b \<noteq> 0x2B \<and> b \<noteq> 0x2D"
  by (auto simp: is_digit_def word_le_nat_alt)

lemma parse_unsigned_print_nat [simp]: "n \<le> m \<Longrightarrow> parse_unsigned m (print_nat n) = Some n"
proof -
  assume "n \<le> m"
  obtain b r where br: "print_nat n = b # r" by (cases "print_nat n") auto
  then have "b \<noteq> 0x2B" using print_nat_digits [of n] is_digit_not_sign by auto
  with br \<open>n \<le> m\<close> show ?thesis
    using parse_digits_print_nat [of n] by (simp add: parse_unsigned_def)
qed

lemma parse_signed_print_int [simp]: "in_signed w i \<Longrightarrow> parse_signed w (print_int i) = Some i"
proof -
  assume i: "in_signed w i"
  obtain b r where br: "print_nat (nat i) = b # r" by (cases "print_nat (nat i)") auto
  then have "b \<noteq> 0x2B" "b \<noteq> 0x2D" using print_nat_digits [of "nat i"] is_digit_not_sign by auto
  with br i show ?thesis
    using parse_digits_print_nat [of "nat i"] parse_digits_print_nat [of "nat (- i)"]
    by (auto simp: parse_signed_def print_int_def int_try_from_def)
qed

lemma is_digit_ascii: "is_digit b \<Longrightarrow> b < 0x80 \<and> \<not> ascii_whitespace b \<and> b \<noteq> 0 \<and> b \<noteq> 0x0A"
  by (auto simp: is_digit_def ascii_whitespace_def word_le_nat_alt word_less_nat_alt)

lemma print_nat_bytes: "b \<in> set (print_nat n) \<Longrightarrow> b < 0x80 \<and> \<not> ascii_whitespace b \<and> b \<noteq> 0x0A"
  using print_nat_digits [of n] is_digit_ascii by blast

lemma minus_sign_bytes: "(0x2D::u8) < 0x80 \<and> \<not> ascii_whitespace 0x2D \<and> (0x2D::u8) \<noteq> 0x0A"
  by (simp add: ascii_whitespace_def)

lemma print_int_bytes: "b \<in> set (print_int i) \<Longrightarrow> b < 0x80 \<and> \<not> ascii_whitespace b \<and> b \<noteq> 0x0A"
proof -
  assume "b \<in> set (print_int i)"
  then consider "b = 0x2D" | "b \<in> set (print_nat (nat i))" | "b \<in> set (print_nat (nat (- i)))"
    by (auto simp: print_int_def split: if_splits)
  then show ?thesis
    by cases (simp only: minus_sign_bytes simp_thms, (rule print_nat_bytes, assumption)+)
qed

lemma print_int_not_Nil [simp]: "print_int i \<noteq> []"
  by (simp add: print_int_def)

text \<open>The number of digits of a bounded number.\<close>

lemma length_print_nat_le: "n < 10 ^ k \<Longrightarrow> 0 < k \<Longrightarrow> length (print_nat n) \<le> k"
proof (induction n arbitrary: k rule: print_nat.induct)
  case (1 n)
  show ?case
  proof (cases "n < 10")
    case True
    with 1 show ?thesis by (subst print_nat.simps) simp
  next
    case False
    from "1.prems"(2) obtain j where k: "k = Suc j" by (cases k) auto
    with False "1.prems"(1) have "j \<noteq> 0" by (intro notI) simp
    with k have j: "k = Suc j" "0 < j" by simp_all
    with "1.prems" have "n div 10 < 10 ^ j" by (simp add: div_less_iff_less_mult mult.commute)
    with "1.IH" False j show ?thesis by (subst print_nat.simps) simp
  qed
qed

end
