(* ===== verification/Exportbin.thy ===== *)
theory Exportbin
  imports Text
begin

text \<open>
  The \<open>Xexportbin\<close> response frame (\<open>crates/monetdb-arrow/src/exportbin.rs\<close>): a text header line,
  column data, a table of contents of (start, length) pairs and a trailing offset that is
  negative when the server put an error message into the frame.

  The lemmas show that parsing any byte string returns (no slice or index is ever out of
  range), that the columns of a parsed frame are disjoint slices between the header and the
  table of contents, and that a frame laid out by the server's writer parses back to the
  columns that were written.
\<close>

subsection \<open>Data\<close>

datatype frame_message =
    Response_too_short | Toc_offset_too_large | Toc_length_overflows | Toc_out_of_bounds
  | Column_ranges_overlap | Missing_block_header | Unterminated_block_header
  | Block_header_not_utf8 | Too_few_fields | Field_not_a_number | Negative_column_offset
  | Column_extent_overflows | Column_out_of_bounds | Invalid_error_offset

primrec frame_message_text :: "frame_message \<Rightarrow> string" where
  "frame_message_text Response_too_short = ''response too short''"
| "frame_message_text Toc_offset_too_large = ''table of contents offset does not fit in memory''"
| "frame_message_text Toc_length_overflows = ''table of contents length overflows''"
| "frame_message_text Toc_out_of_bounds = ''table of contents out of bounds''"
| "frame_message_text Column_ranges_overlap = ''column ranges overlap''"
| "frame_message_text Missing_block_header = ''missing &6 block header''"
| "frame_message_text Unterminated_block_header = ''unterminated block header''"
| "frame_message_text Block_header_not_utf8 = ''block header is not UTF-8''"
| "frame_message_text Too_few_fields = ''block header has too few fields''"
| "frame_message_text Field_not_a_number = ''block header field is not a number''"
| "frame_message_text Negative_column_offset = ''negative column offset''"
| "frame_message_text Column_extent_overflows = ''column extent overflows''"
| "frame_message_text Column_out_of_bounds = ''column data out of bounds''"
| "frame_message_text Invalid_error_offset = ''invalid in-frame error offset''"

datatype frame_error = Server "u8 list" | Malformed frame_message

record exportbin_frame =
  result_id :: int
  row_count :: nat
  start_row :: nat
  columns :: "u8 list list"

record exportbin_header =
  h_result_id :: int
  h_column_count :: nat
  h_row_count :: nat
  h_start_row :: nat

definition header_prefix :: "u8 list" where
  "header_prefix = [0x26, 0x36, 0x20]"

definition toc_entry_size :: nat where
  "toc_entry_size = 16"

subsection \<open>Error messages inside a response\<close>

definition read_error_message :: "u8 list \<Rightarrow> nat \<Rightarrow> (u8 list, frame_error) result" where
  "read_error_message frame offset =
     rbind (slice_at frame offset (length frame)) (\<lambda>message.
       let end = (case position (\<lambda>b. b = 0) message of Some i \<Rightarrow> i | None \<Rightarrow> length message);
           text = take end message;
           stripped = (case text of [] \<Rightarrow> text | b # r \<Rightarrow> if b = 0x21 then r else text)
       in Ok (from_utf8_lossy stripped))"

definition find_error_message :: "u8 list \<Rightarrow> int \<Rightarrow> (u8 list, frame_error) result" where
  "find_error_message frame toc_pos =
     (if length frame < 8 then Panic
      else
        let message_end = length frame - 8;
            offset = (if toc_pos = int_min 8 then None else usize_try_from (- toc_pos))
        in case offset of
             None \<Rightarrow> Err (Malformed Invalid_error_offset)
           | Some off \<Rightarrow>
               if off < message_end \<and> get frame off = Some 0x21
               then rbind (slice_at frame 0 message_end) (\<lambda>m. read_error_message m off)
               else Err (Malformed Invalid_error_offset))"

subsection \<open>The header line\<close>

definition next_field :: "u8 list list \<Rightarrow> (u8 list \<times> u8 list list, frame_error) result" where
  "next_field flds =
     (case flds of [] \<Rightarrow> Err (Malformed Too_few_fields) | f # fs \<Rightarrow> Ok (f, fs))"

definition parse_header :: "u8 list \<Rightarrow> (exportbin_header \<times> nat, frame_error) result" where
  "parse_header frame =
     (if take (length header_prefix) frame \<noteq> header_prefix then Err (Malformed Missing_block_header)
      else
       rbind (ok_or (position (\<lambda>b. b = 0x0A) (take (min (length frame) 128) frame))
               (Malformed Unterminated_block_header)) (\<lambda>line_end.
       rbind (slice_at frame (length header_prefix) line_end) (\<lambda>line.
       if \<not> utf8_valid line then Err (Malformed Block_header_not_utf8)
       else
        rbind (next_field (split_ascii_whitespace line)) (\<lambda>(f1, fs1).
        rbind (ok_or (parse_signed 8 f1) (Malformed Field_not_a_number)) (\<lambda>rid.
        rbind (next_field fs1) (\<lambda>(f2, fs2).
        rbind (ok_or (parse_unsigned usize_max f2) (Malformed Field_not_a_number)) (\<lambda>ncols.
        rbind (next_field fs2) (\<lambda>(f3, fs3).
        rbind (ok_or (parse_unsigned (2 ^ 64 - 1) f3) (Malformed Field_not_a_number)) (\<lambda>nrows.
        rbind (next_field fs3) (\<lambda>(f4, fs4).
        rbind (ok_or (parse_unsigned (2 ^ 64 - 1) f4) (Malformed Field_not_a_number)) (\<lambda>start.
        Ok (\<lparr>h_result_id = rid, h_column_count = ncols, h_row_count = nrows, h_start_row = start\<rparr>,
            line_end + 1))))))))))))"

definition parse_frame_header :: "u8 list \<Rightarrow> (exportbin_header, frame_error) result" where
  "parse_frame_header frame =
     (if get frame 0 = Some 0x21
      then rbind (read_error_message frame 0) (\<lambda>m. Err (Server m))
      else rbind (parse_header frame) (\<lambda>(header, body_start). Ok header))"

subsection \<open>The table of contents\<close>

definition column_range :: "int \<Rightarrow> int \<Rightarrow> nat \<Rightarrow> nat \<Rightarrow> (nat \<times> nat, frame_error) result" where
  "column_range start len body_start toc_pos =
     (case (usize_try_from start, usize_try_from len) of
        (Some s, Some l) \<Rightarrow>
          rbind (ok_or (checked_add s l) (Malformed Column_extent_overflows)) (\<lambda>e.
            if s < body_start \<or> toc_pos < e then Err (Malformed Column_out_of_bounds)
            else Ok (s, e))
      | _ \<Rightarrow> Err (Malformed Negative_column_offset))"

definition toc_range :: "nat \<Rightarrow> nat \<Rightarrow> u8 list \<Rightarrow> (nat \<times> nat, frame_error) result" where
  "toc_range body_start toc_pos entry =
     rbind (slice_at entry 0 8) (\<lambda>s.
     rbind (slice_at entry 8 (length entry)) (\<lambda>l.
       column_range (from_le s) (from_le l) body_start toc_pos))"

fun windows2_overlap :: "(nat \<times> nat) list \<Rightarrow> bool" where
  "windows2_overlap (a # b # rs) = (snd a > fst b \<or> windows2_overlap (b # rs))"
| "windows2_overlap _ = False"

definition occupied_ranges :: "(nat \<times> nat) list \<Rightarrow> (nat \<times> nat) list" where
  "occupied_ranges ranges = sort_key fst (filter (\<lambda>r. fst r < snd r) ranges)"

subsection \<open>The whole frame\<close>

text \<open>
  \<open>parse_frame\<close> in two halves: the header and the range of every column, and the slices themselves.
  The unstable sort of the source orders ranges with equal starts arbitrarily; two such ranges
  overlap in any order, so the stable sort here takes the same branch.
\<close>

definition frame_ranges :: "u8 list \<Rightarrow> (exportbin_header \<times> (nat \<times> nat) list, frame_error) result" where
  "frame_ranges frame =
     (if get frame 0 = Some 0x21 then rbind (read_error_message frame 0) (\<lambda>m. Err (Server m))
      else if length frame < length header_prefix + 8 then Err (Malformed Response_too_short)
      else
       rbind (parse_header frame) (\<lambda>(header, body_start).
       rbind (slice_at frame (length frame - 8) (length frame)) (\<lambda>trailer.
       let toc = from_le trailer in
       if toc < 0 then rbind (find_error_message frame toc) (\<lambda>m. Err (Server m))
       else
        rbind (ok_or (usize_try_from toc) (Malformed Toc_offset_too_large)) (\<lambda>toc_pos.
        rbind (ok_or (checked_mul (h_column_count header) toc_entry_size) (Malformed Toc_length_overflows))
         (\<lambda>toc_len.
        let expected_end = Option.bind (checked_add toc_pos toc_len) (\<lambda>e. checked_add e 8) in
        if h_column_count header > length frame div toc_entry_size
           \<or> toc_pos < body_start \<or> expected_end \<noteq> Some (length frame)
        then Err (Malformed Toc_out_of_bounds)
        else
         rbind (slice_at frame toc_pos (toc_pos + toc_len)) (\<lambda>toc_bytes.
         rbind (try_map (toc_range body_start toc_pos) (chunks_exact toc_entry_size toc_bytes)) (\<lambda>ranges.
         if windows2_overlap (occupied_ranges ranges) then Err (Malformed Column_ranges_overlap)
         else Ok (header, ranges))))))))"

definition parse_frame :: "u8 list \<Rightarrow> (exportbin_frame, frame_error) result" where
  "parse_frame frame =
     rbind (frame_ranges frame) (\<lambda>(header, ranges).
     rbind (try_map (\<lambda>(a, b). slice_at frame a b) ranges) (\<lambda>cols.
       Ok \<lparr>result_id = h_result_id header, row_count = h_row_count header,
           start_row = h_start_row header, columns = cols\<rparr>))"

text \<open>The frame the server writes (\<open>mvc_export_bin_chunk\<close>), as the test module builds it.\<close>

definition pad32 :: "u8 list \<Rightarrow> u8 list" where
  "pad32 bs = bs @ replicate ((32 - length bs mod 32) mod 32) 0"

fun build_columns :: "u8 list \<Rightarrow> u8 list list \<Rightarrow> u8 list \<times> (nat \<times> nat) list" where
  "build_columns frame [] = (frame, [])"
| "build_columns frame (c # cs) =
     (let padded = pad32 frame;
          (out, toc) = build_columns (padded @ c) cs
      in (out, (length padded, length c) # toc))"

definition header_line :: "int \<Rightarrow> nat \<Rightarrow> nat \<Rightarrow> nat \<Rightarrow> u8 list" where
  "header_line rid ncols nrows start =
     header_prefix @ print_int rid @ [0x20] @ print_nat ncols @ [0x20] @ print_nat nrows @ [0x20]
       @ print_nat start @ [0x0A]"

definition build_frame :: "int \<Rightarrow> nat \<Rightarrow> nat \<Rightarrow> u8 list list \<Rightarrow> u8 list" where
  "build_frame rid nrows start cols =
     (let (body, toc) = build_columns (header_line rid (length cols) nrows start) cols;
          body = pad32 body
      in body @ concat (map (\<lambda>(s, l). to_le 8 (int s) @ to_le 8 (int l)) toc)
           @ to_le 8 (int (length body)))"

lemma parse_frame_unfold:
  "parse_frame frame =
     (if get frame 0 = Some 0x21 then rbind (read_error_message frame 0) (\<lambda>m. Err (Server m))
      else if length frame < length header_prefix + 8 then Err (Malformed Response_too_short)
      else
       rbind (parse_header frame) (\<lambda>(header, body_start).
       rbind (slice_at frame (length frame - 8) (length frame)) (\<lambda>trailer.
       let toc = from_le trailer in
       if toc < 0 then rbind (find_error_message frame toc) (\<lambda>m. Err (Server m))
       else
        rbind (ok_or (usize_try_from toc) (Malformed Toc_offset_too_large)) (\<lambda>toc_pos.
        rbind (ok_or (checked_mul (h_column_count header) toc_entry_size) (Malformed Toc_length_overflows))
         (\<lambda>toc_len.
        let expected_end = Option.bind (checked_add toc_pos toc_len) (\<lambda>e. checked_add e 8) in
        if h_column_count header > length frame div toc_entry_size
           \<or> toc_pos < body_start \<or> expected_end \<noteq> Some (length frame)
        then Err (Malformed Toc_out_of_bounds)
        else
         rbind (slice_at frame toc_pos (toc_pos + toc_len)) (\<lambda>toc_bytes.
         rbind (try_map (toc_range body_start toc_pos) (chunks_exact toc_entry_size toc_bytes)) (\<lambda>ranges.
         if windows2_overlap (occupied_ranges ranges) then Err (Malformed Column_ranges_overlap)
         else
          rbind (try_map (\<lambda>(a, b). slice_at frame a b) ranges) (\<lambda>cols.
          Ok \<lparr>result_id = h_result_id header, row_count = h_row_count header,
              start_row = h_start_row header, columns = cols\<rparr>))))))))"
  unfolding parse_frame_def frame_ranges_def Let_def rbind_if rbind_assoc rbind_prod rbind.simps prod.case ..

subsection \<open>Parsing never panics\<close>

lemma read_error_message_not_Panic: "offset \<le> length frame \<Longrightarrow> read_error_message frame offset \<noteq> Panic"
  by (simp add: read_error_message_def slice_at_def Let_def)

lemma find_error_message_not_Panic: "8 \<le> length frame \<Longrightarrow> find_error_message frame toc \<noteq> Panic"
  by (auto simp: find_error_message_def Let_def slice_at_def read_error_message_not_Panic
      split: option.splits)

lemma header_line_end:
  assumes "take (length header_prefix) frame = header_prefix"
    and "position (\<lambda>b. b = 0x0A) (take (min (length frame) 128) frame) = Some line_end"
  shows "length header_prefix \<le> line_end \<and> line_end < length frame"
proof -
  from assms(2) have le: "line_end < length frame" "frame ! line_end = 0x0A"
    by (auto dest!: position_SomeD)
  have "\<not> line_end < 3"
  proof
    assume lt: "line_end < 3"
    then have "frame ! line_end = take (length header_prefix) frame ! line_end"
      by (simp add: header_prefix_def)
    with assms(1) have "frame ! line_end = header_prefix ! line_end" by simp
    moreover from lt have "header_prefix ! line_end \<in> set header_prefix"
      by (intro nth_mem) (simp add: header_prefix_def)
    ultimately have "(0x0A::u8) \<in> set header_prefix" using le(2) by simp
    then show False by (simp add: header_prefix_def)
  qed
  with le show ?thesis by (simp add: header_prefix_def)
qed

lemma next_field_not_Panic [simp]: "next_field fs \<noteq> Panic"
  by (simp add: next_field_def split: list.splits)

lemma header_slice_not_Panic:
  assumes "\<not> take (length header_prefix) frame \<noteq> header_prefix"
    and "ok_or (position (\<lambda>b. b = 0x0A) (take (min (length frame) 128) frame)) e = Ok line_end"
  shows "slice_at frame (length header_prefix) line_end \<noteq> Panic"
  using header_line_end [of frame line_end] assms by (simp add: slice_at_def ok_or_Ok_iff)

lemma parse_header_not_Panic: "parse_header frame \<noteq> Panic"
  unfolding parse_header_def
  by (intro no_panic next_field_not_Panic header_slice_not_Panic) assumption+

lemma parse_header_body_start:
  assumes "parse_header frame = Ok (h, body_start)"
  shows "length header_prefix < body_start \<and> body_start \<le> length frame"
proof -
  from assms obtain line_end
    where "take (length header_prefix) frame = header_prefix"
      and "position (\<lambda>b. b = 0x0A) (take (min (length frame) 128) frame) = Some line_end"
      and "body_start = line_end + 1"
    by (auto simp: parse_header_def result_simps split: if_splits)
  with header_line_end [of frame line_end] show ?thesis by auto
qed

lemma column_range_Ok:
  "column_range st l body_start toc_pos = Ok (s, e) \<Longrightarrow> body_start \<le> s \<and> s \<le> e \<and> e \<le> toc_pos"
  by (auto simp: column_range_def result_simps split: option.splits if_splits)

lemma column_range_not_Panic [simp]: "column_range st l body_start toc_pos \<noteq> Panic"
  by (auto simp: column_range_def result_simps split: option.splits)

lemma toc_range_Ok:
  "toc_range body_start toc_pos entry = Ok r \<Longrightarrow> body_start \<le> fst r \<and> fst r \<le> snd r \<and> snd r \<le> toc_pos"
  by (cases r) (auto simp: toc_range_def result_simps dest: column_range_Ok)

lemma toc_range_not_Panic: "length entry = toc_entry_size \<Longrightarrow> toc_range body_start toc_pos entry \<noteq> Panic"
  by (auto simp: toc_range_def result_simps toc_entry_size_def)

lemma toc_ranges_Ok:
  assumes "try_map (toc_range body_start toc_pos) entries = Ok ranges" and "r \<in> set ranges"
  shows "body_start \<le> fst r \<and> fst r \<le> snd r \<and> snd r \<le> toc_pos"
proof -
  from assms(2) obtain i where i: "i < length ranges" "r = ranges ! i" by (auto simp: in_set_conv_nth)
  with try_map_length [OF assms(1)] have "i < length entries" by simp
  from try_map_nth [OF assms(1) this] i show ?thesis by (auto dest: toc_range_Ok)
qed

lemma parse_frame_never_panics: "parse_frame frame \<noteq> Panic"
  unfolding parse_frame_unfold Let_def
proof (intro no_panic parse_header_not_Panic toc_range_not_Panic, goal_cases)
  case 1
  then show ?case by (simp add: read_error_message_not_Panic)
next
  case 2
  then show ?case by (simp add: slice_at_def)
next
  case 3
  then show ?case by (simp add: find_error_message_not_Panic)
next
  case 4
  then show ?case by (auto simp: slice_at_def result_simps bind_eq_Some_conv)
next
  case 5
  then show ?case by (auto dest: chunks_exact_widths)
next
  case (6 _ _ _ _ toc_pos _ _ ranges r a b)
  then have "snd r \<le> toc_pos" "fst r \<le> snd r" "toc_pos \<le> length frame"
    by (auto dest: toc_ranges_Ok simp: result_simps bind_eq_Some_conv)
  with 6 show ?case by (simp add: slice_at_def)
qed

subsection \<open>The columns of a parsed frame\<close>

lemma windows2_overlap_sorted:
  "\<not> windows2_overlap rs \<Longrightarrow> \<forall>r \<in> set rs. fst r < snd r \<Longrightarrow> sorted_wrt (\<lambda>a b. snd a \<le> fst b) rs"
proof (induction rs rule: windows2_overlap.induct)
  case (1 a b rs)
  then have IH: "sorted_wrt (\<lambda>a b. snd a \<le> fst b) (b # rs)" and ab: "snd a \<le> fst b" by auto
  have "\<forall>c \<in> set rs. snd a \<le> fst c"
  proof
    fix c assume "c \<in> set rs"
    with IH have "snd b \<le> fst c" by auto
    moreover from 1(3) have "fst b < snd b" by simp
    ultimately show "snd a \<le> fst c" using ab by linarith
  qed
  with IH ab show ?case by auto
qed auto

lemma sorted_windows2_overlap: "sorted_wrt (\<lambda>a b. snd a \<le> fst b) rs \<Longrightarrow> \<not> windows2_overlap rs"
  by (induction rs rule: windows2_overlap.induct) auto

lemma sum_sorted_ranges:
  "sorted_wrt (\<lambda>a b. snd a \<le> fst b) rs \<Longrightarrow> \<forall>r \<in> set rs. lo \<le> fst r \<and> fst r \<le> snd r \<and> snd r \<le> hi \<Longrightarrow>
   sum_list (map (\<lambda>r. snd r - fst r) rs) \<le> hi - lo" for lo hi :: nat
proof (induction rs arbitrary: lo)
  case (Cons r rs)
  from Cons.prems have "\<forall>r' \<in> set rs. snd r \<le> fst r' \<and> fst r' \<le> snd r' \<and> snd r' \<le> hi" by auto
  with Cons.IH [of "snd r"] Cons.prems(1)
  have "sum_list (map (\<lambda>r. snd r - fst r) rs) \<le> hi - snd r" by auto
  moreover from Cons.prems(2) have "lo \<le> fst r" "fst r \<le> snd r" "snd r \<le> hi" by auto
  ultimately show ?case by simp
qed simp

lemma sum_list_filter_nonempty:
  "sum_list (map (\<lambda>r. snd r - fst r) (filter (\<lambda>r. fst r < snd r) rs)) =
   sum_list (map (\<lambda>r. snd r - fst r) rs)" for rs :: "(nat \<times> nat) list"
  by (induction rs) auto

lemma mset_occupied_ranges: "mset (occupied_ranges rs) = mset (filter (\<lambda>r. fst r < snd r) rs)"
  by (simp add: occupied_ranges_def)

lemma sum_occupied_ranges:
  "sum_list (map (\<lambda>r. snd r - fst r) (occupied_ranges rs)) = sum_list (map (\<lambda>r. snd r - fst r) rs)"
proof -
  have "sum_list (map (\<lambda>r. snd r - fst r) (occupied_ranges rs)) =
        sum_mset (image_mset (\<lambda>r. snd r - fst r) (mset (occupied_ranges rs)))"
    by (simp add: sum_mset_sum_list [symmetric])
  also have "\<dots> = sum_list (map (\<lambda>r. snd r - fst r) (filter (\<lambda>r. fst r < snd r) rs))"
    by (simp only: mset_occupied_ranges sum_mset_sum_list mset_map [symmetric])
  finally show ?thesis by (simp only: sum_list_filter_nonempty)
qed

lemma set_occupied_ranges: "set (occupied_ranges rs) = {r \<in> set rs. fst r < snd r}"
  by (auto simp: occupied_ranges_def)

definition ranges_disjoint :: "(nat \<times> nat) list \<Rightarrow> bool" where
  "ranges_disjoint rs \<longleftrightarrow>
     (\<forall>i < length rs. \<forall>j < length rs. i \<noteq> j \<longrightarrow>
        {fst (rs ! i)..<snd (rs ! i)} \<inter> {fst (rs ! j)..<snd (rs ! j)} = {})"

lemma distinct_filter_nth:
  "distinct (filter P xs) \<Longrightarrow> i < j \<Longrightarrow> j < length xs \<Longrightarrow> P (xs ! i) \<Longrightarrow> xs ! i \<noteq> xs ! j"
proof (induction xs arbitrary: i j)
  case (Cons x xs)
  then obtain k where k: "j = Suc k" "k < length xs" by (cases j) auto
  show ?case
  proof (cases i)
    case 0
    with Cons.prems k show ?thesis by (auto simp: in_set_conv_nth)
  next
    case (Suc l)
    with Cons k show ?thesis by (auto split: if_splits)
  qed
qed simp

lemma no_overlap_disjoint:
  assumes "\<not> windows2_overlap (occupied_ranges rs)"
  shows "ranges_disjoint rs"
proof -
  let ?occ = "occupied_ranges rs"
  have ne: "\<forall>r \<in> set ?occ. fst r < snd r" by (simp add: set_occupied_ranges)
  from windows2_overlap_sorted [OF assms ne] have srt: "sorted_wrt (\<lambda>a b. snd a \<le> fst b) ?occ" .
  have "sorted_wrt (\<noteq>) ?occ"
    by (rule sorted_wrt_mono_rel [OF _ srt]) (use ne in fastforce)
  then have "distinct ?occ" by (simp add: distinct_conv_nth sorted_wrt_iff_nth_less) (metis linorder_neqE_nat)
  then have dist: "distinct (filter (\<lambda>r. fst r < snd r) rs)"
    using mset_occupied_ranges mset_eq_imp_distinct_iff by blast
  have sep: "snd a \<le> fst b \<or> snd b \<le> fst a" if "a \<in> set ?occ" "b \<in> set ?occ" "a \<noteq> b" for a b
    using that srt by (auto simp: in_set_conv_nth sorted_wrt_iff_nth_less) (metis linorder_neqE_nat)
  show ?thesis unfolding ranges_disjoint_def
  proof (intro allI impI)
    fix i j assume ij: "i < length rs" "j < length rs" "i \<noteq> j"
    show "{fst (rs ! i)..<snd (rs ! i)} \<inter> {fst (rs ! j)..<snd (rs ! j)} = {}"
    proof (cases "fst (rs ! i) < snd (rs ! i) \<and> fst (rs ! j) < snd (rs ! j)")
      case True
      with ij dist have "rs ! i \<noteq> rs ! j"
        using distinct_filter_nth [OF dist, of i j] distinct_filter_nth [OF dist, of j i]
        by (metis linorder_neqE_nat)
      moreover from True ij have "rs ! i \<in> set ?occ" "rs ! j \<in> set ?occ"
        by (auto simp: set_occupied_ranges)
      ultimately show ?thesis using sep [of "rs ! i" "rs ! j"] by auto
    qed auto
  qed
qed

lemma parse_frame_OkE:
  assumes "parse_frame frame = Ok f"
  obtains header body_start toc_pos ranges where
    "get frame 0 \<noteq> Some 0x21"
    "parse_header frame = Ok (header, body_start)"
    "body_start \<le> toc_pos"
    "toc_pos + h_column_count header * toc_entry_size + 8 = length frame"
    "try_map (toc_range body_start toc_pos)
       (chunks_exact toc_entry_size (slice frame toc_pos (toc_pos + h_column_count header * toc_entry_size)))
     = Ok ranges"
    "\<not> windows2_overlap (occupied_ranges ranges)"
    "(try_map (\<lambda>(a, b). slice_at frame a b) ranges :: (_, frame_error) result) = Ok (columns f)"
    "result_id f = h_result_id header" "row_count f = h_row_count header"
    "start_row f = h_start_row header"
proof -
  from assms have first: "get frame 0 \<noteq> Some 0x21"
    by (auto simp: parse_frame_unfold result_simps)
  from assms obtain header body_start where h: "parse_header frame = Ok (header, body_start)"
    by (auto simp: parse_frame_unfold result_simps split: if_splits)
  have "\<exists>toc_pos ranges. body_start \<le> toc_pos \<and>
     toc_pos + h_column_count header * toc_entry_size + 8 = length frame \<and>
     try_map (toc_range body_start toc_pos)
       (chunks_exact toc_entry_size (slice frame toc_pos (toc_pos + h_column_count header * toc_entry_size)))
     = Ok ranges \<and> \<not> windows2_overlap (occupied_ranges ranges) \<and>
     (try_map (\<lambda>(a, b). slice_at frame a b) ranges :: (_, frame_error) result) = Ok (columns f) \<and>
     result_id f = h_result_id header \<and> row_count f = h_row_count header \<and>
     start_row f = h_start_row header"
    using assms first h
    by (auto simp: parse_frame_unfold result_simps Let_def bind_eq_Some_conv split: if_splits)
  then show thesis using that first h by blast
qed

text \<open>
  C6 (soundness of a parsed frame). The columns lie between the header line and the table of
  contents, the i-th column is the slice its table entry names, no two columns share a byte,
  and there is exactly one column per table entry.
\<close>

theorem parse_frame_columns:
  assumes "parse_frame frame = Ok f"
  shows "\<exists>header body_start toc_pos ranges.
     parse_header frame = Ok (header, body_start) \<and>
     length (columns f) = h_column_count header \<and> length ranges = h_column_count header \<and>
     toc_pos + 16 * length (columns f) + 8 = length frame \<and>
     (\<forall>i < length ranges. body_start \<le> fst (ranges ! i) \<and> fst (ranges ! i) \<le> snd (ranges ! i) \<and>
         snd (ranges ! i) \<le> toc_pos \<and>
         columns f ! i = slice frame (fst (ranges ! i)) (snd (ranges ! i))) \<and>
     ranges_disjoint ranges"
  using assms
proof (rule parse_frame_OkE)
  fix header body_start toc_pos ranges
  assume h: "parse_header frame = Ok (header, body_start)"
    and len: "toc_pos + h_column_count header * toc_entry_size + 8 = length frame"
    and rs: "try_map (toc_range body_start toc_pos)
       (chunks_exact toc_entry_size (slice frame toc_pos (toc_pos + h_column_count header * toc_entry_size)))
     = Ok ranges"
    and ov: "\<not> windows2_overlap (occupied_ranges ranges)"
    and cols: "(try_map (\<lambda>(a, b). slice_at frame a b) ranges :: (_, frame_error) result) = Ok (columns f)"
  have n: "length ranges = h_column_count header"
    using try_map_length [OF rs] len
    by (simp add: toc_entry_size_def length_chunks_exact [where k = "h_column_count header"])
  have m: "length (columns f) = length ranges" by (rule try_map_length [OF cols])
  have "body_start \<le> fst (ranges ! i) \<and> fst (ranges ! i) \<le> snd (ranges ! i) \<and> snd (ranges ! i) \<le> toc_pos
      \<and> columns f ! i = slice frame (fst (ranges ! i)) (snd (ranges ! i))" if "i < length ranges" for i
    using toc_ranges_Ok [OF rs nth_mem [OF that]] try_map_nth [OF cols that]
    by (auto simp: result_simps split: prod.splits)
  with h len n m no_overlap_disjoint [OF ov] show ?thesis
    by (intro exI [of _ header] exI [of _ body_start] exI [of _ toc_pos] exI [of _ ranges])
      (simp add: toc_entry_size_def)
qed

lemma parse_frame_bounded:
  assumes "parse_frame frame = Ok f"
  shows "length frame \<le> usize_max \<and> (\<forall>c \<in> set (columns f). length c + 8 \<le> length frame)"
proof -
  have len: "length frame \<le> usize_max"
    using assms by (auto simp: parse_frame_unfold result_simps Let_def bind_eq_Some_conv split: if_splits)
  from assms show ?thesis
  proof (rule parse_frame_OkE)
    fix header body_start toc_pos ranges
    assume e: "toc_pos + h_column_count header * toc_entry_size + 8 = length frame"
      and rs: "try_map (toc_range body_start toc_pos)
         (chunks_exact toc_entry_size (slice frame toc_pos (toc_pos + h_column_count header * toc_entry_size)))
       = Ok ranges"
      and cols: "(try_map (\<lambda>(a, b). slice_at frame a b) ranges :: (_, frame_error) result) = Ok (columns f)"
    have "length c + 8 \<le> length frame" if c: "c \<in> set (columns f)" for c
    proof -
      from c obtain i where i: "i < length (columns f)" "c = columns f ! i" by (auto simp: in_set_conv_nth)
      then have "i < length ranges" using try_map_length [OF cols] by simp
      with try_map_nth [OF cols this] toc_ranges_Ok [OF rs nth_mem [OF this]] i e
      show ?thesis by (auto simp: result_simps split: prod.splits)
    qed
    with len show ?thesis by blast
  qed
qed

text \<open>
  C32 (size of a parsed frame). The columns, their table of contents and the trailer fit in the
  frame together: a frame cannot make the reader hold more column bytes than it was sent.
\<close>

theorem parse_frame_size:
  assumes "parse_frame frame = Ok f"
  shows "sum_list (map length (columns f)) + 16 * length (columns f) + 8 \<le> length frame"
  using assms
proof (rule parse_frame_OkE)
  fix header body_start toc_pos ranges
  assume h: "parse_header frame = Ok (header, body_start)" and le: "body_start \<le> toc_pos"
    and len: "toc_pos + h_column_count header * toc_entry_size + 8 = length frame"
    and rs: "try_map (toc_range body_start toc_pos)
       (chunks_exact toc_entry_size (slice frame toc_pos (toc_pos + h_column_count header * toc_entry_size)))
     = Ok ranges"
    and ov: "\<not> windows2_overlap (occupied_ranges ranges)"
    and cols: "(try_map (\<lambda>(a, b). slice_at frame a b) ranges :: (_, frame_error) result) = Ok (columns f)"
  have n: "length (columns f) = h_column_count header"
    using try_map_length [OF rs] try_map_length [OF cols] len
    by (simp add: toc_entry_size_def length_chunks_exact [where k = "h_column_count header"])
  have bounds: "\<forall>r \<in> set (occupied_ranges ranges). 0 \<le> fst r \<and> fst r \<le> snd r \<and> snd r \<le> toc_pos"
    using toc_ranges_Ok [OF rs] by (auto simp: set_occupied_ranges)
  have "map length (columns f) = map (\<lambda>r. snd r - fst r) ranges"
  proof (rule nth_equalityI)
    fix i assume "i < length (map length (columns f))"
    with try_map_length [OF cols] have "i < length ranges" by simp
    with try_map_nth [OF cols this] toc_ranges_Ok [OF rs nth_mem [OF this]] len try_map_length [OF cols]
    show "map length (columns f) ! i = map (\<lambda>r. snd r - fst r) ranges ! i"
      by (auto simp: result_simps split: prod.splits)
  qed (simp add: try_map_length [OF cols])
  then have "sum_list (map length (columns f)) \<le> toc_pos"
    using sum_sorted_ranges [OF windows2_overlap_sorted [OF ov] bounds] sum_occupied_ranges [of ranges]
    by (simp add: set_occupied_ranges)
  with len n show ?thesis by (simp add: toc_entry_size_def)
qed

lemma parse_frame_column_count:
  assumes "parse_frame frame = Ok f" and "parse_header frame = Ok (header, body_start)"
  shows "length (columns f) = h_column_count header"
  using assms(1)
proof (rule parse_frame_OkE)
  fix header' body_start' toc_pos ranges
  assume "parse_header frame = Ok (header', body_start')"
    and "toc_pos + h_column_count header' * toc_entry_size + 8 = length frame"
    and rs: "try_map (toc_range body_start' toc_pos)
       (chunks_exact toc_entry_size (slice frame toc_pos (toc_pos + h_column_count header' * toc_entry_size)))
     = Ok ranges"
    and cols: "(try_map (\<lambda>(a, b). slice_at frame a b) ranges :: (_, frame_error) result) = Ok (columns f)"
  with assms(2) show ?thesis
    using try_map_length [OF rs] try_map_length [OF cols]
    by (simp add: toc_entry_size_def length_chunks_exact [where k = "h_column_count header'"])
qed

subsection \<open>Round trip with the server's writer\<close>

definition header_fields :: "int \<Rightarrow> nat \<Rightarrow> nat \<Rightarrow> nat \<Rightarrow> u8 list" where
  "header_fields rid ncols nrows start =
     print_int rid @ 0x20 # print_nat ncols @ 0x20 # print_nat nrows @ 0x20 # print_nat start"

lemma header_line_fields: "header_line rid ncols nrows start = header_prefix @ header_fields rid ncols nrows start @ [0x0A]"
  by (simp add: header_line_def header_fields_def)

lemma space_byte: "(0x20::u8) < 0x80 \<and> (0x20::u8) \<noteq> 0x0A" "ascii_whitespace 0x20"
  by (simp_all add: ascii_whitespace_def)

lemma header_fields_bytes: "b \<in> set (header_fields rid ncols nrows start) \<Longrightarrow> b < 0x80 \<and> b \<noteq> 0x0A"
proof -
  assume "b \<in> set (header_fields rid ncols nrows start)"
  then consider "b = 0x20" | "b \<in> set (print_int rid)" | n where "b \<in> set (print_nat n)"
    by (auto simp: header_fields_def)
  then show ?thesis
    by cases (simp only: space_byte simp_thms, (drule print_int_bytes print_nat_bytes, simp)+)
qed

lemma header_fields_split:
  "split_ascii_whitespace (header_fields rid ncols nrows start) =
     [print_int rid, print_nat ncols, print_nat nrows, print_nat start]"
proof -
  have no_ws: "\<forall>b \<in> set (print_int rid). \<not> ascii_whitespace b" "\<forall>b \<in> set (print_nat n). \<not> ascii_whitespace b" for n
    using print_int_bytes print_nat_bytes by blast+
  show ?thesis
    unfolding header_fields_def
    by (simp add: split_ascii_whitespace_field split_ascii_whitespace_last no_ws space_byte)
qed

lemma length_header_fields:
  assumes "in_signed 8 rid" "ncols \<le> usize_max" "nrows \<le> 2 ^ 64 - 1" "start \<le> 2 ^ 64 - 1"
  shows "length (header_fields rid ncols nrows start) \<le> 84"
proof -
  have "length (print_nat n) \<le> 20" if "n \<le> 2 ^ 64 - 1" for n
    by (rule length_print_nat_le) (use that in simp_all)
  note bound = this
  have "nat rid \<le> 2 ^ 64 - 1" "nat (- rid) \<le> 2 ^ 64 - 1"
    using assms(1) by (auto simp: in_signed_def nat_le_iff)
  from this [THEN bound] have "length (print_int rid) \<le> 21"
    by (simp add: print_int_def)
  with bound [OF assms(2)] bound [OF assms(3)] bound [OF assms(4)] show ?thesis
    by (simp add: header_fields_def)
qed

lemma parse_header_line:
  assumes "in_signed 8 rid" "ncols \<le> usize_max" "nrows \<le> 2 ^ 64 - 1" "start \<le> 2 ^ 64 - 1"
  shows "parse_header (header_line rid ncols nrows start @ rest) =
    Ok (\<lparr>h_result_id = rid, h_column_count = ncols, h_row_count = nrows, h_start_row = start\<rparr>,
        length (header_line rid ncols nrows start))"
proof -
  let ?L = "header_fields rid ncols nrows start"
  let ?F = "header_line rid ncols nrows start @ rest"
  have F: "?F = header_prefix @ ?L @ 0x0A # rest" by (simp add: header_line_fields)
  have pre: "length header_prefix = 3" by (simp add: header_prefix_def)
  have len: "length (header_prefix @ ?L) < 128" using length_header_fields [OF assms] pre by simp
  have no_nl: "\<forall>b \<in> set (header_prefix @ ?L). \<not> b = 0x0A"
    using header_fields_bytes by (auto simp: header_prefix_def)
  have "take (min (length ?F) 128) ((header_prefix @ ?L) @ 0x0A # rest) =
      (header_prefix @ ?L) @ 0x0A # take (min (length ?F) 128 - Suc (length (header_prefix @ ?L))) rest"
    by (rule take_past) (use len in \<open>simp add: F\<close>)
  then have pos: "position (\<lambda>b. b = 0x0A) (take (min (length ?F) 128) ?F) = Some (length (header_prefix @ ?L))"
    using position_none_Cons [OF no_nl] by (simp add: F)
  have sl: "slice_at ?F (length header_prefix) (length header_prefix + length ?L) = (Ok ?L :: (_, frame_error) result)"
    unfolding F by (simp add: slice_at_def)
  have "utf8_valid ?L" using header_fields_bytes by (intro utf8_valid_ascii) blast
  moreover have "take (length header_prefix) ?F = header_prefix" by (simp add: F)
  ultimately show ?thesis
    unfolding parse_header_def pos using assms
    by (simp add: sl header_fields_split next_field_def)
      (simp add: header_line_fields)
qed

lemma build_columns_layout:
  "build_columns frame cols = (out, toc) \<Longrightarrow>
     (\<exists>suffix. out = frame @ suffix) \<and> length toc = length cols \<and>
     sorted_wrt (\<lambda>a b. fst a + snd a \<le> fst b) toc \<and>
     (\<forall>i < length cols. length frame \<le> fst (toc ! i) \<and> fst (toc ! i) + snd (toc ! i) \<le> length out \<and>
         slice out (fst (toc ! i)) (fst (toc ! i) + snd (toc ! i)) = cols ! i)"
proof (induction cols arbitrary: frame out toc)
  case (Cons c cs)
  let ?p = "pad32 frame"
  obtain toc' where rec: "build_columns (?p @ c) cs = (out, toc')" and toc: "toc = (length ?p, length c) # toc'"
    using Cons.prems by (auto simp: Let_def split: prod.splits)
  note IH = Cons.IH [OF rec]
  then obtain suffix where out: "out = (?p @ c) @ suffix" by blast
  have pad: "\<exists>z. ?p = frame @ z" "length frame \<le> length ?p" by (auto simp: pad32_def)
  have first: "slice out (length ?p) (length ?p + length c) = c" by (simp add: out)
  have "\<forall>t \<in> set toc'. length ?p + length c \<le> fst t"
    using IH by (fastforce simp: in_set_conv_nth)
  with IH toc have "sorted_wrt (\<lambda>a b. fst a + snd a \<le> fst b) toc" by auto
  moreover have "length frame \<le> fst (toc ! i) \<and> fst (toc ! i) + snd (toc ! i) \<le> length out \<and>
      slice out (fst (toc ! i)) (fst (toc ! i) + snd (toc ! i)) = (c # cs) ! i" if "i < length (c # cs)" for i
  proof (cases i)
    case 0
    then show ?thesis using toc first pad out by simp
  next
    case (Suc j)
    with that IH have "length (?p @ c) \<le> fst (toc' ! j)" "fst (toc' ! j) + snd (toc' ! j) \<le> length out"
      "slice out (fst (toc' ! j)) (fst (toc' ! j) + snd (toc' ! j)) = cs ! j" by auto
    with Suc toc pad show ?thesis by simp
  qed
  ultimately show ?case using IH toc out pad(1) by auto
qed simp

lemma toc_range_entry:
  assumes "body_start \<le> s" "s + l \<le> toc_pos" "toc_pos < 2 ^ 63"
  shows "toc_range body_start toc_pos (to_le 8 (int s) @ to_le 8 (int l)) = Ok (s, s + l)"
proof -
  have "in_signed 8 (int s)" "in_signed 8 (int l)" using assms by (simp_all add: in_signed_def)
  moreover have "s + l \<le> usize_max" using assms by simp
  ultimately show ?thesis using assms
    by (simp add: toc_range_def slice_at_def slice_def column_range_def usize_try_from_def checked_add_def)
qed

lemma sorted_toc_no_overlap:
  assumes "sorted_wrt (\<lambda>a b. fst a + snd a \<le> fst b) toc"
  shows "\<not> windows2_overlap (occupied_ranges (map (\<lambda>(s, l). (s, s + l)) toc))"
proof -
  let ?rs = "filter (\<lambda>r. fst r < snd r) (map (\<lambda>(s, l). (s, s + l)) toc)"
  have srt: "sorted_wrt (\<lambda>a b. snd a \<le> fst b) ?rs"
    using assms by (intro sorted_wrt_filter) (auto simp: sorted_wrt_map case_prod_beta)
  then have "sorted_wrt (\<lambda>a b. fst a \<le> fst b) ?rs"
    by (rule sorted_wrt_mono_rel [rotated]) auto
  then have "sorted (map fst ?rs)" by (simp add: sorted_wrt_map)
  then have "occupied_ranges (map (\<lambda>(s, l). (s, s + l)) toc) = ?rs"
    unfolding occupied_ranges_def by (rule sort_key_id_if_sorted)
  with srt show ?thesis by (simp add: sorted_windows2_overlap)
qed

lemma parse_build_frame:
  assumes "in_signed 8 rid" "nrows \<le> 2 ^ 64 - 1" "start \<le> 2 ^ 64 - 1"
    and size: "length (build_frame rid nrows start cols) < 2 ^ 63"
  shows "parse_frame (build_frame rid nrows start cols) =
    Ok \<lparr>result_id = rid, row_count = nrows, start_row = start, columns = cols\<rparr>"
proof -
  let ?H = "header_line rid (length cols) nrows start"
  obtain out toc where b: "build_columns ?H cols = (out, toc)" by fastforce
  let ?body = "pad32 out"
  let ?entry = "\<lambda>(s, l). to_le 8 (int s) @ to_le 8 (int l)"
  let ?F = "build_frame rid nrows start cols"
  have F: "?F = ?body @ concat (map ?entry toc) @ to_le 8 (int (length ?body))"
    by (simp add: build_frame_def b Let_def)
  note lay = build_columns_layout [OF b]
  obtain rest where body: "?body = ?H @ rest" using lay by (auto simp: pad32_def)
  have lc: "length (concat (map ?entry toc)) = length cols * toc_entry_size"
    using lay by (subst length_concat_same [of _ 16]) (auto simp: toc_entry_size_def)
  have tot: "length ?F = length ?body + length cols * toc_entry_size + 8" by (simp add: F lc)
  have n: "length cols \<le> usize_max" using size tot by (simp add: toc_entry_size_def)
  have hdr: "parse_header ?F =
      Ok (\<lparr>h_result_id = rid, h_column_count = length cols, h_row_count = nrows, h_start_row = start\<rparr>, length ?H)"
    unfolding F body using parse_header_line [OF assms(1) n assms(2,3)] by simp
  have first: "get ?F 0 \<noteq> Some 0x21" and pre: "length header_prefix + 8 \<le> length ?F"
    unfolding F body by (simp_all add: header_line_fields header_prefix_def get_def nth_append)
  have trailer: "slice_at ?F (length ?F - 8) (length ?F) = (Ok (to_le 8 (int (length ?body))) :: (_, frame_error) result)"
    by (simp add: F slice_at_def slice_def)
  have toc_pos: "from_le (to_le 8 (int (length ?body))) = int (length ?body)"
    using size tot by (simp add: in_signed_def)
  have tocb: "slice_at ?F (length ?body) (length ?body + length cols * toc_entry_size) =
      (Ok (concat (map ?entry toc)) :: (_, frame_error) result)"
    by (simp add: F slice_at_def slice_def flip: lc)
  have chunks: "chunks_exact toc_entry_size (concat (map ?entry toc)) = map ?entry toc"
    by (rule chunks_exact_concat) (auto simp: toc_entry_size_def)
  have in_body: "length out \<le> length ?body" by (simp add: pad32_def)
  have bounds: "length ?H \<le> fst t" "fst t + snd t \<le> length out" if "t \<in> set toc" for t
    using that lay by (auto simp: in_set_conv_nth)
  have "toc_range (length ?H) (length ?body) (?entry t) = Ok (case t of (s, l) \<Rightarrow> (s, s + l))"
    if "t \<in> set toc" for t
    using bounds [OF that] in_body size tot unfolding case_prod_beta
    by (intro toc_range_entry) auto
  then have ranges: "try_map (toc_range (length ?H) (length ?body)) (map ?entry toc) =
      Ok (map (\<lambda>(s, l). (s, s + l)) toc)"
    by (induction toc) auto
  have "slice_at ?F (fst t) (fst t + snd t) = (Ok (slice out (fst t) (fst t + snd t)) :: (_, frame_error) result)"
    if "t \<in> set toc" for t
    using bounds [OF that] by (simp add: slice_at_def F pad32_def slice_append_left)
  then have "(try_map (\<lambda>(a, b). slice_at ?F a b) (map (\<lambda>(s, l). (s, s + l)) toc) :: (_, frame_error) result)
      = Ok (map (\<lambda>t. slice out (fst t) (fst t + snd t)) toc)"
    by (induction toc) auto
  also have "map (\<lambda>t. slice out (fst t) (fst t + snd t)) toc = cols"
    using lay by (auto intro: nth_equalityI)
  finally have cols: "(try_map (\<lambda>(a, b). slice_at ?F a b) (map (\<lambda>(s, l). (s, s + l)) toc) :: (_, frame_error) result)
      = Ok cols" .
  have le: "length ?H \<le> length ?body" using body by simp
  have few: "\<not> length ?F div toc_entry_size < length cols"
    unfolding tot by (simp add: toc_entry_size_def)
  have mul: "checked_mul (length cols) toc_entry_size = Some (length cols * toc_entry_size)"
    and bnd: "Option.bind (checked_add (length ?body) (length cols * toc_entry_size)) (\<lambda>e. checked_add e 8)
      = Some (length ?F)"
    using size tot by (auto simp: bind_eq_Some_conv)
  have us: "usize_try_from (int (length ?body)) = Some (length ?body)"
    using size tot by (simp add: usize_try_from_def)
  show ?thesis
    using first pre lay le few
    by (simp add: parse_frame_unfold hdr trailer toc_pos us mul bnd tocb chunks ranges cols
        sorted_toc_no_overlap Let_def)
qed

subsection \<open>Server errors\<close>

lemma read_error_message_text:
  assumes "\<forall>b \<in> set m. b \<noteq> 0" and "tail = [] \<or> hd tail = 0"
  shows "read_error_message (pre @ 0x21 # m @ tail) (length pre) = Ok (from_utf8_lossy m)"
proof -
  have m: "slice (pre @ 0x21 # m @ tail) (length pre) (length (pre @ 0x21 # m @ tail)) = 0x21 # m @ tail"
    by (simp add: slice_def)
  have "take (case position (\<lambda>b. b = 0) (0x21 # m @ tail) of None \<Rightarrow> length (0x21 # m @ tail) | Some i \<Rightarrow> i)
      (0x21 # m @ tail) = 0x21 # m"
  proof (cases tail)
    case Nil
    have "position (\<lambda>b. b = 0) (0x21 # m @ tail) = None"
      unfolding position_None_iff using assms(1) Nil by auto
    then show ?thesis using Nil by simp
  next
    case (Cons t ts)
    with assms have "position (\<lambda>b. b = 0) ((0x21 # m) @ t # ts) = Some (length (0x21 # m))"
      by (intro position_none_Cons) auto
    then show ?thesis using Cons by simp
  qed
  then show ?thesis
    unfolding read_error_message_def slice_at_def m Let_def by simp
qed

lemma find_error_message_at:
  assumes "in_signed 8 toc" "toc < 0" "length response < 2 ^ 63"
  shows "find_error_message (response @ to_le 8 toc) toc =
    (if nat (- toc) < length response \<and> response ! nat (- toc) = 0x21
     then Ok (from_utf8_lossy (takeWhile (\<lambda>b. b \<noteq> 0) (drop (Suc (nat (- toc))) response)))
     else Err (Malformed Invalid_error_offset))"
proof (cases "nat (- toc) < length response")
  case True
  define offset where "offset = nat (- toc)"
  have lt: "offset < length response" using True by (simp add: offset_def)
  have "toc \<noteq> int_min 8" using True assms(3) by (auto simp: int_min_def)
  moreover have "usize_try_from (- toc) = Some offset"
    using assms(1,2) by (auto simp: usize_try_from_def in_signed_def offset_def)
  moreover have "get (response @ to_le 8 toc) offset = Some (response ! offset)"
    using lt by (simp add: get_def nth_append)
  moreover have "slice_at (response @ to_le 8 toc) 0 (length response) = (Ok response :: (_, frame_error) result)"
    by (simp add: slice_at_def slice_def)
  moreover have "read_error_message response offset = Ok (from_utf8_lossy (takeWhile (\<lambda>b. b \<noteq> 0) (drop (Suc offset) response)))"
    if "response ! offset = 0x21"
  proof -
    let ?rest = "drop (Suc offset) response"
    have "response = take offset response @ 0x21 # takeWhile (\<lambda>b. b \<noteq> 0) ?rest @ dropWhile (\<lambda>b. b \<noteq> 0) ?rest"
      using id_take_nth_drop [OF lt] that by simp
    moreover have "dropWhile (\<lambda>b. b \<noteq> 0) ?rest = [] \<or> hd (dropWhile (\<lambda>b. b \<noteq> 0) ?rest) = 0"
      using hd_dropWhile by blast
    moreover have "\<forall>b \<in> set (takeWhile (\<lambda>b. b \<noteq> 0) ?rest). b \<noteq> 0" by (auto dest: set_takeWhileD)
    moreover have "length (take offset response) = offset" using lt by simp
    ultimately show ?thesis using read_error_message_text [of "takeWhile (\<lambda>b. b \<noteq> 0) ?rest" "dropWhile (\<lambda>b. b \<noteq> 0) ?rest" "take offset response"]
      by simp
  qed
  ultimately show ?thesis using lt by (simp add: find_error_message_def Let_def offset_def [symmetric])
next
  case False
  then show ?thesis
    using assms(1,2) by (auto simp: find_error_message_def Let_def usize_try_from_def in_signed_def)
qed

text \<open>
  C31 (errors inside a frame). Whatever lies between the header line and the trailer, a frame with a
  negative trailer is an error: the server's message when the negated trailer is the offset of an error
  marker before the trailer, namely the text after the marker up to its terminator or the trailer with
  invalid UTF-8 replaced, and a malformed frame otherwise.
\<close>

theorem parse_frame_in_frame_error:
  assumes "in_signed 8 rid" "ncols \<le> usize_max" "nrows \<le> 2 ^ 64 - 1" "start \<le> 2 ^ 64 - 1"
    and trailer: "in_signed 8 toc" "toc < 0"
    and size: "length (header_line rid ncols nrows start @ body) < 2 ^ 63"
  shows "parse_frame (header_line rid ncols nrows start @ body @ to_le 8 toc) =
    (let response = header_line rid ncols nrows start @ body; offset = nat (- toc)
     in if offset < length response \<and> response ! offset = 0x21
        then Err (Server (from_utf8_lossy (takeWhile (\<lambda>b. b \<noteq> 0) (drop (Suc offset) response))))
        else Err (Malformed Invalid_error_offset))"
proof -
  let ?H = "header_line rid ncols nrows start"
  let ?M = "?H @ body" and ?offset = "nat (- toc)"
  let ?F = "?M @ to_le 8 toc"
  have hdr: "parse_header ?F = Ok (\<lparr>h_result_id = rid, h_column_count = ncols, h_row_count = nrows,
      h_start_row = start\<rparr>, length ?H)"
    using parse_header_line [OF assms(1-4), of "body @ to_le 8 toc"] by simp
  have first: "get ?F 0 \<noteq> Some 0x21" and pre: "length header_prefix + 8 \<le> length ?F"
    by (simp_all add: header_line_fields header_prefix_def get_def nth_append)
  have tr: "slice_at ?F (length ?F - 8) (length ?F) = (Ok (to_le 8 toc) :: (_, frame_error) result)"
    by (simp add: slice_at_def slice_def)
  have pos: "from_le (to_le 8 toc) = toc" using trailer(1) by simp
  have "parse_frame ?F = rbind (find_error_message ?F toc) (\<lambda>m. Err (Server m))"
    unfolding parse_frame_unfold hdr tr Let_def rbind.simps case_prod_conv pos
    using first pre trailer(2) by simp
  also have "find_error_message ?F toc =
      (if ?offset < length ?M \<and> ?M ! ?offset = 0x21
       then Ok (from_utf8_lossy (takeWhile (\<lambda>b. b \<noteq> 0) (drop (Suc ?offset) ?M))) else Err (Malformed Invalid_error_offset))"
    using find_error_message_at [OF trailer size] .
  finally show ?thesis by (simp add: Let_def)
qed

subsection \<open>Round trip, and a sample frame\<close>

text \<open>
  C14 (round trip with the server). Parsing a frame laid out the way the server lays it out (header
  line, columns padded to 32 bytes, table of contents, trailer) returns its result id, row count,
  start row and columns, for every result id of 64 bits and any number of columns of any length.
\<close>

theorem parse_frame_build_frame:
  assumes "in_signed 8 rid" "nrows \<le> 2 ^ 64 - 1" "start \<le> 2 ^ 64 - 1"
    and size: "length (build_frame rid nrows start cols) < 2 ^ 63"
  shows "parse_frame (build_frame rid nrows start cols) =
    Ok \<lparr>result_id = rid, row_count = nrows, start_row = start, columns = cols\<rparr>"
  using assms by (rule parse_build_frame)

lemma sample_frame_length: "length (build_frame 5 2 100 [[1, 2], [0x80]]) < 2 ^ 63"
  by (simp add: build_frame_def header_line_def pad32_def Let_def header_prefix_def print_int_def print_nat.simps)

lemma sample_frame_parses:
  "parse_frame (build_frame 5 2 100 [[1, 2], [0x80]]) =
     Ok \<lparr>result_id = 5, row_count = 2, start_row = 100, columns = [[1, 2], [0x80]]\<rparr>"
  by (rule parse_build_frame) (simp_all add: sample_frame_length [simplified] in_signed_def)

theorem parse_frame_build_frame_witness:
  "in_signed 8 5 \<and> length (build_frame 5 2 100 [[1, 2], [0x80]]) < 2 ^ 63 \<and>
   parse_frame (build_frame 5 2 100 [[1, 2], [0x80]]) =
     Ok \<lparr>result_id = 5, row_count = 2, start_row = 100, columns = [[1, 2], [0x80]]\<rparr>"
  using parse_frame_build_frame [of 5 2 100 "[[1, 2], [0x80]]"] sample_frame_length
  by (simp add: in_signed_def)

theorem parse_frame_columns_witness:
  "\<exists>header body_start toc_pos ranges.
     parse_header (build_frame 5 2 100 [[1, 2], [0x80]]) = Ok (header, body_start) \<and>
     2 = h_column_count header \<and> length ranges = h_column_count header \<and>
     toc_pos + 16 * 2 + 8 = length (build_frame 5 2 100 [[1, 2], [0x80]]) \<and> ranges_disjoint ranges"
proof -
  let ?F = "build_frame 5 2 100 [[1, 2], [0x80]]"
  obtain header body_start toc_pos ranges where "parse_header ?F = Ok (header, body_start)"
      "length [[1, 2], [0x80 :: u8]] = h_column_count header" "length ranges = h_column_count header"
      "toc_pos + 16 * length [[1, 2], [0x80 :: u8]] + 8 = length ?F" "ranges_disjoint ranges"
    using parse_frame_columns [OF sample_frame_parses, unfolded exportbin_frame.simps] by blast
  then show ?thesis
    by (intro exI [of _ header] exI [of _ body_start] exI [of _ toc_pos] exI [of _ ranges]) simp
qed

theorem parse_frame_size_witness:
  "sum_list (map length [[1, 2], [0x80 :: u8]]) + 16 * 2 + 8 \<le> length (build_frame 5 2 100 [[1, 2], [0x80]])"
proof -
  from parse_frame_size [OF sample_frame_parses] show ?thesis by simp
qed

theorem parse_frame_in_frame_error_witness:
  "parse_frame (header_line 5 1 0 0 @ [0, 0, 0x21, 0x6F, 0x6F, 0x6D, 0, 7] @ to_le 8 (- 13)) =
     Err (Server (from_utf8_lossy [0x6F, 0x6F, 0x6D]))"
proof -
  have h: "header_line 5 1 0 0 = [0x26, 0x36, 0x20, 0x35, 0x20, 0x31, 0x20, 0x30, 0x20, 0x30, 0x0A]" by code_simp
  have "parse_frame (header_line 5 1 0 0 @ [0, 0, 0x21, 0x6F, 0x6F, 0x6D, 0, 7] @ to_le 8 (- 13)) =
    (let response = header_line 5 1 0 0 @ [0, 0, 0x21, 0x6F, 0x6F, 0x6D, 0, 7]; offset = nat (- (- 13))
     in if offset < length response \<and> response ! offset = 0x21
        then Err (Server (from_utf8_lossy (takeWhile (\<lambda>b. b \<noteq> 0) (drop (Suc offset) response))))
        else Err (Malformed Invalid_error_offset))"
    by (rule parse_frame_in_frame_error) (simp_all add: in_signed_def h [unfolded One_nat_def])
  then show ?thesis by (simp add: h [unfolded One_nat_def] Let_def)
qed

end
