(* ===== verification/Monet_Types.thy ===== *)
theory Monet_Types
  imports Exportbin
begin

text \<open>
  The two type systems the driver translates between: MonetDB's column types (the enumeration
  \<open>MonetType\<close> the sources match on) and Arrow's \<open>DataType\<close> and \<open>Field\<close>; the fixed wire widths of
  \<open>crates/monetdb-arrow/src/wire.rs\<close>; the type mapping of \<open>decode.rs\<close> (MonetDB to Arrow) and of
  \<open>encode.rs\<close> (Arrow to MonetDB and to SQL).

  The error types of the two directions are here too; their texts are the literals of the
  source, named once. Text is a \<open>string\<close> (names, metadata, messages, SQL type names). Arrow types that no match arm of
  the sources names are the constructor \<open>DT_Other\<close>.
\<close>

subsection \<open>MonetDB types\<close>

datatype monet_type =
    MT_Bool | MT_TinyInt | MT_SmallInt | MT_Int | MT_BigInt | MT_HugeInt | MT_Oid
  | MT_Decimal nat nat | MT_Varchar nat | MT_Real | MT_Double
  | MT_MonthInterval | MT_DayInterval | MT_SecInterval
  | MT_Time | MT_TimeTz | MT_Date | MT_Timestamp | MT_TimestampTz
  | MT_Blob | MT_Url | MT_Inet | MT_Inet4 | MT_Inet6 | MT_Json | MT_Uuid | MT_Geometry | MT_Xml

definition decimal_width :: "nat \<Rightarrow> nat option" where
  "decimal_width precision =
     (if 1 \<le> precision \<and> precision \<le> 2 then Some 1
      else if 3 \<le> precision \<and> precision \<le> 4 then Some 2
      else if 5 \<le> precision \<and> precision \<le> 9 then Some 4
      else if 10 \<le> precision \<and> precision \<le> 18 then Some 8
      else if 19 \<le> precision \<and> precision \<le> 38 then Some 16
      else None)"

fun fixed_wire_width :: "monet_type \<Rightarrow> nat option" where
  "fixed_wire_width MT_Bool = Some 1"
| "fixed_wire_width MT_TinyInt = Some 1"
| "fixed_wire_width MT_SmallInt = Some 2"
| "fixed_wire_width MT_Int = Some 4"
| "fixed_wire_width MT_Real = Some 4"
| "fixed_wire_width MT_MonthInterval = Some 4"
| "fixed_wire_width MT_Date = Some 4"
| "fixed_wire_width MT_BigInt = Some 8"
| "fixed_wire_width MT_Oid = Some 8"
| "fixed_wire_width MT_Double = Some 8"
| "fixed_wire_width MT_DayInterval = Some 8"
| "fixed_wire_width MT_SecInterval = Some 8"
| "fixed_wire_width MT_Time = Some 8"
| "fixed_wire_width MT_TimeTz = Some 8"
| "fixed_wire_width MT_Timestamp = Some 12"
| "fixed_wire_width MT_TimestampTz = Some 12"
| "fixed_wire_width MT_HugeInt = Some 16"
| "fixed_wire_width MT_Uuid = Some 16"
| "fixed_wire_width (MT_Decimal precision _) = decimal_width precision"
| "fixed_wire_width (MT_Varchar _) = None"
| "fixed_wire_width MT_Blob = None"
| "fixed_wire_width MT_Url = None"
| "fixed_wire_width MT_Inet = None"
| "fixed_wire_width MT_Inet4 = None"
| "fixed_wire_width MT_Inet6 = None"
| "fixed_wire_width MT_Json = None"
| "fixed_wire_width MT_Geometry = None"
| "fixed_wire_width MT_Xml = None"

subsection \<open>Arrow types\<close>

datatype time_unit = Second | Millisecond | Microsecond | Nanosecond

datatype data_type =
    DT_Null | DT_Boolean | DT_Int8 | DT_Int16 | DT_Int32 | DT_Int64
  | DT_UInt8 | DT_UInt16 | DT_UInt32 | DT_UInt64 | DT_Float16 | DT_Float32 | DT_Float64
  | DT_Timestamp time_unit "string option" | DT_Date32 | DT_Date64
  | DT_Time32 time_unit | DT_Time64 time_unit | DT_Duration time_unit
  | DT_Binary | DT_FixedSizeBinary int | DT_LargeBinary | DT_BinaryView
  | DT_Utf8 | DT_LargeUtf8 | DT_Utf8View
  | DT_Dictionary data_type data_type | DT_Decimal128 nat int | DT_Other nat

record arrow_field =
  f_name :: string
  f_data_type :: data_type
  f_nullable :: bool
  f_metadata :: "string \<rightharpoonup> string"

definition extension_key :: string where
  "extension_key = ''ARROW:extension:name''"

subsection \<open>Errors\<close>

text \<open>The errors of decoding; \<open>Cursor_Err\<close> and \<open>Arrow_Err\<close> carry the rendered text of an error
  of the MAPI client library and of the Arrow library.\<close>

datatype decode_error =
    Frame frame_error | ResultId nat int | StartRow nat nat | RowCount nat nat
  | ColumnCount nat nat | Length nat nat | InvalidColumn string | InvalidValue nat string
  | InvalidUtf8 nat | InvalidBackref nat | Cursor_Err string | Unsupported monet_type
  | Arrow_Err string

datatype encode_error =
    E_Unsupported data_type | E_UnsupportedMonetType monet_type | E_InvalidValue nat string
  | E_TypeMismatch data_type data_type

definition m_scale_127 :: string where "m_scale_127 = ''decimal scale exceeds Arrow's maximum of 127''"
definition m_precision_scale :: string where "m_precision_scale = ''decimal precision/scale must satisfy 1 <= precision <= 38 and scale <= precision''"
definition m_pointer_precedes :: string where "m_pointer_precedes = ''column pointer precedes its frame allocation''"
definition m_range_exceeds :: string where "m_range_exceeds = ''column range exceeds its frame allocation''"
definition m_rows_memory :: string where "m_rows_memory = ''row count does not fit in memory''"
definition m_inline_more_rows :: string where "m_inline_more_rows = ''inline result contained more rows than reported''"
definition m_decimal_fraction :: string where "m_decimal_fraction = ''decimal text has more fractional digits than its declared scale''"
definition m_interval_millis :: string where "m_interval_millis = ''interval text is not representable in milliseconds''"
definition m_blob_wire_length :: string where "m_blob_wire_length = ''BLOB length does not fit on the wire''"
definition m_uuid_text :: string where "m_uuid_text = ''invalid UUID text''"
definition m_inet4_text :: string where "m_inet4_text = ''invalid INET4 address''"
definition m_inet6_text :: string where "m_inet6_text = ''invalid INET6 address''"
definition m_required :: string where "m_required = ''non-NULL inline value decoded as NULL''"
definition m_inline_oid :: string where "m_inline_oid = ''invalid inline OID''"
definition m_precision_range :: string where "m_precision_range = ''decimal precision must be between 1 and 38''"
definition m_decimal_backing :: string where "m_decimal_backing = ''decimal value does not fit its backing integer''"
definition m_decimal_sentinel :: string where "m_decimal_sentinel = ''decimal value collides with the wire NULL sentinel''"
definition m_reference_date :: string where "m_reference_date = ''could not construct reference date''"
definition m_time_zone :: string where "m_time_zone = ''invalid time zone conversion''"
definition m_timestamp_zone :: string where "m_timestamp_zone = ''invalid timestamp time zone conversion''"
definition m_date :: string where "m_date = ''invalid Gregorian date''"
definition m_time :: string where "m_time = ''invalid time of day''"
definition m_offset :: string where "m_offset = ''invalid UTC offset''"
definition m_year_wire :: string where "m_year_wire = ''timestamp year does not fit MonetDB's wire format''"
definition m_column_length :: string where "m_column_length = ''column length overflows''"
definition m_bool :: string where "m_bool = ''boolean is not 0, 1, or the NULL sentinel 0x80''"
definition m_decimal_column :: string where "m_decimal_column = ''decimal precision/scale must satisfy 1 <= precision <= 38 and 0 <= scale <= precision''"
definition m_hugeint :: string where "m_hugeint = ''HUGEINT exceeds Arrow Decimal128's supported 38-digit range''"
definition m_decimal_precision :: string where "m_decimal_precision = ''decimal value exceeds its declared precision''"
definition m_string_short :: string where "m_string_short = ''string column contains fewer encoded bytes than declared rows''"
definition m_utf8_limit :: string where "m_utf8_limit = ''UTF-8 column exceeds Arrow's 32-bit offset limit; lower adbc.monetdb.read_batch_rows''"
definition m_string_nul :: string where "m_string_nul = ''string is not NUL-terminated''"
definition m_utf8_length :: string where "m_utf8_length = ''UTF-8 column length overflows''"
definition m_backref_expand :: string where "m_backref_expand = ''UTF-8 back-references expand beyond the allowed wire-size multiple''"
definition m_blob_header_length :: string where "m_blob_header_length = ''BLOB header length overflows''"
definition m_blob_limit :: string where "m_blob_limit = ''BLOB column exceeds Arrow's 32-bit offset limit''"
definition m_blob_header_offset :: string where "m_blob_header_offset = ''BLOB header offset overflows''"
definition m_blob_negative :: string where "m_blob_negative = ''BLOB length is negative but is not the -1 NULL sentinel''"
definition m_blob_memory :: string where "m_blob_memory = ''blob length does not fit in memory''"
definition m_blob_offset :: string where "m_blob_offset = ''BLOB value offset overflows''"
definition m_blob_length :: string where "m_blob_length = ''BLOB column length overflows''"
definition m_date_partial :: string where "m_date_partial = ''date has a partial NULL sentinel''"
definition m_date32 :: string where "m_date32 = ''date is outside Arrow's Date32 range''"
definition m_time_partial :: string where "m_time_partial = ''time has a partial NULL sentinel''"
definition m_timestamp_mismatch :: string where "m_timestamp_mismatch = ''timestamp has mismatched date/time NULL sentinels''"
definition m_inet_length :: string where "m_inet_length = ''INET column length is neither 4 nor 16 bytes per row''"

definition e_column_length :: string where "e_column_length = ''encoded column length overflows''"
definition e_column_large :: string where "e_column_large = ''encoded column is too large''"
definition e_ipv4 :: string where "e_ipv4 = ''value is not a valid IPv4 address''"
definition e_ipv6 :: string where "e_ipv6 = ''value is not a valid IPv6 address''"
definition e_null_column :: string where "e_null_column = ''NULL column is too large to encode''"
definition e_address_sentinel :: string where "e_address_sentinel = ''address collides with MonetDB's NULL sentinel''"
definition e_string_length :: string where "e_string_length = ''encoded string column length overflows''"
definition e_dictionary_key :: string where "e_dictionary_key = ''dictionary key is outside the dictionary values''"
definition e_blob_length :: string where "e_blob_length = ''encoded BLOB column length overflows''"
definition e_value_sentinel :: string where "e_value_sentinel = ''value collides with MonetDB's NULL sentinel''"
definition e_float :: string where "e_float = ''non-finite floats are outside MonetDB's supported value domain''"
definition e_oid :: string where "e_oid = ''OID is outside MonetDB's non-NULL range''"
definition e_precision :: string where "e_precision = ''decimal precision must be 1..=38''"
definition e_decimal_precision :: string where "e_decimal_precision = ''decimal value exceeds its declared precision''"
definition e_decimal_backing :: string where "e_decimal_backing = ''decimal does not fit its MonetDB backing integer''"
definition e_decimal_sentinel :: string where "e_decimal_sentinel = ''decimal collides with MonetDB's NULL sentinel''"
definition e_string_nul :: string where "e_string_nul = ''string contains a NUL byte''"
definition e_string_large :: string where "e_string_large = ''encoded string column is too large''"
definition e_uuid :: string where "e_uuid = ''all-zero UUID is MonetDB's NULL sentinel''"
definition e_date64 :: string where "e_date64 = ''Date64 is not a whole day''"
definition e_date_min :: string where "e_date_min = ''date is earlier than MonetDB's minimum year -4712''"
definition e_date_year :: string where "e_date_year = ''date year is outside MonetDB's range''"
definition e_time_aligned :: string where "e_time_aligned = ''time is not microsecond-aligned''"
definition e_time_day :: string where "e_time_day = ''time is outside one day''"
definition e_timestamp_aligned :: string where "e_timestamp_aligned = ''timestamp is not microsecond-aligned''"
definition e_timestamp_overflow :: string where "e_timestamp_overflow = ''timestamp overflows microseconds''"
definition e_duration_aligned :: string where "e_duration_aligned = ''duration is not millisecond-aligned''"
definition e_duration_overflow :: string where "e_duration_overflow = ''duration overflows milliseconds''"
definition e_duration_sentinel :: string where "e_duration_sentinel = ''duration collides with MonetDB's NULL sentinel''"
definition e_day_interval :: string where "e_day_interval = ''INTERVAL DAY value is not a whole day''"
definition e_date_chrono :: string where "e_date_chrono = ''date is outside chrono's range''"

subsection \<open>MonetDB to Arrow\<close>

definition decimal_scale :: "nat \<Rightarrow> (int, decode_error) result" where
  "decimal_scale scale = (if scale \<le> 127 then Ok (int scale) else Err (InvalidColumn m_scale_127))"

definition decimal_data_type :: "nat \<Rightarrow> nat \<Rightarrow> (data_type, decode_error) result" where
  "decimal_data_type precision scale =
     (if \<not> (1 \<le> precision \<and> precision \<le> 38) \<or> precision < scale then Err (InvalidColumn m_precision_scale)
      else rbind (decimal_scale scale) (\<lambda>s. Ok (DT_Decimal128 precision s)))"

fun data_type_for_monet_type :: "monet_type \<Rightarrow> (data_type, decode_error) result" where
  "data_type_for_monet_type MT_Bool = Ok DT_Boolean"
| "data_type_for_monet_type MT_TinyInt = Ok DT_Int8"
| "data_type_for_monet_type MT_SmallInt = Ok DT_Int16"
| "data_type_for_monet_type MT_Int = Ok DT_Int32"
| "data_type_for_monet_type MT_BigInt = Ok DT_Int64"
| "data_type_for_monet_type MT_HugeInt = Ok (DT_Decimal128 38 0)"
| "data_type_for_monet_type MT_Oid = Ok DT_UInt64"
| "data_type_for_monet_type (MT_Decimal precision scale) = decimal_data_type precision scale"
| "data_type_for_monet_type (MT_Varchar _) = Ok DT_Utf8"
| "data_type_for_monet_type MT_Url = Ok DT_Utf8"
| "data_type_for_monet_type MT_Json = Ok DT_Utf8"
| "data_type_for_monet_type MT_Inet4 = Ok DT_Utf8"
| "data_type_for_monet_type MT_Inet6 = Ok DT_Utf8"
| "data_type_for_monet_type MT_Real = Ok DT_Float32"
| "data_type_for_monet_type MT_Double = Ok DT_Float64"
| "data_type_for_monet_type MT_MonthInterval = Ok DT_Int32"
| "data_type_for_monet_type MT_DayInterval = Ok (DT_Duration Millisecond)"
| "data_type_for_monet_type MT_SecInterval = Ok (DT_Duration Millisecond)"
| "data_type_for_monet_type MT_Time = Ok (DT_Time64 Microsecond)"
| "data_type_for_monet_type MT_TimeTz = Ok (DT_Time64 Microsecond)"
| "data_type_for_monet_type MT_Date = Ok DT_Date32"
| "data_type_for_monet_type MT_Timestamp = Ok (DT_Timestamp Microsecond None)"
| "data_type_for_monet_type MT_TimestampTz = Ok (DT_Timestamp Microsecond (Some ''UTC''))"
| "data_type_for_monet_type MT_Blob = Ok DT_Binary"
| "data_type_for_monet_type MT_Uuid = Ok (DT_FixedSizeBinary 16)"
| "data_type_for_monet_type MT_Geometry = Err (Unsupported MT_Geometry)"
| "data_type_for_monet_type MT_Inet = Err (Unsupported MT_Inet)"
| "data_type_for_monet_type MT_Xml = Err (Unsupported MT_Xml)"

fun extension_for_monet_type :: "monet_type \<Rightarrow> string option" where
  "extension_for_monet_type MT_Json = Some ''arrow.json''"
| "extension_for_monet_type MT_Uuid = Some ''arrow.uuid''"
| "extension_for_monet_type MT_HugeInt = Some ''monetdb.hugeint''"
| "extension_for_monet_type MT_Oid = Some ''monetdb.oid''"
| "extension_for_monet_type MT_Inet4 = Some ''monetdb.inet4''"
| "extension_for_monet_type MT_Inet6 = Some ''monetdb.inet6''"
| "extension_for_monet_type MT_Url = Some ''monetdb.url''"
| "extension_for_monet_type MT_MonthInterval = Some ''monetdb.interval_month''"
| "extension_for_monet_type MT_DayInterval = Some ''monetdb.interval_day''"
| "extension_for_monet_type MT_TimeTz = Some ''monetdb.timetz''"
| "extension_for_monet_type _ = None"

definition field_for_monet_type :: "string \<Rightarrow> monet_type \<Rightarrow> (arrow_field, decode_error) result" where
  "field_for_monet_type name t =
     rbind (data_type_for_monet_type t) (\<lambda>dt.
       Ok \<lparr>f_name = name, f_data_type = dt, f_nullable = True,
           f_metadata = (case extension_for_monet_type t of
                           None \<Rightarrow> Map.empty
                         | Some e \<Rightarrow> [extension_key \<mapsto> e])\<rparr>)"

subsection \<open>Arrow to MonetDB and SQL\<close>

definition string_monet_type :: "string option \<Rightarrow> monet_type" where
  "string_monet_type ext =
     (if ext = Some ''arrow.json'' then MT_Json
      else if ext = Some ''monetdb.inet'' then MT_Inet
      else if ext = Some ''monetdb.inet4'' then MT_Inet4
      else if ext = Some ''monetdb.inet6'' then MT_Inet6
      else if ext = Some ''monetdb.url'' then MT_Url
      else MT_Varchar 0)"

definition monet_type_for_field :: "arrow_field \<Rightarrow> (monet_type, encode_error) result" where
  "monet_type_for_field field =
     (let ext = f_metadata field extension_key in
      case f_data_type field of
        DT_Null \<Rightarrow> Ok (MT_Varchar 1)
      | DT_Boolean \<Rightarrow> Ok MT_Bool
      | DT_Int8 \<Rightarrow> Ok MT_TinyInt
      | DT_Int16 \<Rightarrow> Ok MT_SmallInt
      | DT_Int32 \<Rightarrow> if ext = Some ''monetdb.interval_month'' then Ok MT_MonthInterval else Ok MT_Int
      | DT_Int64 \<Rightarrow> Ok MT_BigInt
      | DT_UInt8 \<Rightarrow> Ok MT_SmallInt
      | DT_UInt16 \<Rightarrow> Ok MT_Int
      | DT_UInt32 \<Rightarrow> Ok MT_BigInt
      | DT_UInt64 \<Rightarrow> if ext = Some ''monetdb.oid'' then Ok MT_Oid else Ok MT_HugeInt
      | DT_Float16 \<Rightarrow> Ok MT_Real
      | DT_Float32 \<Rightarrow> Ok MT_Real
      | DT_Float64 \<Rightarrow> Ok MT_Double
      | DT_Decimal128 precision scale \<Rightarrow>
          if precision = 38 \<and> scale = 0 \<and> ext = Some ''monetdb.hugeint'' then Ok MT_HugeInt
          else if 0 \<le> scale then Ok (MT_Decimal precision (nat scale))
          else Err (E_Unsupported (DT_Decimal128 precision scale))
      | DT_Utf8 \<Rightarrow> Ok (string_monet_type ext)
      | DT_LargeUtf8 \<Rightarrow> Ok (string_monet_type ext)
      | DT_Utf8View \<Rightarrow> Ok (string_monet_type ext)
      | DT_Dictionary key value \<Rightarrow>
          if value = DT_Utf8 \<or> value = DT_LargeUtf8 \<or> value = DT_Utf8View then Ok (MT_Varchar 0)
          else Err (E_Unsupported (DT_Dictionary key value))
      | DT_Binary \<Rightarrow> Ok MT_Blob
      | DT_LargeBinary \<Rightarrow> Ok MT_Blob
      | DT_BinaryView \<Rightarrow> Ok MT_Blob
      | DT_FixedSizeBinary n \<Rightarrow>
          if n = 16 \<and> ext = Some ''arrow.uuid'' then Ok MT_Uuid else Ok MT_Blob
      | DT_Date32 \<Rightarrow> Ok MT_Date
      | DT_Date64 \<Rightarrow> Ok MT_Date
      | DT_Time64 _ \<Rightarrow> if ext = Some ''monetdb.timetz'' then Ok MT_TimeTz else Ok MT_Time
      | DT_Time32 _ \<Rightarrow> Ok MT_Time
      | DT_Timestamp _ timezone \<Rightarrow> if timezone \<noteq> None then Ok MT_TimestampTz else Ok MT_Timestamp
      | DT_Duration _ \<Rightarrow>
          if ext = Some ''monetdb.interval_day'' then Ok MT_DayInterval else Ok MT_SecInterval
      | DT_Other n \<Rightarrow> Err (E_Unsupported (DT_Other n)))"

text \<open>Decimal digits of a number inside SQL text.\<close>

definition show_nat :: "nat \<Rightarrow> string" where
  "show_nat n = map (\<lambda>b. char_of (unat b)) (print_nat n)"

fun sql_type_name :: "monet_type \<Rightarrow> string" where
  "sql_type_name MT_Bool = ''BOOLEAN''"
| "sql_type_name MT_TinyInt = ''TINYINT''"
| "sql_type_name MT_SmallInt = ''SMALLINT''"
| "sql_type_name MT_Int = ''INT''"
| "sql_type_name MT_BigInt = ''BIGINT''"
| "sql_type_name MT_HugeInt = ''HUGEINT''"
| "sql_type_name MT_Oid = ''OID''"
| "sql_type_name (MT_Decimal precision scale) =
     ''DECIMAL('' @ show_nat precision @ '', '' @ show_nat scale @ '')''"
| "sql_type_name (MT_Varchar width) =
     (if 0 < width then ''VARCHAR('' @ show_nat width @ '')'' else ''STRING'')"
| "sql_type_name MT_Real = ''REAL''"
| "sql_type_name MT_Double = ''DOUBLE''"
| "sql_type_name MT_SecInterval = ''INTERVAL SECOND''"
| "sql_type_name MT_MonthInterval = ''INTERVAL MONTH''"
| "sql_type_name MT_DayInterval = ''INTERVAL DAY''"
| "sql_type_name MT_Time = ''TIME(6)''"
| "sql_type_name MT_TimeTz = ''TIME(6) WITH TIME ZONE''"
| "sql_type_name MT_Date = ''DATE''"
| "sql_type_name MT_Timestamp = ''TIMESTAMP(6)''"
| "sql_type_name MT_TimestampTz = ''TIMESTAMP(6) WITH TIME ZONE''"
| "sql_type_name MT_Blob = ''BLOB''"
| "sql_type_name MT_Url = ''URL''"
| "sql_type_name MT_Inet = ''INET''"
| "sql_type_name MT_Inet4 = ''INET4''"
| "sql_type_name MT_Inet6 = ''INET6''"
| "sql_type_name MT_Json = ''JSON''"
| "sql_type_name MT_Uuid = ''UUID''"
| "sql_type_name MT_Geometry = ''GEOMETRY''"
| "sql_type_name MT_Xml = ''XML''"

definition sql_type_for_field :: "arrow_field \<Rightarrow> (string, encode_error) result" where
  "sql_type_for_field field = rbind (monet_type_for_field field) (\<lambda>t. Ok (sql_type_name t))"

definition fixed_encoded_width :: "arrow_field \<Rightarrow> (nat option, encode_error) result" where
  "fixed_encoded_width field =
     (if f_data_type field = DT_Null then Ok (Some 2)
      else rbind (monet_type_for_field field) (\<lambda>t. Ok (fixed_wire_width t)))"

subsection \<open>The two mappings agree\<close>

text \<open>The type a column gets when it is read and written back: only a declared width is lost.\<close>

fun forget_width :: "monet_type \<Rightarrow> monet_type" where
  "forget_width (MT_Varchar _) = MT_Varchar 0"
| "forget_width t = t"

lemma decimal_data_type_Ok:
  "decimal_data_type p s = Ok dt \<longleftrightarrow> 1 \<le> p \<and> p \<le> 38 \<and> s \<le> p \<and> dt = DT_Decimal128 p (int s)"
  by (auto simp: decimal_data_type_def decimal_scale_def result_simps)

text \<open>
  C28 (a column keeps its type, but for a declared character width). The Arrow field the reader builds
  for a MonetDB column type is mapped back by the writer to that type, decimal precision and scale and
  the extension types included; a \<open>VARCHAR\<close> of any declared width comes back as one without a width,
  which Arrow fields do not carry.
\<close>

theorem field_type_roundtrip:
  assumes "field_for_monet_type name t = Ok field"
  shows "monet_type_for_field field = Ok (forget_width t)"
  using assms
  by (cases t)
    (auto simp: field_for_monet_type_def monet_type_for_field_def string_monet_type_def
      decimal_data_type_Ok result_simps extension_key_def)

theorem field_type_roundtrip_witness:
  "\<exists>field. field_for_monet_type ''price'' (MT_Decimal 18 3) = Ok field \<and>
     monet_type_for_field field = Ok (MT_Decimal 18 3)"
proof -
  obtain field where f: "field_for_monet_type ''price'' (MT_Decimal 18 3) = Ok field"
    by (simp add: field_for_monet_type_def decimal_data_type_def decimal_scale_def)
  from field_type_roundtrip [OF f] f show ?thesis by simp
qed

text \<open>Every MonetDB type has a fixed width or is one of the variable-width types, and the width
  is one of the five the wire knows.\<close>

lemma fixed_wire_width_values:
  "fixed_wire_width t = Some w \<Longrightarrow> w \<in> {1, 2, 4, 8, 12, 16}"
  by (cases t) (auto simp: decimal_width_def split: if_splits)

end
