(* ===== verification/Arrow_Arrays.thy ===== *)
theory Arrow_Arrays
  imports Monet_Types
begin

text \<open>
  Arrow arrays as the codec sees them. A primitive array is its value buffer with an optional
  validity buffer (a slot whose validity bit is off still has a value); \<open>logical\<close> reads it as a
  list of optional values. Text and binary arrays, which the codec only ever reads through their
  iterators and writes through builders, are lists of optional byte strings.

  Floats are their bit patterns (16, 32 or 64 bits). The Arrow library functions that can refuse
  their arguments are the parameter record \<open>arrow_lib\<close>, and \<open>arrow_documented\<close> states when they
  accept.
\<close>

subsection \<open>Primitive arrays\<close>

record 'a primitive_array =
  pvalues :: "'a list"
  pvalidity :: "bool list option"

definition wf_primitive :: "'a primitive_array \<Rightarrow> bool" where
  "wf_primitive p \<longleftrightarrow> (case pvalidity p of None \<Rightarrow> True | Some vs \<Rightarrow> length vs = length (pvalues p))"

definition is_null :: "'a primitive_array \<Rightarrow> nat \<Rightarrow> bool" where
  "is_null p row \<longleftrightarrow> (case pvalidity p of None \<Rightarrow> False | Some vs \<Rightarrow> \<not> vs ! row)"

definition null_count :: "'a primitive_array \<Rightarrow> nat" where
  "null_count p = (case pvalidity p of None \<Rightarrow> 0 | Some vs \<Rightarrow> length (filter Not vs))"

definition logical :: "'a primitive_array \<Rightarrow> 'a option list" where
  "logical p = map (\<lambda>row. if is_null p row then None else Some (pvalues p ! row)) [0..<length (pvalues p)]"

text \<open>\<open>has_nulls.then(|| NullBuffer::new(...))\<close>: a validity buffer only when some slot is NULL.\<close>

definition null_buffer :: "('a \<Rightarrow> bool) \<Rightarrow> 'a list \<Rightarrow> bool list option" where
  "null_buffer null vs = (if list_ex null vs then Some (map (\<lambda>v. \<not> null v) vs) else None)"

lemma length_logical [simp]: "length (logical p) = length (pvalues p)"
  by (simp add: logical_def)

lemma null_buffer_logical:
  "logical \<lparr>pvalues = vs, pvalidity = null_buffer null vs\<rparr> = map (\<lambda>v. if null v then None else Some v) vs"
proof (cases "list_ex null vs")
  case True
  then show ?thesis
    by (intro nth_equalityI) (auto simp: logical_def null_buffer_def is_null_def)
next
  case False
  then show ?thesis
    by (intro nth_equalityI) (auto simp: logical_def null_buffer_def is_null_def list_ex_iff)
qed

lemma null_buffer_wf [simp]: "wf_primitive \<lparr>pvalues = vs, pvalidity = null_buffer null vs\<rparr>"
  by (simp add: wf_primitive_def null_buffer_def)

text \<open>A validity buffer kept next to the values, as the loops build it.\<close>

lemma validity_logical:
  assumes "length valid = length vs"
  shows "logical \<lparr>pvalues = vs, pvalidity = (if list_ex Not valid then Some valid else None)\<rparr> =
    map2 (\<lambda>v ok. if ok then Some v else None) vs valid"
  using assms
  by (intro nth_equalityI) (auto simp: logical_def is_null_def list_ex_iff)

lemma null_count_zero: "wf_primitive p \<Longrightarrow> null_count p = 0 \<longleftrightarrow> (\<forall>row < length (pvalues p). \<not> is_null p row)"
  by (auto simp: null_count_def wf_primitive_def is_null_def filter_empty_conv all_set_conv_all_nth
      split: option.splits)

subsection \<open>Arrays of any type\<close>

datatype array_data =
    NullData nat
  | BoolData "bool primitive_array"
  | IntData "int primitive_array"
  | FloatData "nat primitive_array"
  | TextData "u8 list option list"
  | BytesData "u8 list option list"
  | DictData "nat option list" "u8 list option list"

record arrow_array =
  a_type :: data_type
  a_data :: array_data

fun data_length :: "array_data \<Rightarrow> nat" where
  "data_length (NullData n) = n"
| "data_length (BoolData p) = length (pvalues p)"
| "data_length (IntData p) = length (pvalues p)"
| "data_length (FloatData p) = length (pvalues p)"
| "data_length (TextData xs) = length xs"
| "data_length (BytesData xs) = length xs"
| "data_length (DictData keys values) = length keys"

definition array_len :: "arrow_array \<Rightarrow> nat" where
  "array_len a = data_length (a_data a)"

subsection \<open>What the Arrow library checks\<close>

text \<open>
  The two fallible constructors: \<open>Decimal128Array::with_precision_and_scale\<close> and
  \<open>RecordBatch::try_new_with_options\<close>; \<open>Some\<close> is the text of the error they return.
\<close>

record arrow_lib =
  with_precision_and_scale :: "nat \<Rightarrow> int \<Rightarrow> string option"
  try_new_batch :: "arrow_field list \<Rightarrow> arrow_array list \<Rightarrow> nat \<Rightarrow> string option"
  append_fixed :: "nat \<Rightarrow> u8 list \<Rightarrow> string option"

definition arrow_documented :: "arrow_lib \<Rightarrow> bool" where
  "arrow_documented lib \<longleftrightarrow>
     (\<forall>p s. 1 \<le> p \<and> p \<le> 38 \<and> 0 \<le> s \<and> s \<le> int p \<longrightarrow> with_precision_and_scale lib p s = None) \<and>
     (\<forall>fs arrays rows.
        length arrays = length fs \<and>
        (\<forall>i < length fs. f_data_type (fs ! i) = a_type (arrays ! i) \<and> f_nullable (fs ! i)
            \<and> array_len (arrays ! i) = rows)
        \<longrightarrow> try_new_batch lib fs arrays rows = None) \<and>
     (\<forall>width value. length value = width \<longrightarrow> append_fixed lib width value = None)"

text \<open>A library that accepts exactly these arguments.\<close>

definition strict_arrow :: arrow_lib where
  "strict_arrow =
     \<lparr>with_precision_and_scale =
        (\<lambda>p s. if 1 \<le> p \<and> p \<le> 38 \<and> 0 \<le> s \<and> s \<le> int p then None else Some ''invalid precision or scale''),
      try_new_batch =
        (\<lambda>fs arrays rows.
           if length arrays = length fs \<and>
              list_all (\<lambda>(f, a). f_data_type f = a_type a \<and> f_nullable f \<and> array_len a = rows) (zip fs arrays)
           then None else Some ''schema mismatch''),
      append_fixed = (\<lambda>width value. if length value = width then None else Some ''value of another length'')\<rparr>"

lemma strict_arrow_documented: "arrow_documented strict_arrow"
  by (auto simp: arrow_documented_def strict_arrow_def list_all_length)

end
