(* ===== verification/Calendar.thy ===== *)
theory Calendar
  imports Bytes
begin

text \<open>
  Proleptic Gregorian dates. \<open>valid_ymd\<close> and \<open>days_from_civil\<close> are the two functions of
  \<open>decode.rs\<close>; the encoder instead relies on the \<open>chrono\<close> library, which is a parameter here
  (\<open>chrono\<close> below) with its documented behaviour as the hypothesis \<open>chrono_calendar\<close>: adding a
  number of days to a date steps through the calendar one day at a time. The reference is the
  calendar rule \<open>next_day\<close>. The lemmas show that \<open>days_from_civil\<close> counts the days since
  1970-01-01 along \<open>next_day\<close>, so that it inverts what \<open>chrono\<close> computes.
\<close>

subsection \<open>The source's day count\<close>

type_synonym ymd = "int \<times> nat \<times> nat"

definition leap_year :: "int \<Rightarrow> bool" where
  "leap_year year \<longleftrightarrow>
     (trunc_rem year 4 = 0 \<and> trunc_rem year 100 \<noteq> 0) \<or> trunc_rem year 400 = 0"

definition days_per_month :: "nat list" where
  "days_per_month = [31, 28, 31, 30, 31, 30, 31, 31, 30, 31, 30, 31]"

definition last_day :: "int \<Rightarrow> nat \<Rightarrow> nat" where
  "last_day year month = (if month = 2 \<and> leap_year year then 29 else days_per_month ! (month - 1))"

definition valid_ymd :: "int \<Rightarrow> nat \<Rightarrow> nat \<Rightarrow> bool" where
  "valid_ymd year month day =
     (if \<not> (1 \<le> month \<and> month \<le> 12) \<or> day = 0 then False else day \<le> last_day year month)"

definition days_from_civil :: "int \<Rightarrow> nat \<Rightarrow> nat \<Rightarrow> int" where
  "days_from_civil year month day =
     (let year = (if month \<le> 2 then year - 1 else year);
          era = trunc_div (if 0 \<le> year then year else year - 399) 400;
          year_of_era = year - era * 400;
          shifted_month = (if 2 < month then month - 3 else month + 9);
          day_of_year = (153 * shifted_month + 2) div 5 + day - 1;
          day_of_era = year_of_era * 365 + trunc_div year_of_era 4 - trunc_div year_of_era 100
                         + int day_of_year
      in era * 146097 + day_of_era - 719468)"

subsection \<open>The calendar\<close>

fun next_day :: "ymd \<Rightarrow> ymd" where
  "next_day (y, m, d) =
     (if valid_ymd y m (d + 1) then (y, m, d + 1)
      else if m < 12 then (y, m + 1, 1)
      else (y + 1, 1, 1))"

fun prev_day :: "ymd \<Rightarrow> ymd" where
  "prev_day (y, m, d) =
     (if 1 < d then (y, m, d - 1)
      else if 1 < m then (y, m - 1, last_day y (m - 1))
      else (y - 1, 12, 31))"

abbreviation valid_date :: "ymd \<Rightarrow> bool" where
  "valid_date x \<equiv> valid_ymd (fst x) (fst (snd x)) (snd (snd x))"

abbreviation day_number :: "ymd \<Rightarrow> int" where
  "day_number x \<equiv> days_from_civil (fst x) (fst (snd x)) (snd (snd x))"

lemma leap_year_iff: "leap_year y \<longleftrightarrow> (4 dvd y \<and> \<not> 100 dvd y) \<or> 400 dvd y"
  by (simp add: leap_year_def trunc_rem_zero_iff)

lemma months: "1 \<le> m \<Longrightarrow> m \<le> 12 \<Longrightarrow>
   m = 1 \<or> m = 2 \<or> m = 3 \<or> m = 4 \<or> m = 5 \<or> m = 6 \<or> m = 7 \<or> m = 8 \<or> m = 9 \<or> m = 10 \<or> m = 11 \<or> m = 12"
  for m :: nat
  by arith

lemma last_day_values:
  "last_day y 1 = 31" "last_day y (Suc 0) = 31" "last_day y 2 = (if leap_year y then 29 else 28)" "last_day y 3 = 31"
  "last_day y 4 = 30" "last_day y 5 = 31" "last_day y 6 = 30" "last_day y 7 = 31" "last_day y 8 = 31"
  "last_day y 9 = 30" "last_day y 10 = 31" "last_day y 11 = 30" "last_day y 12 = 31"
  by (simp_all add: last_day_def days_per_month_def nth_Cons')

lemma last_day_bounds: "1 \<le> m \<Longrightarrow> m \<le> 12 \<Longrightarrow> 28 \<le> last_day y m \<and> last_day y m \<le> 31"
  by (drule (1) months) (auto simp: last_day_values)

lemma valid_ymd_iff: "valid_ymd y m d \<longleftrightarrow> 1 \<le> m \<and> m \<le> 12 \<and> 1 \<le> d \<and> d \<le> last_day y m"
  by (auto simp: valid_ymd_def)

lemma valid_ymd_first: "1 \<le> m \<Longrightarrow> m \<le> 12 \<Longrightarrow> valid_ymd y m 1"
  using last_day_bounds [of m y] by (simp add: valid_ymd_iff)

lemma valid_ymd_bounds: "valid_ymd y m d \<Longrightarrow> 1 \<le> m \<and> m \<le> 12 \<and> 1 \<le> d \<and> d \<le> 31"
  using last_day_bounds [of m y] by (auto simp: valid_ymd_def split: if_splits)

lemma next_day_valid: "valid_date x \<Longrightarrow> valid_date (next_day x)"
proof (cases x)
  case (fields y m d)
  assume "valid_date x"
  with fields have "1 \<le> m" "m \<le> 12" by (auto simp: valid_ymd_iff)
  with fields valid_ymd_first [of "m + 1" y] valid_ymd_first [of 1 "y + 1"] show ?thesis by auto
qed

text \<open>Days before a year, counted with the leap rule; the month and day offsets are added to it.\<close>

definition year_days :: "int \<Rightarrow> int" where
  "year_days y = 365 * y + y div 4 - y div 100 + y div 400"

lemma floor_era: "trunc_div (if 0 \<le> y then y else y - 399) 400 = y div 400"
proof (cases "0 \<le> y")
  case False
  then have "trunc_div (y - 399) 400 = - ((399 - y) div 400)"
    by (simp add: trunc_div_def sgn_if)
  also have "(399 - y) div 400 = - (y div 400)"
  proof (rule int_div_pos_eq)
    show "399 - y = 400 * (- (y div 400)) + (399 - y mod 400)"
      using mult_div_mod_eq [of 400 y] by linarith
  qed simp_all
  finally show ?thesis using False by simp
qed simp

lemma era_days:
  "y div 400 * 146097 + ((y - y div 400 * 400) * 365 + (y - y div 400 * 400) div 4
     - (y - y div 400 * 400) div 100) = year_days y"
proof -
  define e r where "e = y div 400" and "r = y mod 400"
  have y: "y = 400 * e + r" by (simp add: e_def r_def)
  have r: "0 \<le> r" "r < 400" by (simp_all add: r_def)
  have "y div 4 = 100 * e + r div 4" "y div 100 = 4 * e + r div 100" using y by simp_all
  moreover have "y - e * 400 = r" using y by simp
  ultimately show ?thesis
    unfolding year_days_def e_def [symmetric] using y by simp
qed

lemma days_from_civil_alt:
  "1 \<le> d \<Longrightarrow> days_from_civil y m d =
     year_days (if m \<le> 2 then y - 1 else y)
       + int ((153 * (if 2 < m then m - 3 else m + 9) + 2) div 5) + int d - 719469"
proof -
  assume d: "1 \<le> d"
  let ?Y = "if m \<le> 2 then y - 1 else y"
  let ?r = "?Y - ?Y div 400 * 400"
  have "?r = ?Y mod 400" by (simp add: minus_div_mult_eq_mod)
  then have "0 \<le> ?r" by simp
  then have t: "trunc_div ?r 4 = ?r div 4" "trunc_div ?r 100 = ?r div 100" by simp_all
  show ?thesis
    unfolding days_from_civil_def Let_def floor_era t
    using era_days [of ?Y] d by simp
qed

lemma div_step: "y div k - (y - 1) div k = (if k dvd y then 1 else 0)" if k: "0 < k" for y k :: int
proof -
  have y: "y = k * (y div k) + y mod k" by simp
  have r: "0 \<le> y mod k" "y mod k < k" using k by simp_all
  show ?thesis
  proof (cases "k dvd y")
    case True
    then have "y - 1 = k * (y div k - 1) + (k - 1)" by (simp add: algebra_simps)
    then have "(y - 1) div k = y div k - 1" by (rule int_div_pos_eq) (use k in auto)
    with True show ?thesis by simp
  next
    case False
    then have "y mod k \<noteq> 0" by (simp add: mod_eq_0_iff_dvd)
    moreover have "y - 1 = k * (y div k) + (y mod k - 1)" using y by simp
    ultimately have "(y - 1) div k = y div k"
      using r int_div_pos_eq [of "y - 1" k "y div k" "y mod k - 1"] by linarith
    with False show ?thesis by simp
  qed
qed

lemma leap_rule_count:
  "(q \<Longrightarrow> p) \<Longrightarrow> (r \<Longrightarrow> q) \<Longrightarrow> a - a' = (if p then 1 else 0) \<Longrightarrow> b - b' = (if q then 1 else 0) \<Longrightarrow>
   c - c' = (if r then 1 else 0) \<Longrightarrow>
   (365 * y + a - b + c) - (365 * (y - 1) + a' - b' + c') = (if (p \<and> \<not> q) \<or> r then 366 else 365)"
  for a b c a' b' c' y :: int
  by (cases p; cases q; cases r) auto

lemma year_days_step: "year_days y - year_days (y - 1) = (if leap_year y then 366 else 365)"
  unfolding year_days_def leap_year_iff
  by (rule leap_rule_count) (simp_all only: div_step zero_less_numeral, auto intro: dvd_trans)

subsection \<open>The day count follows the calendar\<close>

lemma day_number_epoch: "days_from_civil 1970 1 1 = 0" "days_from_civil 1970 (Suc 0) (Suc 0) = 0"
  by (simp_all add: days_from_civil_def trunc_div_def)

lemma month_offsets:
  "(153 * (if 2 < m then m - 3 else m + 9) + 2) div 5 =
     [306, 337, 0, 31, 61, 92, 122, 153, 184, 214, 245, 275] ! (m - 1)"
  if "1 \<le> m" "m \<le> 12" for m :: nat
  using months [OF that] by (elim disjE) simp_all

lemma next_day_number: "valid_date x \<Longrightarrow> day_number (next_day x) = day_number x + 1"
proof -
  assume v: "valid_date x"
  obtain y m d where x: "x = (y, m, d)" by (cases x)
  have b: "1 \<le> m" "m \<le> 12" "1 \<le> d" using valid_ymd_bounds v x by auto
  show ?thesis
  proof (cases "valid_ymd y m (d + 1)")
    case True
    with x b show ?thesis by (simp add: days_from_civil_alt)
  next
    case False
    with v x b have d: "d = last_day y m" by (auto simp: valid_ymd_def split: if_splits)
    have "days_from_civil y (m + 1) 1 = days_from_civil y m d + 1" if "m < 12"
      using months [OF b(1,2)] that d year_days_step [of y]
      by (elim disjE) (simp_all add: days_from_civil_alt last_day_values split: if_splits)
    moreover have "days_from_civil (y + 1) 1 1 = days_from_civil y m d + 1" if "m = 12"
      using that d by (simp add: days_from_civil_alt last_day_values)
    ultimately show ?thesis using x False b by auto
  qed
qed

lemma next_days_number:
  "valid_date x \<Longrightarrow> valid_date ((next_day ^^ n) x) \<and> day_number ((next_day ^^ n) x) = day_number x + int n"
proof (induction n)
  case (Suc n)
  then have "valid_date ((next_day ^^ n) x)" "day_number ((next_day ^^ n) x) = day_number x + int n" by blast+
  with next_day_number [OF this(1)] next_day_valid [OF this(1)] show ?case by (simp only: funpow.simps comp_apply) simp
qed simp

text \<open>
  C29 (the day count is the calendar's). From every calendar date on, \<open>days_from_civil\<close> grows by
  exactly one per day of the proleptic Gregorian calendar, across months, leap days, centuries and
  negative years, and it is zero on 1970-01-01.
\<close>

theorem days_from_civil_counts_days:
  assumes "valid_ymd y m d"
  shows "(case (next_day ^^ n) (y, m, d) of (y', m', d') \<Rightarrow>
            valid_ymd y' m' d' \<and> days_from_civil y' m' d' = days_from_civil y m d + int n)
         \<and> days_from_civil 1970 1 1 = 0"
  using next_days_number [of "(y, m, d)" n] assms
  by (cases "(next_day ^^ n) (y, m, d)") (simp add: day_number_epoch)

theorem days_from_civil_counts_days_witness:
  "valid_ymd 1970 1 1 \<and> (case (next_day ^^ 59) (1970, 1, 1) of (y', m', d') \<Rightarrow>
     valid_ymd y' m' d' \<and> days_from_civil y' m' d' = 59)"
proof -
  have v: "valid_ymd 1970 1 1" by code_simp
  from days_from_civil_counts_days [OF v, of 59] v show ?thesis
    by (cases "(next_day ^^ 59) (1970, 1, 1)") (simp add: day_number_epoch)
qed

lemma prev_day_valid: "valid_date x \<Longrightarrow> valid_date (prev_day x)"
proof (cases x)
  case (fields y m d)
  assume "valid_date x"
  with fields have "1 \<le> m" "m \<le> 12" "1 \<le> d" "d \<le> last_day y m" by (auto simp: valid_ymd_iff)
  moreover from this have "1 \<le> last_day y (m - 1)" if "1 < m"
    using last_day_bounds [of "m - 1" y] that by linarith
  ultimately show ?thesis using fields by (auto simp: valid_ymd_iff last_day_values)
qed

lemma next_prev_day: "valid_date x \<Longrightarrow> next_day (prev_day x) = x"
proof (cases x)
  case (fields y m d)
  assume "valid_date x"
  with fields have "1 \<le> m" "m \<le> 12" "1 \<le> d" "d \<le> last_day y m" by (auto simp: valid_ymd_iff)
  with fields show ?thesis by (auto simp: valid_ymd_iff last_day_values)
qed

subsection \<open>The chrono library\<close>

text \<open>
  What the sources use of \<open>chrono::NaiveDate\<close>: the checked constructor, the checked addition of a
  number of days (\<open>TimeDelta::try_days\<close> and \<open>checked_add_signed\<close>) and the three components.
\<close>

record 'd chrono =
  from_ymd_opt :: "int \<Rightarrow> nat \<Rightarrow> nat \<Rightarrow> 'd option"
  checked_add_days :: "'d \<Rightarrow> int \<Rightarrow> 'd option"
  date_ymd :: "'d \<Rightarrow> ymd"

definition date_from_unix_days :: "'d chrono \<Rightarrow> int \<Rightarrow> 'd option" where
  "date_from_unix_days c days =
     Option.bind (from_ymd_opt c 1970 1 1) (\<lambda>epoch. checked_add_days c epoch days)"

text \<open>
  The documented behaviour: the constructor accepts exactly calendar dates and returns the date
  with these components; adding days walks the calendar forwards and backwards, and an addition
  that stays in range passes only through dates in range.
\<close>

definition chrono_calendar :: "'d chrono \<Rightarrow> bool" where
  "chrono_calendar c \<longleftrightarrow>
     (\<forall>y m d x. from_ymd_opt c y m d = Some x \<longrightarrow> valid_ymd y m d \<and> date_ymd c x = (y, m, d)) \<and>
     (\<forall>x z. checked_add_days c x 0 = Some z \<longrightarrow> z = x) \<and>
     (\<forall>x n z. 0 \<le> n \<longrightarrow> checked_add_days c x (n + 1) = Some z \<longrightarrow>
        (\<exists>w. checked_add_days c x n = Some w \<and> date_ymd c z = next_day (date_ymd c w))) \<and>
     (\<forall>x n z. 0 \<le> n \<longrightarrow> checked_add_days c x (- n - 1) = Some z \<longrightarrow>
        (\<exists>w. checked_add_days c x (- n) = Some w \<and> date_ymd c z = prev_day (date_ymd c w)))"

lemma chrono_forward:
  assumes "chrono_calendar c" "valid_date (date_ymd c x)"
  shows "checked_add_days c x (int n) = Some z \<Longrightarrow>
    valid_date (date_ymd c z) \<and> day_number (date_ymd c z) = day_number (date_ymd c x) + int n"
proof (induction n arbitrary: z)
  case 0
  with assms show ?case by (auto simp: chrono_calendar_def)
next
  case (Suc n)
  from Suc.prems assms(1) obtain w where
    w: "checked_add_days c x (int n) = Some w" "date_ymd c z = next_day (date_ymd c w)"
    unfolding chrono_calendar_def by (metis add.commute of_nat_0_le_iff of_nat_Suc)
  with Suc.IH [OF w(1)] show ?case by (simp only: w next_day_number next_day_valid) simp
qed

lemma prev_day_number: "valid_date x \<Longrightarrow> day_number (prev_day x) = day_number x - 1"
  using next_day_number [OF prev_day_valid, of x] by (simp only: next_prev_day)

lemma chrono_backward:
  assumes "chrono_calendar c" "valid_date (date_ymd c x)"
  shows "checked_add_days c x (- int n) = Some z \<Longrightarrow>
    valid_date (date_ymd c z) \<and> day_number (date_ymd c z) = day_number (date_ymd c x) - int n"
proof (induction n arbitrary: z)
  case 0
  with assms show ?case by (auto simp: chrono_calendar_def)
next
  case (Suc n)
  have "- int (Suc n) = - int n - 1" by simp
  with Suc.prems have "checked_add_days c x (- int n - 1) = Some z" by (simp only:)
  with assms(1) obtain w where
    w: "checked_add_days c x (- int n) = Some w" "date_ymd c z = prev_day (date_ymd c w)"
    unfolding chrono_calendar_def by (meson of_nat_0_le_iff)
  with Suc.IH [OF w(1)] show ?case by (simp only: w prev_day_number prev_day_valid) simp
qed

lemma date_from_unix_days_number:
  assumes "chrono_calendar c" "date_from_unix_days c days = Some x"
  shows "valid_date (date_ymd c x) \<and> day_number (date_ymd c x) = days"
proof -
  from assms(2) obtain e where e: "from_ymd_opt c 1970 1 1 = Some e" "checked_add_days c e days = Some x"
    by (auto simp: date_from_unix_days_def bind_eq_Some_conv)
  with assms(1) have "date_ymd c e = (1970, 1, 1)" "valid_date (date_ymd c e)"
    by (auto simp: chrono_calendar_def)
  then show ?thesis
    using chrono_forward [OF assms(1), of e "nat days" x] chrono_backward [OF assms(1), of e "nat (- days)" x] e
    by (cases "0 \<le> days") (simp_all add: day_number_epoch)
qed

text \<open>A calendar that satisfies the hypothesis: step through the days.\<close>

definition stepping_calendar :: "ymd chrono" where
  "stepping_calendar =
     \<lparr>from_ymd_opt = (\<lambda>y m d. if valid_ymd y m d then Some (y, m, d) else None),
      checked_add_days = (\<lambda>x n. Some (if 0 \<le> n then (next_day ^^ nat n) x else (prev_day ^^ nat (- n)) x)),
      date_ymd = (\<lambda>x. x)\<rparr>"

lemma stepping_calendar_ok: "chrono_calendar stepping_calendar"
proof -
  have "nat (n + 1) = Suc (nat n)" "nat (1 + n) = Suc (nat n)" if "0 \<le> n" for n :: int using that by auto
  then show ?thesis
    by (auto simp: chrono_calendar_def stepping_calendar_def split: if_splits)
qed

end
