(* ===== verification/Decode_Fixed.thy ===== *)
theory Decode_Fixed
  imports Arrow_Arrays Calendar
begin

text \<open>
  Fixed-width columns of \<open>decode.rs\<close>: integers, floats, booleans, decimals, UUIDs, dates, times
  and timestamps, each with its NULL sentinel. The readers check the column length against the
  row count first, then decode chunk by chunk and report the first bad row.
\<close>

subsection \<open>Lengths and primitive values\<close>

definition expect_fixed :: "u8 list \<Rightarrow> nat \<Rightarrow> nat \<Rightarrow> (unit, decode_error) result" where
  "expect_fixed bytes rows width =
     rbind (ok_or (checked_mul rows width) (InvalidColumn m_column_length)) (\<lambda>expected.
       if length bytes \<noteq> expected then Err (Length expected (length bytes)) else Ok ())"

definition decode_primitive ::
  "nat \<Rightarrow> (u8 list \<Rightarrow> 'v) \<Rightarrow> ('v \<Rightarrow> bool) \<Rightarrow> u8 list \<Rightarrow> nat \<Rightarrow> ('v primitive_array, decode_error) result" where
  "decode_primitive width decode null bytes rows =
     rbind (expect_fixed bytes rows width) (\<lambda>_.
       let values = map decode (chunks_exact width bytes)
       in Ok \<lparr>pvalues = values, pvalidity = null_buffer null values\<rparr>)"

text \<open>\<open>is_nan\<close> and \<open>is_finite\<close> on the bit patterns of \<open>f32\<close> and \<open>f64\<close>.\<close>

definition f32_is_nan :: "nat \<Rightarrow> bool" where
  "f32_is_nan bits \<longleftrightarrow> 0x7F800000 < bits mod 2 ^ 31"

definition f64_is_nan :: "nat \<Rightarrow> bool" where
  "f64_is_nan bits \<longleftrightarrow> 0x7FF0000000000000 < bits mod 2 ^ 63"

definition f32_is_finite :: "nat \<Rightarrow> bool" where
  "f32_is_finite bits \<longleftrightarrow> bits mod 2 ^ 31 < 0x7F800000"

definition f64_is_finite :: "nat \<Rightarrow> bool" where
  "f64_is_finite bits \<longleftrightarrow> bits mod 2 ^ 63 < 0x7FF0000000000000"

definition f32_nan :: nat where
  "f32_nan = 0x7FC00000"

definition f64_nan :: nat where
  "f64_nan = 0x7FF8000000000000"

subsection \<open>Booleans\<close>

definition invalid_bool :: "u8 \<Rightarrow> bool" where
  "invalid_bool value \<longleftrightarrow> value > 1 \<and> value \<noteq> 0x80"

definition decode_bool :: "u8 list \<Rightarrow> nat \<Rightarrow> (bool primitive_array, decode_error) result" where
  "decode_bool bytes rows =
     rbind (expect_fixed bytes rows 1) (\<lambda>_.
       if fold (\<lambda>value invalid. invalid \<or> invalid_bool value) bytes False
       then rbind (expect (position invalid_bool bytes)) (\<lambda>row. Err (InvalidValue row m_bool))
       else
         let values = map (\<lambda>row. bytes ! row = 1) [0..<rows];
             nulls = map_option (\<lambda>_. map (\<lambda>row. bytes ! row \<noteq> 0x80) [0..<rows])
                       (position (\<lambda>b. b = 0x80) bytes)
         in Ok \<lparr>pvalues = values, pvalidity = nulls\<rparr>)"

subsection \<open>Decimals\<close>

definition decimal_message :: "bool \<Rightarrow> string" where
  "decimal_message hugeint = (if hugeint then m_hugeint else m_decimal_precision)"

fun validate_decimal_rows :: "int \<Rightarrow> bool \<Rightarrow> nat \<Rightarrow> int list \<Rightarrow> (unit, decode_error) result" where
  "validate_decimal_rows limit hugeint row [] = Ok ()"
| "validate_decimal_rows limit hugeint row (value # vs) =
     (if value \<noteq> int_min 16 \<and> (value \<le> - limit \<or> limit \<le> value)
      then Err (InvalidValue row (decimal_message hugeint))
      else validate_decimal_rows limit hugeint (Suc row) vs)"

definition validate_decimal_values :: "int list \<Rightarrow> nat \<Rightarrow> bool \<Rightarrow> (bool list option, decode_error) result" where
  "validate_decimal_values values precision hugeint =
     rbind (validate_decimal_rows (10 ^ precision) hugeint 0 values) (\<lambda>_.
       Ok (null_buffer (\<lambda>v. v = int_min 16) values))"

text \<open>The loop of the \<open>decode_width!\<close> macro for a backing integer of \<open>w\<close> bytes.\<close>

definition decode_width :: "nat \<Rightarrow> int \<Rightarrow> bool \<Rightarrow> u8 list \<Rightarrow> ((int \<times> bool) list, decode_error) result" where
  "decode_width w limit hugeint bytes =
     try_map_from 0 (\<lambda>row chunk.
       let value = from_le chunk; null = (value = int_min w) in
       if \<not> null \<and> (value \<le> - limit \<or> limit \<le> value)
       then Err (InvalidValue row (decimal_message hugeint))
       else Ok (value, \<not> null)) (chunks_exact w bytes)"

definition finish_decimal ::
  "arrow_lib \<Rightarrow> nat \<Rightarrow> int \<Rightarrow> int primitive_array \<Rightarrow> (int primitive_array, decode_error) result" where
  "finish_decimal lib precision scale p =
     (case with_precision_and_scale lib precision scale of None \<Rightarrow> Ok p | Some e \<Rightarrow> Err (Arrow_Err e))"

definition decode_decimal ::
  "arrow_lib \<Rightarrow> u8 list \<Rightarrow> nat \<Rightarrow> nat \<Rightarrow> int \<Rightarrow> bool \<Rightarrow> (int primitive_array, decode_error) result" where
  "decode_decimal lib bytes rows precision scale hugeint =
     (if \<not> (1 \<le> precision \<and> precision \<le> 38) \<or> scale < 0 \<or> int precision < scale
      then Err (InvalidColumn m_decimal_column)
      else
       rbind (if hugeint then Ok 16 else expect (decimal_width precision)) (\<lambda>width.
       rbind (expect_fixed bytes rows width) (\<lambda>_.
       if width = 16 then
         let values = map from_le (chunks_exact 16 bytes) in
         rbind (validate_decimal_values values precision hugeint) (\<lambda>nulls.
         finish_decimal lib precision scale \<lparr>pvalues = values, pvalidity = nulls\<rparr>)
       else
         rbind (decode_width width (10 ^ precision) hugeint bytes) (\<lambda>vs.
         let validity = map snd vs in
         finish_decimal lib precision scale
           \<lparr>pvalues = map fst vs, pvalidity = (if list_ex Not validity then Some validity else None)\<rparr>))))"

subsection \<open>UUIDs\<close>

text \<open>\<open>append_value\<close> of a \<open>FixedSizeBinaryBuilder\<close> made for values of \<open>width\<close> bytes.\<close>

definition append_value :: "arrow_lib \<Rightarrow> nat \<Rightarrow> u8 list \<Rightarrow> (u8 list option, decode_error) result" where
  "append_value lib width value =
     (case append_fixed lib width value of None \<Rightarrow> Ok (Some value) | Some e \<Rightarrow> Err (Arrow_Err e))"

definition decode_uuid :: "arrow_lib \<Rightarrow> u8 list \<Rightarrow> nat \<Rightarrow> (u8 list option list, decode_error) result" where
  "decode_uuid lib bytes rows =
     rbind (expect_fixed bytes rows 16) (\<lambda>_.
       try_map (\<lambda>value. if list_all (\<lambda>b. b = 0) value then Ok None else append_value lib 16 value) (chunks_exact 16 bytes))"

subsection \<open>Dates, times and timestamps\<close>

text \<open>The values and validity a loop over optional values pushes; a NULL slot holds zero.\<close>

definition option_array :: "int option list \<Rightarrow> int primitive_array" where
  "option_array xs =
     (let validity = map (\<lambda>x. x \<noteq> None) xs
      in \<lparr>pvalues = map (\<lambda>x. case x of None \<Rightarrow> 0 | Some v \<Rightarrow> v) xs,
          pvalidity = (if list_ex Not validity then Some validity else None)\<rparr>)"

definition date_value :: "u8 list \<Rightarrow> nat \<Rightarrow> (int option, decode_error) result" where
  "date_value value row =
     (case value of
        [day, month, y0, y1] \<Rightarrow>
          if month = 0xFF then
            (if list_all (\<lambda>b. b = 0xFF) value then Ok None
             else Err (InvalidValue row m_date_partial))
          else
            let year = from_le [y0, y1] in
            if \<not> valid_ymd year (unat month) (unat day) then Err (InvalidValue row m_date)
            else
              rbind (ok_or (int_try_from 4 (days_from_civil year (unat month) (unat day)))
                      (InvalidValue row m_date32)) (\<lambda>days. Ok (Some days))
      | _ \<Rightarrow> Panic)"

definition decode_date :: "u8 list \<Rightarrow> nat \<Rightarrow> (int primitive_array, decode_error) result" where
  "decode_date bytes rows =
     rbind (expect_fixed bytes rows 4) (\<lambda>_.
     rbind (try_map_from 0 (\<lambda>row value. date_value value row) (chunks_exact 4 bytes)) (\<lambda>xs.
       Ok (option_array xs)))"

definition time_value :: "u8 list \<Rightarrow> nat \<Rightarrow> (int option, decode_error) result" where
  "time_value value row =
     (case value of
        [b0, b1, b2, b3, second, minute, hour, pad] \<Rightarrow>
          let micros = le_nat [b0, b1, b2, b3] in
          if micros = 2 ^ 32 - 1 then
            (if list_all (\<lambda>b. b = 0xFF) value then Ok None
             else Err (InvalidValue row m_time_partial))
          else if 1000000 \<le> micros \<or> 60 \<le> second \<or> 60 \<le> minute \<or> 24 \<le> hour
          then Err (InvalidValue row m_time)
          else Ok (Some (((int (unat hour) * 60 + int (unat minute)) * 60 + int (unat second)) * 1000000
                     + int micros))
      | _ \<Rightarrow> Panic)"

definition decode_time :: "u8 list \<Rightarrow> nat \<Rightarrow> (int primitive_array, decode_error) result" where
  "decode_time bytes rows =
     rbind (expect_fixed bytes rows 8) (\<lambda>_.
     rbind (try_map_from 0 (\<lambda>row value. time_value value row) (chunks_exact 8 bytes)) (\<lambda>xs.
       Ok (option_array xs)))"

definition timestamp_value :: "u8 list \<Rightarrow> nat \<Rightarrow> (int option, decode_error) result" where
  "timestamp_value value row =
     rbind (slice_at value 0 8) (\<lambda>t.
     rbind (time_value t row) (\<lambda>time.
     rbind (slice_at value 8 (length value)) (\<lambda>d.
     rbind (date_value d row) (\<lambda>date.
       case (date, time) of
         (None, None) \<Rightarrow> Ok None
       | (Some date, Some time) \<Rightarrow> Ok (Some (date * 86400000000 + time))
       | _ \<Rightarrow> Err (InvalidValue row m_timestamp_mismatch)))))"

definition decode_timestamp :: "u8 list \<Rightarrow> nat \<Rightarrow> (int primitive_array, decode_error) result" where
  "decode_timestamp bytes rows =
     rbind (expect_fixed bytes rows 12) (\<lambda>_.
     rbind (try_map_from 0 (\<lambda>row value. timestamp_value value row) (chunks_exact 12 bytes)) (\<lambda>xs.
       Ok (option_array xs)))"

subsection \<open>No reader panics, and every reader returns the declared rows\<close>

lemma expect_fixed_not_Panic [no_panic]: "expect_fixed bytes rows width \<noteq> Panic"
  unfolding expect_fixed_def by (intro no_panic)

lemma expect_fixed_Ok: "expect_fixed bytes rows width = Ok u \<longleftrightarrow> rows * width \<le> usize_max \<and> length bytes = rows * width"
  by (auto simp: expect_fixed_def result_simps)

lemma expect_fixed_chunks:
  "expect_fixed bytes rows width = Ok u \<Longrightarrow> 0 < width \<Longrightarrow> length (chunks_exact width bytes) = rows"
  by (auto simp: expect_fixed_Ok intro: length_chunks_exact)

lemma decode_primitive_not_Panic [no_panic]: "decode_primitive width decode null bytes rows \<noteq> Panic"
  unfolding decode_primitive_def Let_def by (intro no_panic)

lemma decode_primitive_Ok:
  assumes "decode_primitive width decode null bytes rows = Ok p" "0 < width"
  shows "length (pvalues p) = rows \<and> wf_primitive p"
proof -
  from assms(1) obtain u where u: "expect_fixed bytes rows width = Ok u"
    and p: "p = \<lparr>pvalues = map decode (chunks_exact width bytes),
      pvalidity = null_buffer null (map decode (chunks_exact width bytes))\<rparr>"
    by (auto simp: decode_primitive_def Let_def result_simps)
  from expect_fixed_chunks [OF u assms(2)] p show ?thesis by simp
qed

lemma fold_invalid: "fold (\<lambda>v invalid. invalid \<or> P v) xs b \<longleftrightarrow> b \<or> list_ex P xs"
  by (induction xs arbitrary: b) auto

lemma decode_bool_not_Panic [no_panic]: "decode_bool bytes rows \<noteq> Panic"
proof -
  have "position invalid_bool bytes \<noteq> None" if "list_ex invalid_bool bytes"
    using that by (auto simp: position_None_iff list_ex_iff)
  then show ?thesis
    unfolding decode_bool_def Let_def
    by (intro no_panic) (auto simp: fold_invalid)
qed

lemma decode_bool_Ok: "decode_bool bytes rows = Ok p \<Longrightarrow> length (pvalues p) = rows \<and> wf_primitive p"
  by (auto simp: decode_bool_def Let_def result_simps wf_primitive_def split: if_splits option.splits)

lemma validate_decimal_rows_not_Panic [no_panic]: "validate_decimal_rows limit hugeint row vs \<noteq> Panic"
  by (induction vs arbitrary: row) auto

lemma finish_decimal_not_Panic [no_panic]: "finish_decimal lib precision scale p \<noteq> Panic"
  by (simp add: finish_decimal_def split: option.splits)

lemma decimal_width_Some: "1 \<le> p \<Longrightarrow> p \<le> 38 \<Longrightarrow> \<exists>w. decimal_width p = Some w \<and> 0 < w"
  by (auto simp: decimal_width_def)

lemma decode_decimal_not_Panic [no_panic]: "decode_decimal lib bytes rows precision scale hugeint \<noteq> Panic"
  unfolding decode_decimal_def Let_def validate_decimal_values_def decode_width_def
  by (intro no_panic) (auto simp: decimal_width_def split: if_splits)

lemma decode_width_length: "decode_width w limit hugeint bytes = Ok vs \<Longrightarrow> length vs = length (chunks_exact w bytes)"
  unfolding decode_width_def by (rule try_map_from_length)

lemma finish_decimal_Ok: "finish_decimal lib precision scale p = Ok q \<Longrightarrow> q = p"
  by (auto simp: finish_decimal_def split: option.splits)

lemma decode_decimal_Ok:
  assumes "decode_decimal lib bytes rows precision scale hugeint = Ok p"
  shows "length (pvalues p) = rows \<and> wf_primitive p"
proof -
  from assms have pr: "1 \<le> precision" "precision \<le> 38" by (auto simp: decode_decimal_def split: if_splits)
  define width where "width = (if hugeint then 16 else the (decimal_width precision))"
  have w: "(if hugeint then Ok 16 else expect (decimal_width precision)) = (Ok width :: (_, decode_error) result)" "0 < width"
    using decimal_width_Some [OF pr] by (auto simp: width_def)
  with assms obtain u where u: "expect_fixed bytes rows width = Ok u"
    by (auto simp: decode_decimal_def result_simps split: if_splits)
  have n: "length (chunks_exact width bytes) = rows" by (rule expect_fixed_chunks [OF u w(2)])
  show ?thesis
  proof (cases "width = 16")
    case True
    with assms w u have "pvalues p = map from_le (chunks_exact 16 bytes)"
      "pvalidity p = null_buffer (\<lambda>v. v = int_min 16) (map from_le (chunks_exact 16 bytes))"
      by (auto simp: decode_decimal_def validate_decimal_values_def Let_def result_simps
          dest!: finish_decimal_Ok split: if_splits)
    with n True show ?thesis by (simp add: wf_primitive_def null_buffer_def)
  next
    case False
    with assms w u obtain vs where "decode_width width (10 ^ precision) hugeint bytes = Ok vs"
      "pvalues p = map fst vs" "pvalidity p = (if list_ex Not (map snd vs) then Some (map snd vs) else None)"
      by (auto simp: decode_decimal_def Let_def result_simps dest!: finish_decimal_Ok split: if_splits)
    with n decode_width_length show ?thesis by (fastforce simp: wf_primitive_def)
  qed
qed

lemma append_value_not_Panic [no_panic]: "append_value lib width value \<noteq> Panic"
  by (simp add: append_value_def split: option.split)

lemma decode_uuid_not_Panic [no_panic]: "decode_uuid lib bytes rows \<noteq> Panic"
  unfolding decode_uuid_def by (intro no_panic)

lemma decode_uuid_Ok: "decode_uuid lib bytes rows = Ok vs \<Longrightarrow> length vs = rows"
  by (auto simp: decode_uuid_def result_simps expect_fixed_chunks dest: try_map_length)

text \<open>With a builder that takes values of its own width, every row is appended.\<close>

lemma decode_uuid_documented:
  assumes "arrow_documented lib" "expect_fixed bytes rows 16 = Ok u"
  shows "decode_uuid lib bytes rows =
    Ok (map (\<lambda>value. if list_all (\<lambda>b. b = 0) value then None else Some value) (chunks_exact 16 bytes))"
proof -
  have a: "append_value lib 16 v = Ok (Some v)" if "length v = 16" for v
  proof -
    have "append_fixed lib 16 v = None" using assms(1) that unfolding arrow_documented_def by blast
    then show ?thesis by (simp add: append_value_def)
  qed
  have "try_map (\<lambda>value. if list_all (\<lambda>b. b = 0) value then Ok None else append_value lib 16 value) cs =
      Ok (map (\<lambda>value. if list_all (\<lambda>b. b = 0) value then None else Some value) cs)"
    if "\<forall>c \<in> set cs. length c = 16" for cs
    using that by (induction cs) (auto simp: a)
  moreover have "\<forall>c \<in> set (chunks_exact 16 bytes). length c = 16" using chunks_exact_widths by blast
  ultimately show ?thesis using assms(2) by (simp add: decode_uuid_def)
qed

lemma option_array_logical [simp]: "logical (option_array xs) = xs"
proof (intro nth_equalityI)
  fix i assume "i < length (logical (option_array xs))"
  then have i: "i < length xs" by (simp add: option_array_def Let_def)
  then have "xs ! i = None \<Longrightarrow> list_ex Not (map (\<lambda>x. x \<noteq> None) xs)" by (auto simp: list_ex_iff dest: nth_mem)
  with i show "logical (option_array xs) ! i = xs ! i"
    by (auto simp: option_array_def Let_def logical_def is_null_def split: option.splits)
qed (simp add: option_array_def Let_def)

lemma option_array_wf [simp]: "wf_primitive (option_array xs)" "length (pvalues (option_array xs)) = length xs"
  by (simp_all add: option_array_def Let_def wf_primitive_def)

lemma date_value_not_Panic [no_panic]: "length v = 4 \<Longrightarrow> date_value v row \<noteq> Panic"
proof -
  assume "length v = 4"
  then obtain a b c d where v: "v = [a, b, c, d]" by (auto simp: length_Suc_conv eval_nat_numeral)
  show ?thesis unfolding v date_value_def Let_def list.case by (intro no_panic)
qed

lemma time_value_not_Panic [no_panic]: "length v = 8 \<Longrightarrow> time_value v row \<noteq> Panic"
proof -
  assume "length v = 8"
  then obtain a b c d e f g h where v: "v = [a, b, c, d, e, f, g, h]"
    by (auto simp: length_Suc_conv eval_nat_numeral)
  show ?thesis unfolding v time_value_def Let_def list.case by (intro no_panic)
qed

lemma timestamp_value_not_Panic [no_panic]: "length v = 12 \<Longrightarrow> timestamp_value v row \<noteq> Panic"
  unfolding timestamp_value_def
  by (auto simp: result_simps time_value_not_Panic date_value_not_Panic split: option.splits)

lemma chunked_reader:
  assumes "\<And>row v. length v = width \<Longrightarrow> f row v \<noteq> Panic"
  shows "rbind (expect_fixed bytes rows width) (\<lambda>_. rbind (try_map_from 0 f (chunks_exact width bytes)) (\<lambda>xs.
      Ok (option_array xs))) \<noteq> Panic"
  by (intro no_panic assms) (auto dest: chunks_exact_widths)

lemma chunked_reader_Ok:
  assumes "rbind (expect_fixed bytes rows width) (\<lambda>_. rbind (try_map_from 0 f (chunks_exact width bytes)) (\<lambda>xs.
      Ok (option_array xs))) = Ok p" "0 < width"
  shows "length (pvalues p) = rows \<and> wf_primitive p"
  using assms by (auto simp: result_simps expect_fixed_chunks dest: try_map_from_length)

lemma decode_temporal_not_Panic [no_panic]:
  "decode_date bytes rows \<noteq> Panic" "decode_time bytes rows \<noteq> Panic" "decode_timestamp bytes rows \<noteq> Panic"
  unfolding decode_date_def decode_time_def decode_timestamp_def
  by (intro chunked_reader no_panic; assumption)+

lemma decode_temporal_Ok:
  "decode_date bytes rows = Ok p \<Longrightarrow> length (pvalues p) = rows \<and> wf_primitive p"
  "decode_time bytes rows = Ok p \<Longrightarrow> length (pvalues p) = rows \<and> wf_primitive p"
  "decode_timestamp bytes rows = Ok p \<Longrightarrow> length (pvalues p) = rows \<and> wf_primitive p"
  unfolding decode_date_def decode_time_def decode_timestamp_def
  by (erule chunked_reader_Ok, simp)+

end
