(* ===== verification/Inet_Text.thy ===== *)
theory Inet_Text
  imports Text
begin

text \<open>
  The text of IP addresses: \<open>push_u8_decimal\<close> and the dotted quad the decoder writes, the
  \<open>Display\<close> of \<open>std::net::Ipv6Addr\<close>, and the parsers of \<open>std::net\<close> the encoder calls.
\<close>

subsection \<open>IPv4\<close>

definition push_u8_decimal :: "u8 list \<Rightarrow> u8 \<Rightarrow> u8 list" where
  "push_u8_decimal out value =
     out @ (if 100 \<le> value then [0x30 + value div 100] else [])
         @ (if 10 \<le> value then [0x30 + (value div 10) mod 10] else [])
         @ [0x30 + value mod 10]"

definition ipv4_text :: "u8 \<Rightarrow> u8 \<Rightarrow> u8 \<Rightarrow> u8 \<Rightarrow> u8 list" where
  "ipv4_text a b c d =
     push_u8_decimal (push_u8_decimal (push_u8_decimal (push_u8_decimal [] a @ [0x2E]) b @ [0x2E]) c
       @ [0x2E]) d"

text \<open>The address parser of the standard library: a value and the rest of the input.\<close>

type_synonym 'a parser = "u8 list \<Rightarrow> ('a \<times> u8 list) option"

definition to_digit :: "nat \<Rightarrow> u8 \<Rightarrow> nat option" where
  "to_digit radix b =
     (let v = (if 0x30 \<le> b \<and> b \<le> 0x39 then Some (unat b - 0x30)
               else if 0x61 \<le> b \<and> b \<le> 0x7A then Some (unat b - 0x61 + 10)
               else if 0x41 \<le> b \<and> b \<le> 0x5A then Some (unat b - 0x41 + 10)
               else None)
      in case v of None \<Rightarrow> None | Some d \<Rightarrow> if d < radix then Some d else None)"

fun read_digits :: "nat \<Rightarrow> nat \<Rightarrow> nat \<Rightarrow> nat \<Rightarrow> u8 list \<Rightarrow> (nat \<times> nat \<times> u8 list) option" where
  "read_digits radix max_digits cnt acc [] = Some (acc, cnt, [])"
| "read_digits radix max_digits cnt acc (b # bs) =
     (case to_digit radix b of
        None \<Rightarrow> Some (acc, cnt, b # bs)
      | Some d \<Rightarrow>
          if max_digits < cnt + 1 then None
          else read_digits radix max_digits (cnt + 1) (acc * radix + d) bs)"

definition read_number :: "nat \<Rightarrow> nat \<Rightarrow> bool \<Rightarrow> nat \<Rightarrow> nat parser" where
  "read_number radix max_digits allow_zero_prefix maximum bs =
     (case read_digits radix max_digits 0 0 bs of
        None \<Rightarrow> None
      | Some (v, cnt, rest) \<Rightarrow>
          if cnt = 0 then None
          else if \<not> allow_zero_prefix \<and> get bs 0 = Some 0x30 \<and> 1 < cnt then None
          else if v \<le> maximum then Some (v, rest) else None)"

definition read_given :: "u8 \<Rightarrow> unit parser" where
  "read_given c bs = (case bs of [] \<Rightarrow> None | b # r \<Rightarrow> if b = c then Some ((), r) else None)"

definition read_octet :: "nat \<Rightarrow> u8 parser" where
  "read_octet index bs =
     Option.bind (if 0 < index then map_option snd (read_given 0x2E bs) else Some bs) (\<lambda>r.
       map_option (\<lambda>(v, rest). (word_of_nat v, rest)) (read_number 10 3 False 255 r))"

definition read_ipv4_addr :: "(u8 list) parser" where
  "read_ipv4_addr bs =
     Option.bind (read_octet 0 bs) (\<lambda>(a, r1).
     Option.bind (read_octet 1 r1) (\<lambda>(b, r2).
     Option.bind (read_octet 2 r2) (\<lambda>(c, r3).
     Option.bind (read_octet 3 r3) (\<lambda>(d, r4). Some ([a, b, c, d], r4)))))"

definition parse_ipv4 :: "u8 list \<Rightarrow> u8 list option" where
  "parse_ipv4 bs =
     (if 15 < length bs then None
      else case read_ipv4_addr bs of
        Some (octets, []) \<Rightarrow> Some octets
      | _ \<Rightarrow> None)"

subsection \<open>IPv6\<close>

fun segments :: "u8 list \<Rightarrow> nat list" where
  "segments (hi # lo # bs) = (256 * unat hi + unat lo) # segments bs"
| "segments _ = []"

text \<open>The longest run of zero segments: its start and length, the first one among equals.\<close>

fun zero_span :: "nat \<Rightarrow> nat \<times> nat \<Rightarrow> nat \<times> nat \<Rightarrow> nat list \<Rightarrow> nat \<times> nat" where
  "zero_span i current longest [] = longest"
| "zero_span i current longest (s # ss) =
     (if s = 0 then
        let current = ((if snd current = 0 then i else fst current), snd current + 1);
            longest = (if snd longest < snd current then current else longest)
        in zero_span (i + 1) current longest ss
      else zero_span (i + 1) (0, 0) longest ss)"

definition hex_digit :: "nat \<Rightarrow> u8" where
  "hex_digit d = word_of_nat (if d < 10 then 0x30 + d else 0x61 + (d - 10))"

function print_hex :: "nat \<Rightarrow> u8 list" where
  "print_hex n = (if n < 16 then [hex_digit n] else print_hex (n div 16) @ [hex_digit (n mod 16)])"
  by pat_completeness auto
termination
  by (relation "measure id") auto

declare print_hex.simps [simp del]

fun fmt_subslice :: "nat list \<Rightarrow> u8 list" where
  "fmt_subslice [] = []"
| "fmt_subslice (s # ss) = print_hex s @ concat (map (\<lambda>t. 0x3A # print_hex t) ss)"

definition ipv6_text :: "u8 list \<Rightarrow> u8 list" where
  "ipv6_text octets =
     (let ss = segments octets in
      if take 10 octets = replicate 10 0 \<and> take 2 (drop 10 octets) = [0xFF, 0xFF]
      then [0x3A, 0x3A, 0x66, 0x66, 0x66, 0x66, 0x3A]
             @ (case drop 12 octets of
                  [a, b, c, d] \<Rightarrow> ipv4_text a b c d
                | _ \<Rightarrow> [])
      else
        let (start, len) = zero_span 0 (0, 0) (0, 0) ss in
        if 1 < len then fmt_subslice (take start ss) @ [0x3A, 0x3A] @ fmt_subslice (drop (start + len) ss)
        else fmt_subslice ss)"

fun read_groups :: "nat \<Rightarrow> nat \<Rightarrow> nat \<Rightarrow> u8 list \<Rightarrow> nat list \<times> bool \<times> u8 list" where
  "read_groups 0 i limit bs = ([], False, bs)"
| "read_groups (Suc fuel) i limit bs =
     (let sep = (if 0 < i then map_option snd (read_given 0x3A bs) else Some bs);
          v4 = (if i + 1 < limit then Option.bind sep read_ipv4_addr else None)
      in case v4 of
           Some ([a, b, c, d], rest) \<Rightarrow> ([256 * unat a + unat b, 256 * unat c + unat d], True, rest)
         | _ \<Rightarrow>
           (case Option.bind sep (read_number 16 4 True 65535) of
              None \<Rightarrow> ([], False, bs)
            | Some (g, rest) \<Rightarrow>
                let (gs, v, rest') = read_groups fuel (i + 1) limit rest in (g # gs, v, rest')))"

definition read_ipv6_addr :: "(nat list) parser" where
  "read_ipv6_addr bs =
     (let (head, head_v4, r) = read_groups 8 0 8 bs in
      if length head = 8 then Some (head, r)
      else if head_v4 then None
      else
       Option.bind (read_given 0x3A r) (\<lambda>(_, r1).
       Option.bind (read_given 0x3A r1) (\<lambda>(_, r2).
        let limit = 8 - (length head + 1);
            (tail, _, r3) = read_groups limit 0 limit r2
        in Some (head @ replicate (8 - length head - length tail) 0 @ tail, r3))))"

definition parse_ipv6 :: "u8 list \<Rightarrow> u8 list option" where
  "parse_ipv6 bs =
     (case read_ipv6_addr bs of
        Some (groups, []) \<Rightarrow> Some (concat (map (\<lambda>g. [word_of_nat (g div 256), word_of_nat (g mod 256)]) groups))
      | _ \<Rightarrow> None)"

subsection \<open>Lengths\<close>

lemma push_u8_decimal_length: "length (push_u8_decimal out v) \<le> length out + 3"
  by (simp add: push_u8_decimal_def)

lemma ipv4_text_length: "length (ipv4_text a b c d) \<le> 15"
proof -
  have "length (push_u8_decimal out v @ [x]) \<le> length out + 4" for out v and x :: u8
    using push_u8_decimal_length [of out v] by simp
  from push_u8_decimal_length [of "push_u8_decimal (push_u8_decimal (push_u8_decimal [] a @ [0x2E]) b @ [0x2E]) c @ [0x2E]" d]
    this [of "push_u8_decimal (push_u8_decimal [] a @ [0x2E]) b @ [0x2E]" c "0x2E"]
    this [of "push_u8_decimal [] a @ [0x2E]" b "0x2E"] this [of "[]" a "0x2E"]
  show ?thesis unfolding ipv4_text_def by simp
qed

lemma print_hex_length: "n < 16 ^ Suc k \<Longrightarrow> length (print_hex n) \<le> Suc k"
proof (induction k arbitrary: n)
  case (Suc k)
  then have "n div 16 < 16 ^ Suc k" by (simp add: less_mult_imp_div_less mult.commute)
  with Suc.IH show ?case by (subst print_hex.simps) simp
qed (simp add: print_hex.simps)

lemma segments_bounds: "\<forall>s \<in> set (segments octets). s < 65536"
proof (induction octets rule: segments.induct)
  case (1 hi lo bs)
  have "unat hi < 256" "unat lo < 256"
    using unsigned_less [of hi, where 'a = nat] unsigned_less [of lo, where 'a = nat] by simp_all
  with 1 show ?case by simp
qed simp_all

lemma segments_length: "length (segments octets) = length octets div 2"
  by (induction octets rule: segments.induct) auto

lemma fmt_subslice_length: "\<forall>s \<in> set ss. s < 65536 \<Longrightarrow> length (fmt_subslice ss) \<le> 5 * length ss - 1"
proof (cases ss)
  case (Cons s rest)
  assume b: "\<forall>s \<in> set ss. s < 65536"
  have h: "length (print_hex s) \<le> 4" if "s < 65536" for s using print_hex_length [of s 3] that by simp
  have "length (concat (map (\<lambda>t. 0x3A # print_hex t) rest)) \<le> 5 * length rest"
    if "\<forall>s \<in> set rest. s < 65536" for rest
    using that h by (induction rest) (auto, fastforce)
  from this [of rest] h [of s] b Cons show ?thesis by simp
qed simp

lemma zero_span_bounds:
  "snd current = 0 \<or> fst current + snd current = i \<Longrightarrow> fst longest + snd longest \<le> i \<Longrightarrow>
   fst (zero_span i current longest ss) + snd (zero_span i current longest ss) \<le> i + length ss"
proof (induction ss arbitrary: i current longest)
  case (Cons s ss)
  let ?current = "((if snd current = 0 then i else fst current), snd current + 1)"
  let ?longest = "if snd longest < snd ?current then ?current else longest"
  show ?case
    using Cons.IH [of ?current "i + 1" ?longest] Cons.IH [of "(0, 0)" "i + 1" longest] Cons.prems
    by (auto simp: Let_def)
qed simp

lemma ipv6_text_length:
  assumes "length octets = 16"
  shows "length (ipv6_text octets) \<le> 39"
proof -
  let ?ss = "segments octets"
  obtain start len where z: "zero_span 0 (0, 0) (0, 0) ?ss = (start, len)" by force
  have n: "length ?ss = 8" using assms by (simp add: segments_length)
  have le: "start + len \<le> 8" using zero_span_bounds [of "(0, 0)" 0 "(0, 0)" ?ss] z n by simp
  have f: "length (fmt_subslice ss) \<le> 5 * length ss - 1" if "set ss \<subseteq> set ?ss" for ss
    using that segments_bounds [of octets] by (intro fmt_subslice_length) blast
  have "length (fmt_subslice (take start ?ss)) \<le> 5 * start"
    "length (fmt_subslice (drop (start + len) ?ss)) \<le> 5 * (8 - (start + len))" "length (fmt_subslice ?ss) \<le> 39"
    using f [of "take start ?ss"] f [of "drop (start + len) ?ss"] f [of ?ss] set_take_subset set_drop_subset n le by fastforce+
  moreover have "length (ipv4_text a b c d) \<le> 32" for a b c d using ipv4_text_length [of a b c d] by simp
  ultimately show ?thesis
    using le by (auto simp: ipv6_text_def z Let_def split: list.split)
qed

end
