(* ===== verification/Decode_Var.thy ===== *)
theory Decode_Var
  imports Decode_Fixed Inet_Text
begin

text \<open>
  Variable-width columns of \<open>decode.rs\<close>: strings with NULL markers and back-references, blobs, and
  addresses. Each loop of the source is one step function (one iteration: the row, the position
  and the number of value bytes so far) and its iteration over the rows; the values appended so
  far are both the contents of the array builder and the back-reference history.
\<close>

subsection \<open>Back-references\<close>

fun long_backref_loop :: "nat \<Rightarrow> nat \<Rightarrow> nat \<Rightarrow> nat \<Rightarrow> u8 list \<Rightarrow> (nat \<times> nat, decode_error) result" where
  "long_backref_loop row index distance shift [] = Err (InvalidBackref row)"
| "long_backref_loop row index distance shift (byte # bs) =
     (let low = unat byte mod 128 in
      if usize_max div 2 ^ shift < low then Err (InvalidBackref row)
      else
       rbind (ok_or (checked_add distance (low * 2 ^ shift)) (InvalidBackref row)) (\<lambda>distance.
       if byte < 0x80 then Ok (distance, index + 1)
       else if shift + 7 < 64 then long_backref_loop row (index + 1) distance (shift + 7) bs
       else Err (InvalidBackref row)))"

definition long_backref :: "u8 list \<Rightarrow> nat \<Rightarrow> (nat \<times> nat, decode_error) result" where
  "long_backref bytes row = long_backref_loop row 0 0 0 bytes"

definition backref_value :: "nat \<Rightarrow> nat \<Rightarrow> 'v list \<Rightarrow> ('v, decode_error) result" where
  "backref_value row distance history =
     (if row < distance then Err (InvalidBackref row)
      else ok_or (get history (row - distance)) (InvalidBackref row))"

subsection \<open>Strings\<close>

text \<open>The literal string at a position: its bytes and the position after its terminator.\<close>

definition literal_at :: "u8 list \<Rightarrow> nat \<Rightarrow> nat \<Rightarrow> (u8 list \<times> nat, decode_error) result" where
  "literal_at bytes row pos =
     rbind (slice_at bytes pos (length bytes)) (\<lambda>tail.
     rbind (ok_or (position (\<lambda>b. b = 0) tail) (InvalidValue row m_string_nul)) (\<lambda>end.
     rbind (slice_at tail 0 end) (\<lambda>value.
       if \<not> utf8_valid value then Err (InvalidUtf8 row) else Ok (value, pos + end + 1))))"

text \<open>One iteration without back-references; \<open>Ok None\<close> gives up in favour of the other path.\<close>

definition plain_step ::
  "u8 list \<Rightarrow> nat \<Rightarrow> nat \<Rightarrow> nat \<Rightarrow> ((u8 list option \<times> nat \<times> nat) option, decode_error) result" where
  "plain_step bytes row pos value_bytes =
     (case get bytes pos of
        None \<Rightarrow> Err (Length (pos + 1) (length bytes))
      | Some first \<Rightarrow>
          if first = 0x80 then
            rbind (slice_at bytes (pos + 1) (length bytes)) (\<lambda>tail.
            rbind (long_backref tail row) (\<lambda>(distance, consumed).
              if distance \<noteq> 0 then Ok None
              else Ok (Some (None, pos + (consumed + 1), value_bytes))))
          else if 0x81 \<le> first \<and> first \<le> 0xBF then Ok None
          else
            rbind (literal_at bytes row pos) (\<lambda>(value, pos').
            rbind (ok_or (checked_add value_bytes (length value)) (InvalidValue row m_utf8_length)) (\<lambda>vb.
              if i32_max < vb then Err (InvalidValue row m_utf8_limit)
              else Ok (Some (Some value, pos', vb)))))"

fun plain_loop ::
  "u8 list \<Rightarrow> nat \<Rightarrow> nat \<Rightarrow> nat \<Rightarrow> nat \<Rightarrow> u8 list option list
    \<Rightarrow> ((u8 list option list \<times> nat) option, decode_error) result" where
  "plain_loop bytes 0 row pos value_bytes acc = Ok (Some (acc, pos))"
| "plain_loop bytes (Suc n) row pos value_bytes acc =
     rbind (plain_step bytes row pos value_bytes) (\<lambda>step.
       case step of
         None \<Rightarrow> Ok None
       | Some (value, pos, value_bytes) \<Rightarrow>
           plain_loop bytes n (row + 1) pos value_bytes (acc @ [value]))"

definition decode_strings_without_backrefs ::
  "u8 list \<Rightarrow> nat \<Rightarrow> (u8 list option list option, decode_error) result" where
  "decode_strings_without_backrefs bytes rows =
     rbind (plain_loop bytes rows 0 0 0 []) (\<lambda>r.
       case r of
         None \<Rightarrow> Ok None
       | Some (values, pos) \<Rightarrow>
           if pos \<noteq> length bytes then Err (Length pos (length bytes)) else Ok (Some values))"

definition expansion_limit :: "u8 list \<Rightarrow> nat" where
  "expansion_limit bytes = max (saturating_mul (length bytes) 16) (1024 * 1024)"

definition backref_read ::
  "u8 list \<Rightarrow> nat \<Rightarrow> nat \<Rightarrow> u8 list option list \<Rightarrow> (u8 list option \<times> nat, decode_error) result" where
  "backref_read bytes row pos history =
     (case get bytes pos of
        None \<Rightarrow> Err (Length (pos + 1) (length bytes))
      | Some first \<Rightarrow>
          if first = 0x80 then
            rbind (slice_at bytes (pos + 1) (length bytes)) (\<lambda>tail.
            rbind (long_backref tail row) (\<lambda>(distance, consumed).
              if distance = 0 then Ok (None, pos + (consumed + 1))
              else rbind (backref_value row distance history) (\<lambda>v. Ok (v, pos + (consumed + 1)))))
          else if 0x81 \<le> first \<and> first \<le> 0xBF then
            rbind (backref_value row (unat (first - 0x80)) history) (\<lambda>v. Ok (v, pos + 1))
          else rbind (literal_at bytes row pos) (\<lambda>(value, pos'). Ok (Some value, pos')))"

definition backref_step ::
  "u8 list \<Rightarrow> nat \<Rightarrow> nat \<Rightarrow> nat \<Rightarrow> u8 list option list
    \<Rightarrow> (u8 list option \<times> nat \<times> nat, decode_error) result" where
  "backref_step bytes row pos value_bytes history =
     rbind (backref_read bytes row pos history) (\<lambda>(value, pos').
       case value of
         None \<Rightarrow> Ok (None, pos', value_bytes)
       | Some v \<Rightarrow>
           rbind (ok_or (checked_add value_bytes (length v)) (InvalidValue row m_utf8_length)) (\<lambda>vb.
             if i32_max < vb \<or> expansion_limit bytes < vb then Err (InvalidValue row m_backref_expand)
             else Ok (value, pos', vb)))"

fun backref_loop ::
  "u8 list \<Rightarrow> nat \<Rightarrow> nat \<Rightarrow> nat \<Rightarrow> nat \<Rightarrow> u8 list option list
    \<Rightarrow> (u8 list option list \<times> nat, decode_error) result" where
  "backref_loop bytes 0 row pos value_bytes history = Ok (history, pos)"
| "backref_loop bytes (Suc n) row pos value_bytes history =
     rbind (backref_step bytes row pos value_bytes history) (\<lambda>(value, pos, value_bytes).
       backref_loop bytes n (row + 1) pos value_bytes (history @ [value]))"

definition decode_strings_with_backrefs ::
  "u8 list \<Rightarrow> nat \<Rightarrow> (u8 list option list, decode_error) result" where
  "decode_strings_with_backrefs bytes rows =
     rbind (backref_loop bytes rows 0 0 0 []) (\<lambda>(values, pos).
       if pos \<noteq> length bytes then Err (Length pos (length bytes)) else Ok values)"

definition decode_strings :: "u8 list \<Rightarrow> nat \<Rightarrow> (u8 list option list, decode_error) result" where
  "decode_strings bytes rows =
     (if length bytes < rows then Err (InvalidColumn m_string_short)
      else if i32_max < length bytes then Err (InvalidColumn m_utf8_limit)
      else
       rbind (decode_strings_without_backrefs bytes rows) (\<lambda>r.
         case r of
           Some array \<Rightarrow> Ok array
         | None \<Rightarrow> decode_strings_with_backrefs bytes rows))"

subsection \<open>Blobs\<close>

definition blob_step ::
  "u8 list \<Rightarrow> nat \<Rightarrow> nat \<Rightarrow> nat \<Rightarrow> (u8 list option \<times> nat \<times> nat, decode_error) result" where
  "blob_step bytes row pos value_bytes =
     rbind (ok_or (checked_add pos 8) (InvalidValue row m_blob_header_offset)) (\<lambda>header_end.
     rbind (ok_or (get_range bytes pos header_end) (Length header_end (length bytes))) (\<lambda>header.
     let len = from_le header; pos = pos + 8 in
     if len = -1 then Ok (None, pos, value_bytes)
     else if len < -1 then Err (InvalidValue row m_blob_negative)
     else
      rbind (ok_or (usize_try_from len) (InvalidValue row m_blob_memory)) (\<lambda>len.
      rbind (ok_or (checked_add pos len) (InvalidValue row m_blob_offset)) (\<lambda>value_end.
      rbind (ok_or (get_range bytes pos value_end) (Length value_end (length bytes))) (\<lambda>value.
      rbind (ok_or (checked_add value_bytes len) (InvalidValue row m_blob_length)) (\<lambda>vb.
        if i32_max < vb then Err (InvalidValue row m_blob_limit)
        else Ok (Some value, pos + len, vb)))))))"

fun blob_loop ::
  "u8 list \<Rightarrow> nat \<Rightarrow> nat \<Rightarrow> nat \<Rightarrow> nat \<Rightarrow> (u8 list option list \<times> nat, decode_error) result" where
  "blob_loop bytes 0 row pos value_bytes = Ok ([], pos)"
| "blob_loop bytes (Suc n) row pos value_bytes =
     rbind (blob_step bytes row pos value_bytes) (\<lambda>(value, pos, value_bytes).
     rbind (blob_loop bytes n (row + 1) pos value_bytes) (\<lambda>(values, pos). Ok (value # values, pos)))"

definition decode_blob :: "u8 list \<Rightarrow> nat \<Rightarrow> (u8 list option list, decode_error) result" where
  "decode_blob bytes rows =
     rbind (ok_or (checked_mul rows 8) (InvalidColumn m_blob_header_length)) (\<lambda>minimum.
     if length bytes < minimum then Err (Length minimum (length bytes))
     else if i32_max < length bytes - minimum then Err (InvalidColumn m_blob_limit)
     else
      rbind (blob_loop bytes rows 0 0 0) (\<lambda>(values, pos).
        if pos \<noteq> length bytes then Err (Length pos (length bytes)) else Ok values))"

subsection \<open>Addresses\<close>

definition inet_value :: "nat \<Rightarrow> u8 list \<Rightarrow> u8 list option" where
  "inet_value width value =
     (if list_all (\<lambda>b. b = 0) value then None
      else if width = 4 then Some (ipv4_text (value ! 0) (value ! 1) (value ! 2) (value ! 3))
      else Some (ipv6_text value))"

text \<open>
  The \<open>StringBuilder\<close> of Arrow: \<open>with_capacity\<close> panics when the bytes reserved, rounded up to 64, are no
  layout of alignment 128, and appending panics when the text bytes so far are no 32-bit offset.
\<close>

definition mutable_buffer_max :: nat where "mutable_buffer_max = 2 ^ 63 - 128"

fun append_values :: "nat \<Rightarrow> u8 list option list \<Rightarrow> (u8 list option list, decode_error) result" where
  "append_values value_bytes [] = Ok []"
| "append_values value_bytes (value # values) =
     (let value_bytes = value_bytes + (case value of None \<Rightarrow> 0 | Some text \<Rightarrow> length text)
      in if i32_max < value_bytes then Panic
         else rbind (append_values value_bytes values) (\<lambda>values. Ok (value # values)))"

definition decode_inet :: "u8 list \<Rightarrow> nat \<Rightarrow> (u8 list option list, decode_error) result" where
  "decode_inet bytes rows =
     rbind (if length bytes = saturating_mul rows 4 then Ok 4
            else if length bytes = saturating_mul rows 16 then Ok 16
            else Err (InvalidColumn m_inet_length)) (\<lambda>width.
       if mutable_buffer_max < saturating_mul rows 39 then Panic
       else append_values 0 (map (inet_value width) (chunks_exact width bytes)))"

subsection \<open>No reader panics\<close>

lemma long_backref_loop_not_Panic [no_panic]: "long_backref_loop row index distance shift bs \<noteq> Panic"
  by (induction bs arbitrary: index distance shift) (auto simp: Let_def result_simps)

lemma long_backref_not_Panic [no_panic]: "long_backref bs row \<noteq> Panic"
  by (simp add: long_backref_def long_backref_loop_not_Panic)

lemma backref_value_not_Panic [no_panic]: "backref_value row distance history \<noteq> Panic"
  by (simp add: backref_value_def)

lemma literal_at_not_Panic [no_panic]: "pos \<le> length bytes \<Longrightarrow> literal_at bytes row pos \<noteq> Panic"
  by (auto simp: literal_at_def result_simps dest!: position_less)

lemma get_Some_less: "get xs i = Some x \<Longrightarrow> i < length xs"
  by (simp add: get_def split: if_splits)

lemma plain_step_not_Panic [no_panic]: "plain_step bytes row pos vb \<noteq> Panic"
  unfolding plain_step_def
  by (intro no_panic) (auto simp: result_simps dest: get_Some_less split: if_splits)

lemma plain_loop_not_Panic [no_panic]: "plain_loop bytes n row pos vb acc \<noteq> Panic"
  by (induction n arbitrary: row pos vb acc) (auto simp: result_simps plain_step_not_Panic split: option.splits)

lemma backref_step_not_Panic [no_panic]: "backref_step bytes row pos vb history \<noteq> Panic"
  unfolding backref_step_def backref_read_def
  by (intro no_panic) (auto simp: result_simps dest: get_Some_less split: if_splits)

lemma backref_loop_not_Panic [no_panic]: "backref_loop bytes n row pos vb history \<noteq> Panic"
  by (induction n arbitrary: row pos vb history) (auto simp: result_simps backref_step_not_Panic)

lemma decode_strings_not_Panic [no_panic]: "decode_strings bytes rows \<noteq> Panic"
  unfolding decode_strings_def decode_strings_without_backrefs_def decode_strings_with_backrefs_def
  by (intro no_panic)

lemma blob_step_not_Panic [no_panic]: "blob_step bytes row pos vb \<noteq> Panic"
  unfolding blob_step_def Let_def by (intro no_panic)

lemma blob_loop_not_Panic [no_panic]: "blob_loop bytes n row pos vb \<noteq> Panic"
  by (induction n arbitrary: row pos vb) (auto simp: result_simps blob_step_not_Panic)

lemma decode_blob_not_Panic [no_panic]: "decode_blob bytes rows \<noteq> Panic"
  unfolding decode_blob_def by (intro no_panic)

definition text_bytes :: "u8 list option list \<Rightarrow> nat" where
  "text_bytes values = sum_list (map (\<lambda>value. case value of None \<Rightarrow> 0 | Some text \<Rightarrow> length text) values)"

lemma append_values_eq:
  "n \<le> i32_max \<Longrightarrow> append_values n vs = (if n + text_bytes vs \<le> i32_max then Ok vs else Panic)"
  by (induction vs arbitrary: n) (auto simp: text_bytes_def Let_def not_less)

lemma append_values_Ok: "append_values n vs = Ok out \<Longrightarrow> out = vs"
  by (induction vs arbitrary: n out) (auto simp: Let_def result_simps split: if_splits)

lemma text_bytes_bound:
  "\<forall>value \<in> set vs. pred_option (\<lambda>text. length text \<le> k) value \<Longrightarrow> text_bytes vs \<le> length vs * k"
  by (induction vs) (auto simp: text_bytes_def split: option.splits)

lemma inet_value_length: "length value = width \<Longrightarrow> width = 4 \<or> width = 16 \<Longrightarrow>
    pred_option (\<lambda>text. length text \<le> (if width = 4 then 15 else 39)) (inet_value width value)"
  using ipv6_text_length by (auto simp: inet_value_def ipv4_text_length)

text \<open>The texts of an address column fit the builder when their rows do.\<close>

lemma inet_texts_fit:
  assumes "width = 4 \<or> width = 16" "rows * (if width = 4 then 15 else 39) \<le> i32_max" "length bytes = rows * width"
  shows "append_values 0 (map (inet_value width) (chunks_exact width bytes)) = Ok (map (inet_value width) (chunks_exact width bytes))"
proof -
  let ?vs = "map (inet_value width) (chunks_exact width bytes)"
  have n: "length ?vs = rows" using assms(1,3) by (auto intro!: length_chunks_exact simp: mult.commute)
  have "\<forall>c \<in> set (chunks_exact width bytes). length c = width" using assms(1) chunks_exact_widths by auto
  then have "\<forall>v \<in> set ?vs. pred_option (\<lambda>text. length text \<le> (if width = 4 then 15 else 39)) v"
    using inet_value_length [OF _ assms(1)] by auto
  from text_bytes_bound [OF this] n assms(2) show ?thesis by (subst append_values_eq) auto
qed

lemma decode_inet_not_Panic:
  assumes "rows * 39 \<le> i32_max"
  shows "decode_inet bytes rows \<noteq> Panic"
proof -
  have "saturating_mul rows w = rows * w" if "w \<le> 39" for w
  proof -
    have "rows * w \<le> rows * 39" using that by (rule mult_le_mono2)
    also note assms
    also have "i32_max \<le> usize_max" by simp
    finally show ?thesis unfolding saturating_mul_def by (rule min_absorb1)
  qed
  then show ?thesis
    using assms inet_texts_fit [of 4 rows bytes] inet_texts_fit [of 16 rows bytes]
    by (auto simp: decode_inet_def mutable_buffer_max_def)
qed

text \<open>Beyond that the builder overflows: a column of long addresses is a panic, not an error.\<close>

lemma decode_inet_overflows:
  assumes "i32_max < rows * 15" "rows \<le> 2 ^ 40"
  shows "decode_inet (concat (replicate rows [255, 255, 255, 255])) rows = Panic"
proof -
  have c: "chunks_exact 4 (concat (replicate n [255, 255, 255, 255 :: u8])) = replicate n [255, 255, 255, 255]" for n
    by (induction n) (simp_all add: chunks_exact.simps)
  have v: "inet_value 4 [255, 255, 255, 255] = Some [50, 53, 53, 46, 50, 53, 53, 46, 50, 53, 53, 46, 50, 53, 53]"
    by code_simp
  have "text_bytes (replicate rows (inet_value 4 [255, 255, 255, 255])) = rows * 15"
    by (simp add: text_bytes_def v sum_list_replicate)
  then have "append_values 0 (map (inet_value 4) (replicate rows [255, 255, 255, 255])) = Panic"
    using assms(1) by (subst append_values_eq) simp_all
  moreover have "length (concat (replicate rows [255, 255, 255, 255 :: u8])) = saturating_mul rows 4"
    using assms(2) by (simp add: saturating_mul_def length_concat sum_list_replicate)
  ultimately show ?thesis by (simp add: decode_inet_def c)
qed

subsection \<open>The fast path is transparent\<close>

lemma literal_at_Ok:
  assumes "literal_at bytes row pos = Ok (value, pos')"
  shows "utf8_valid value \<and> pos' = pos + length value + 1 \<and> pos' \<le> length bytes
    \<and> bytes ! (pos + length value) = 0 \<and> value = slice bytes pos (pos + length value)"
proof -
  from assms obtain e where le: "pos \<le> length bytes"
    and e: "position (\<lambda>b. b = 0) (slice bytes pos (length bytes)) = Some e"
    and v: "value = slice (slice bytes pos (length bytes)) 0 e" "utf8_valid value" "pos' = pos + e + 1"
    by (auto simp: literal_at_def result_simps split: if_splits)
  from position_less [OF e] le have el: "pos + e < length bytes" by simp
  have "slice bytes pos (length bytes) ! e = 0" using position_SomeD [OF e] by simp
  moreover have "slice bytes pos (length bytes) = drop pos bytes" by (simp add: slice_def)
  ultimately have z: "bytes ! (pos + e) = 0" using le by simp
  have "length value = e" using el v(1) le by simp
  with v el z show ?thesis by (simp add: slice_def)
qed

lemma long_backref_loop_consumed:
  "long_backref_loop row index distance shift bs = Ok (d, c) \<Longrightarrow> index < c \<and> c \<le> index + length bs"
  by (induction bs arbitrary: index distance shift) (fastforce simp: Let_def result_simps split: if_splits)+

lemma long_backref_consumed: "long_backref bs row = Ok (d, c) \<Longrightarrow> 0 < c \<and> c \<le> length bs"
  using long_backref_loop_consumed by (fastforce simp: long_backref_def)

lemma backref_read_pos:
  assumes "backref_read bytes row pos history = Ok (value, pos')"
  shows "pos < pos' \<and> pos' \<le> length bytes"
proof -
  obtain first where f: "get bytes pos = Some first" using assms
    by (auto simp: backref_read_def split: option.splits)
  then have "pos < length bytes" by (rule get_Some_less)
  with assms f show ?thesis
    by (auto simp: backref_read_def result_simps split: if_splits
        dest!: long_backref_consumed literal_at_Ok)
qed

lemma expansion_limit_ge: "length bytes \<le> i32_max \<Longrightarrow> length bytes \<le> expansion_limit bytes"
  by (simp add: expansion_limit_def saturating_mul_def)

lemma literal_step:
  assumes lit: "literal_at bytes row pos = Ok (value, pos')"
    and vb: "vb \<le> pos" and len: "length bytes \<le> i32_max"
  shows "vb + length value \<le> pos' \<and> vb + length value \<le> i32_max
    \<and> vb + length value \<le> expansion_limit bytes"
  using literal_at_Ok [OF lit] vb len expansion_limit_ge [OF len] by simp

text \<open>The three kinds of first byte: the marker 0x80, a short back-reference, a literal.\<close>

definition short_backref :: "u8 \<Rightarrow> bool" where
  "short_backref first \<longleftrightarrow> 0x81 \<le> first \<and> first \<le> 0xBF"

lemma short_backref_marker: "short_backref first \<Longrightarrow> first \<noteq> 0x80"
  by (auto simp: short_backref_def)

lemma plain_step_cases:
  assumes "get bytes pos = Some first"
  shows "first = 0x80 \<Longrightarrow> plain_step bytes row pos vb =
      rbind (long_backref (slice bytes (pos + 1) (length bytes)) row) (\<lambda>(distance, consumed).
        if distance \<noteq> 0 then Ok None else Ok (Some (None, pos + (consumed + 1), vb)))"
    and "short_backref first \<Longrightarrow> plain_step bytes row pos vb = Ok None"
    and "first \<noteq> 0x80 \<Longrightarrow> \<not> short_backref first \<Longrightarrow> plain_step bytes row pos vb =
      rbind (literal_at bytes row pos) (\<lambda>(v, pos').
      rbind (ok_or (checked_add vb (length v)) (InvalidValue row m_utf8_length)) (\<lambda>vb.
        if i32_max < vb then Err (InvalidValue row m_utf8_limit) else Ok (Some (Some v, pos', vb))))"
  using get_Some_less [OF assms]
  by (simp_all only: plain_step_def assms option.case short_backref_marker slice_at_def rbind.simps
      short_backref_def [symmetric] if_True if_False Suc_eq_plus1 [symmetric] Suc_le_eq order_refl simp_thms)

lemma backref_read_cases:
  assumes "get bytes pos = Some first"
  shows "first = 0x80 \<Longrightarrow> backref_read bytes row pos history =
      rbind (long_backref (slice bytes (pos + 1) (length bytes)) row) (\<lambda>(distance, consumed).
        if distance = 0 then Ok (None, pos + (consumed + 1))
        else rbind (backref_value row distance history) (\<lambda>v. Ok (v, pos + (consumed + 1))))"
    and "short_backref first \<Longrightarrow> backref_read bytes row pos history =
      rbind (backref_value row (unat (first - 0x80)) history) (\<lambda>v. Ok (v, pos + 1))"
    and "first \<noteq> 0x80 \<Longrightarrow> \<not> short_backref first \<Longrightarrow> backref_read bytes row pos history =
      rbind (literal_at bytes row pos) (\<lambda>(v, pos'). Ok (Some v, pos'))"
  using get_Some_less [OF assms]
  by (simp_all only: backref_read_def assms option.case short_backref_marker slice_at_def rbind.simps
      short_backref_def [symmetric] if_True if_False Suc_eq_plus1 [symmetric] Suc_le_eq order_refl simp_thms)

lemma plain_step_simulates:
  assumes vb: "vb \<le> pos" and len: "length bytes \<le> i32_max"
  shows "case plain_step bytes row pos vb of
      Ok None \<Rightarrow> True
    | Ok (Some (v, pos', vb')) \<Rightarrow> backref_step bytes row pos vb history = Ok (v, pos', vb') \<and> vb' \<le> pos'
    | Err e \<Rightarrow> backref_step bytes row pos vb history = Err e
    | Panic \<Rightarrow> False"
proof (cases "get bytes pos")
  case None
  then show ?thesis by (simp add: plain_step_def backref_step_def backref_read_def)
next
  case (Some first)
  note plain = plain_step_cases [OF Some] and read = backref_read_cases [OF Some]
  consider "first = 0x80" | "short_backref first" | "first \<noteq> 0x80" "\<not> short_backref first" by blast
  then show ?thesis
  proof cases
    case 1
    show ?thesis
      using vb long_backref_not_Panic [of "slice bytes (pos + 1) (length bytes)" row]
      unfolding plain(1) [OF 1] backref_step_def read(1) [OF 1]
      by (cases "long_backref (slice bytes (pos + 1) (length bytes)) row") (auto split: prod.splits)
  next
    case 2
    then show ?thesis by (simp add: plain(2))
  next
    case 3
    have np: "literal_at bytes row pos \<noteq> Panic"
      using get_Some_less [OF Some] by (simp add: literal_at_not_Panic)
    note unfold = plain(3) [OF 3] backref_step_def read(3) [OF 3]
    show ?thesis
    proof (cases "literal_at bytes row pos")
      case (Ok r)
      obtain str pos' where r: "r = (str, pos')" by (cases r)
      from literal_step [OF Ok [unfolded r] vb len] show ?thesis
        unfolding unfold Ok r rbind.simps prod.case by (simp add: checked_add_def)
    next
      case (Err e)
      then show ?thesis unfolding unfold Err by simp
    qed (use np in simp)
  qed
qed

lemma plain_loop_simulates:
  assumes "vb \<le> pos" and len: "length bytes \<le> i32_max"
  shows "case plain_loop bytes n row pos vb acc of
      Ok None \<Rightarrow> True
    | Ok (Some r) \<Rightarrow> backref_loop bytes n row pos vb acc = Ok r
    | Err e \<Rightarrow> backref_loop bytes n row pos vb acc = Err e
    | Panic \<Rightarrow> False"
  using assms(1)
proof (induction n arbitrary: row pos vb acc)
  case (Suc n)
  note sim = plain_step_simulates [OF Suc.prems len, of row acc]
  show ?case
  proof (cases "plain_step bytes row pos vb")
    case (Ok step)
    then show ?thesis
    proof (cases step)
      case (Some r)
      obtain v pos' vb' where r: "r = (v, pos', vb')" by (cases r)
      with sim Ok Some have b: "backref_step bytes row pos vb acc = Ok (v, pos', vb')" "vb' \<le> pos'" by auto
      then have "backref_loop bytes (Suc n) row pos vb acc = backref_loop bytes n (row + 1) pos' vb' (acc @ [v])"
        "plain_loop bytes (Suc n) row pos vb acc = plain_loop bytes n (row + 1) pos' vb' (acc @ [v])"
        using Ok Some r by simp_all
      with Suc.IH [OF b(2)] show ?thesis by (simp only:)
    qed simp
  next
    case (Err e)
    with sim show ?thesis by simp
  next
    case Panic
    with plain_step_not_Panic show ?thesis by blast
  qed
qed simp

lemma decode_strings_eq:
  "decode_strings bytes rows =
     (if length bytes < rows then Err (InvalidColumn m_string_short)
      else if i32_max < length bytes then Err (InvalidColumn m_utf8_limit)
      else decode_strings_with_backrefs bytes rows)"
proof (cases "length bytes < rows \<or> i32_max < length bytes")
  case True
  then show ?thesis by (auto simp: decode_strings_def)
next
  case False
  then have "case plain_loop bytes rows 0 0 0 [] of
      Ok None \<Rightarrow> True
    | Ok (Some r) \<Rightarrow> backref_loop bytes rows 0 0 0 [] = Ok r
    | Err e \<Rightarrow> backref_loop bytes rows 0 0 0 [] = Err e
    | Panic \<Rightarrow> False"
    by (intro plain_loop_simulates) simp_all
  then show ?thesis
    using False
    by (cases "plain_loop bytes rows 0 0 0 []")
      (auto simp: decode_strings_def decode_strings_without_backrefs_def decode_strings_with_backrefs_def
        split: option.splits)
qed

text \<open>
  C23 (the fast path is transparent). Reading a string column without back-references is only an
  optimisation: for every column, whatever the fast path accepts, refuses or gives up on, the
  outcome (values, or the error with its row) is that of the path with back-references.
\<close>

theorem decode_strings_fast_path:
  "decode_strings bytes rows =
     (if length bytes < rows then Err (InvalidColumn m_string_short)
      else if i32_max < length bytes then Err (InvalidColumn m_utf8_limit)
      else decode_strings_with_backrefs bytes rows)"
  by (rule decode_strings_eq)

subsection \<open>What a string or blob column can decode to\<close>

definition value_size :: "u8 list option list \<Rightarrow> nat" where
  "value_size vs = sum_list (map (\<lambda>v. case v of None \<Rightarrow> 0 | Some s \<Rightarrow> length s) vs)"

definition valid_strings :: "u8 list option list \<Rightarrow> bool" where
  "valid_strings vs \<longleftrightarrow> list_all (\<lambda>v. case v of None \<Rightarrow> True | Some s \<Rightarrow> utf8_valid s) vs"

lemma value_size_simps [simp]:
  "value_size [] = 0" "value_size (None # vs) = value_size vs" "value_size (Some s # vs) = length s + value_size vs"
  "value_size (xs @ ys) = value_size xs + value_size ys"
  by (simp_all add: value_size_def)

lemma valid_strings_simps [simp]:
  "valid_strings []" "valid_strings (None # vs) = valid_strings vs"
  "valid_strings (Some s # vs) = (utf8_valid s \<and> valid_strings vs)"
  "valid_strings (xs @ ys) = (valid_strings xs \<and> valid_strings ys)"
  by (simp_all add: valid_strings_def)

lemma backref_value_Ok: "backref_value row distance history = Ok v \<Longrightarrow> v \<in> set history"
  by (auto simp: backref_value_def result_simps get_def split: if_splits)

lemma backref_step_Ok:
  assumes "backref_step bytes row pos vb history = Ok (v, pos', vb')" "valid_strings history"
    "vb \<le> i32_max" "vb \<le> expansion_limit bytes"
  shows "pos' \<le> length bytes \<and> valid_strings [v] \<and> vb' = vb + value_size [v] \<and> vb' \<le> i32_max
    \<and> vb' \<le> expansion_limit bytes"
proof -
  from assms(1) obtain v' p where r': "backref_read bytes row pos history = Ok (v', p)"
    by (auto simp: backref_step_def result_simps)
  with assms(1) have v': "v' = v" and p: "pos' = p"
    and vb': "case v of None \<Rightarrow> vb' = vb | Some s \<Rightarrow> vb' = vb + length s \<and> vb' \<le> i32_max \<and> vb' \<le> expansion_limit bytes"
    by (cases v'; auto simp: backref_step_def result_simps split: if_splits)+
  from r' v' have r: "backref_read bytes row pos history = Ok (v, p)" by simp
  obtain first where f: "get bytes pos = Some first" using r by (auto simp: backref_read_def split: option.splits)
  have "valid_strings [v]"
    using r assms(2) unfolding backref_read_def f
    by (auto simp: result_simps valid_strings_def list_all_iff split: if_splits option.splits
        dest!: literal_at_Ok backref_value_Ok)
  with backref_read_pos [OF r] p vb' assms(3,4) show ?thesis by (auto split: option.splits)
qed

lemma backref_loop_Ok:
  assumes "backref_loop bytes n row pos vb history = Ok (vs, p)" "valid_strings history"
    "value_size history = vb" "vb \<le> i32_max" "vb \<le> expansion_limit bytes"
  shows "length vs = length history + n \<and> valid_strings vs \<and> value_size vs \<le> i32_max
    \<and> value_size vs \<le> expansion_limit bytes"
  using assms
proof (induction n arbitrary: row pos vb history)
  case (Suc n)
  from Suc.prems(1) obtain v pos' vb' where
    s: "backref_step bytes row pos vb history = Ok (v, pos', vb')"
    and l: "backref_loop bytes n (row + 1) pos' vb' (history @ [v]) = Ok (vs, p)"
    by (auto simp: result_simps)
  from backref_step_Ok [OF s Suc.prems(2,4,5)] Suc.prems
  have "valid_strings (history @ [v])" "value_size (history @ [v]) = vb'" "vb' \<le> i32_max" "vb' \<le> expansion_limit bytes"
    by auto
  from Suc.IH [OF l this] show ?case by simp
qed simp

lemma decode_strings_Ok:
  assumes "decode_strings bytes rows = Ok vs"
  shows "length vs = rows \<and> valid_strings vs \<and> value_size vs \<le> i32_max
    \<and> value_size vs \<le> max (16 * length bytes) (1024 * 1024)"
proof -
  from assms obtain p where "backref_loop bytes rows 0 0 0 [] = Ok (vs, p)"
    by (auto simp: decode_strings_eq decode_strings_with_backrefs_def result_simps split: if_splits)
  from backref_loop_Ok [OF this] show ?thesis
    by (auto simp: expansion_limit_def saturating_mul_def split: if_splits)
qed

text \<open>
  C26 (decoded strings are bounded). A decoded string column has exactly the declared rows, every
  value is valid UTF-8, and the values together fit Arrow's 32-bit offsets and are at most sixteen
  times the bytes received (or one mebibyte): back-references cannot inflate a response beyond that.
\<close>

theorem decode_strings_bounded:
  assumes "decode_strings bytes rows = Ok vs"
  shows "length vs = rows \<and> valid_strings vs \<and> value_size vs \<le> i32_max
    \<and> value_size vs \<le> max (16 * length bytes) (1024 * 1024)"
  using assms by (rule decode_strings_Ok)

theorem decode_strings_bounded_witness:
  "decode_strings [0x61, 0x62, 0, 0x81, 0x80, 0] 3 = Ok [Some [0x61, 0x62], Some [0x61, 0x62], None]
   \<and> valid_strings [Some [0x61, 0x62], Some [0x61, 0x62], None]
   \<and> value_size [Some [0x61, 0x62], Some [0x61, 0x62], None] \<le> i32_max"
proof -
  have d: "decode_strings [0x61, 0x62, 0, 0x81, 0x80, 0] 3 = Ok [Some [0x61, 0x62], Some [0x61, 0x62], None]"
    by code_simp
  with decode_strings_bounded [OF d] show ?thesis by blast
qed

lemma blob_step_Ok:
  assumes "blob_step bytes row pos vb = Ok (v, pos', vb')" "vb \<le> i32_max"
  shows "vb' = vb + value_size [v] \<and> vb' \<le> i32_max"
  using assms
  by (auto simp: blob_step_def Let_def result_simps get_range_def usize_try_from_def split: if_splits)

lemma blob_loop_Ok:
  assumes "blob_loop bytes n row pos vb = Ok (vs, p)" "vb \<le> i32_max"
  shows "length vs = n \<and> vb + value_size vs \<le> i32_max"
  using assms
proof (induction n arbitrary: row pos vb vs)
  case (Suc n)
  from Suc.prems(1) obtain v pos' vb' vs' where
    s: "blob_step bytes row pos vb = Ok (v, pos', vb')" and vs: "vs = v # vs'"
    and l: "blob_loop bytes n (row + 1) pos' vb' = Ok (vs', p)"
    by (auto simp: result_simps)
  from blob_step_Ok [OF s Suc.prems(2)] Suc.IH [OF l] vs show ?case
    by (cases v) auto
qed simp

lemma decode_blob_length: "decode_blob bytes rows = Ok vs \<Longrightarrow> length vs = rows \<and> value_size vs \<le> i32_max"
  using blob_loop_Ok by (fastforce simp: decode_blob_def result_simps split: if_splits)

end
