(* ===== verification/Decode.thy ===== *)
theory Decode
  imports Decode_Var
begin

text \<open>
  Columns and frames of \<open>decode.rs\<close>. \<open>decode_column\<close> dispatches on the MonetDB type;
  \<open>decode_frame\<close> parses, validates and decodes a response frame into a record batch, and
  \<open>decode_frame_owned\<close> does the same with arrays that share the frame's allocation.

  What the sources take from other crates is a parameter: the \<open>arrow_lib\<close> of theory
  \<open>Arrow_Arrays\<close>, and the choice \<open>pick\<close> of the error that a parallel \<open>collect\<close> of the \<open>rayon\<close>
  crate returns when several columns fail. A result column is what the sources read of
  \<open>monetdb::ResultColumn\<close>: its name and its type.
\<close>

subsection \<open>Columns\<close>

record result_column =
  rc_name :: string
  rc_type :: monet_type

definition int_array :: "data_type \<Rightarrow> (int primitive_array, decode_error) result \<Rightarrow> (arrow_array, decode_error) result" where
  "int_array dt r = rbind r (\<lambda>p. Ok \<lparr>a_type = dt, a_data = IntData p\<rparr>)"

definition float_array :: "data_type \<Rightarrow> (nat primitive_array, decode_error) result \<Rightarrow> (arrow_array, decode_error) result" where
  "float_array dt r = rbind r (\<lambda>p. Ok \<lparr>a_type = dt, a_data = FloatData p\<rparr>)"

definition text_array :: "(u8 list option list, decode_error) result \<Rightarrow> (arrow_array, decode_error) result" where
  "text_array r = rbind r (\<lambda>vs. Ok \<lparr>a_type = DT_Utf8, a_data = TextData vs\<rparr>)"

definition bytes_array :: "data_type \<Rightarrow> (u8 list option list, decode_error) result \<Rightarrow> (arrow_array, decode_error) result" where
  "bytes_array dt r = rbind r (\<lambda>vs. Ok \<lparr>a_type = dt, a_data = BytesData vs\<rparr>)"

definition decode_signed :: "nat \<Rightarrow> u8 list \<Rightarrow> nat \<Rightarrow> (int primitive_array, decode_error) result" where
  "decode_signed w bytes rows = decode_primitive w from_le (\<lambda>v. v = int_min w) bytes rows"

definition decode_oid :: "u8 list \<Rightarrow> nat \<Rightarrow> (int primitive_array, decode_error) result" where
  "decode_oid bytes rows = decode_primitive 8 (\<lambda>bs. int (le_nat bs)) (\<lambda>v. v = 2 ^ 63) bytes rows"

fun decode_column :: "arrow_lib \<Rightarrow> monet_type \<Rightarrow> u8 list \<Rightarrow> nat \<Rightarrow> (arrow_array, decode_error) result" where
  "decode_column lib MT_Bool bytes rows =
     rbind (decode_bool bytes rows) (\<lambda>p. Ok \<lparr>a_type = DT_Boolean, a_data = BoolData p\<rparr>)"
| "decode_column lib MT_TinyInt bytes rows = int_array DT_Int8 (decode_signed 1 bytes rows)"
| "decode_column lib MT_SmallInt bytes rows = int_array DT_Int16 (decode_signed 2 bytes rows)"
| "decode_column lib MT_Int bytes rows = int_array DT_Int32 (decode_signed 4 bytes rows)"
| "decode_column lib MT_BigInt bytes rows = int_array DT_Int64 (decode_signed 8 bytes rows)"
| "decode_column lib MT_HugeInt bytes rows =
     int_array (DT_Decimal128 38 0) (decode_decimal lib bytes rows 38 0 True)"
| "decode_column lib MT_Oid bytes rows = int_array DT_UInt64 (decode_oid bytes rows)"
| "decode_column lib (MT_Decimal precision scale) bytes rows =
     rbind (decimal_scale scale) (\<lambda>s.
       int_array (DT_Decimal128 precision s) (decode_decimal lib bytes rows precision s False))"
| "decode_column lib (MT_Varchar _) bytes rows = text_array (decode_strings bytes rows)"
| "decode_column lib MT_Url bytes rows = text_array (decode_strings bytes rows)"
| "decode_column lib MT_Json bytes rows = text_array (decode_strings bytes rows)"
| "decode_column lib MT_Real bytes rows =
     float_array DT_Float32 (decode_primitive 4 le_nat f32_is_nan bytes rows)"
| "decode_column lib MT_Double bytes rows =
     float_array DT_Float64 (decode_primitive 8 le_nat f64_is_nan bytes rows)"
| "decode_column lib MT_MonthInterval bytes rows = int_array DT_Int32 (decode_signed 4 bytes rows)"
| "decode_column lib MT_DayInterval bytes rows =
     int_array (DT_Duration Millisecond) (decode_signed 8 bytes rows)"
| "decode_column lib MT_SecInterval bytes rows =
     int_array (DT_Duration Millisecond) (decode_signed 8 bytes rows)"
| "decode_column lib MT_Time bytes rows = int_array (DT_Time64 Microsecond) (decode_time bytes rows)"
| "decode_column lib MT_TimeTz bytes rows = int_array (DT_Time64 Microsecond) (decode_time bytes rows)"
| "decode_column lib MT_Date bytes rows = int_array DT_Date32 (decode_date bytes rows)"
| "decode_column lib MT_Timestamp bytes rows =
     int_array (DT_Timestamp Microsecond None) (decode_timestamp bytes rows)"
| "decode_column lib MT_TimestampTz bytes rows =
     int_array (DT_Timestamp Microsecond (Some ''UTC'')) (decode_timestamp bytes rows)"
| "decode_column lib MT_Blob bytes rows = bytes_array DT_Binary (decode_blob bytes rows)"
| "decode_column lib MT_Uuid bytes rows = bytes_array (DT_FixedSizeBinary 16) (decode_uuid lib bytes rows)"
| "decode_column lib MT_Inet4 bytes rows = text_array (decode_inet bytes rows)"
| "decode_column lib MT_Inet6 bytes rows = text_array (decode_inet bytes rows)"
| "decode_column lib MT_Geometry bytes rows = Err (Unsupported MT_Geometry)"
| "decode_column lib MT_Inet bytes rows = Err (Unsupported MT_Inet)"
| "decode_column lib MT_Xml bytes rows = Err (Unsupported MT_Xml)"

subsection \<open>Frames\<close>

record batch =
  b_schema :: "arrow_field list"
  b_arrays :: "arrow_array list"
  b_rows :: nat

definition field_for_column :: "result_column \<Rightarrow> (arrow_field, decode_error) result" where
  "field_for_column column = field_for_monet_type (rc_name column) (rc_type column)"

definition schema_for_columns :: "result_column list \<Rightarrow> (arrow_field list, decode_error) result" where
  "schema_for_columns cols = try_map field_for_column cols"

definition validate_frame ::
  "exportbin_frame \<Rightarrow> result_column list \<Rightarrow> nat \<Rightarrow> nat \<Rightarrow> nat \<Rightarrow> (nat, decode_error) result" where
  "validate_frame frame cols expected_result_id expected_start_row requested_rows =
     (if result_id frame \<noteq> int expected_result_id then Err (ResultId expected_result_id (result_id frame))
      else if start_row frame \<noteq> expected_start_row then Err (StartRow expected_start_row (start_row frame))
      else if length cols \<noteq> length (columns frame)
      then Err (ColumnCount (length cols) (length (columns frame)))
      else
       rbind (ok_or (usize_try_from (int (row_count frame))) (InvalidValue 0 m_rows_memory)) (\<lambda>rows.
         if requested_rows < rows then Err (RowCount requested_rows rows) else Ok rows))"

definition record_batch ::
  "arrow_lib \<Rightarrow> arrow_field list \<Rightarrow> arrow_array list \<Rightarrow> nat \<Rightarrow> (batch, decode_error) result" where
  "record_batch lib schema arrays rows =
     (case try_new_batch lib schema arrays rows of
        None \<Rightarrow> Ok \<lparr>b_schema = schema, b_arrays = arrays, b_rows = rows\<rparr>
      | Some e \<Rightarrow> Err (Arrow_Err e))"

text \<open>A parallel \<open>collect\<close> runs every item; when some fail it returns the error of one of them.\<close>

definition errors_of :: "('a, 'e) result list \<Rightarrow> 'e list" where
  "errors_of rs = List.map_filter (\<lambda>r. case r of Err e \<Rightarrow> Some e | _ \<Rightarrow> None) rs"

definition par_collect :: "('e list \<Rightarrow> 'e) \<Rightarrow> ('a, 'e) result list \<Rightarrow> ('a list, 'e) result" where
  "par_collect pick rs =
     (if list_ex (\<lambda>r. case r of Panic \<Rightarrow> True | _ \<Rightarrow> False) rs then Panic
      else if errors_of rs \<noteq> [] then Err (pick (errors_of rs))
      else try_map (\<lambda>r. r) rs)"

definition collect_columns ::
  "(decode_error list \<Rightarrow> decode_error) \<Rightarrow> nat \<Rightarrow> ('i \<Rightarrow> (arrow_array, decode_error) result) \<Rightarrow> 'i list
    \<Rightarrow> (arrow_array list, decode_error) result" where
  "collect_columns pick frame_bytes decode items =
     (if 1 < length items \<and> 1024 * 1024 \<le> frame_bytes then par_collect pick (map decode items)
      else try_map decode items)"

definition sum_bytes :: "u8 list list \<Rightarrow> nat" where
  "sum_bytes cols = fold (\<lambda>column total. saturating_add total (length column)) cols 0"

definition decode_columns ::
  "arrow_lib \<Rightarrow> (decode_error list \<Rightarrow> decode_error) \<Rightarrow> result_column list \<Rightarrow> u8 list list \<Rightarrow> nat \<Rightarrow> nat
    \<Rightarrow> (arrow_array list, decode_error) result" where
  "decode_columns lib pick cols bytes rows frame_bytes =
     collect_columns pick frame_bytes (\<lambda>(column, bytes). decode_column lib (rc_type column) bytes rows)
       (zip cols bytes)"

definition decode_frame_with_schema ::
  "arrow_lib \<Rightarrow> (decode_error list \<Rightarrow> decode_error) \<Rightarrow> u8 list \<Rightarrow> result_column list \<Rightarrow> nat \<Rightarrow> nat \<Rightarrow> nat
    \<Rightarrow> arrow_field list \<Rightarrow> (batch, decode_error) result" where
  "decode_frame_with_schema lib pick frame cols expected_result_id expected_start_row requested_rows schema =
     rbind (map_err Frame (parse_frame frame)) (\<lambda>frame.
     rbind (validate_frame frame cols expected_result_id expected_start_row requested_rows) (\<lambda>rows.
     rbind (decode_columns lib pick cols (columns frame) rows (sum_bytes (columns frame))) (\<lambda>arrays.
       record_batch lib schema arrays rows)))"

definition decode_frame ::
  "arrow_lib \<Rightarrow> (decode_error list \<Rightarrow> decode_error) \<Rightarrow> u8 list \<Rightarrow> result_column list \<Rightarrow> nat \<Rightarrow> nat \<Rightarrow> nat
    \<Rightarrow> (batch, decode_error) result" where
  "decode_frame lib pick frame cols expected_result_id expected_start_row requested_rows =
     rbind (schema_for_columns cols) (\<lambda>schema.
       decode_frame_with_schema lib pick frame cols expected_result_id expected_start_row requested_rows schema)"

subsection \<open>Columns have the declared type and length\<close>

lemmas array_defs = int_array_def float_array_def text_array_def bytes_array_def decode_signed_def decode_oid_def

text \<open>The rows of an address column that its builder takes, whatever the texts.\<close>

definition inet_rows_fit :: "monet_type \<Rightarrow> nat \<Rightarrow> bool" where
  "inet_rows_fit t rows \<longleftrightarrow> (t \<in> {MT_Inet4, MT_Inet6} \<longrightarrow> rows * 39 \<le> i32_max)"

lemma decode_column_never_panics:
  assumes "inet_rows_fit t rows"
  shows "decode_column lib t bytes rows \<noteq> Panic"
  using assms decode_inet_not_Panic [of rows bytes]
  by (cases t) (simp_all add: array_defs decimal_scale_def rbind_Panic_iff inet_rows_fit_def no_panic)

lemma decode_inet_length: "decode_inet bytes rows = Ok vs \<Longrightarrow> length bytes < usize_max \<Longrightarrow> length vs = rows"
  by (auto simp: decode_inet_def saturating_mul_def min_def length_chunks_exact result_simps split: if_splits
      dest!: append_values_Ok)

lemma decode_column_typed:
  assumes "decode_column lib t bytes rows = Ok a" "data_type_for_monet_type t = Ok dt" "length bytes < usize_max"
  shows "a_type a = dt \<and> array_len a = rows"
  using assms
  by (cases t)
    (auto simp: array_defs array_len_def result_simps decimal_data_type_Ok decimal_scale_def
      dest: decode_primitive_Ok decode_bool_Ok decode_decimal_Ok decode_temporal_Ok decode_uuid_Ok
        decode_blob_length decode_inet_length decode_strings_Ok split: if_splits)

subsection \<open>Frames\<close>

lemma try_map_id: "try_map (\<lambda>r. r) (map f xs) = try_map f xs"
  by (induction xs) auto

lemma errors_of_Nil: "errors_of rs = [] \<longleftrightarrow> (\<forall>e. Err e \<notin> set rs)"
  by (auto simp: errors_of_def List.map_filter_def filter_empty_conv split: result.splits)

lemma is_Panic_iff: "(case r of Panic \<Rightarrow> True | _ \<Rightarrow> False) \<longleftrightarrow> r = Panic"
  by (cases r) auto

lemma collect_columns_not_Panic:
  assumes "\<And>x. x \<in> set xs \<Longrightarrow> f x \<noteq> Panic"
  shows "collect_columns pick n f xs \<noteq> Panic"
proof -
  have "Panic \<notin> f ` set xs" using assms by force
  then show ?thesis
    by (simp add: collect_columns_def par_collect_def try_map_id list_ex_iff try_map_not_Panic is_Panic_iff assms)
qed

lemma collect_columns_Ok: "collect_columns pick n f xs = Ok ys \<longleftrightarrow> try_map f xs = Ok ys"
proof -
  have "par_collect pick (map f xs) = Ok ys \<longleftrightarrow> try_map f xs = Ok ys"
  proof
    assume ok: "try_map f xs = Ok ys"
    have "r \<noteq> Panic \<and> r \<noteq> Err e" if "r \<in> set (map f xs)" for r e
    proof -
      from that obtain i where "i < length xs" "r = f (xs ! i)" by (auto simp: in_set_conv_nth)
      with try_map_nth [OF ok] show ?thesis by simp
    qed
    then have "\<not> list_ex (\<lambda>r. case r of Panic \<Rightarrow> True | _ \<Rightarrow> False) (map f xs)" "errors_of (map f xs) = []"
      unfolding list_ex_iff errors_of_Nil is_Panic_iff by blast+
    with ok show "par_collect pick (map f xs) = Ok ys"
      by (simp add: par_collect_def try_map_id)
  qed (auto simp: par_collect_def try_map_id split: if_splits)
  then show ?thesis by (simp add: collect_columns_def)
qed

lemma validate_frame_not_Panic [no_panic]: "validate_frame f cols i s r \<noteq> Panic"
  unfolding validate_frame_def by (intro no_panic)

lemma record_batch_not_Panic [no_panic]: "record_batch lib schema arrays rows \<noteq> Panic"
  by (simp add: record_batch_def split: option.splits)

lemma field_for_column_not_Panic [no_panic]: "field_for_column c \<noteq> Panic"
  unfolding field_for_column_def field_for_monet_type_def
  by (intro no_panic, cases "rc_type c") (auto simp: decimal_data_type_def decimal_scale_def)

lemma decode_frame_with_schema_OkE:
  assumes "decode_frame_with_schema lib pick frame cols rid start req schema = Ok b"
  obtains f where "parse_frame frame = Ok f" "b_schema b = schema"
    "length (columns f) = length cols" "b_rows b \<le> req"
    "try_map (\<lambda>(column, bytes). decode_column lib (rc_type column) bytes (b_rows b)) (zip cols (columns f))
       = Ok (b_arrays b)"
    "result_id f = int rid" "start_row f = start" "row_count f = b_rows b"
  using assms
  by (auto simp: decode_frame_with_schema_def result_simps validate_frame_def decode_columns_def
      collect_columns_Ok record_batch_def usize_try_from_def split: if_splits option.splits)

lemma decode_frame_OkE:
  assumes "decode_frame lib pick frame cols rid start req = Ok b"
  obtains f where "parse_frame frame = Ok f" "schema_for_columns cols = Ok (b_schema b)"
    "length (columns f) = length cols" "b_rows b \<le> req"
    "try_map (\<lambda>(column, bytes). decode_column lib (rc_type column) bytes (b_rows b)) (zip cols (columns f))
       = Ok (b_arrays b)"
    "result_id f = int rid" "start_row f = start" "row_count f = b_rows b"
  using assms unfolding decode_frame_def rbind_Ok_iff by (blast elim: decode_frame_with_schema_OkE)

lemma schema_field_type:
  assumes "schema_for_columns cols = Ok schema" "i < length cols"
  shows "data_type_for_monet_type (rc_type (cols ! i)) = Ok (f_data_type (schema ! i)) \<and> f_nullable (schema ! i)"
proof -
  have "field_for_column (cols ! i) = Ok (schema ! i)"
    using try_map_nth assms by (auto simp: schema_for_columns_def)
  then obtain dt m where "data_type_for_monet_type (rc_type (cols ! i)) = Ok dt"
    "schema ! i = \<lparr>f_name = rc_name (cols ! i), f_data_type = dt, f_nullable = True, f_metadata = m\<rparr>"
    unfolding field_for_column_def field_for_monet_type_def rbind_Ok_iff result.inject by metis
  then show ?thesis by simp
qed

lemma decoded_arrays_typed:
  assumes f: "parse_frame frame = Ok f" and schema: "schema_for_columns cols = Ok schema"
    and n: "length (columns f) = length cols"
    and arrays: "try_map (\<lambda>(column, bytes). decode_column lib (rc_type column) bytes rows) (zip cols (columns f)) = Ok arrays"
    and i: "i < length cols"
  shows "a_type (arrays ! i) = f_data_type (schema ! i) \<and> f_nullable (schema ! i) \<and> array_len (arrays ! i) = rows"
proof -
  have d: "decode_column lib (rc_type (cols ! i)) (columns f ! i) rows = Ok (arrays ! i)"
    using try_map_nth [OF arrays, of i] i n by simp
  have "columns f ! i \<in> set (columns f)" using i n by simp
  then have "length (columns f ! i) + 8 \<le> length frame" "length frame \<le> usize_max"
    using parse_frame_bounded [OF f] by blast+
  then have l: "length (columns f ! i) < usize_max" by linarith
  from schema_field_type [OF schema i] decode_column_typed [OF d _ l] show ?thesis by blast
qed

text \<open>
  C15 (decoded batches are well typed). A batch decoded from a frame has the schema derived from the
  result columns, no more rows than requested, one array per column, and every array has the Arrow
  type of its field and exactly the row count of the batch; the frame was the one asked for.
\<close>

theorem decode_frame_typed:
  assumes "decode_frame lib pick frame cols rid start req = Ok b"
  shows "schema_for_columns cols = Ok (b_schema b) \<and> b_rows b \<le> req \<and> length (b_arrays b) = length cols \<and>
    (\<forall>i < length cols. a_type (b_arrays b ! i) = f_data_type (b_schema b ! i) \<and>
       array_len (b_arrays b ! i) = b_rows b) \<and>
    (\<exists>f. parse_frame frame = Ok f \<and> result_id f = int rid \<and> start_row f = start \<and> row_count f = b_rows b)"
  using assms
proof (rule decode_frame_OkE)
  fix f
  assume f: "parse_frame frame = Ok f" and schema: "schema_for_columns cols = Ok (b_schema b)"
    and n: "length (columns f) = length cols" and req: "b_rows b \<le> req"
    and arrays: "try_map (\<lambda>(column, bytes). decode_column lib (rc_type column) bytes (b_rows b)) (zip cols (columns f))
       = Ok (b_arrays b)"
    and ids: "result_id f = int rid" "start_row f = start" "row_count f = b_rows b"
  from decoded_arrays_typed [OF f schema n arrays] schema req try_map_length [OF arrays] n f ids
  show ?thesis by auto
qed

subsection \<open>Arrow accepts every decoded batch\<close>

definition arrow_free :: "('a, decode_error) result \<Rightarrow> bool" where
  "arrow_free r \<longleftrightarrow> (\<forall>e. r \<noteq> Err (Arrow_Err e))"

named_theorems arrow_free_intros \<open>introduction rules for the absence of Arrow errors\<close>

lemma arrow_free_Ok [arrow_free_intros]: "arrow_free (Ok x)"
  by (simp add: arrow_free_def)

lemma arrow_free_Panic [arrow_free_intros]: "arrow_free Panic"
  by (simp add: arrow_free_def)

lemma arrow_free_Err [arrow_free_intros]:
  "arrow_free (Err (InvalidColumn m))" "arrow_free (Err (InvalidValue i m))" "arrow_free (Err (Length i j))"
  "arrow_free (Err (InvalidUtf8 i))" "arrow_free (Err (InvalidBackref i))" "arrow_free (Err (Unsupported t))"
  "arrow_free (Err (ResultId i k))" "arrow_free (Err (StartRow i j))" "arrow_free (Err (ColumnCount i j))"
  "arrow_free (Err (RowCount i j))"
  by (simp_all add: arrow_free_def)

lemma arrow_free_rbind [arrow_free_intros]:
  "arrow_free r \<Longrightarrow> (\<And>x. r = Ok x \<Longrightarrow> arrow_free (f x)) \<Longrightarrow> arrow_free (rbind r f)"
  by (cases r) (auto simp: arrow_free_def)

lemma arrow_free_ok_or [arrow_free_intros]: "arrow_free (Err e) \<Longrightarrow> arrow_free (ok_or v e)"
  by (cases v) (auto simp: arrow_free_def)

lemma arrow_free_expect [arrow_free_intros]: "arrow_free (expect v)"
  by (cases v) (auto simp: arrow_free_def)

lemma arrow_free_slice_at [arrow_free_intros]: "arrow_free (slice_at xs a b)"
  by (simp add: arrow_free_def slice_at_def)

lemma arrow_free_if [arrow_free_intros]:
  "(c \<Longrightarrow> arrow_free a) \<Longrightarrow> (\<not> c \<Longrightarrow> arrow_free b) \<Longrightarrow> arrow_free (if c then a else b)"
  by simp

lemma arrow_free_prod [arrow_free_intros]: "(\<And>a b. arrow_free (f a b)) \<Longrightarrow> arrow_free (case p of (a, b) \<Rightarrow> f a b)"
  by (cases p) simp

lemma arrow_free_option [arrow_free_intros]:
  "arrow_free a \<Longrightarrow> (\<And>x. arrow_free (f x)) \<Longrightarrow> arrow_free (case v of None \<Rightarrow> a | Some x \<Rightarrow> f x)"
  by (cases v) auto

lemma arrow_free_list [arrow_free_intros]:
  "arrow_free a \<Longrightarrow> (\<And>x xs. arrow_free (f x xs)) \<Longrightarrow> arrow_free (case v of [] \<Rightarrow> a | x # xs \<Rightarrow> f x xs)"
  by (cases v) auto

lemma arrow_free_try_map_from [arrow_free_intros]: "(\<And>i x. arrow_free (f i x)) \<Longrightarrow> arrow_free (try_map_from n f xs)"
  by (induction xs arbitrary: n) (auto intro!: arrow_free_intros)

lemma arrow_free_expect_fixed [arrow_free_intros]: "arrow_free (expect_fixed bytes rows width)"
  unfolding expect_fixed_def by (intro arrow_free_intros)

lemma arrow_free_decode_primitive [arrow_free_intros]: "arrow_free (decode_primitive w d n bytes rows)"
  unfolding decode_primitive_def Let_def by (intro arrow_free_intros)

lemma arrow_free_decode_bool [arrow_free_intros]: "arrow_free (decode_bool bytes rows)"
  unfolding decode_bool_def Let_def by (intro arrow_free_intros)

lemma arrow_free_validate_rows [arrow_free_intros]: "arrow_free (validate_decimal_rows limit h row vs)"
  by (induction vs arbitrary: row) (auto intro!: arrow_free_intros)

lemma arrow_free_decode_decimal [arrow_free_intros]:
  assumes "arrow_documented lib" "1 \<le> p" "p \<le> 38" "0 \<le> s" "s \<le> int p"
  shows "arrow_free (decode_decimal lib bytes rows p s h)"
proof -
  have "arrow_free (finish_decimal lib p s q)" for q
    using assms by (simp add: finish_decimal_def arrow_documented_def arrow_free_Ok)
  then show ?thesis
    unfolding decode_decimal_def validate_decimal_values_def decode_width_def Let_def
    by (intro arrow_free_intros)
qed

lemma arrow_free_temporal [arrow_free_intros]:
  "arrow_free (decode_date bytes rows)" "arrow_free (decode_time bytes rows)" "arrow_free (decode_timestamp bytes rows)"
  unfolding decode_date_def decode_time_def decode_timestamp_def timestamp_value_def date_value_def time_value_def Let_def
  by (intro arrow_free_intros)+

lemma arrow_free_uuid [arrow_free_intros]:
  assumes "arrow_documented lib"
  shows "arrow_free (decode_uuid lib bytes rows)"
proof (cases "expect_fixed bytes rows 16")
  case (Ok u)
  with decode_uuid_documented [OF assms Ok] show ?thesis by (simp add: arrow_free_Ok)
next
  case (Err e)
  with arrow_free_expect_fixed [of bytes rows 16] show ?thesis by (simp add: decode_uuid_def arrow_free_def)
qed (simp add: expect_fixed_not_Panic)

lemma arrow_free_backref [arrow_free_intros]: "arrow_free (long_backref bs row)" "arrow_free (backref_value row d history)"
proof -
  have "arrow_free (long_backref_loop row i d s bs)" for i d s
    by (induction bs arbitrary: i d s) (auto simp: Let_def intro!: arrow_free_intros)
  then show "arrow_free (long_backref bs row)" by (simp add: long_backref_def)
  show "arrow_free (backref_value row d history)"
    unfolding backref_value_def by (intro arrow_free_intros)
qed

lemma arrow_free_backref_loop [arrow_free_intros]: "arrow_free (backref_loop bytes n row pos vb history)"
  by (induction n arbitrary: row pos vb history)
    (auto simp: backref_step_def backref_read_def literal_at_def intro!: arrow_free_intros)

lemma arrow_free_strings [arrow_free_intros]: "arrow_free (decode_strings bytes rows)"
  unfolding decode_strings_eq decode_strings_with_backrefs_def by (intro arrow_free_intros)

lemma arrow_free_blob [arrow_free_intros]: "arrow_free (decode_blob bytes rows)"
proof -
  have "arrow_free (blob_loop bytes n row pos vb)" for n row pos vb
    by (induction n arbitrary: row pos vb) (auto simp: blob_step_def Let_def intro!: arrow_free_intros)
  then show ?thesis unfolding decode_blob_def by (intro arrow_free_intros)
qed

lemma arrow_free_inet [arrow_free_intros]: "arrow_free (decode_inet bytes rows)"
proof -
  have "append_values n vs \<noteq> Err e" for n vs e
    by (induction vs arbitrary: n) (auto simp: Let_def rbind_Err_iff)
  then have "arrow_free (append_values n vs)" for n vs by (simp add: arrow_free_def)
  then show ?thesis by (auto simp: decode_inet_def arrow_free_def rbind_Err_iff split: if_splits)
qed

lemma arrow_free_decode_column:
  assumes "arrow_documented lib" "data_type_for_monet_type t = Ok dt"
  shows "arrow_free (decode_column lib t bytes rows)"
  using assms
  by (cases t) (auto simp: array_defs decimal_data_type_Ok decimal_scale_def intro!: arrow_free_intros)

lemma in_errors_of: "e \<in> set (errors_of rs) \<longleftrightarrow> Err e \<in> set rs"
  by (induction rs) (auto simp: errors_of_def List.map_filter_simps split: result.splits)

lemma arrow_free_collect:
  assumes "\<forall>es. es \<noteq> [] \<longrightarrow> pick es \<in> set es" and "\<And>x. x \<in> set xs \<Longrightarrow> arrow_free (f x)"
  shows "arrow_free (collect_columns pick n f xs)"
proof -
  have seq: "arrow_free (try_map f ys)" if "set ys \<subseteq> set xs" for ys
    using that by (induction ys) (auto intro!: arrow_free_intros assms(2))
  have "Arrow_Err e \<notin> set (errors_of (map f xs))" for e
  proof
    assume "Arrow_Err e \<in> set (errors_of (map f xs))"
    then obtain x where "x \<in> set xs" "f x = Err (Arrow_Err e)" unfolding in_errors_of by auto
    with assms(2) show False by (auto simp: arrow_free_def)
  qed
  then have "errors_of (map f xs) \<noteq> [] \<Longrightarrow> pick (errors_of (map f xs)) \<noteq> Arrow_Err e" for e
    using assms(1) by metis
  then have "arrow_free (par_collect pick (map f xs))"
    using seq [of xs] unfolding par_collect_def try_map_id by (auto simp: arrow_free_def)
  with seq [of xs] show ?thesis by (simp add: collect_columns_def)
qed

text \<open>
  C25 (Arrow accepts what is decoded). With an Arrow library that behaves as documented, decoding a
  frame never fails inside Arrow: whatever the bytes, the decimal precision and scale, the array
  types and the array lengths are always acceptable, so the only errors are the decoder's own.
\<close>

theorem decode_frame_no_arrow_error:
  assumes "arrow_documented lib" "\<forall>es. es \<noteq> [] \<longrightarrow> pick es \<in> set es"
  shows "decode_frame lib pick frame cols rid start req \<noteq> Err (Arrow_Err e)"
proof (cases "schema_for_columns cols")
  case (Ok schema)
  have n: "length schema = length cols" using Ok by (simp add: schema_for_columns_def try_map_length)
  note field = schema_field_type [OF Ok]
  have "arrow_free (record_batch lib schema arrays rows)"
    if f: "parse_frame frame = Ok f" and v: "validate_frame f cols rid start req = Ok rows"
      and d: "decode_columns lib pick cols (columns f) rows (sum_bytes (columns f)) = Ok arrays" for f rows arrays
  proof -
    from v have m: "length (columns f) = length cols" by (auto simp: validate_frame_def split: if_splits)
    from d have t: "try_map (\<lambda>(column, bytes). decode_column lib (rc_type column) bytes rows) (zip cols (columns f)) = Ok arrays"
      by (simp add: decode_columns_def collect_columns_Ok)
    from decoded_arrays_typed [OF f Ok m t] have "\<forall>i < length schema. f_data_type (schema ! i) = a_type (arrays ! i)
        \<and> f_nullable (schema ! i) \<and> array_len (arrays ! i) = rows"
      using n by simp
    then have "try_new_batch lib schema arrays rows = None"
      using assms(1) n m try_map_length [OF t] unfolding arrow_documented_def by simp
    then show ?thesis by (simp add: record_batch_def arrow_free_Ok)
  qed
  moreover have "arrow_free (decode_columns lib pick cols bytes rows k)" for bytes rows k
    unfolding decode_columns_def
  proof (rule arrow_free_collect [OF assms(2)])
    fix x assume "x \<in> set (zip cols bytes)"
    then obtain i where "i < length cols" "fst x = cols ! i" by (auto simp: set_zip)
    then show "arrow_free (case x of (column, bytes) \<Rightarrow> decode_column lib (rc_type column) bytes rows)"
      using arrow_free_decode_column [OF assms(1)] field by (auto split: prod.splits)
  qed
  moreover have "arrow_free (map_err Frame (parse_frame frame))"
    by (cases "parse_frame frame") (auto simp: arrow_free_def)
  moreover have "arrow_free (validate_frame f cols rid start req)" for f
    unfolding validate_frame_def by (intro arrow_free_intros)
  ultimately have "arrow_free (decode_frame lib pick frame cols rid start req)"
    unfolding decode_frame_def decode_frame_with_schema_def Ok rbind.simps
    by (intro arrow_free_rbind) (auto simp: map_err_Ok_iff)
  then show ?thesis by (simp add: arrow_free_def)
next
  case (Err x)
  have "arrow_free (field_for_column c)" for c
    unfolding field_for_column_def field_for_monet_type_def
    by (cases "rc_type c") (auto simp: decimal_data_type_def decimal_scale_def intro!: arrow_free_intros)
  then have "arrow_free (schema_for_columns cols)"
    unfolding schema_for_columns_def by (induction cols) (auto intro!: arrow_free_intros)
  with Err show ?thesis by (simp add: decode_frame_def arrow_free_def)
qed (simp add: decode_frame_def)

lemma decode_frame_with_schema_not_Panic:
  assumes "\<forall>f. parse_frame frame = Ok f \<longrightarrow> (\<forall>c \<in> set cols. inet_rows_fit (rc_type c) (row_count f))"
  shows "decode_frame_with_schema lib pick frame cols rid start req schema \<noteq> Panic"
proof -
  have "decode_columns lib pick cols bytes rows k \<noteq> Panic"
    if "parse_frame frame = Ok f" "validate_frame f cols rid start req = Ok rows" for f bytes rows k
  proof -
    have "rows = row_count f" using that(2) by (auto simp: validate_frame_def usize_try_from_def result_simps split: if_splits)
    with assms that(1) have "\<forall>c \<in> set cols. inet_rows_fit (rc_type c) rows" by blast
    then show ?thesis
      unfolding decode_columns_def
      by (intro collect_columns_not_Panic) (auto simp: decode_column_never_panics dest: set_zip_leftD)
  qed
  then show ?thesis
    using parse_frame_never_panics [of frame]
    by (auto simp: decode_frame_with_schema_def rbind_Panic_iff map_err_Ok_iff map_err_Panic_iff no_panic)
qed

text \<open>
  C22 (decoding never panics). For every sequence of bytes the server might send and every set of
  result columns, decoding the frame returns a batch or an error: no index, slice, conversion,
  assertion or builder of the frame parser and of the column decoders fails. With an address column
  this holds for frames of at most \<open>i32::MAX / 39\<close> rows, since the text builder of that column is not
  guarded against its 32-bit offsets.
\<close>

theorem decode_frame_never_panics:
  assumes "\<forall>f. parse_frame frame = Ok f \<longrightarrow> (\<forall>c \<in> set cols. rc_type c \<in> {MT_Inet4, MT_Inet6} \<longrightarrow> row_count f * 39 \<le> i32_max)"
  shows "decode_frame lib pick frame cols rid start req \<noteq> Panic"
proof -
  have "decode_frame_with_schema lib pick frame cols rid start req schema \<noteq> Panic" for schema
    using assms by (intro decode_frame_with_schema_not_Panic) (simp add: inet_rows_fit_def)
  then show ?thesis
    unfolding decode_frame_def schema_for_columns_def by (intro no_panic)
qed

definition sample_columns :: "result_column list" where
  "sample_columns = [\<lparr>rc_name = ''id'', rc_type = MT_SmallInt\<rparr>, \<lparr>rc_name = ''name'', rc_type = MT_Varchar 10\<rparr>]"

definition sample_bytes :: "u8 list list" where
  "sample_bytes = [[1, 0, 0, 0x80], [0x61, 0, 0x81]]"

definition sample_batch :: batch where
  "sample_batch =
     \<lparr>b_schema = [\<lparr>f_name = ''id'', f_data_type = DT_Int16, f_nullable = True, f_metadata = Map.empty\<rparr>,
                  \<lparr>f_name = ''name'', f_data_type = DT_Utf8, f_nullable = True, f_metadata = Map.empty\<rparr>],
      b_arrays = [\<lparr>a_type = DT_Int16, a_data = IntData \<lparr>pvalues = [1, - 32768], pvalidity = Some [True, False]\<rparr>\<rparr>,
                  \<lparr>a_type = DT_Utf8, a_data = TextData [Some [0x61], Some [0x61]]\<rparr>],
      b_rows = 2\<rparr>"

lemma sample_frame_decodes:
  "decode_frame strict_arrow hd (build_frame 5 2 100 sample_bytes) sample_columns 5 100 10 = Ok sample_batch"
proof -
  have "length (build_frame 5 2 100 sample_bytes) < 2 ^ 63" by code_simp
  then have "parse_frame (build_frame 5 2 100 sample_bytes) =
      Ok \<lparr>result_id = 5, row_count = 2, start_row = 100, columns = sample_bytes\<rparr>"
    by (intro parse_build_frame) (simp_all add: in_signed_def)
  moreover have "schema_for_columns sample_columns = Ok (b_schema sample_batch)"
    by (simp add: schema_for_columns_def sample_columns_def field_for_column_def field_for_monet_type_def sample_batch_def)
  moreover have "decode_columns strict_arrow hd sample_columns sample_bytes 2 7 = Ok (b_arrays sample_batch)"
    "sum_bytes sample_bytes = 7" by code_simp+
  moreover have "try_new_batch strict_arrow (b_schema sample_batch) (b_arrays sample_batch) 2 = None"
    by (simp add: strict_arrow_def sample_batch_def array_len_def)
  ultimately show ?thesis
    by (simp add: decode_frame_def decode_frame_with_schema_def validate_frame_def sample_columns_def
        sample_bytes_def usize_try_from_def record_batch_def) (simp add: sample_batch_def)
qed

theorem decode_frame_typed_witness:
  "b_rows sample_batch \<le> 10 \<and> length (b_arrays sample_batch) = length sample_columns \<and>
   a_type (b_arrays sample_batch ! 1) = f_data_type (b_schema sample_batch ! 1) \<and>
   array_len (b_arrays sample_batch ! 1) = b_rows sample_batch"
  using decode_frame_typed [OF sample_frame_decodes] by (simp add: sample_columns_def)

theorem decode_frame_no_arrow_error_witness:
  "\<nexists>e. decode_frame strict_arrow hd (build_frame 5 2 100 sample_bytes) sample_columns 5 100 10 = Err (Arrow_Err e)"
  using decode_frame_no_arrow_error [OF strict_arrow_documented, of hd] by simp

theorem decode_frame_never_panics_witness:
  "decode_frame strict_arrow hd (build_frame 5 2 100 [[127, 0, 0, 1, 0, 0, 0, 0]]) [\<lparr>rc_name = ''host'', rc_type = MT_Inet4\<rparr>]
     5 100 10 \<noteq> Panic"
proof (rule decode_frame_never_panics)
  have "length (build_frame 5 2 100 [[127, 0, 0, 1, 0, 0, 0, 0]]) < 2 ^ 63" by code_simp
  then have "parse_frame (build_frame 5 2 100 [[127, 0, 0, 1, 0, 0, 0, 0]]) =
      Ok \<lparr>result_id = 5, row_count = 2, start_row = 100, columns = [[127, 0, 0, 1, 0, 0, 0, 0]]\<rparr>"
    by (intro parse_build_frame) (simp_all add: in_signed_def)
  then show "\<forall>f. parse_frame (build_frame 5 2 100 [[127, 0, 0, 1, 0, 0, 0, 0]]) = Ok f \<longrightarrow>
      (\<forall>c \<in> set [\<lparr>rc_name = ''host'', rc_type = MT_Inet4\<rparr>]. rc_type c \<in> {MT_Inet4, MT_Inet6} \<longrightarrow> row_count f * 39 \<le> i32_max)"
    by auto
qed

end
