(* ===== verification/Encode_Fixed.thy ===== *)
theory Encode_Fixed
  imports Decode_Fixed
begin

text \<open>
  Fixed-width columns of \<open>encode.rs\<close>. Each writer returns the bytes it appends to its output
  buffer. The loops read row by row through \<open>is_null\<close> and \<open>value\<close>, which is \<open>logical\<close> of the
  array. A value that would be read back as NULL is refused with the row it is in.

  \<open>chrono\<close> is the parameter of theory \<open>Calendar\<close>; the conversion of half floats, which the
  \<open>half\<close> crate implements, is the parameter \<open>f32_from_f16\<close>.
\<close>

subsection \<open>Native copies with NULL slots overwritten\<close>

definition overwrite :: "'a list \<Rightarrow> nat \<Rightarrow> 'a list \<Rightarrow> 'a list" where
  "overwrite out offset bytes = take offset out @ bytes @ drop (offset + length bytes) out"

definition copy_native_with_nulls ::
  "('v \<Rightarrow> u8 list) \<Rightarrow> nat \<Rightarrow> 'v primitive_array \<Rightarrow> u8 list \<Rightarrow> u8 list" where
  "copy_native_with_nulls native width array null =
     (let out = concat (map native (pvalues array)) in
      if null_count array = 0 then out
      else fold (\<lambda>row out. if is_null array row then overwrite out (row * width) null else out)
             [0..<length (pvalues array)] out)"

definition encode_primitive :: "nat \<Rightarrow> int primitive_array \<Rightarrow> (u8 list, encode_error) result" where
  "encode_primitive w array =
     rbind (try_map_from 0 (\<lambda>row value.
         if value = Some (int_min w) then Err (E_InvalidValue row e_value_sentinel) else Ok ())
         (logical array)) (\<lambda>_.
       Ok (copy_native_with_nulls (to_le w) w array (to_le w (int_min w))))"

text \<open>The \<open>unsigned!\<close> macro: the wire integer of \<open>w\<close> bytes is wider than the values.\<close>

definition encode_unsigned :: "nat \<Rightarrow> int primitive_array \<Rightarrow> u8 list" where
  "encode_unsigned w array =
     concat (map (\<lambda>value. to_le w (case value of None \<Rightarrow> int_min w | Some v \<Rightarrow> v)) (logical array))"

definition encode_bool :: "bool primitive_array \<Rightarrow> u8 list" where
  "encode_bool array =
     map (\<lambda>value. case value of None \<Rightarrow> 0x80 | Some v \<Rightarrow> if v then 1 else 0) (logical array)"

definition encode_oid_row :: "nat \<Rightarrow> int option \<Rightarrow> (u8 list, encode_error) result" where
  "encode_oid_row row value =
     (case value of
        None \<Rightarrow> Ok (le_bytes 8 (2 ^ 63))
      | Some v \<Rightarrow> if 2 ^ 63 \<le> v then Err (E_InvalidValue row e_oid) else Ok (le_bytes 8 (nat v)))"

definition encode_oid :: "int primitive_array \<Rightarrow> (u8 list, encode_error) result" where
  "encode_oid array =
     rbind (try_map_from 0 encode_oid_row (logical array)) (\<lambda>out. Ok (concat out))"

definition check_finite ::
  "(nat \<Rightarrow> bool) \<Rightarrow> nat primitive_array \<Rightarrow> (unit list, encode_error) result" where
  "check_finite is_finite array =
     try_map_from 0 (\<lambda>row value.
         case value of
           None \<Rightarrow> Ok ()
         | Some v \<Rightarrow> if \<not> is_finite v then Err (E_InvalidValue row e_float) else Ok ()) (logical array)"

definition encode_f32 :: "nat primitive_array \<Rightarrow> (u8 list, encode_error) result" where
  "encode_f32 array =
     rbind (check_finite f32_is_finite array) (\<lambda>_.
       Ok (copy_native_with_nulls (le_bytes 4) 4 array (le_bytes 4 f32_nan)))"

definition encode_f64 :: "nat primitive_array \<Rightarrow> (u8 list, encode_error) result" where
  "encode_f64 array =
     rbind (check_finite f64_is_finite array) (\<lambda>_.
       Ok (copy_native_with_nulls (le_bytes 8) 8 array (le_bytes 8 f64_nan)))"

definition encode_f16_row :: "(nat \<Rightarrow> nat) \<Rightarrow> nat \<Rightarrow> nat option \<Rightarrow> (u8 list, encode_error) result" where
  "encode_f16_row f32_from_f16 row value =
     (case value of
        None \<Rightarrow> Ok (le_bytes 4 f32_nan)
      | Some v \<Rightarrow>
          let wide = f32_from_f16 v in
          if \<not> f32_is_finite wide then Err (E_InvalidValue row e_float)
          else Ok (le_bytes 4 wide))"

definition encode_f16 :: "(nat \<Rightarrow> nat) \<Rightarrow> nat primitive_array \<Rightarrow> (u8 list, encode_error) result" where
  "encode_f16 f32_from_f16 array =
     rbind (try_map_from 0 (encode_f16_row f32_from_f16) (logical array)) (\<lambda>out.
       Ok (concat out))"

subsection \<open>Decimals\<close>

definition narrow_decimal :: "nat \<Rightarrow> nat \<Rightarrow> int option \<Rightarrow> (u8 list, encode_error) result" where
  "narrow_decimal w row value =
     rbind (case value of
              None \<Rightarrow> Ok (int_min w)
            | Some v \<Rightarrow> ok_or (int_try_from w v) (E_InvalidValue row e_decimal_backing)) (\<lambda>wire.
       if value \<noteq> None \<and> wire = int_min w then Err (E_InvalidValue row e_decimal_sentinel)
       else Ok (to_le w wire))"

definition encode_decimal_row :: "nat \<Rightarrow> bool \<Rightarrow> nat \<Rightarrow> int option \<Rightarrow> (u8 list, encode_error) result" where
  "encode_decimal_row precision enforce row value =
     (if enforce \<and> (case value of None \<Rightarrow> False | Some v \<Rightarrow> v \<le> - (10 ^ precision) \<or> 10 ^ precision \<le> v)
      then Err (E_InvalidValue row e_decimal_precision)
      else rbind (expect (decimal_width precision)) (\<lambda>w. narrow_decimal w row value))"

definition encode_decimal :: "int primitive_array \<Rightarrow> nat \<Rightarrow> bool \<Rightarrow> (u8 list, encode_error) result" where
  "encode_decimal array precision enforce =
     (if \<not> (1 \<le> precision \<and> precision \<le> 38) then Err (E_InvalidValue 0 e_precision)
      else rbind (try_map_from 0 (encode_decimal_row precision enforce) (logical array)) (\<lambda>out.
        Ok (concat out)))"

subsection \<open>UUIDs\<close>

definition encode_uuid_row :: "nat \<Rightarrow> u8 list option \<Rightarrow> (u8 list, encode_error) result" where
  "encode_uuid_row row value =
     (case value of
        None \<Rightarrow> Ok (replicate 16 0)
      | Some v \<Rightarrow> if list_all (\<lambda>b. b = 0) v then Err (E_InvalidValue row e_uuid) else Ok v)"

definition encode_uuid :: "u8 list option list \<Rightarrow> (u8 list, encode_error) result" where
  "encode_uuid values =
     rbind (try_map_from 0 encode_uuid_row values) (\<lambda>out.
       Ok (concat out))"

subsection \<open>Dates\<close>

definition append_date :: "'d chrono \<Rightarrow> int \<Rightarrow> nat \<Rightarrow> (u8 list, encode_error) result" where
  "append_date c days row =
     rbind (ok_or (date_from_unix_days c days) (E_InvalidValue row e_date_chrono)) (\<lambda>date.
       let (year, month, day) = date_ymd c date in
       if year < -4712 then Err (E_InvalidValue row e_date_min)
       else
         rbind (ok_or (int_try_from 2 year) (E_InvalidValue row e_date_year)) (\<lambda>y.
           Ok ([word_of_nat day, word_of_nat month] @ to_le 2 y)))"

definition encode_date32_row :: "'d chrono \<Rightarrow> nat \<Rightarrow> int option \<Rightarrow> (u8 list, encode_error) result" where
  "encode_date32_row c row value =
     (case value of None \<Rightarrow> Ok (replicate 4 0xFF) | Some v \<Rightarrow> append_date c v row)"

definition encode_date32 :: "'d chrono \<Rightarrow> int primitive_array \<Rightarrow> (u8 list, encode_error) result" where
  "encode_date32 c array =
     rbind (try_map_from 0 (encode_date32_row c) (logical array)) (\<lambda>out. Ok (concat out))"

definition encode_date64_row :: "'d chrono \<Rightarrow> nat \<Rightarrow> int option \<Rightarrow> (u8 list, encode_error) result" where
  "encode_date64_row c row value =
     (case value of
        None \<Rightarrow> Ok (replicate 4 0xFF)
      | Some v \<Rightarrow>
          if trunc_rem v 86400000 \<noteq> 0 then Err (E_InvalidValue row e_date64)
          else append_date c (trunc_div v 86400000) row)"

definition encode_date64 :: "'d chrono \<Rightarrow> int primitive_array \<Rightarrow> (u8 list, encode_error) result" where
  "encode_date64 c array =
     rbind (try_map_from 0 (encode_date64_row c) (logical array)) (\<lambda>out. Ok (concat out))"

subsection \<open>Times\<close>

definition append_time :: "int \<Rightarrow> nat \<Rightarrow> (u8 list, encode_error) result" where
  "append_time micros row =
     (if \<not> (0 \<le> micros \<and> micros < 86400000000) then Err (E_InvalidValue row e_time_day)
      else
        let seconds = trunc_div micros 1000000 in
        Ok (le_bytes 4 (nat (trunc_rem micros 1000000))
              @ [word_of_int (trunc_rem seconds 60), word_of_int (trunc_rem (trunc_div seconds 60) 60),
                 word_of_int (trunc_div seconds 3600), 0]))"

definition encode_time_row :: "int \<Rightarrow> nat \<Rightarrow> int option \<Rightarrow> (u8 list, encode_error) result" where
  "encode_time_row factor row value =
     (case value of None \<Rightarrow> Ok (replicate 8 0xFF) | Some v \<Rightarrow> append_time (v * factor) row)"

definition encode_time_values :: "int \<Rightarrow> int primitive_array \<Rightarrow> (u8 list, encode_error) result" where
  "encode_time_values factor array =
     rbind (try_map_from 0 (encode_time_row factor) (logical array)) (\<lambda>out. Ok (concat out))"

definition encode_time32 :: "time_unit \<Rightarrow> int primitive_array \<Rightarrow> (u8 list, encode_error) result" where
  "encode_time32 unit array =
     (case unit of
        Second \<Rightarrow> encode_time_values 1000000 array
      | Millisecond \<Rightarrow> encode_time_values 1000 array
      | _ \<Rightarrow> Err (E_Unsupported (DT_Time32 unit)))"

definition encode_time_nanos_row :: "nat \<Rightarrow> int option \<Rightarrow> (u8 list, encode_error) result" where
  "encode_time_nanos_row row value =
     (case value of
        None \<Rightarrow> Ok (replicate 8 0xFF)
      | Some v \<Rightarrow>
          if trunc_rem v 1000 \<noteq> 0 then Err (E_InvalidValue row e_time_aligned)
          else append_time (trunc_div v 1000) row)"

definition encode_time_nanos :: "int primitive_array \<Rightarrow> (u8 list, encode_error) result" where
  "encode_time_nanos array =
     rbind (try_map_from 0 encode_time_nanos_row (logical array)) (\<lambda>out. Ok (concat out))"

definition encode_time64 :: "time_unit \<Rightarrow> int primitive_array \<Rightarrow> (u8 list, encode_error) result" where
  "encode_time64 unit array =
     (case unit of
        Microsecond \<Rightarrow> encode_time_values 1 array
      | Nanosecond \<Rightarrow> encode_time_nanos array
      | _ \<Rightarrow> Err (E_Unsupported (DT_Time64 unit)))"

subsection \<open>Timestamps\<close>

definition append_timestamp :: "'d chrono \<Rightarrow> int \<Rightarrow> nat \<Rightarrow> (u8 list, encode_error) result" where
  "append_timestamp c micros row =
     rbind (append_time (micros mod 86400000000) row) (\<lambda>t.
     rbind (append_date c (micros div 86400000000) row) (\<lambda>d. Ok (t @ d)))"

definition encode_timestamp_row ::
  "'d chrono \<Rightarrow> int \<Rightarrow> nat \<Rightarrow> int option \<Rightarrow> (u8 list, encode_error) result" where
  "encode_timestamp_row c factor row value =
     (case value of
        None \<Rightarrow> Ok (replicate 12 0xFF)
      | Some v \<Rightarrow>
          rbind (ok_or (int_try_from 8 (v * factor)) (E_InvalidValue row e_timestamp_overflow)) (\<lambda>micros.
            append_timestamp c micros row))"

definition encode_timestamp_values ::
  "'d chrono \<Rightarrow> int \<Rightarrow> int primitive_array \<Rightarrow> (u8 list, encode_error) result" where
  "encode_timestamp_values c factor array =
     rbind (try_map_from 0 (encode_timestamp_row c factor) (logical array)) (\<lambda>out. Ok (concat out))"

definition encode_timestamp_nanos_row :: "'d chrono \<Rightarrow> nat \<Rightarrow> int option \<Rightarrow> (u8 list, encode_error) result" where
  "encode_timestamp_nanos_row c row value =
     (case value of
        None \<Rightarrow> Ok (replicate 12 0xFF)
      | Some v \<Rightarrow>
          if trunc_rem v 1000 \<noteq> 0 then Err (E_InvalidValue row e_timestamp_aligned)
          else append_timestamp c (trunc_div v 1000) row)"

definition encode_timestamp_nanos :: "'d chrono \<Rightarrow> int primitive_array \<Rightarrow> (u8 list, encode_error) result" where
  "encode_timestamp_nanos c array =
     rbind (try_map_from 0 (encode_timestamp_nanos_row c) (logical array)) (\<lambda>out. Ok (concat out))"

definition encode_timestamp ::
  "'d chrono \<Rightarrow> time_unit \<Rightarrow> int primitive_array \<Rightarrow> (u8 list, encode_error) result" where
  "encode_timestamp c unit array =
     (case unit of
        Second \<Rightarrow> encode_timestamp_values c 1000000 array
      | Millisecond \<Rightarrow> encode_timestamp_values c 1000 array
      | Microsecond \<Rightarrow> encode_timestamp_values c 1 array
      | Nanosecond \<Rightarrow> encode_timestamp_nanos c array)"

subsection \<open>Durations\<close>

definition encode_duration_row ::
  "int \<Rightarrow> int \<Rightarrow> bool \<Rightarrow> nat \<Rightarrow> int option \<Rightarrow> (u8 list, encode_error) result" where
  "encode_duration_row multiplier divisor require_whole_days row value =
     (case value of
        None \<Rightarrow> Ok (to_le 8 (int_min 8))
      | Some v \<Rightarrow>
          if trunc_rem v divisor \<noteq> 0 then Err (E_InvalidValue row e_duration_aligned)
          else
           rbind (ok_or (int_try_from 8 (trunc_div v divisor * multiplier))
                   (E_InvalidValue row e_duration_overflow)) (\<lambda>ms.
           if ms = int_min 8 then Err (E_InvalidValue row e_duration_sentinel)
           else if require_whole_days \<and> trunc_rem ms 86400000 \<noteq> 0
           then Err (E_InvalidValue row e_day_interval)
           else Ok (to_le 8 ms)))"

definition encode_duration_values ::
  "int \<Rightarrow> int \<Rightarrow> bool \<Rightarrow> int primitive_array \<Rightarrow> (u8 list, encode_error) result" where
  "encode_duration_values multiplier divisor require_whole_days array =
     rbind (try_map_from 0 (encode_duration_row multiplier divisor require_whole_days) (logical array))
       (\<lambda>out. Ok (concat out))"

definition encode_duration ::
  "time_unit \<Rightarrow> bool \<Rightarrow> int primitive_array \<Rightarrow> (u8 list, encode_error) result" where
  "encode_duration unit require_whole_days array =
     (case unit of
        Second \<Rightarrow> encode_duration_values 1000 1 require_whole_days array
      | Millisecond \<Rightarrow> encode_duration_values 1 1 require_whole_days array
      | Microsecond \<Rightarrow> encode_duration_values 1 1000 require_whole_days array
      | Nanosecond \<Rightarrow> encode_duration_values 1 1000000 require_whole_days array)"

end
