(* ===== verification/Encode_Var.thy ===== *)
theory Encode_Var
  imports Encode_Fixed Decode_Var
begin

text \<open>
  Variable-width columns of \<open>encode.rs\<close>: strings (a repeated value becomes a back-reference to its
  last row), dictionary arrays, blobs and addresses. As in \<open>Encode_Fixed\<close>, a writer returns the
  bytes it appends. The calls that only pre-allocate memory are modelled by their failures: a
  reservation fails when it exceeds \<open>isize::MAX\<close>.
\<close>

subsection \<open>Strings\<close>

text \<open>The loop of \<open>append_backref\<close>; the continuation bit is disjoint from the chunk, so adding it
  sets it.\<close>

function long_chunks :: "nat \<Rightarrow> u8 list" where
  "long_chunks distance =
     (let chunk = word_of_nat (distance mod 128); distance = distance div 128 in
      if distance = 0 then [chunk] else (chunk + 0x80) # long_chunks distance)"
  by pat_completeness auto
termination
  by (relation "measure id") (auto simp: div_less_dividend)

declare long_chunks.simps [simp del]

definition append_backref :: "nat \<Rightarrow> u8 list" where
  "append_backref distance =
     (if distance \<le> 63 then [0x80 + word_of_nat distance] else 0x80 # long_chunks distance)"

definition null_piece :: "nat option \<Rightarrow> nat \<Rightarrow> u8 list" where
  "null_piece null row =
     (case null of
        Some previous \<Rightarrow> if row - previous < 64 then append_backref (row - previous) else [0x80, 0]
      | None \<Rightarrow> [0x80, 0])"

definition string_piece :: "(u8 list \<rightharpoonup> nat) \<Rightarrow> nat \<Rightarrow> u8 list \<Rightarrow> u8 list" where
  "string_piece seen row v =
     (case seen v of Some previous \<Rightarrow> append_backref (row - previous) | None \<Rightarrow> v @ [0])"

fun encode_strings_from ::
  "nat \<Rightarrow> (u8 list \<rightharpoonup> nat) \<Rightarrow> nat option \<Rightarrow> u8 list option list \<Rightarrow> (u8 list, encode_error) result" where
  "encode_strings_from row seen null [] = Ok []"
| "encode_strings_from row seen null (None # vs) =
     rbind (encode_strings_from (row + 1) seen (Some row) vs) (\<lambda>out. Ok (null_piece null row @ out))"
| "encode_strings_from row seen null (Some v # vs) =
     (if 0 \<in> set v then Err (E_InvalidValue row e_string_nul)
      else rbind (encode_strings_from (row + 1) (seen(v \<mapsto> row)) null vs) (\<lambda>out.
        Ok (string_piece seen row v @ out)))"

definition encode_strings :: "u8 list option list \<Rightarrow> (u8 list, encode_error) result" where
  "encode_strings values = encode_strings_from 0 Map.empty None values"

text \<open>The reservation of an offset-based string array; the value buffer holds \<open>bytes\<close> bytes.\<close>

definition reserve_strings :: "nat \<Rightarrow> nat \<Rightarrow> (unit, encode_error) result" where
  "reserve_strings bytes rows =
     rbind (ok_or (checked_add bytes rows) (E_InvalidValue 0 e_string_length)) (\<lambda>bytes.
       if bytes \<le> isize_max then Ok () else Err (E_InvalidValue 0 e_string_large))"

subsection \<open>Dictionaries\<close>

definition check_keys :: "nat option list \<Rightarrow> u8 list option list \<Rightarrow> (unit list, encode_error) result" where
  "check_keys keys values =
     try_map_from 0 (\<lambda>row key.
       case key of
         Some k \<Rightarrow> if length values \<le> k then Err (E_InvalidValue row e_dictionary_key) else Ok ()
       | None \<Rightarrow> Ok ()) keys"

definition dictionary_values :: "nat option list \<Rightarrow> u8 list option list \<Rightarrow> u8 list option list" where
  "dictionary_values keys values = map (\<lambda>key. Option.bind key (\<lambda>k. values ! k)) keys"

definition integer_key :: "data_type \<Rightarrow> bool" where
  "integer_key t \<longleftrightarrow>
     t \<in> {DT_Int8, DT_Int16, DT_Int32, DT_Int64, DT_UInt8, DT_UInt16, DT_UInt32, DT_UInt64}"

definition string_type :: "data_type \<Rightarrow> bool" where
  "string_type t \<longleftrightarrow> t \<in> {DT_Utf8, DT_LargeUtf8, DT_Utf8View}"

definition encode_dictionary ::
  "data_type \<Rightarrow> data_type \<Rightarrow> nat option list \<Rightarrow> u8 list option list \<Rightarrow> (u8 list, encode_error) result" where
  "encode_dictionary key_type value_type keys values =
     (if \<not> integer_key key_type \<or> \<not> string_type value_type
      then Err (E_Unsupported (DT_Dictionary key_type value_type))
      else rbind (check_keys keys values) (\<lambda>_. encode_strings (dictionary_values keys values)))"

subsection \<open>Blobs\<close>

definition blob_piece :: "u8 list option \<Rightarrow> u8 list" where
  "blob_piece v = (case v of None \<Rightarrow> to_le 8 (- 1) | Some v \<Rightarrow> to_le 8 (int (length v)) @ v)"

definition encode_blobs :: "u8 list option list \<Rightarrow> u8 list" where
  "encode_blobs values = concat (map blob_piece values)"

subsection \<open>Addresses\<close>

definition encode_address_row ::
  "nat \<Rightarrow> (u8 list \<Rightarrow> u8 list option) \<Rightarrow> string \<Rightarrow> nat \<Rightarrow> u8 list option \<Rightarrow> (u8 list, encode_error) result" where
  "encode_address_row width parse invalid_message row value =
     rbind (case value of
              None \<Rightarrow> Ok (replicate width 0)
            | Some v \<Rightarrow> ok_or (parse v) (E_InvalidValue row invalid_message)) (\<lambda>octets.
       if value \<noteq> None \<and> list_all (\<lambda>b. b = 0) octets then Err (E_InvalidValue row e_address_sentinel)
       else Ok octets)"

definition encode_addresses ::
  "nat \<Rightarrow> (u8 list \<Rightarrow> u8 list option) \<Rightarrow> string \<Rightarrow> u8 list option list \<Rightarrow> (u8 list, encode_error) result" where
  "encode_addresses width parse invalid_message values =
     rbind (try_map_from 0 (encode_address_row width parse invalid_message) values) (\<lambda>out. Ok (concat out))"

subsection \<open>Back-references read back\<close>

lemma chunk_bytes:
  assumes m: "c < 128"
  shows "unat (word_of_nat c :: u8) = c" "(word_of_nat c :: u8) < 0x80"
    "unat (word_of_nat c + 0x80 :: u8) = c + 128" "\<not> (word_of_nat c + 0x80 :: u8) < 0x80"
proof -
  show a: "unat (word_of_nat c :: u8) = c"
    using m by (simp add: unat_byte_of_nat)
  show "(word_of_nat c :: u8) < 0x80"
    using m by (simp add: word_less_nat_alt a)
  show b: "unat (word_of_nat c + 0x80 :: u8) = c + 128"
    using m by (simp add: unat_word_ariths(1) a)
  show "\<not> (word_of_nat c + 0x80 :: u8) < 0x80"
    by (simp add: word_less_nat_alt b)
qed

lemma shifted_digits: "(d mod 128) * 2 ^ shift + (d div 128) * 2 ^ (shift + 7) = d * (2::nat) ^ shift"
proof -
  have "r * 2 ^ shift + q * 2 ^ (shift + 7) = (r + 128 * q) * 2 ^ shift" for q r :: nat
    by (simp add: power_add algebra_simps)
  from this [of "d mod 128" "d div 128"] show ?thesis by simp
qed

lemma shift_fits: "d * 2 ^ s \<le> usize_max \<Longrightarrow> d \<noteq> 0 \<Longrightarrow> s < 64" for d s :: nat
proof (rule ccontr)
  assume le: "d * 2 ^ s \<le> usize_max" and d: "d \<noteq> 0" and "\<not> s < 64"
  then have "(2::nat) ^ 64 \<le> 2 ^ s" by (intro power_increasing) simp_all
  also have "\<dots> \<le> d * 2 ^ s" using d by simp
  finally show False using le by simp
qed

lemma long_backref_loop_chunks:
  "distance + d * 2 ^ shift \<le> usize_max \<Longrightarrow> shift < 64 \<Longrightarrow>
   long_backref_loop row index distance shift (long_chunks d @ rest) =
     Ok (distance + d * 2 ^ shift, index + length (long_chunks d))"
proof (induction d arbitrary: index distance shift rule: long_chunks.induct)
  case (1 d)
  let ?low = "d mod 128" and ?d = "d div 128"
  note eq = shifted_digits [of d shift]
  have le: "?low * 2 ^ shift \<le> usize_max" "distance + ?low * 2 ^ shift \<le> usize_max"
    "distance + ?low * 2 ^ shift + ?d * 2 ^ (shift + 7) \<le> usize_max"
    using 1(2) eq by linarith+
  have guard: "\<not> usize_max div 2 ^ shift < ?low"
    using le(1) by (simp add: not_less less_eq_div_iff_mult_less_eq del: power_numeral)
  show ?case
  proof (cases "?d = 0")
    case True
    then have "d < 128" by (simp add: div_eq_0_iff)
    then show ?thesis
      using True guard le by (simp add: long_chunks.simps [of d] Let_def chunk_bytes checked_add_def)
  next
    case False
    have s: "shift + 7 < 64"
      by (rule shift_fits [of ?d]) (use le(3) False in auto)
    have "long_backref_loop row index distance shift (long_chunks d @ rest) =
        long_backref_loop row (index + 1) (distance + ?low * 2 ^ shift) (shift + 7) (long_chunks ?d @ rest)"
      using False guard le(2) s
      by (simp add: long_chunks.simps [of d] Let_def chunk_bytes checked_add_def)
    also have "\<dots> = Ok (distance + ?low * 2 ^ shift + ?d * 2 ^ (shift + 7), index + 1 + length (long_chunks ?d))"
      by (rule 1(1) [OF refl refl False le(3) s])
    finally show ?thesis
      using False eq by (simp add: long_chunks.simps [of d] Let_def)
  qed
qed

lemma long_backref_long_chunks:
  "d \<le> usize_max \<Longrightarrow> long_backref (long_chunks d @ rest) row = Ok (d, length (long_chunks d))"
  using long_backref_loop_chunks [of 0 d 0 row 0 rest] by (simp add: long_backref_def)

lemma get_after: "get (pre @ b # rest) (length pre) = Some b"
  by (simp add: get_def)

lemma slice_after: "slice (pre @ b # rest) (length pre + 1) (length (pre @ b # rest)) = rest"
  by (simp add: slice_def)

lemma backref_value_history:
  "1 \<le> distance \<Longrightarrow> distance \<le> row \<Longrightarrow> length history = row \<Longrightarrow>
   backref_value row distance history = Ok (history ! (row - distance))"
  by (simp add: backref_value_def get_def)

lemma short_backref_byte:
  assumes "1 \<le> d" "d \<le> 63"
  shows "short_backref (0x80 + word_of_nat d)" "unat (0x80 + word_of_nat d - 0x80 :: u8) = d"
proof -
  have d: "unat (word_of_nat d :: u8) = d" using assms by (simp add: unat_byte_of_nat)
  then have "unat (0x80 + word_of_nat d :: u8) = 128 + d"
    using assms by (simp add: unat_word_ariths(1))
  then show "short_backref (0x80 + word_of_nat d)"
    using assms by (simp add: short_backref_def word_le_nat_alt)
  show "unat (0x80 + word_of_nat d - 0x80 :: u8) = d" using d by simp
qed

lemma backref_read_backref:
  assumes "1 \<le> d" "d \<le> row" "length history = row" "row \<le> usize_max"
  shows "backref_read (pre @ append_backref d @ rest) row (length pre) history =
    Ok (history ! (row - d), length pre + length (append_backref d))"
proof (cases "d \<le> 63")
  case True
  then show ?thesis
    using backref_read_cases(2) [OF get_after short_backref_byte(1) [OF assms(1) True], of pre rest row history]
      short_backref_byte(2) [OF assms(1) True] backref_value_history [OF assms(1-3)]
    by (simp add: append_backref_def)
next
  case False
  have "long_backref (long_chunks d @ rest) row = Ok (d, length (long_chunks d))"
    by (rule long_backref_long_chunks) (use assms in simp)
  then show ?thesis
    using False assms(1) backref_read_cases(1) [OF get_after refl, of pre "long_chunks d @ rest" row history]
      backref_value_history [OF assms(1-3)] slice_after [of pre "0x80" "long_chunks d @ rest"]
    by (simp add: append_backref_def)
qed

lemma backref_read_null:
  "backref_read (pre @ [0x80, 0] @ rest) row (length pre) history = Ok (None, length pre + 2)"
proof -
  have "long_backref (0 # rest) row = Ok (0, 1)" by (simp add: long_backref_def checked_add_def)
  then show ?thesis
    using backref_read_cases(1) [OF get_after refl, of pre "0 # rest" row history]
      slice_after [of pre "0x80" "0 # rest"] by simp
qed

lemma literal_at_literal:
  assumes "utf8_valid v" "0 \<notin> set v"
  shows "literal_at (pre @ (v @ [0]) @ rest) row (length pre) = Ok (v, length pre + length (v @ [0]))"
proof -
  have "slice (pre @ (v @ [0]) @ rest) (length pre) (length (pre @ (v @ [0]) @ rest)) = v @ 0 # rest"
    by (simp add: slice_def)
  moreover have "position (\<lambda>b. b = 0) (v @ 0 # rest) = Some (length v)"
    by (rule position_none_Cons) (use assms in auto)
  moreover have "slice (v @ 0 # rest) 0 (length v) = v" by (simp add: slice_def)
  ultimately show ?thesis using assms by (simp add: literal_at_def slice_at_def)
qed

lemma continuation_byte: "short_backref b \<or> b = 0x80 \<Longrightarrow> continuation b"
  by (auto simp: short_backref_def continuation_def word_le_nat_alt)

lemma backref_read_literal:
  assumes "utf8_valid v" "0 \<notin> set v"
  shows "backref_read (pre @ (v @ [0]) @ rest) row (length pre) history =
    Ok (Some v, length pre + length (v @ [0]))"
proof -
  obtain b bs where b: "v @ [0] = b # bs" by (cases "v @ [0]") auto
  have "\<not> continuation b"
  proof (cases v)
    case Nil
    with b show ?thesis by (simp add: continuation_def)
  next
    case (Cons c cs)
    with b assms(1) show ?thesis using utf8_valid_hd by simp
  qed
  then have k: "b \<noteq> 0x80" "\<not> short_backref b" using continuation_byte by blast+
  have g: "get (pre @ (v @ [0]) @ rest) (length pre) = Some b"
    unfolding b by (simp add: get_def)
  show ?thesis
    unfolding backref_read_cases(3) [OF g k] literal_at_literal [OF assms] by simp
qed

subsection \<open>String columns read back\<close>

definition history_inv :: "(u8 list \<rightharpoonup> nat) \<Rightarrow> nat option \<Rightarrow> u8 list option list \<Rightarrow> bool" where
  "history_inv seen null history \<longleftrightarrow>
     (\<forall>v p. seen v = Some p \<longrightarrow> p < length history \<and> history ! p = Some v) \<and>
     (\<forall>p. null = Some p \<longrightarrow> p < length history \<and> history ! p = None)"

lemma history_inv_init: "history_inv Map.empty None []"
  by (simp add: history_inv_def)

lemma history_inv_string:
  "history_inv seen null history \<Longrightarrow> history_inv (seen(v \<mapsto> length history)) null (history @ [Some v])"
  by (auto simp: history_inv_def nth_append intro: less_SucI)

lemma history_inv_null:
  "history_inv seen null history \<Longrightarrow> history_inv seen (Some (length history)) (history @ [None])"
  by (auto simp: history_inv_def nth_append intro: less_SucI)

lemma read_string_piece:
  assumes "history_inv seen null history" "utf8_valid v" "0 \<notin> set v" "length history \<le> usize_max"
  shows "backref_read (pre @ string_piece seen (length history) v @ rest) (length history) (length pre) history =
    Ok (Some v, length pre + length (string_piece seen (length history) v))"
proof (cases "seen v")
  case None
  then show ?thesis using backref_read_literal [OF assms(2,3)] by (simp add: string_piece_def)
next
  case (Some p)
  with assms(1) have "p < length history" "history ! p = Some v" by (auto simp: history_inv_def)
  with Some assms(4) backref_read_backref [of "length history - p" "length history" history pre rest]
  show ?thesis by (simp add: string_piece_def)
qed

lemma read_null_piece:
  assumes "history_inv seen null history" "length history \<le> usize_max"
  shows "backref_read (pre @ null_piece null (length history) @ rest) (length history) (length pre) history =
    Ok (None, length pre + length (null_piece null (length history)))"
proof (cases "\<exists>p. null = Some p \<and> length history - p < 64")
  case True
  then obtain p where p: "null = Some p" "length history - p < 64" by blast
  with assms(1) have "p < length history" "history ! p = None" by (auto simp: history_inv_def)
  with p assms(2) backref_read_backref [of "length history - p" "length history" history pre rest]
  show ?thesis by (simp add: null_piece_def)
next
  case False
  then have "null_piece null (length history) = [0x80, 0]" by (auto simp: null_piece_def split: option.splits)
  then show ?thesis using backref_read_null [of pre rest "length history" history] by simp
qed

lemma backref_step_read:
  assumes "backref_read bytes row pos history = Ok (v, pos')"
    "vb + value_size [v] \<le> i32_max" "vb + value_size [v] \<le> expansion_limit bytes"
  shows "backref_step bytes row pos vb history = Ok (v, pos', vb + value_size [v])"
  using assms by (cases v) (simp_all add: backref_step_def checked_add_def)

lemma encode_strings_from_reads_back:
  assumes "encode_strings_from (length history) seen null vs = Ok out" "history_inv seen null history"
    "valid_strings vs" "length history + length vs \<le> usize_max"
    "vb + value_size vs \<le> i32_max" "vb + value_size vs \<le> expansion_limit (pre @ out @ rest)"
  shows "backref_loop (pre @ out @ rest) (length vs + m) (length history) (length pre) vb history =
    backref_loop (pre @ out @ rest) m (length (history @ vs)) (length (pre @ out)) (vb + value_size vs) (history @ vs)"
  using assms
proof (induction vs arbitrary: history seen null vb pre out)
  case (Cons v vs)
  let ?row = "length history"
  from Cons.prems(4) have row: "?row \<le> usize_max" by simp
  have valid: "valid_strings vs" using Cons.prems(3) by (cases v) simp_all
  have vb: "vb + value_size (v # vs) = vb + value_size [v] + value_size vs" by (cases v) simp_all
  obtain piece seen' null' out' where out: "out = piece @ out'"
    and tail: "encode_strings_from (?row + 1) seen' null' vs = Ok out'"
    and inv: "history_inv seen' null' (history @ [v])"
    and read: "backref_read (pre @ piece @ out' @ rest) ?row (length pre) history = Ok (v, length pre + length piece)"
  proof (cases v)
    case None
    with Cons.prems(1) obtain out' where "out = null_piece null ?row @ out'"
      "encode_strings_from (?row + 1) seen (Some ?row) vs = Ok out'" by (auto simp: result_simps)
    with None that history_inv_null [OF Cons.prems(2)] read_null_piece [OF Cons.prems(2) row]
    show thesis by blast
  next
    case (Some s)
    with Cons.prems(1) obtain out' where "out = string_piece seen ?row s @ out'" "0 \<notin> set s"
      "encode_strings_from (?row + 1) (seen(s \<mapsto> ?row)) null vs = Ok out'"
      by (auto simp: result_simps split: if_splits)
    with Some that Cons.prems(3) history_inv_string [OF Cons.prems(2)] read_string_piece [OF Cons.prems(2) _ _ row]
    show thesis by simp
  qed
  have step: "backref_step (pre @ out @ rest) ?row (length pre) vb history =
      Ok (v, length pre + length piece, vb + value_size [v])"
    by (rule backref_step_read) (use read out Cons.prems(5,6) vb in auto)
  have "backref_loop ((pre @ piece) @ out' @ rest) (length vs + m) (length (history @ [v])) (length (pre @ piece))
      (vb + value_size [v]) (history @ [v]) =
    backref_loop ((pre @ piece) @ out' @ rest) m (length ((history @ [v]) @ vs)) (length ((pre @ piece) @ out'))
      (vb + value_size [v] + value_size vs) ((history @ [v]) @ vs)"
    by (rule Cons.IH [OF _ inv]) (use Cons.prems(4-6) valid tail out vb in auto)
  with step out vb show ?case by (simp add: add.assoc)
qed simp

text \<open>Back-references are relative, so a piece encoded on its own can follow any other piece.\<close>

lemma encode_strings_from_shift:
  "encode_strings_from row seen null vs = Ok out \<Longrightarrow>
   encode_strings_from (k + row) (\<lambda>v. map_option ((+) k) (seen v)) (map_option ((+) k) null) vs = Ok out"
proof (induction vs arbitrary: row seen null out)
  case (Cons v vs)
  show ?case
  proof (cases v)
    case None
    with Cons.prems obtain out' where o: "out = null_piece null row @ out'"
      "encode_strings_from (row + 1) seen (Some row) vs = Ok out'" by (auto simp: result_simps)
    moreover have "null_piece (map_option ((+) k) null) (k + row) = null_piece null row"
      by (cases null) (simp_all add: null_piece_def)
    ultimately show ?thesis using None Cons.IH [OF o(2)] by simp
  next
    case (Some s)
    with Cons.prems obtain out' where o: "out = string_piece seen row s @ out'" "0 \<notin> set s"
      "encode_strings_from (row + 1) (seen(s \<mapsto> row)) null vs = Ok out'"
      by (auto simp: result_simps split: if_splits)
    moreover have "string_piece (\<lambda>v. map_option ((+) k) (seen v)) (k + row) s = string_piece seen row s"
      by (cases "seen s") (simp_all add: string_piece_def)
    moreover have "(\<lambda>v. map_option ((+) k) ((seen(s \<mapsto> row)) v)) = (\<lambda>v. map_option ((+) k) (seen v))(s \<mapsto> k + row)"
      by auto
    ultimately show ?thesis using Some Cons.IH [OF o(3)] by (simp del: fun_upd_apply)
  qed
qed simp

lemma encode_strings_at:
  "encode_strings vs = Ok out \<Longrightarrow> encode_strings_from row Map.empty None vs = Ok out"
  using encode_strings_from_shift [of 0 Map.empty None vs out row] by (simp add: encode_strings_def)

lemma history_inv_fresh: "history_inv Map.empty None history"
  by (simp add: history_inv_def)

lemma encoded_pieces_read_back:
  assumes "list_all2 (\<lambda>vs out. encode_strings vs = Ok out) vss outs" "\<forall>vs \<in> set vss. valid_strings vs"
    "length history + length (concat vss) \<le> usize_max" "vb + value_size (concat vss) \<le> i32_max"
    "vb + value_size (concat vss) \<le> expansion_limit (pre @ concat outs)"
  shows "backref_loop (pre @ concat outs) (length (concat vss)) (length history) (length pre) vb history =
    Ok (history @ concat vss, length (pre @ concat outs))"
  using assms
proof (induction arbitrary: history vb pre rule: list_all2_induct)
  case (Cons vs vss out outs)
  have size: "value_size (vs @ concat vss) = value_size vs + value_size (concat vss)" by simp
  have "backref_loop (pre @ out @ concat outs) (length vs + length (concat vss)) (length history) (length pre) vb history =
    backref_loop (pre @ out @ concat outs) (length (concat vss)) (length (history @ vs)) (length (pre @ out))
      (vb + value_size vs) (history @ vs)"
    by (rule encode_strings_from_reads_back [OF encode_strings_at [OF Cons.hyps(1)] history_inv_fresh])
      (use Cons.prems size in auto)
  also have "\<dots> = Ok ((history @ vs) @ concat vss, length ((pre @ out) @ concat outs))"
    using Cons.IH [of "history @ vs" "vb + value_size vs" "pre @ out"] Cons.prems size by (simp add: ac_simps)
  finally show ?case by simp
qed simp

lemma piece_nonempty: "0 < length (null_piece null row)" "0 < length (string_piece seen row v)"
  by (simp_all add: null_piece_def string_piece_def append_backref_def split: option.splits)

lemma encode_strings_from_length: "encode_strings_from row seen null vs = Ok out \<Longrightarrow> length vs \<le> length out"
proof (induction vs arbitrary: row seen null out)
  case (Cons v vs)
  obtain piece seen' null' out' where o: "out = piece @ out'" "0 < length piece"
    and r: "encode_strings_from (row + 1) seen' null' vs = Ok out'"
    using Cons.prems piece_nonempty by (cases v) (auto simp: result_simps split: if_splits)
  from Cons.IH [OF r] o show ?case by (cases piece) auto
qed simp

definition no_nul :: "u8 list option list \<Rightarrow> bool" where
  "no_nul vs \<longleftrightarrow> list_all (\<lambda>v. case v of None \<Rightarrow> True | Some s \<Rightarrow> 0 \<notin> set s) vs"

lemma encode_strings_from_Ok: "no_nul vs \<Longrightarrow> \<exists>out. encode_strings_from row seen null vs = Ok out"
proof (induction vs arbitrary: row seen null)
  case (Cons v vs)
  have "no_nul vs" using Cons.prems by (simp add: no_nul_def)
  note IH = Cons.IH [OF this]
  show ?case
  proof (cases v)
    case None
    then show ?thesis using IH [of "row + 1" seen "Some row"] by auto
  next
    case (Some s)
    obtain out where "encode_strings_from (row + 1) (seen(s \<mapsto> row)) null vs = Ok out" using IH by blast
    moreover have "0 \<notin> set s" using Some Cons.prems by (simp add: no_nul_def)
    ultimately show ?thesis using Some by (simp del: fun_upd_apply)
  qed
qed simp

lemma encoded_strings_decode:
  assumes enc: "list_all2 (\<lambda>vs out. encode_strings vs = Ok out) vss outs" and "\<forall>vs \<in> set vss. valid_strings vs"
    and lim: "length (concat outs) \<le> i32_max" "value_size (concat vss) \<le> i32_max"
      "value_size (concat vss) \<le> max (16 * length (concat outs)) (1024 * 1024)"
  shows "decode_strings (concat outs) (length (concat vss)) = Ok (concat vss)"
proof -
  have len: "length (concat vss) \<le> length (concat outs)"
    using enc by (induction rule: list_all2_induct)
      (auto simp: encode_strings_def dest: encode_strings_from_length intro: add_mono)
  have "value_size (concat vss) \<le> expansion_limit (concat outs)"
    using lim by (simp add: expansion_limit_def saturating_mul_def)
  then have "backref_loop ([] @ concat outs) (length (concat vss)) (length ([] :: u8 list option list))
      (length ([] :: u8 list)) 0 [] = Ok ([] @ concat vss, length ([] @ concat outs))"
    using assms len by (intro encoded_pieces_read_back [OF enc]) auto
  then show ?thesis
    using len lim by (simp add: decode_strings_eq decode_strings_with_backrefs_def)
qed

lemma encode_strings_reads_back:
  assumes "encode_strings vs = Ok out" "valid_strings vs" "length out \<le> i32_max"
    and "value_size vs \<le> i32_max" "value_size vs \<le> max (16 * length out) (1024 * 1024)"
  shows "decode_strings out (length vs) = Ok vs"
  using encoded_strings_decode [of "[vs]" "[out]"] assms by simp

text \<open>
  C16 (strings survive the round trip). Every column of UTF-8 strings without NUL characters is
  encoded, and if the encoding fits Arrow's 32-bit offsets and the values stay within the
  reader's expansion limit, decoding returns the column: NULLs, empty strings, literals and both
  forms of back-references, at any distance.
\<close>

theorem encode_strings_roundtrip:
  assumes "no_nul vs" "valid_strings vs"
  shows "\<exists>out. encode_strings vs = Ok out \<and>
    (length out \<le> i32_max \<and> value_size vs \<le> min i32_max (max (16 * length out) (1024 * 1024))
      \<longrightarrow> decode_strings out (length vs) = Ok vs)"
proof -
  obtain out where out: "encode_strings vs = Ok out"
    using encode_strings_from_Ok [OF assms(1)] unfolding encode_strings_def by blast
  have "decode_strings out (length vs) = Ok vs"
    if "length out \<le> i32_max \<and> value_size vs \<le> min i32_max (max (16 * length out) (1024 * 1024))"
    by (rule encode_strings_reads_back [OF out assms(2)]) (use that in auto)
  with out show ?thesis by blast
qed

theorem encode_strings_roundtrip_witness:
  "encode_strings [Some [0x61, 0x62], None, Some [], Some [0x61, 0x62], None] =
     Ok [0x61, 0x62, 0, 0x80, 0, 0, 0x83, 0x83] \<and>
   decode_strings [0x61, 0x62, 0, 0x80, 0, 0, 0x83, 0x83] (Suc (Suc (Suc (Suc (Suc 0))))) =
     Ok [Some [0x61, 0x62], None, Some [], Some [0x61, 0x62], None]"
proof -
  let ?vs = "[Some [0x61, 0x62], None, Some [], Some [0x61, 0x62], None] :: u8 list option list"
  have v: "no_nul ?vs" "valid_strings ?vs" by code_simp+
  have e: "encode_strings ?vs = Ok [0x61, 0x62, 0, 0x80, 0, 0, 0x83, 0x83]" by code_simp
  from encode_strings_roundtrip [OF v] e show ?thesis by (simp add: value_size_def)
qed

subsection \<open>Blob columns read back\<close>

lemma get_range_middle: "get_range (pre @ xs @ rest) (length pre) (length pre + length xs) = Some xs"
  by (simp add: get_range_def)

lemma length_blob_piece: "length (blob_piece v) = 8 + value_size [v]"
  by (cases v) (simp_all add: blob_piece_def)

lemma blob_step_piece:
  assumes "length (pre @ blob_piece v @ rest) \<le> isize_max" "vb + value_size [v] \<le> i32_max"
  shows "blob_step (pre @ blob_piece v @ rest) row (length pre) vb =
    Ok (v, length pre + length (blob_piece v), vb + value_size [v])"
proof (cases v)
  case None
  have "get_range (pre @ to_le 8 (- 1) @ rest) (length pre) (length pre + 8) = Some (to_le 8 (- 1))"
    using get_range_middle [of pre "to_le 8 (- 1)" rest] by simp
  with None assms(1) show ?thesis
    by (simp add: blob_piece_def blob_step_def checked_add_def in_signed_def)
next
  case (Some s)
  let ?h = "to_le 8 (int (length s))"
  have len: "length s \<le> isize_max" "length pre + 8 + length s \<le> isize_max"
    using assms(1) Some by (simp_all add: blob_piece_def)
  have "in_signed 8 (int (length s))" using len(1) by (simp add: in_signed_def)
  then have h: "from_le ?h = int (length s)" by simp
  have "get_range (pre @ blob_piece v @ rest) (length pre) (length pre + 8) = Some ?h"
    using get_range_middle [of pre ?h "s @ rest"] Some by (simp add: blob_piece_def)
  moreover have "get_range (pre @ blob_piece v @ rest) (length pre + 8) (length pre + 8 + length s) = Some s"
    using get_range_middle [of "pre @ ?h" s rest] Some by (simp add: blob_piece_def)
  ultimately show ?thesis
    using h len assms(2) Some
    by (simp add: blob_step_def checked_add_def usize_try_from_def length_blob_piece)
qed

lemma blob_loop_pieces:
  "length (pre @ encode_blobs vs) \<le> isize_max \<Longrightarrow> vb + value_size vs \<le> i32_max \<Longrightarrow>
   blob_loop (pre @ encode_blobs vs) (length vs) row (length pre) vb = Ok (vs, length (pre @ encode_blobs vs))"
proof (induction vs arbitrary: pre row vb)
  case Nil
  then show ?case by (simp add: encode_blobs_def)
next
  case (Cons v vs)
  have e: "encode_blobs (v # vs) = blob_piece v @ encode_blobs vs" by (simp add: encode_blobs_def)
  have vb: "vb + value_size [v] + value_size vs \<le> i32_max" using Cons.prems(2) by (cases v) simp_all
  have step: "blob_step (pre @ encode_blobs (v # vs)) row (length pre) vb =
      Ok (v, length pre + length (blob_piece v), vb + value_size [v])"
    unfolding e by (rule blob_step_piece) (use Cons.prems(1) e vb in simp_all)
  have "blob_loop ((pre @ blob_piece v) @ encode_blobs vs) (length vs) (row + 1) (length (pre @ blob_piece v))
      (vb + value_size [v]) = Ok (vs, length ((pre @ blob_piece v) @ encode_blobs vs))"
    by (rule Cons.IH) (use Cons.prems(1) e vb in simp_all)
  with step show ?case by (simp add: e)
qed

lemma length_encode_blobs: "length (encode_blobs vs) = 8 * length vs + value_size vs"
proof (induction vs)
  case (Cons v vs)
  then show ?case by (cases v) (simp_all add: encode_blobs_def blob_piece_def)
qed (simp add: encode_blobs_def)

text \<open>
  C24 (blobs survive the round trip). Decoding an encoded blob column returns its values and
  NULLs, for every column whose values fit Arrow's 32-bit offsets and whose encoding fits in memory.
\<close>

theorem encode_blobs_roundtrip:
  assumes "length (encode_blobs vs) \<le> isize_max" "value_size vs \<le> i32_max"
  shows "decode_blob (encode_blobs vs) (length vs) = Ok vs"
  using assms blob_loop_pieces [of "[]" vs 0 0]
  by (simp add: decode_blob_def checked_mul_def length_encode_blobs)

theorem encode_blobs_roundtrip_witness:
  "decode_blob (encode_blobs [Some [1, 2, 0], None, Some []]) 3 = Ok [Some [1, 2, 0], None, Some []]"
  using encode_blobs_roundtrip [of "[Some [1, 2, 0], None, Some []]"]
  by (simp add: length_encode_blobs numeral_3_eq_3)

subsection \<open>A dotted quad parses back\<close>

definition decimal_byte :: "nat \<Rightarrow> u8" where
  "decimal_byte d = 0x30 + word_of_nat d"

lemma decimal_byte_digit:
  assumes "d < 10"
  shows "to_digit 10 (decimal_byte d) = Some d" "decimal_byte d = 0x30 \<longleftrightarrow> d = 0"
proof -
  have "unat (decimal_byte d) = 48 + d"
    using assms by (simp add: decimal_byte_def unat_word_ariths(1) unat_byte_of_nat)
  then show "to_digit 10 (decimal_byte d) = Some d" "decimal_byte d = 0x30 \<longleftrightarrow> d = 0"
    using assms by (simp_all add: to_digit_def word_le_nat_alt word_unat_eq_iff)
qed

lemma push_u8_decimal_digits:
  "push_u8_decimal out v = out @ (if 100 \<le> unat v then [decimal_byte (unat v div 100)] else [])
     @ (if 10 \<le> unat v then [decimal_byte (unat v div 10 mod 10)] else []) @ [decimal_byte (unat v mod 10)]"
proof -
  have "unat v < 256" using unsigned_less [of v, where 'a = nat] by simp
  then have "unat v div 100 < 256" by (rule le_less_trans [OF div_le_dividend])
  then have "v div 100 = word_of_nat (unat v div 100)" "v div 10 mod 10 = word_of_nat (unat v div 10 mod 10)"
    "v mod 10 = word_of_nat (unat v mod 10)"
    by (simp_all add: word_unat_eq_iff unat_div unat_mod unat_byte_of_nat)
  then show ?thesis by (simp add: push_u8_decimal_def decimal_byte_def word_le_nat_alt)
qed

lemma decimal_digits: "n div 100 * 100 + n div 10 mod 10 * 10 + n mod 10 = n" for n :: nat
proof -
  have "n div 100 = n div 10 div 10" by (simp flip: div_mult2_eq)
  moreover have "q * 100 + r * 10 = (q * 10 + r) * 10" for q r :: nat by simp
  ultimately have "n div 100 * 100 + n div 10 mod 10 * 10 = (n div 10 div 10 * 10 + n div 10 mod 10) * 10" by (simp only:)
  then show ?thesis by (simp only: div_mult_mod_eq)
qed

lemma read_octet_number:
  assumes rest: "rest = [] \<or> to_digit 10 (hd rest) = None"
  shows "read_number 10 3 False 255 (push_u8_decimal [] v @ rest) = Some (unat v, rest)"
proof -
  have n: "unat v < 256" using unsigned_less [of v, where 'a = nat] by simp
  have stop: "read_digits 10 3 cnt acc rest = Some (acc, cnt, rest)" for cnt acc
    using rest by (cases rest) auto
  have d: "unat v div 100 < 10" "unat v div 10 mod 10 < 10" "unat v mod 10 < 10" using n by auto
  note digit = decimal_byte_digit [OF d(1)] decimal_byte_digit [OF d(2)] decimal_byte_digit [OF d(3)]
  consider "100 \<le> unat v" | "10 \<le> unat v" "unat v < 100" | "unat v < 10" by linarith
  then show ?thesis
  proof cases
    case 1
    then have "unat v div 100 \<noteq> 0" by simp
    then show ?thesis
      using 1 n digit stop decimal_digits [of "unat v"]
      by (simp add: push_u8_decimal_digits read_number_def get_def algebra_simps)
  next
    case 2
    then have "unat v div 10 < 10" "unat v div 10 \<noteq> 0" by auto
    then show ?thesis
      using 2 n digit stop by (simp add: push_u8_decimal_digits read_number_def get_def)
  next
    case 3
    then show ?thesis
      using n digit stop by (simp add: push_u8_decimal_digits read_number_def get_def)
  qed
qed

lemma push_u8_decimal_append: "push_u8_decimal out v = out @ push_u8_decimal [] v"
  by (simp add: push_u8_decimal_def)

lemma parse_ipv4_text: "parse_ipv4 (ipv4_text a b c d) = Some [a, b, c, d]"
proof -
  let ?q = "\<lambda>v. push_u8_decimal [] v"
  have eq: "ipv4_text a b c d = ?q a @ 0x2E # ?q b @ 0x2E # ?q c @ 0x2E # ?q d"
    unfolding ipv4_text_def by (subst push_u8_decimal_append, subst (2) push_u8_decimal_append,
        subst (3) push_u8_decimal_append) simp
  have dot: "to_digit 10 0x2E = None" by code_simp
  have first: "read_octet 0 (?q v @ rest) = Some (v, rest)" if "rest = [] \<or> to_digit 10 (hd rest) = None" for v rest
    using read_octet_number [OF that, of v] by (simp add: read_octet_def)
  have more: "read_octet (Suc i) (0x2E # ?q v @ rest) = Some (v, rest)"
    if "rest = [] \<or> to_digit 10 (hd rest) = None" for i v rest
    using read_octet_number [OF that, of v] by (simp add: read_octet_def read_given_def)
  have "length (?q v) \<le> 3" for v by (simp add: push_u8_decimal_def)
  from this [of a] this [of b] this [of c] this [of d] have "length (ipv4_text a b c d) \<le> 15" by (simp add: eq)
  moreover have "read_ipv4_addr (ipv4_text a b c d) = Some ([a, b, c, d], [])"
    using first [of "0x2E # ?q b @ 0x2E # ?q c @ 0x2E # ?q d" a] more [of "0x2E # ?q c @ 0x2E # ?q d" 0 b]
      more [of "0x2E # ?q d" 1 c] more [of "[]" 2 d]
    by (simp add: read_ipv4_addr_def eq dot numeral_2_eq_2 numeral_3_eq_3)
  ultimately show ?thesis by (simp add: parse_ipv4_def)
qed

text \<open>The parser takes no other spelling: what it reads is the text of what it returns.\<close>

lemma decimal_byte_of: "to_digit 10 b = Some d \<Longrightarrow> d < 10 \<and> b = decimal_byte d"
proof -
  assume t: "to_digit 10 b = Some d"
  then have d: "d < 10" "0x30 \<le> b" "b \<le> 0x39" "d = unat b - 0x30" by (auto simp: to_digit_def Let_def word_le_nat_alt split: if_splits)
  have "unat (decimal_byte d) = unat b"
    using d by (simp add: decimal_byte_def unat_word_ariths(1) unat_byte_of_nat word_le_nat_alt)
  with d show ?thesis by (simp add: word_unat_eq_iff)
qed

lemma read_digits_text:
  "read_digits 10 limit cnt acc bs = Some (v, n, rest) \<Longrightarrow> cnt \<le> limit \<Longrightarrow>
   \<exists>ds. bs = map decimal_byte ds @ rest \<and> (\<forall>d \<in> set ds. d < 10) \<and> n = cnt + length ds \<and> n \<le> limit \<and>
     v = foldl (\<lambda>acc d. acc * 10 + d) acc ds"
proof (induction bs arbitrary: cnt acc)
  case (Cons b bs)
  show ?case
  proof (cases "to_digit 10 b")
    case None
    with Cons.prems show ?thesis by (intro exI [of _ "[]"]) auto
  next
    case (Some d)
    with Cons.prems have "read_digits 10 limit (cnt + 1) (acc * 10 + d) bs = Some (v, n, rest)" "cnt + 1 \<le> limit"
      by (auto split: if_splits)
    from Cons.IH [OF this] obtain ds where "bs = map decimal_byte ds @ rest" "\<forall>d \<in> set ds. d < 10" "n = cnt + 1 + length ds"
      "n \<le> limit" "v = foldl (\<lambda>acc d. acc * 10 + d) (acc * 10 + d) ds" by blast
    with decimal_byte_of [OF Some] show ?thesis by (intro exI [of _ "d # ds"]) auto
  qed
qed simp

lemma read_number_text:
  assumes "read_number 10 3 False 255 bs = Some (v, rest)"
  shows "bs = push_u8_decimal [] (word_of_nat v) @ rest"
proof -
  from assms obtain n where r: "read_digits 10 3 0 0 bs = Some (v, n, rest)" and n: "n \<noteq> 0" and v: "v \<le> 255"
    and z: "\<not> (get bs 0 = Some 0x30 \<and> 1 < n)"
    by (auto simp: read_number_def split: option.splits if_splits)
  from read_digits_text [OF r] obtain ds where ds: "bs = map decimal_byte ds @ rest" "\<forall>d \<in> set ds. d < 10"
    "n = length ds" "length ds \<le> 3" "v = foldl (\<lambda>acc d. acc * 10 + d) 0 ds" by auto
  have u: "unat (word_of_nat v :: u8) = v" using v by (simp add: unat_byte_of_nat)
  have "length ds = 1 \<or> length ds = 2 \<or> length ds = 3" using n ds(3,4) by linarith
  then consider x where "ds = [x]" | x y where "ds = [x, y]" | x y w where "ds = [x, y, w]"
    by (auto simp: length_Suc_conv eval_nat_numeral)
  then show ?thesis
  proof cases
    case (1 x)
    then have "v = x" "x < 10" using ds(2,5) by simp_all
    then show ?thesis using 1 ds(1) by (simp add: push_u8_decimal_digits u [unfolded \<open>v = x\<close>])
  next
    case (2 x y)
    with ds n z have "0 < x" using decimal_byte_digit(2) [of x] by (auto simp: get_def)
    moreover have "v = x * 10 + y" "x < 10" "y < 10" using 2 ds(2,5) by simp_all
    ultimately have "10 \<le> v" "v < 100" "v div 10 mod 10 = x" "v mod 10 = y" by simp_all
    then show ?thesis using 2 ds(1) by (simp only: push_u8_decimal_digits u) simp
  next
    case (3 x y w)
    with ds n z have "0 < x" using decimal_byte_digit(2) [of x] by (auto simp: get_def)
    define k where "k = x * 10 + y"
    have "x < 10" "y < 10" "w < 10" and v: "v = k * 10 + w" using 3 ds(2,5) by (simp_all add: k_def)
    then have "10 \<le> k" "k div 10 = x" "k mod 10 = y" using \<open>0 < x\<close> by (simp_all add: k_def)
    moreover have "v div 10 = k" "v mod 10 = w" using \<open>w < 10\<close> by (simp_all add: v)
    moreover have "v div 100 = v div 10 div 10" using div_mult2_eq [of v 10 10] by simp
    ultimately have "100 \<le> v" "v div 100 = x" "v div 10 mod 10 = y" "v mod 10 = w" by (simp_all add: v)
    then show ?thesis using 3 ds(1) by (simp only: push_u8_decimal_digits u) simp
  qed
qed

lemma parse_ipv4_canonical:
  assumes "parse_ipv4 bs = Some octets"
  shows "\<exists>a b c d. octets = [a, b, c, d] \<and> bs = ipv4_text a b c d"
proof -
  have first: "bs = push_u8_decimal [] a @ rest" if "read_octet 0 bs = Some (a, rest)" for bs a rest
    using that read_number_text by (auto simp: read_octet_def)
  have more: "bs = 0x2E # push_u8_decimal [] a @ rest" if "read_octet i bs = Some (a, rest)" "0 < i" for i bs a rest
    using that read_number_text by (auto simp: read_octet_def read_given_def bind_eq_Some_conv split: list.splits if_splits)
  from assms obtain a b c d r1 r2 r3 where o: "octets = [a, b, c, d]"
      "read_octet 0 bs = Some (a, r1)" "read_octet 1 r1 = Some (b, r2)" "read_octet 2 r2 = Some (c, r3)" "read_octet 3 r3 = Some (d, [])"
    by (auto simp: parse_ipv4_def read_ipv4_addr_def bind_eq_Some_conv split: if_splits option.splits list.splits prod.splits)
  have "bs = ipv4_text a b c d"
    using first [OF o(2)] more [OF o(3)] more [OF o(4)] more [OF o(5)]
    unfolding ipv4_text_def by (subst push_u8_decimal_append, subst (2) push_u8_decimal_append, subst (3) push_u8_decimal_append) simp
  with o(1) show ?thesis by blast
qed

lemma address_row_inverse:
  "encode_address_row 4 parse_ipv4 e_ipv4 i v = Ok c \<longleftrightarrow> length c = 4 \<and> inet_value 4 c = v"
proof
  assume e: "encode_address_row 4 parse_ipv4 e_ipv4 i v = Ok c"
  show "length c = 4 \<and> inet_value 4 c = v"
  proof (cases v)
    case None
    with e show ?thesis by (auto simp: encode_address_row_def inet_value_def list_all_iff)
  next
    case (Some t)
    with e have "parse_ipv4 t = Some c" "\<not> list_all (\<lambda>b. b = 0) c"
      by (auto simp: encode_address_row_def ok_or_Ok_iff result_simps split: if_splits)
    with parse_ipv4_canonical [of t c] Some show ?thesis by (auto simp: inet_value_def)
  qed
next
  assume c: "length c = 4 \<and> inet_value 4 c = v"
  then obtain w x y z where q: "c = [w, x, y, z]" by (auto simp: length_Suc_conv eval_nat_numeral)
  show "encode_address_row 4 parse_ipv4 e_ipv4 i v = Ok c"
  proof (cases "list_all (\<lambda>b. b = 0) c")
    case True
    with c q show ?thesis by (auto simp: encode_address_row_def inet_value_def numeral_eq_Suc)
  next
    case False
    with c q show ?thesis by (auto simp: encode_address_row_def inet_value_def parse_ipv4_text)
  qed
qed

lemma address_rows_inverse:
  "try_map_from n (encode_address_row 4 parse_ipv4 e_ipv4) vs = Ok cs \<longleftrightarrow> (\<forall>c \<in> set cs. length c = 4) \<and> map (inet_value 4) cs = vs"
  by (induction vs arbitrary: n cs) (auto simp: address_row_inverse result_simps)

text \<open>
  C21 (IPv4 addresses survive the round trip). Encoding a column of IPv4 texts and NULLs gives some bytes exactly
  when these are four bytes per row that decode to the same texts and NULLs. So whatever the encoder
  accepts reads back unchanged, texts that would not are refused, and the texts of any \<open>INET4\<close> column
  encode back to its bytes. The texts, at most 15 bytes a row, fit the 32-bit offsets of the reader.
\<close>

theorem inet4_roundtrip:
  assumes "length vs * 15 \<le> i32_max"
  shows "encode_addresses 4 parse_ipv4 e_ipv4 vs = Ok bytes \<longleftrightarrow> length bytes = 4 * length vs \<and> decode_inet bytes (length vs) = Ok vs"
proof -
  let ?cs = "chunks_exact 4 bytes"
  have "length vs * 39 \<le> mutable_buffer_max" "length vs * 4 \<le> usize_max"
    using assms by (simp_all add: mutable_buffer_max_def)
  then have sat: "saturating_mul (length vs) 4 = 4 * length vs" "\<not> mutable_buffer_max < saturating_mul (length vs) 39"
    by (simp_all add: saturating_mul_def min_def mult.commute)
  have dec: "decode_inet bytes (length vs) = Ok (map (inet_value 4) ?cs)" if "length bytes = 4 * length vs"
    using that sat inet_texts_fit [of 4 "length vs" bytes] assms by (simp add: decode_inet_def mult.commute)
  have "encode_addresses 4 parse_ipv4 e_ipv4 vs = Ok bytes \<longleftrightarrow>
      (\<exists>cs. (\<forall>c \<in> set cs. length c = 4) \<and> map (inet_value 4) cs = vs \<and> bytes = concat cs)"
    by (auto simp: encode_addresses_def result_simps address_rows_inverse)
  also have "\<dots> \<longleftrightarrow> length bytes = 4 * length vs \<and> map (inet_value 4) ?cs = vs"
  proof
    assume "\<exists>cs. (\<forall>c \<in> set cs. length c = 4) \<and> map (inet_value 4) cs = vs \<and> bytes = concat cs"
    then obtain cs where cs: "\<forall>c \<in> set cs. length c = 4" "map (inet_value 4) cs = vs" "bytes = concat cs" by blast
    then have "?cs = cs" using chunks_exact_concat [of 4 cs] by simp
    moreover have "length (concat cs) = 4 * length cs" using cs(1) by (induction cs) auto
    ultimately show "length bytes = 4 * length vs \<and> map (inet_value 4) ?cs = vs" using cs(2,3) by auto
  next
    assume b: "length bytes = 4 * length vs \<and> map (inet_value 4) ?cs = vs"
    have "\<forall>c \<in> set ?cs. length c = 4" using chunks_exact_widths by blast
    moreover have "concat ?cs = bytes" using b by (auto intro: concat_chunks_exact)
    ultimately show "\<exists>cs. (\<forall>c \<in> set cs. length c = 4) \<and> map (inet_value 4) cs = vs \<and> bytes = concat cs"
      using b by (intro exI [of _ ?cs]) simp
  qed
  finally show ?thesis using dec by auto
qed

theorem inet4_roundtrip_witness:
  "decode_inet [127, 0, 0, 1, 0, 0, 0, 0] 2 = Ok [Some [0x31, 0x32, 0x37, 0x2E, 0x30, 0x2E, 0x30, 0x2E, 0x31], None]"
proof -
  let ?vs = "[Some [0x31, 0x32, 0x37, 0x2E, 0x30, 0x2E, 0x30, 0x2E, 0x31], None]"
  have "encode_addresses 4 parse_ipv4 e_ipv4 ?vs = Ok [127, 0, 0, 1, 0, 0, 0, 0]" by code_simp
  then have "decode_inet [127, 0, 0, 1, 0, 0, 0, 0] (length ?vs) = Ok ?vs"
    using inet4_roundtrip [of ?vs "[127, 0, 0, 1, 0, 0, 0, 0]"] by simp
  then show ?thesis by (simp add: numeral_2_eq_2)
qed

end
