(* ===== verification/Encode.thy ===== *)
theory Encode
  imports Encode_Var
begin

text \<open>
  Columns of \<open>encode.rs\<close>: the estimate of the encoded size, the encoder of one column, the
  zero-copy shortcut for columns whose memory already is the wire format, and the encoder that
  emits a column in bounded pieces.

  An array is what its type says: a downcast fails exactly when the data is of another kind. A
  NULL slot of a string array spans no bytes of the value buffer. The conversion of half floats
  (crate \<open>half\<close>) and \<open>chrono\<close> are parameters.
\<close>

subsection \<open>Downcasts\<close>

definition downcast_int :: "arrow_array \<Rightarrow> data_type \<Rightarrow> (int primitive_array, encode_error) result" where
  "downcast_int array expected =
     (case a_data array of IntData p \<Rightarrow> Ok p | _ \<Rightarrow> Err (E_TypeMismatch expected (a_type array)))"

definition downcast_float :: "arrow_array \<Rightarrow> data_type \<Rightarrow> (nat primitive_array, encode_error) result" where
  "downcast_float array expected =
     (case a_data array of FloatData p \<Rightarrow> Ok p | _ \<Rightarrow> Err (E_TypeMismatch expected (a_type array)))"

definition downcast_bool :: "arrow_array \<Rightarrow> data_type \<Rightarrow> (bool primitive_array, encode_error) result" where
  "downcast_bool array expected =
     (case a_data array of BoolData p \<Rightarrow> Ok p | _ \<Rightarrow> Err (E_TypeMismatch expected (a_type array)))"

definition downcast_text :: "arrow_array \<Rightarrow> data_type \<Rightarrow> (u8 list option list, encode_error) result" where
  "downcast_text array expected =
     (case a_data array of TextData vs \<Rightarrow> Ok vs | _ \<Rightarrow> Err (E_TypeMismatch expected (a_type array)))"

definition downcast_bytes :: "arrow_array \<Rightarrow> data_type \<Rightarrow> (u8 list option list, encode_error) result" where
  "downcast_bytes array expected =
     (case a_data array of BytesData vs \<Rightarrow> Ok vs | _ \<Rightarrow> Err (E_TypeMismatch expected (a_type array)))"

definition downcast_null :: "arrow_array \<Rightarrow> data_type \<Rightarrow> (nat, encode_error) result" where
  "downcast_null array expected =
     (case a_data array of NullData n \<Rightarrow> Ok n | _ \<Rightarrow> Err (E_TypeMismatch expected (a_type array)))"

definition downcast_dict ::
  "arrow_array \<Rightarrow> data_type \<Rightarrow> (nat option list \<times> u8 list option list, encode_error) result" where
  "downcast_dict array expected =
     (case a_data array of
        DictData keys values \<Rightarrow> Ok (keys, values)
      | _ \<Rightarrow> Err (E_TypeMismatch expected (a_type array)))"

subsection \<open>Estimates\<close>

definition column_wire_width :: "arrow_field \<Rightarrow> data_type \<Rightarrow> (nat option, encode_error) result" where
  "column_wire_width field dt = (if dt = DT_Null then Ok (Some 2) else fixed_encoded_width field)"

definition checked_encoded_size :: "nat \<Rightarrow> nat \<Rightarrow> (nat, encode_error) result" where
  "checked_encoded_size rows width = ok_or (checked_mul rows width) (E_InvalidValue 0 e_column_length)"

fun try_sum :: "'e \<Rightarrow> nat \<Rightarrow> nat list \<Rightarrow> (nat, 'e) result" where
  "try_sum e acc [] = Ok acc"
| "try_sum e acc (n # ns) = rbind (ok_or (checked_add acc n) e) (\<lambda>acc. try_sum e acc ns)"

definition string_size :: "u8 list option \<Rightarrow> nat" where
  "string_size v = (case v of None \<Rightarrow> 2 | Some s \<Rightarrow> saturating_add (length s) 1)"

definition estimated_strings :: "u8 list option list \<Rightarrow> nat \<Rightarrow> (nat, encode_error) result" where
  "estimated_strings values rows =
     try_sum (E_InvalidValue rows e_string_length) 0 (map string_size values)"

definition blob_size :: "u8 list option \<Rightarrow> nat" where
  "blob_size v = saturating_add 8 (case v of None \<Rightarrow> 0 | Some s \<Rightarrow> length s)"

definition estimated_blobs :: "u8 list option list \<Rightarrow> nat \<Rightarrow> (nat, encode_error) result" where
  "estimated_blobs values rows =
     try_sum (E_InvalidValue rows e_blob_length) 0 (map blob_size values)"

definition estimated_dictionary_strings ::
  "data_type \<Rightarrow> data_type \<Rightarrow> nat option list \<Rightarrow> u8 list option list \<Rightarrow> (nat, encode_error) result" where
  "estimated_dictionary_strings key_type value_type keys values =
     (if \<not> integer_key key_type \<or> \<not> string_type value_type
      then Err (E_Unsupported (DT_Dictionary key_type value_type))
      else rbind (check_keys keys values) (\<lambda>_. estimated_strings (dictionary_values keys values) (length keys)))"

definition estimated_encoded_size :: "arrow_field \<Rightarrow> arrow_array \<Rightarrow> (nat, encode_error) result" where
  "estimated_encoded_size field array =
     rbind (column_wire_width field (a_type array)) (\<lambda>width.
       case width of
         Some width \<Rightarrow> checked_encoded_size (array_len array) width
       | None \<Rightarrow>
           (case a_type array of
              DT_Utf8 \<Rightarrow> rbind (downcast_text array DT_Utf8) (\<lambda>vs. estimated_strings vs (array_len array))
            | DT_LargeUtf8 \<Rightarrow> rbind (downcast_text array DT_LargeUtf8) (\<lambda>vs. estimated_strings vs (array_len array))
            | DT_Utf8View \<Rightarrow> rbind (downcast_text array DT_Utf8View) (\<lambda>vs. estimated_strings vs (array_len array))
            | DT_Dictionary key value \<Rightarrow>
                rbind (downcast_dict array (a_type array)) (\<lambda>(keys, values).
                  estimated_dictionary_strings key value keys values)
            | DT_Binary \<Rightarrow> rbind (downcast_bytes array DT_Binary) (\<lambda>vs. estimated_blobs vs (array_len array))
            | DT_LargeBinary \<Rightarrow> rbind (downcast_bytes array DT_LargeBinary) (\<lambda>vs. estimated_blobs vs (array_len array))
            | DT_BinaryView \<Rightarrow> rbind (downcast_bytes array DT_BinaryView) (\<lambda>vs. estimated_blobs vs (array_len array))
            | DT_FixedSizeBinary n \<Rightarrow>
                rbind (downcast_bytes array (a_type array)) (\<lambda>vs. estimated_blobs vs (length vs))
            | dt \<Rightarrow> Err (E_Unsupported dt)))"

subsection \<open>One column\<close>

definition reserve_column :: "nat option \<Rightarrow> nat \<Rightarrow> (unit, encode_error) result" where
  "reserve_column width rows =
     (case width of
        None \<Rightarrow> Ok ()
      | Some width \<Rightarrow>
          rbind (ok_or (checked_mul rows width) (E_InvalidValue 0 e_column_length)) (\<lambda>bytes.
            if bytes \<le> isize_max then Ok () else Err (E_InvalidValue 0 e_column_large)))"

definition encode_text :: "arrow_array \<Rightarrow> data_type \<Rightarrow> bool \<Rightarrow> (u8 list, encode_error) result" where
  "encode_text array dt offsets =
     rbind (downcast_text array dt) (\<lambda>vs.
     rbind (if offsets then reserve_strings (value_size vs) (length vs) else Ok ()) (\<lambda>_. encode_strings vs))"

definition encode_nulls :: "nat \<Rightarrow> (u8 list, encode_error) result" where
  "encode_nulls rows =
     rbind (ok_or (checked_mul rows 2) (E_InvalidValue 0 e_null_column)) (\<lambda>_.
       Ok (concat (replicate rows [0x80, 0])))"

definition encode_signed :: "nat \<Rightarrow> arrow_array \<Rightarrow> data_type \<Rightarrow> (u8 list, encode_error) result" where
  "encode_signed w array dt = rbind (downcast_int array dt) (encode_primitive w)"

definition encode_wide :: "nat \<Rightarrow> arrow_array \<Rightarrow> data_type \<Rightarrow> (u8 list, encode_error) result" where
  "encode_wide w array dt = rbind (downcast_int array dt) (\<lambda>p. Ok (encode_unsigned w p))"

definition encode_array ::
  "'d chrono \<Rightarrow> (nat \<Rightarrow> nat) \<Rightarrow> monet_type \<Rightarrow> arrow_array \<Rightarrow> (u8 list, encode_error) result" where
  "encode_array c half t array =
     (case a_type array of
        DT_Null \<Rightarrow> rbind (downcast_null array DT_Null) encode_nulls
      | DT_Boolean \<Rightarrow> rbind (downcast_bool array DT_Boolean) (\<lambda>p. Ok (encode_bool p))
      | DT_Int8 \<Rightarrow> encode_signed 1 array DT_Int8
      | DT_Int16 \<Rightarrow> encode_signed 2 array DT_Int16
      | DT_Int32 \<Rightarrow> encode_signed 4 array DT_Int32
      | DT_Int64 \<Rightarrow> encode_signed 8 array DT_Int64
      | DT_UInt8 \<Rightarrow> encode_wide 2 array DT_UInt8
      | DT_UInt16 \<Rightarrow> encode_wide 4 array DT_UInt16
      | DT_UInt32 \<Rightarrow> encode_wide 8 array DT_UInt32
      | DT_UInt64 \<Rightarrow>
          if t = MT_Oid then rbind (downcast_int array DT_UInt64) encode_oid
          else encode_wide 16 array DT_UInt64
      | DT_Float16 \<Rightarrow> rbind (downcast_float array DT_Float16) (encode_f16 half)
      | DT_Float32 \<Rightarrow> rbind (downcast_float array DT_Float32) encode_f32
      | DT_Float64 \<Rightarrow> rbind (downcast_float array DT_Float64) encode_f64
      | DT_Decimal128 precision _ \<Rightarrow>
          rbind (downcast_int array (a_type array)) (\<lambda>p. encode_decimal p precision (t \<noteq> MT_HugeInt))
      | DT_Utf8 \<Rightarrow> encode_text array DT_Utf8 True
      | DT_LargeUtf8 \<Rightarrow> encode_text array DT_LargeUtf8 True
      | DT_Utf8View \<Rightarrow> encode_text array DT_Utf8View False
      | DT_Dictionary key value \<Rightarrow>
          rbind (downcast_dict array (a_type array)) (\<lambda>(keys, values). encode_dictionary key value keys values)
      | DT_Binary \<Rightarrow> rbind (downcast_bytes array DT_Binary) (\<lambda>vs. Ok (encode_blobs vs))
      | DT_LargeBinary \<Rightarrow> rbind (downcast_bytes array DT_LargeBinary) (\<lambda>vs. Ok (encode_blobs vs))
      | DT_BinaryView \<Rightarrow> rbind (downcast_bytes array DT_BinaryView) (\<lambda>vs. Ok (encode_blobs vs))
      | DT_FixedSizeBinary n \<Rightarrow>
          if n = 16 \<and> t = MT_Uuid then rbind (downcast_bytes array (DT_FixedSizeBinary 16)) encode_uuid
          else rbind (downcast_bytes array (a_type array)) (\<lambda>vs. Ok (encode_blobs vs))
      | DT_Date32 \<Rightarrow> rbind (downcast_int array DT_Date32) (encode_date32 c)
      | DT_Date64 \<Rightarrow> rbind (downcast_int array DT_Date64) (encode_date64 c)
      | DT_Time32 unit \<Rightarrow>
          if unit = Second \<or> unit = Millisecond
          then rbind (downcast_int array (DT_Time32 unit)) (encode_time32 unit)
          else Err (E_Unsupported (DT_Time32 unit))
      | DT_Time64 unit \<Rightarrow>
          if unit = Microsecond \<or> unit = Nanosecond
          then rbind (downcast_int array (DT_Time64 unit)) (encode_time64 unit)
          else Err (E_Unsupported (DT_Time64 unit))
      | DT_Timestamp unit _ \<Rightarrow> rbind (downcast_int array (a_type array)) (encode_timestamp c unit)
      | DT_Duration unit \<Rightarrow>
          rbind (downcast_int array (DT_Duration unit)) (encode_duration unit (t = MT_DayInterval))
      | dt \<Rightarrow> Err (E_Unsupported dt))"

definition encode_column ::
  "'d chrono \<Rightarrow> (nat \<Rightarrow> nat) \<Rightarrow> arrow_field \<Rightarrow> arrow_array \<Rightarrow> (u8 list, encode_error) result" where
  "encode_column c half field array =
     rbind (monet_type_for_field field) (\<lambda>t.
     rbind (column_wire_width field (a_type array)) (\<lambda>width.
     rbind (reserve_column width (array_len array)) (\<lambda>_.
       if string_type (a_type array) \<and> t = MT_Inet4 then
         rbind (downcast_text array (a_type array)) (encode_addresses 4 parse_ipv4 e_ipv4)
       else if string_type (a_type array) \<and> t = MT_Inet6 then
         rbind (downcast_text array (a_type array)) (encode_addresses 16 parse_ipv6 e_ipv6)
       else if string_type (a_type array) \<and> t = MT_Inet then Err (E_UnsupportedMonetType MT_Inet)
       else encode_array c half t array)))"

subsection \<open>Columns whose memory is the wire format\<close>

fun borrow_scan :: "nat \<Rightarrow> nat \<Rightarrow> int primitive_array \<Rightarrow> nat \<Rightarrow> (bool, encode_error) result" where
  "borrow_scan w 0 array row = Ok True"
| "borrow_scan w (Suc n) array row =
     (if pvalues array ! row = int_min w then
        (if is_null array row then Ok False else Err (E_InvalidValue row e_value_sentinel))
      else borrow_scan w n array (row + 1))"

definition borrow_signed :: "nat \<Rightarrow> arrow_array \<Rightarrow> data_type \<Rightarrow> (u8 list option, encode_error) result" where
  "borrow_signed w array dt =
     rbind (downcast_int array dt) (\<lambda>p.
     rbind (borrow_scan w (length (pvalues p)) p 0) (\<lambda>clean.
       if clean \<and> null_count p = 0 then Ok (Some (concat (map (to_le w) (pvalues p)))) else Ok None))"

definition borrow_float ::
  "nat \<Rightarrow> (nat \<Rightarrow> bool) \<Rightarrow> arrow_array \<Rightarrow> data_type \<Rightarrow> (u8 list option, encode_error) result" where
  "borrow_float w is_finite array dt =
     rbind (downcast_float array dt) (\<lambda>p.
     rbind (check_finite is_finite p) (\<lambda>_.
       if null_count p = 0 then Ok (Some (concat (map (le_bytes w) (pvalues p)))) else Ok None))"

definition borrowed_wire_bytes :: "arrow_array \<Rightarrow> (u8 list option, encode_error) result" where
  "borrowed_wire_bytes array =
     (case a_type array of
        DT_Int8 \<Rightarrow> borrow_signed 1 array DT_Int8
      | DT_Int16 \<Rightarrow> borrow_signed 2 array DT_Int16
      | DT_Int32 \<Rightarrow> borrow_signed 4 array DT_Int32
      | DT_Int64 \<Rightarrow> borrow_signed 8 array DT_Int64
      | DT_Float32 \<Rightarrow> borrow_float 4 f32_is_finite array DT_Float32
      | DT_Float64 \<Rightarrow> borrow_float 8 f64_is_finite array DT_Float64
      | _ \<Rightarrow> Ok None)"

subsection \<open>A column in pieces\<close>

definition slice_primitive :: "nat \<Rightarrow> nat \<Rightarrow> 'v primitive_array \<Rightarrow> 'v primitive_array" where
  "slice_primitive start len p =
     \<lparr>pvalues = take len (drop start (pvalues p)),
      pvalidity = map_option (\<lambda>v. take len (drop start v)) (pvalidity p)\<rparr>"

fun slice_data :: "nat \<Rightarrow> nat \<Rightarrow> array_data \<Rightarrow> array_data" where
  "slice_data start len (NullData n) = NullData (min len (n - start))"
| "slice_data start len (BoolData p) = BoolData (slice_primitive start len p)"
| "slice_data start len (IntData p) = IntData (slice_primitive start len p)"
| "slice_data start len (FloatData p) = FloatData (slice_primitive start len p)"
| "slice_data start len (TextData vs) = TextData (take len (drop start vs))"
| "slice_data start len (BytesData vs) = BytesData (take len (drop start vs))"
| "slice_data start len (DictData keys values) = DictData (take len (drop start keys)) values"

definition slice_array :: "nat \<Rightarrow> nat \<Rightarrow> arrow_array \<Rightarrow> arrow_array" where
  "slice_array start len array = \<lparr>a_type = a_type array, a_data = slice_data start len (a_data array)\<rparr>"

definition rows_per_chunk :: "nat \<Rightarrow> nat \<Rightarrow> nat \<Rightarrow> nat" where
  "rows_per_chunk target_bytes rows estimated =
     (if estimated = 0 then max rows 1
      else min (max (saturating_mul target_bytes rows div estimated) 1) (max rows 1))"

text \<open>\<open>(0..rows).step_by(step)\<close> with a positive step; the sources clamp the step to at least one.\<close>

function chunk_starts :: "nat \<Rightarrow> nat \<Rightarrow> nat \<Rightarrow> nat list" where
  "chunk_starts start rows step =
     (if start < rows \<and> 0 < step then start # chunk_starts (start + step) rows step else [])"
  by pat_completeness auto
termination
  by (relation "measure (\<lambda>(start, rows, step). rows - start)") auto

declare chunk_starts.simps [simp del]

datatype 'x chunked_error = CE_Encode encode_error | CE_Sink 'x

text \<open>
  The sink is a callback with a state: \<open>emit\<close> returns its new state and whether it failed. The
  state is returned with the outcome, since pieces emitted before a failure have been delivered.
\<close>

definition encode_piece ::
  "'d chrono \<Rightarrow> (nat \<Rightarrow> nat) \<Rightarrow> arrow_field \<Rightarrow> arrow_array \<Rightarrow> (u8 list, encode_error) result" where
  "encode_piece c half field array =
     rbind (borrowed_wire_bytes array) (\<lambda>borrowed.
       case borrowed of Some bytes \<Rightarrow> Ok bytes | None \<Rightarrow> encode_column c half field array)"

fun emit_slices ::
  "'d chrono \<Rightarrow> (nat \<Rightarrow> nat) \<Rightarrow> arrow_field \<Rightarrow> ('s \<Rightarrow> u8 list \<Rightarrow> 's \<times> 'x option) \<Rightarrow> arrow_array \<Rightarrow> nat
    \<Rightarrow> nat list \<Rightarrow> 's \<Rightarrow> nat \<Rightarrow> 's \<times> (nat, 'x chunked_error) result" where
  "emit_slices c half field emit array step [] s acc = (s, Ok acc)"
| "emit_slices c half field emit array step (start # starts) s acc =
     (case encode_piece c half field (slice_array start (min (array_len array - start) step) array) of
        Err e \<Rightarrow> (s, Err (CE_Encode e))
      | Panic \<Rightarrow> (s, Panic)
      | Ok bytes \<Rightarrow>
          (case checked_add acc (length bytes) of
             None \<Rightarrow> (s, Err (CE_Encode (E_InvalidValue 0 e_column_length)))
           | Some acc \<Rightarrow>
               (case emit s bytes of
                  (s, Some x) \<Rightarrow> (s, Err (CE_Sink x))
                | (s, None) \<Rightarrow> emit_slices c half field emit array step starts s acc)))"

fun encode_column_chunks ::
  "'d chrono \<Rightarrow> (nat \<Rightarrow> nat) \<Rightarrow> arrow_field \<Rightarrow> arrow_array list \<Rightarrow> nat \<Rightarrow> ('s \<Rightarrow> u8 list \<Rightarrow> 's \<times> 'x option)
    \<Rightarrow> 's \<Rightarrow> nat \<Rightarrow> 's \<times> (nat, 'x chunked_error) result" where
  "encode_column_chunks c half field [] target_bytes emit s acc = (s, Ok acc)"
| "encode_column_chunks c half field (array # arrays) target_bytes emit s acc =
     (case estimated_encoded_size field array of
        Err e \<Rightarrow> (s, Err (CE_Encode e))
      | Panic \<Rightarrow> (s, Panic)
      | Ok estimated \<Rightarrow>
          let step = rows_per_chunk target_bytes (array_len array) estimated in
          (case emit_slices c half field emit array step (chunk_starts 0 (array_len array) step) s acc of
             (s, Ok acc) \<Rightarrow> encode_column_chunks c half field arrays target_bytes emit s acc
           | (s, r) \<Rightarrow> (s, r)))"

end
