(* ===== verification/Column_Codec.thy ===== *)
theory Column_Codec
  imports Encode_Fixed
begin

text \<open>
  Fixed-width columns read back as they were written. \<open>row_codec\<close> is the contract between a row
  writer of \<open>encode.rs\<close> and the row reader of \<open>decode.rs\<close> of the same wire type: the writer emits
  exactly \<open>width\<close> bytes, and reading them returns the value (converted to the unit of the wire,
  \<open>conv\<close>). The column round trip is proved once from the contract, and the contract is
  interpreted on the row writers and readers of every fixed-width type. The types that go
  through the \<open>chrono\<close> library get it from the calendar contract \<open>chrono_lib\<close>.
\<close>

subsection \<open>An element codec gives a column codec\<close>

locale row_codec =
  fixes width :: nat
    and valid :: "'v \<Rightarrow> bool"
    and conv :: "'v \<Rightarrow> 'w"
    and put :: "nat \<Rightarrow> 'v option \<Rightarrow> (u8 list, encode_error) result"
    and take_row :: "nat \<Rightarrow> u8 list \<Rightarrow> ('w option, decode_error) result"
  assumes width_pos: "0 < width"
    and put_take: "pred_option valid x \<Longrightarrow> put i x = Ok bs \<Longrightarrow>
      length bs = width \<and> take_row j bs = Ok (map_option conv x)"
begin

lemma column_widths:
  "list_all (pred_option valid) xs \<Longrightarrow> try_map_from n put xs = Ok bss \<Longrightarrow> \<forall>bs \<in> set bss. length bs = width"
  by (induction xs arbitrary: n bss) (auto simp: result_simps dest: put_take)

lemma column_length:
  "list_all (pred_option valid) xs \<Longrightarrow> try_map_from n put xs = Ok bss \<Longrightarrow> length (concat bss) = length xs * width"
  using length_concat_same [OF column_widths] try_map_from_length by metis

lemma column_rows:
  "list_all (pred_option valid) xs \<Longrightarrow> try_map_from n put xs = Ok bss \<Longrightarrow>
   try_map_from m take_row bss = Ok (map (map_option conv) xs)"
  by (induction xs arbitrary: n m bss) (auto simp: result_simps dest: put_take)

lemma column_roundtrip:
  "list_all (pred_option valid) xs \<Longrightarrow> try_map_from n put xs = Ok bss \<Longrightarrow>
   try_map_from m take_row (chunks_exact width (concat bss)) = Ok (map (map_option conv) xs)"
  using column_rows chunks_exact_concat [OF width_pos column_widths] by metis

text \<open>The pieces of a column, each written on its own, read back as one column.\<close>

lemma pieces_rows:
  assumes "list_all2 (\<lambda>xs out. rbind (try_map_from 0 put xs) (\<lambda>bss. Ok (concat bss)) = Ok out) xss outs"
    "\<forall>xs \<in> set xss. list_all (pred_option valid) xs"
  shows "\<exists>bss. concat outs = concat bss \<and> (\<forall>bs \<in> set bss. length bs = width) \<and> length bss = length (concat xss) \<and>
    (\<forall>m. try_map_from m take_row bss = Ok (map (map_option conv) (concat xss)))"
  using assms
proof (induction rule: list_all2_induct)
  case (Cons xs xss out outs)
  then obtain bss where b: "try_map_from 0 put xs = Ok bss" "out = concat bss" by (auto simp: result_simps)
  from Cons obtain css where c: "concat outs = concat css" "\<forall>bs \<in> set css. length bs = width"
    "length css = length (concat xss)" "\<And>m. try_map_from m take_row css = Ok (map (map_option conv) (concat xss))" by auto
  have v: "list_all (pred_option valid) xs" using Cons.prems by simp
  have "try_map_from m take_row (bss @ css) = Ok (map (map_option conv) (concat (xs # xss)))" for m
    using try_map_from_append [OF column_rows [OF v b(1)] c(4)] by simp
  moreover have "length bss = length xs" using b(1) by (rule try_map_from_length)
  ultimately show ?case using b(2) c column_widths [OF v b(1)] by (intro exI [of _ "bss @ css"]) auto
qed simp

lemma pieces_roundtrip:
  assumes "list_all2 (\<lambda>xs out. rbind (try_map_from 0 put xs) (\<lambda>bss. Ok (concat bss)) = Ok out) xss outs"
    "\<forall>xs \<in> set xss. list_all (pred_option valid) xs" "length (concat xss) * width \<le> usize_max"
  shows "expect_fixed (concat outs) (length (concat xss)) width = Ok ()"
    "try_map_from m take_row (chunks_exact width (concat outs)) = Ok (map (map_option conv) (concat xss))"
proof -
  from pieces_rows [OF assms(1,2)] obtain bss where b: "concat outs = concat bss" "\<forall>bs \<in> set bss. length bs = width"
    "length bss = length (concat xss)" "\<And>m. try_map_from m take_row bss = Ok (map (map_option conv) (concat xss))" by blast
  show "expect_fixed (concat outs) (length (concat xss)) width = Ok ()"
    using b length_concat_same [OF b(2)] assms(3) by (simp add: expect_fixed_def checked_mul_def)
  show "try_map_from m take_row (chunks_exact width (concat outs)) = Ok (map (map_option conv) (concat xss))"
    unfolding b(1) chunks_exact_concat [OF width_pos b(2)] by (rule b(4))
qed

lemma column_expect:
  "list_all (pred_option valid) xs \<Longrightarrow> try_map_from n put xs = Ok bss \<Longrightarrow> length xs * width \<le> usize_max \<Longrightarrow>
   expect_fixed (concat bss) (length xs) width = Ok ()"
  using column_length by (simp add: expect_fixed_def checked_mul_def)

end

subsection \<open>Writing native values and overwriting the NULL slots\<close>

lemma overwrite_concat:
  assumes "\<forall>x \<in> set bss. length x = w" "row < length bss" "length null = w"
  shows "overwrite (concat bss) (row * w) null = concat (bss[row := null])"
proof -
  have split: "bss = take row bss @ bss ! row # drop (Suc row) bss" using assms(2) by (rule id_take_nth_drop)
  have l: "length (concat (take row bss)) = row * w"
    using assms by (subst length_concat_same [of _ w]) (auto dest: in_set_takeD)
  have "concat bss = concat (take row bss) @ bss ! row @ concat (drop (Suc row) bss)"
    by (subst split) simp
  moreover have "length (bss ! row) = w" using assms by simp
  ultimately have "overwrite (concat bss) (row * w) null = concat (take row bss) @ null @ concat (drop (Suc row) bss)"
    using l assms(3) by (simp add: overwrite_def)
  then show ?thesis using assms(2) by (simp add: upd_conv_take_nth_drop)
qed

lemma fold_overwrite:
  assumes "\<forall>x \<in> set bss. length x = w" "length null = w" "k \<le> length bss"
  shows "fold (\<lambda>row out. if P row then overwrite out (row * w) null else out) [0..<k] (concat bss) =
    concat (map (\<lambda>i. if i < k \<and> P i then null else bss ! i) [0..<length bss])"
  using assms(3)
proof (induction k)
  case 0
  then show ?case by (simp add: map_nth)
next
  case (Suc k)
  let ?bs = "map (\<lambda>i. if i < k \<and> P i then null else bss ! i) [0..<length bss]"
  have w: "\<forall>x \<in> set ?bs. length x = w" using assms(1,2) by auto
  have upd: "?bs[k := null] = map (\<lambda>i. if i < Suc k \<and> P i then null else bss ! i) [0..<length bss]" if "P k"
    using that Suc.prems by (intro nth_equalityI) (auto simp: nth_list_update less_Suc_eq)
  have keep: "?bs = map (\<lambda>i. if i < Suc k \<and> P i then null else bss ! i) [0..<length bss]" if "\<not> P k"
    using that by (intro map_cong) (auto simp: less_Suc_eq)
  from Suc have "fold (\<lambda>row out. if P row then overwrite out (row * w) null else out) [0..<Suc k] (concat bss) =
      (if P k then overwrite (concat ?bs) (k * w) null else concat ?bs)" by simp
  also have "\<dots> = concat (map (\<lambda>i. if i < Suc k \<and> P i then null else bss ! i) [0..<length bss])"
  proof (cases "P k")
    case True
    with overwrite_concat [OF w _ assms(2), of k] Suc.prems upd [OF True] show ?thesis by simp
  next
    case False
    show ?thesis unfolding keep [OF False, symmetric] using False by simp
  qed
  finally show ?case .
qed

lemma copy_native_rows:
  assumes "wf_primitive p" "\<And>v. length (native v) = w" "length null = w"
  shows "copy_native_with_nulls native w p null =
    concat (map (\<lambda>x. case x of None \<Rightarrow> null | Some v \<Rightarrow> native v) (logical p))"
proof -
  let ?n = "length (pvalues p)"
  let ?rows = "map (\<lambda>i. if is_null p i then null else native (pvalues p ! i)) [0..<?n]"
  have rows: "?rows = map (\<lambda>x. case x of None \<Rightarrow> null | Some v \<Rightarrow> native v) (logical p)"
    by (simp add: logical_def)
  have copy: "map native (pvalues p) = map (\<lambda>i. native (pvalues p ! i)) [0..<?n]"
    by (intro nth_equalityI) simp_all
  show ?thesis
  proof (cases "null_count p = 0")
    case True
    then have "\<forall>i < ?n. \<not> is_null p i" using null_count_zero [OF assms(1)] by blast
    then have "map (\<lambda>i. native (pvalues p ! i)) [0..<?n] = ?rows" by (intro map_cong) auto
    with True copy rows show ?thesis by (simp add: copy_native_with_nulls_def)
  next
    case False
    have "fold (\<lambda>row out. if is_null p row then overwrite out (row * w) null else out) [0..<?n]
        (concat (map native (pvalues p))) =
      concat (map (\<lambda>i. if i < ?n \<and> is_null p i then null else map native (pvalues p) ! i) [0..<?n])"
      using fold_overwrite [of "map native (pvalues p)" w null ?n "is_null p"] assms(2,3) by simp
    also have "map (\<lambda>i. if i < ?n \<and> is_null p i then null else map native (pvalues p) ! i) [0..<?n] = ?rows"
      by (intro map_cong) auto
    finally show ?thesis using False rows by (simp add: copy_native_with_nulls_def)
  qed
qed

subsection \<open>Integers, object identifiers and floats\<close>

definition put_signed :: "nat \<Rightarrow> nat \<Rightarrow> int option \<Rightarrow> (u8 list, encode_error) result" where
  "put_signed w row value =
     (if value = Some (int_min w) then Err (E_InvalidValue row e_value_sentinel)
      else Ok (case value of None \<Rightarrow> to_le w (int_min w) | Some v \<Rightarrow> to_le w v))"

definition take_null :: "(u8 list \<Rightarrow> 'v) \<Rightarrow> ('v \<Rightarrow> bool) \<Rightarrow> nat \<Rightarrow> u8 list \<Rightarrow> ('v option, decode_error) result" where
  "take_null decode null row bs = Ok (if null (decode bs) then None else Some (decode bs))"

abbreviation take_signed :: "nat \<Rightarrow> nat \<Rightarrow> u8 list \<Rightarrow> (int option, decode_error) result" where
  "take_signed w \<equiv> take_null from_le (\<lambda>v. v = int_min w)"

lemma int_min_in_signed [simp]: "in_signed w (int_min w)"
  by (simp add: in_signed_def int_min_def)

lemma signed_codec: "0 < w \<Longrightarrow> row_codec w (in_signed w) (\<lambda>v. v) (put_signed w) (take_signed w)"
  by unfold_locales (auto simp: put_signed_def take_null_def split: option.splits if_splits)

interpretation tinyint: row_codec 1 "in_signed 1" "\<lambda>v. v" "put_signed 1" "take_signed 1"
  by (rule signed_codec) simp

interpretation smallint: row_codec 2 "in_signed 2" "\<lambda>v. v" "put_signed 2" "take_signed 2"
  by (rule signed_codec) simp

interpretation integer: row_codec 4 "in_signed 4" "\<lambda>v. v" "put_signed 4" "take_signed 4"
  by (rule signed_codec) simp

interpretation bigint: row_codec 8 "in_signed 8" "\<lambda>v. v" "put_signed 8" "take_signed 8"
  by (rule signed_codec) simp

interpretation oid: row_codec 8 "\<lambda>v. 0 \<le> v" "\<lambda>v. v" encode_oid_row "take_null (\<lambda>bs. int (le_nat bs)) (\<lambda>v. v = 2 ^ 63)"
  by unfold_locales (auto simp: encode_oid_row_def take_null_def split: option.splits if_splits)

definition put_float :: "nat \<Rightarrow> (nat \<Rightarrow> bool) \<Rightarrow> nat \<Rightarrow> nat \<Rightarrow> nat option \<Rightarrow> (u8 list, encode_error) result" where
  "put_float w is_finite nan row value =
     (case value of
        None \<Rightarrow> Ok (le_bytes w nan)
      | Some v \<Rightarrow> if \<not> is_finite v then Err (E_InvalidValue row e_float) else Ok (le_bytes w v))"

lemma finite_not_nan: "f32_is_finite v \<Longrightarrow> \<not> f32_is_nan v" "f64_is_finite v \<Longrightarrow> \<not> f64_is_nan v"
  "f32_is_nan f32_nan" "f64_is_nan f64_nan"
  by (simp_all add: f32_is_finite_def f32_is_nan_def f64_is_finite_def f64_is_nan_def f32_nan_def f64_nan_def)

lemma nan_bits: "le_nat (le_bytes 4 f32_nan) = f32_nan" "le_nat (le_bytes 8 f64_nan) = f64_nan"
  by (simp_all add: f32_nan_def f64_nan_def)

interpretation real: row_codec 4 "\<lambda>v. v < 2 ^ 32" "\<lambda>v. v" "put_float 4 f32_is_finite f32_nan" "take_null le_nat f32_is_nan"
  by unfold_locales (auto simp: put_float_def take_null_def finite_not_nan nan_bits split: option.splits if_splits)

interpretation double: row_codec 8 "\<lambda>v. v < 2 ^ 64" "\<lambda>v. v" "put_float 8 f64_is_finite f64_nan" "take_null le_nat f64_is_nan"
  by unfold_locales (auto simp: put_float_def take_null_def finite_not_nan nan_bits split: option.splits if_splits)

subsection \<open>Decimals and UUIDs\<close>

definition take_decimal :: "nat \<Rightarrow> int \<Rightarrow> bool \<Rightarrow> nat \<Rightarrow> u8 list \<Rightarrow> (int option, decode_error) result" where
  "take_decimal w limit hugeint row chunk =
     (let v = from_le chunk in
      if v \<noteq> int_min w \<and> (v \<le> - limit \<or> limit \<le> v)
      then Err (InvalidValue row (decimal_message hugeint))
      else Ok (if v = int_min w then None else Some v))"

lemma int_try_from_Some: "int_try_from w v = Some u \<longleftrightarrow> u = v \<and> in_signed w v"
  by (auto simp: int_try_from_def in_signed_def)

lemma narrow_decimal_take:
  assumes "0 < w" "narrow_decimal w i x = Ok bs" "pred_option (\<lambda>v. - limit < v \<and> v < limit) x"
  shows "length bs = w \<and> take_decimal w limit hugeint j bs = Ok x"
  using assms
  by (auto simp: narrow_decimal_def result_simps int_try_from_Some take_decimal_def Let_def split: option.splits if_splits)

lemma decimal_codec:
  assumes "1 \<le> p" "p \<le> 38" "decimal_width p = Some w"
  shows "row_codec w (\<lambda>v. True) (\<lambda>v. v) (encode_decimal_row p True) (take_decimal w (10 ^ p) False)"
proof
  show "0 < w" using decimal_width_Some [OF assms(1,2)] assms(3) by auto
  fix x i bs j assume "encode_decimal_row p True i x = Ok bs"
  then have "narrow_decimal w i x = Ok bs" "pred_option (\<lambda>v. - (10 ^ p) < v \<and> v < 10 ^ p) x"
    using assms(3) by (auto simp: encode_decimal_row_def split: option.splits if_splits)
  from narrow_decimal_take [OF \<open>0 < w\<close> this]
  show "length bs = w \<and> take_decimal w (10 ^ p) False j bs = Ok (map_option (\<lambda>v. v) x)"
    by (simp add: option.map_ident)
qed

interpretation hugeint: row_codec 16 "\<lambda>v. - (10 ^ 38) < v \<and> v < 10 ^ 38" "\<lambda>v. v" "encode_decimal_row 38 False"
  "take_decimal 16 (10 ^ 38) True"
proof
  fix x i bs j
  assume v: "pred_option (\<lambda>v. - (10 ^ 38) < v \<and> v < 10 ^ 38) x" and "encode_decimal_row 38 False i x = Ok bs"
  then have "narrow_decimal 16 i x = Ok bs" by (simp add: encode_decimal_row_def decimal_width_def)
  from narrow_decimal_take [OF _ this v]
  show "length bs = 16 \<and> take_decimal 16 (10 ^ 38) True j bs = Ok (map_option (\<lambda>v. v) x)"
    by (simp add: option.map_ident)
qed simp

definition take_uuid :: "nat \<Rightarrow> u8 list \<Rightarrow> (u8 list option, decode_error) result" where
  "take_uuid row bs = Ok (if list_all (\<lambda>b. b = 0) bs then None else Some bs)"

interpretation uuid: row_codec 16 "\<lambda>v. length v = 16" "\<lambda>v. v" encode_uuid_row take_uuid
  by unfold_locales (auto simp: encode_uuid_row_def take_uuid_def list_all_iff split: option.splits if_splits)

subsection \<open>Dates and times\<close>

lemma length_two: "length xs = 2 \<Longrightarrow> \<exists>a b. xs = [a, b]"
  by (auto simp: length_Suc_conv eval_nat_numeral)

lemma length_four: "length xs = 4 \<Longrightarrow> \<exists>a b c d. xs = [a, b, c, d]"
  by (auto simp: length_Suc_conv eval_nat_numeral)

text \<open>A year of two bytes keeps the day count far inside four bytes.\<close>

lemma days_from_civil_small:
  assumes v: "valid_ymd y m d" and y: "in_signed 2 y"
  shows "in_signed 4 (days_from_civil y m d)"
proof -
  note b = valid_ymd_bounds [OF v]
  have yb: "- 32769 \<le> (if m \<le> 2 then y - 1 else y)" "(if m \<le> 2 then y - 1 else y) \<le> 32767"
    using y by (auto simp: in_signed_def)
  define Y where "Y = (if m \<le> 2 then y - 1 else y)"
  have Y: "- 32769 \<le> Y" "Y \<le> 32767" using yb by (simp_all add: Y_def)
  have "- 32769 div 4 \<le> Y div 4" "Y div 4 \<le> 32767 div 4" "- 32769 div 100 \<le> Y div 100" "Y div 100 \<le> 32767 div 100"
    "- 32769 div 400 \<le> Y div 400" "Y div 400 \<le> 32767 div 400"
    using Y by (simp_all only: zdiv_mono1 zero_less_numeral)
  then have yd: "- 20000000 \<le> year_days Y" "year_days Y \<le> 20000000"
    unfolding year_days_def using Y by simp_all
  have "(if 2 < m then m - 3 else m + 9) \<le> 11" using b by auto
  then have "(153 * (if 2 < m then m - 3 else m + 9) + 2) div 5 \<le> (153 * 11 + 2) div 5"
    by (intro div_le_mono) simp
  then have "days_from_civil y m d \<le> 20000000 + 337 + 31" "- 20000000 - 719469 \<le> days_from_civil y m d"
    using days_from_civil_alt [of d y m] b yd unfolding Y_def by simp_all
  then show ?thesis by (simp add: in_signed_def)
qed

lemma append_date_take:
  assumes "chrono_calendar c" "append_date c days i = Ok bs"
  shows "length bs = 4 \<and> date_value bs j = Ok (Some days)"
proof -
  from assms(2) obtain x where x1: "date_from_unix_days c days = Some x"
    by (auto simp: append_date_def result_simps)
  obtain y m d where x2: "date_ymd c x = (y, m, d)" by (cases "date_ymd c x")
  note x = x1 x2
  from assms(2) x have y: "in_signed 2 y" and bs: "bs = [word_of_nat d, word_of_nat m] @ to_le 2 y"
    by (auto simp: append_date_def result_simps int_try_from_Some split: if_splits)
  from date_from_unix_days_number [OF assms(1) x(1)] x(2)
  have v: "valid_ymd y m d" and n: "days_from_civil y m d = days" by simp_all
  from valid_ymd_bounds [OF v] have "unat (word_of_nat d :: u8) = d" "unat (word_of_nat m :: u8) = m" "m \<le> 12"
    by (simp_all add: unat_byte_of_nat)
  moreover from this have "(word_of_nat m :: u8) \<noteq> 0xFF" by (auto simp: word_unat_eq_iff)
  moreover obtain y0 y1 where yy: "to_le 2 y = [y0, y1]"
    using length_two [OF length_to_le] by blast
  moreover have "from_le [y0, y1] = y" using from_le_to_le [of 2 y] y yy by simp
  ultimately show ?thesis
    using bs v n days_from_civil_small [OF v y] by (simp add: date_value_def Let_def int_try_from_def)
qed

lemma byte_of_int: "0 \<le> k \<Longrightarrow> word_of_int k = (word_of_nat (nat k) :: u8)"
  by simp

lemma append_time_take:
  assumes "append_time micros i = Ok bs"
  shows "length bs = 8 \<and> time_value bs j = Ok (Some micros)"
proof -
  from assms have m: "0 \<le> micros" "micros < 86400000000"
    and bs: "bs = le_bytes 4 (nat (micros mod 1000000))
       @ [word_of_int (micros div 1000000 mod 60), word_of_int (micros div 1000000 div 60 mod 60),
          word_of_int (micros div 1000000 div 3600), 0]"
    by (auto simp: append_time_def Let_def split: if_splits)
  define f s mi h where "f = nat (micros mod 1000000)" and "s = nat (micros div 1000000 mod 60)"
    and "mi = nat (micros div 1000000 div 60 mod 60)" and "h = nat (micros div 1000000 div 3600)"
  have t: "0 \<le> micros div 1000000" using m by (simp add: pos_imp_zdiv_nonneg_iff)
  have f: "f < 1000000" by (simp add: f_def nat_less_iff)
  have b: "s < 60" "mi < 60" "h < 24" using m by (auto simp: s_def mi_def h_def nat_less_iff)
  have w: "word_of_int (micros div 1000000 mod 60) = (word_of_nat s :: u8)"
    "word_of_int (micros div 1000000 div 60 mod 60) = (word_of_nat mi :: u8)"
    "word_of_int (micros div 1000000 div 3600) = (word_of_nat h :: u8)"
    unfolding s_def mi_def h_def by (rule byte_of_int, use t in \<open>simp add: pos_imp_zdiv_nonneg_iff\<close>)+
  obtain b0 b1 b2 b3 where le: "le_bytes 4 f = [b0, b1, b2, b3]"
    using length_four [OF length_le_bytes] by blast
  have fv: "le_nat [b0, b1, b2, b3] = f" using le_nat_le_bytes_id [of f 4] f le by simp
  have u: "unat (word_of_nat s :: u8) = s" "unat (word_of_nat mi :: u8) = mi" "unat (word_of_nat h :: u8) = h"
    using b by (simp_all add: unat_byte_of_nat)
  then have lim: "\<not> 60 \<le> (word_of_nat s :: u8)" "\<not> 60 \<le> (word_of_nat mi :: u8)" "\<not> 24 \<le> (word_of_nat h :: u8)"
    using b by (simp_all add: word_le_nat_alt)
  have sum: "((int h * 60 + int mi) * 60 + int s) * 1000000 + int f = micros"
  proof -
    let ?t = "micros div 1000000"
    have e: "int h = ?t div 60 div 60" "int mi = ?t div 60 mod 60" "int s = ?t mod 60" "int f = micros mod 1000000"
      using t by (simp_all add: h_def mi_def s_def f_def pos_imp_zdiv_nonneg_iff flip: zdiv_zmult2_eq)
    show ?thesis unfolding e div_mult_mod_eq ..
  qed
  have "bs = [b0, b1, b2, b3, word_of_nat s, word_of_nat mi, word_of_nat h, 0]"
    unfolding bs w f_def [symmetric] le by simp
  then show ?thesis
    using f fv lim u sum by (simp add: time_value_def Let_def)
qed

lemma append_timestamp_take:
  assumes "chrono_calendar c" "append_timestamp c micros i = Ok bs"
  shows "length bs = 12 \<and> timestamp_value bs j = Ok (Some micros)"
proof -
  from assms(2) obtain t d where t: "append_time (micros mod 86400000000) i = Ok t"
    and d: "append_date c (micros div 86400000000) i = Ok d" and bs: "bs = t @ d"
    by (auto simp: append_timestamp_def result_simps)
  note tt = append_time_take [OF t] and dd = append_date_take [OF assms(1) d]
  have "slice bs 0 8 = t" "slice bs 8 (length bs) = d" "length bs = 12"
    using bs tt dd by (simp_all add: slice_def)
  then show ?thesis using tt dd
    by (simp add: timestamp_value_def slice_at_def div_mult_mod_eq)
qed

lemma ff_values [simp]:
  "date_value (replicate 4 0xFF) j = Ok None" "time_value (replicate 8 0xFF) j = Ok None"
  "timestamp_value (replicate 12 0xFF) j = Ok None"
  by code_simp+

definition take_date :: "nat \<Rightarrow> u8 list \<Rightarrow> (int option, decode_error) result" where
  "take_date row v = date_value v row"

definition take_time :: "nat \<Rightarrow> u8 list \<Rightarrow> (int option, decode_error) result" where
  "take_time row v = time_value v row"

definition take_timestamp :: "nat \<Rightarrow> u8 list \<Rightarrow> (int option, decode_error) result" where
  "take_timestamp row v = timestamp_value v row"

lemmas take_defs = take_date_def take_time_def take_timestamp_def

lemma time_codec: "row_codec 8 (\<lambda>v. True) (\<lambda>v. v * factor) (encode_time_row factor) take_time"
  by unfold_locales (auto simp: encode_time_row_def take_time_def split: option.splits dest: append_time_take)

interpretation time_seconds: row_codec 8 "\<lambda>v. True" "\<lambda>v. v * 1000000" "encode_time_row 1000000" take_time
  by (rule time_codec)

interpretation time_millis: row_codec 8 "\<lambda>v. True" "\<lambda>v. v * 1000" "encode_time_row 1000" take_time
  by (rule time_codec)

interpretation time_micros: row_codec 8 "\<lambda>v. True" "\<lambda>v. v * 1" "encode_time_row 1" take_time
  by (rule time_codec)

interpretation time_nanos: row_codec 8 "\<lambda>v. True" "\<lambda>v. trunc_div v 1000" encode_time_nanos_row take_time
  by unfold_locales
    (auto simp: encode_time_nanos_row_def take_time_def split: option.splits if_splits dest: append_time_take)

locale chrono_lib =
  fixes c :: "'d chrono"
  assumes calendar: "chrono_calendar c"
begin

lemma timestamp_codec: "row_codec 12 (\<lambda>v. True) (\<lambda>v. v * factor) (encode_timestamp_row c factor) take_timestamp"
  by unfold_locales
    (auto simp: encode_timestamp_row_def take_timestamp_def result_simps int_try_from_Some split: option.splits
      dest: append_timestamp_take [OF calendar])

end

sublocale chrono_lib \<subseteq> date32: row_codec 4 "\<lambda>v. True" "\<lambda>v. v" "encode_date32_row c" take_date
  by unfold_locales
    (auto simp: encode_date32_row_def take_date_def split: option.splits dest: append_date_take [OF calendar])

sublocale chrono_lib \<subseteq> date64: row_codec 4 "\<lambda>v. True" "\<lambda>v. trunc_div v 86400000" "encode_date64_row c" take_date
  by unfold_locales
    (auto simp: encode_date64_row_def take_date_def split: option.splits if_splits
      dest: append_date_take [OF calendar])

sublocale chrono_lib \<subseteq> timestamp_nanos: row_codec 12 "\<lambda>v. True" "\<lambda>v. trunc_div v 1000"
    "encode_timestamp_nanos_row c" take_timestamp
  by unfold_locales
    (auto simp: encode_timestamp_nanos_row_def take_timestamp_def split: option.splits if_splits
      dest: append_timestamp_take [OF calendar])

interpretation stepping: chrono_lib stepping_calendar
  by unfold_locales (rule stepping_calendar_ok)

lemma duration_codec:
  "row_codec 8 (in_signed 8) (\<lambda>v. trunc_div v divisor * multiplier)
     (encode_duration_row multiplier divisor whole_days) (take_signed 8)"
  by unfold_locales
    (auto simp: encode_duration_row_def take_null_def result_simps int_try_from_Some split: option.splits if_splits)

subsection \<open>Array writers and readers\<close>

locale array_codec = row_codec +
  fixes encode :: "'v primitive_array \<Rightarrow> (u8 list, encode_error) result"
    and decode :: "u8 list \<Rightarrow> nat \<Rightarrow> ('w primitive_array, decode_error) result"
  assumes encode_rows: "wf_primitive p \<Longrightarrow>
      encode p = rbind (try_map_from 0 put (logical p)) (\<lambda>out. Ok (concat out))"
    and decode_rows: "expect_fixed bytes rows width = Ok () \<Longrightarrow>
      try_map_from 0 take_row (chunks_exact width bytes) = Ok xs \<Longrightarrow> \<exists>q. decode bytes rows = Ok q \<and> logical q = xs"
begin

lemma encode_pieces:
  assumes "list_all2 (\<lambda>p out. encode p = Ok out) ps outs" "\<forall>p \<in> set ps. wf_primitive p"
  shows "list_all2 (\<lambda>xs out. rbind (try_map_from 0 put xs) (\<lambda>bss. Ok (concat bss)) = Ok out) (map logical ps) outs"
  using assms by (induction rule: list_all2_induct) (simp_all add: encode_rows)

lemma array_roundtrip:
  assumes "list_all2 (\<lambda>p out. encode p = Ok out) ps outs" "\<forall>p \<in> set ps. wf_primitive p"
    "\<forall>p \<in> set ps. list_all (pred_option valid) (logical p)" "length (concat (map logical ps)) * width \<le> usize_max"
  shows "\<exists>q. decode (concat outs) (length (concat (map logical ps))) = Ok q \<and>
    logical q = map (map_option conv) (concat (map logical ps))"
  by (intro decode_rows pieces_roundtrip [OF encode_pieces [OF assms(1,2)]]) (use assms in auto)

end

lemma check_then_copy:
  "rbind (try_map_from n (\<lambda>row x. if bad x then Err (e row) else Ok ()) xs) (\<lambda>_. Ok (concat (map f xs))) =
   rbind (try_map_from n (\<lambda>row x. if bad x then Err (e row) else Ok (f x)) xs) (\<lambda>out. Ok (concat out))"
proof -
  have "rbind (try_map_from n (\<lambda>row x. if bad x then Err (e row) else Ok ()) xs) (\<lambda>_. Ok (map f xs)) =
     try_map_from n (\<lambda>row x. if bad x then Err (e row) else Ok (f x)) xs"
  proof (induction xs arbitrary: n)
    case (Cons x xs)
    show ?case
      using Cons.IH [of "Suc n", symmetric]
      by (cases "try_map_from (Suc n) (\<lambda>row x. if bad x then Err (e row) else Ok ()) xs") auto
  qed simp
  then show ?thesis
    by (cases "try_map_from n (\<lambda>row x. if bad x then Err (e row) else Ok ()) xs") (auto simp flip: \<open>_ = _\<close>)
qed

lemma encode_primitive_rows:
  assumes "wf_primitive p"
  shows "encode_primitive w p = rbind (try_map_from 0 (put_signed w) (logical p)) (\<lambda>out. Ok (concat out))"
  using check_then_copy [of 0 "\<lambda>x. x = Some (int_min w)" "\<lambda>row. E_InvalidValue row e_value_sentinel" "logical p"
      "\<lambda>x. case x of None \<Rightarrow> to_le w (int_min w) | Some v \<Rightarrow> to_le w v"]
  by (simp add: encode_primitive_def put_signed_def [abs_def] copy_native_rows [OF assms])

lemma check_finite_rows:
  assumes "wf_primitive p"
  shows "rbind (check_finite fin p) (\<lambda>_. Ok (copy_native_with_nulls (le_bytes w) w p (le_bytes w nan))) =
    rbind (try_map_from 0 (put_float w fin nan) (logical p)) (\<lambda>out. Ok (concat out))"
proof -
  have c: "(\<lambda>row value. case value of None \<Rightarrow> Ok ()
      | Some v \<Rightarrow> if \<not> fin v then Err (E_InvalidValue row e_float) else Ok ()) =
    (\<lambda>row x. if (case x of None \<Rightarrow> False | Some v \<Rightarrow> \<not> fin v) then Err (E_InvalidValue row e_float) else Ok ())"
    by (auto intro!: ext split: option.splits)
  have f: "put_float w fin nan = (\<lambda>row x. if (case x of None \<Rightarrow> False | Some v \<Rightarrow> \<not> fin v) then Err (E_InvalidValue row e_float)
      else Ok (case x of None \<Rightarrow> le_bytes w nan | Some v \<Rightarrow> le_bytes w v))"
    by (auto intro!: ext simp: put_float_def split: option.splits)
  show ?thesis
    unfolding check_finite_def c f copy_native_rows [OF assms length_le_bytes length_le_bytes]
    by (rule check_then_copy)
qed

lemma decode_primitive_rows:
  assumes "expect_fixed bytes rows w = Ok ()" "try_map_from 0 (take_null dec null) (chunks_exact w bytes) = Ok xs"
  shows "\<exists>q. decode_primitive w dec null bytes rows = Ok q \<and> logical q = xs"
proof -
  have "try_map_from 0 (take_null dec null) cs = Ok (map (\<lambda>bs. if null (dec bs) then None else Some (dec bs)) cs)" for cs
    by (rule try_map_from_all_Ok) (simp add: take_null_def)
  with assms show ?thesis
    by (simp add: decode_primitive_def Let_def null_buffer_logical comp_def)
qed

lemma signed_array_codec:
  "0 < w \<Longrightarrow> array_codec w (in_signed w) (\<lambda>v. v) (put_signed w) (take_signed w) (encode_primitive w)
     (decode_primitive w from_le (\<lambda>v. v = int_min w))"
  by (intro array_codec.intro signed_codec array_codec_axioms.intro encode_primitive_rows decode_primitive_rows)

interpretation tinyint_array: array_codec 1 "in_signed 1" "\<lambda>v. v" "put_signed 1" "take_signed 1"
    "encode_primitive 1" "decode_primitive 1 from_le (\<lambda>v. v = int_min 1)"
  by (rule signed_array_codec) simp

interpretation smallint_array: array_codec 2 "in_signed 2" "\<lambda>v. v" "put_signed 2" "take_signed 2"
    "encode_primitive 2" "decode_primitive 2 from_le (\<lambda>v. v = int_min 2)"
  by (rule signed_array_codec) simp

interpretation int_array: array_codec 4 "in_signed 4" "\<lambda>v. v" "put_signed 4" "take_signed 4"
    "encode_primitive 4" "decode_primitive 4 from_le (\<lambda>v. v = int_min 4)"
  by (rule signed_array_codec) simp

interpretation bigint_array: array_codec 8 "in_signed 8" "\<lambda>v. v" "put_signed 8" "take_signed 8"
    "encode_primitive 8" "decode_primitive 8 from_le (\<lambda>v. v = int_min 8)"
  by (rule signed_array_codec) simp

interpretation oid_array: array_codec 8 "\<lambda>v. 0 \<le> v" "\<lambda>v. v" encode_oid_row
    "take_null (\<lambda>bs. int (le_nat bs)) (\<lambda>v. v = 2 ^ 63)" encode_oid
    "decode_primitive 8 (\<lambda>bs. int (le_nat bs)) (\<lambda>v. v = 2 ^ 63)"
  by unfold_locales (simp add: encode_oid_def, rule decode_primitive_rows)

interpretation real_array: array_codec 4 "\<lambda>v. v < 2 ^ 32" "\<lambda>v. v" "put_float 4 f32_is_finite f32_nan"
    "take_null le_nat f32_is_nan" encode_f32 "decode_primitive 4 le_nat f32_is_nan"
  by unfold_locales (simp add: encode_f32_def check_finite_rows, rule decode_primitive_rows)

interpretation double_array: array_codec 8 "\<lambda>v. v < 2 ^ 64" "\<lambda>v. v" "put_float 8 f64_is_finite f64_nan"
    "take_null le_nat f64_is_nan" encode_f64 "decode_primitive 8 le_nat f64_is_nan"
  by unfold_locales (simp add: encode_f64_def check_finite_rows, rule decode_primitive_rows)

lemma duration_array_codec:
  "array_codec 8 (in_signed 8) (\<lambda>v. trunc_div v divisor * multiplier)
     (encode_duration_row multiplier divisor whole_days) (take_signed 8)
     (encode_duration_values multiplier divisor whole_days) (decode_primitive 8 from_le (\<lambda>v. v = int_min 8))"
  by (intro array_codec.intro duration_codec array_codec_axioms.intro decode_primitive_rows)
    (simp add: encode_duration_values_def)

lemma chunk_reader_rows:
  assumes "\<And>bytes rows. decode bytes rows = rbind (expect_fixed bytes rows w) (\<lambda>_.
      rbind (try_map_from 0 take_row (chunks_exact w bytes)) (\<lambda>xs. Ok (option_array xs)))"
    and "expect_fixed bytes rows w = Ok ()" "try_map_from 0 take_row (chunks_exact w bytes) = Ok xs"
  shows "\<exists>q. decode bytes rows = Ok q \<and> logical q = xs"
  using assms by simp

lemma decode_temporal_rows:
  "decode_date bytes rows = rbind (expect_fixed bytes rows 4) (\<lambda>_.
      rbind (try_map_from 0 take_date (chunks_exact 4 bytes)) (\<lambda>xs. Ok (option_array xs)))"
  "decode_time bytes rows = rbind (expect_fixed bytes rows 8) (\<lambda>_.
      rbind (try_map_from 0 take_time (chunks_exact 8 bytes)) (\<lambda>xs. Ok (option_array xs)))"
  "decode_timestamp bytes rows = rbind (expect_fixed bytes rows 12) (\<lambda>_.
      rbind (try_map_from 0 take_timestamp (chunks_exact 12 bytes)) (\<lambda>xs. Ok (option_array xs)))"
  by (simp_all add: decode_date_def decode_time_def decode_timestamp_def take_defs [abs_def])

lemma time_array_codec:
  "array_codec 8 (\<lambda>v. True) (\<lambda>v. v * factor) (encode_time_row factor) take_time (encode_time_values factor) decode_time"
  by (intro array_codec.intro time_codec array_codec_axioms.intro chunk_reader_rows [OF decode_temporal_rows(2)])
    (simp add: encode_time_values_def)

interpretation time_nanos_array: array_codec 8 "\<lambda>v. True" "\<lambda>v. trunc_div v 1000" encode_time_nanos_row take_time
    encode_time_nanos decode_time
  by unfold_locales (simp add: encode_time_nanos_def, rule chunk_reader_rows [OF decode_temporal_rows(2)])

sublocale chrono_lib \<subseteq> date32_array: array_codec 4 "\<lambda>v. True" "\<lambda>v. v" "encode_date32_row c" take_date
    "encode_date32 c" decode_date
  by unfold_locales (simp add: encode_date32_def, rule chunk_reader_rows [OF decode_temporal_rows(1)])

sublocale chrono_lib \<subseteq> date64_array: array_codec 4 "\<lambda>v. True" "\<lambda>v. trunc_div v 86400000" "encode_date64_row c"
    take_date "encode_date64 c" decode_date
  by unfold_locales (simp add: encode_date64_def, rule chunk_reader_rows [OF decode_temporal_rows(1)])

sublocale chrono_lib \<subseteq> timestamp_nanos_array: array_codec 12 "\<lambda>v. True" "\<lambda>v. trunc_div v 1000"
    "encode_timestamp_nanos_row c" take_timestamp "encode_timestamp_nanos c" decode_timestamp
  by unfold_locales (simp add: encode_timestamp_nanos_def, rule chunk_reader_rows [OF decode_temporal_rows(3)])

context chrono_lib
begin

lemma timestamp_array_codec:
  "array_codec 12 (\<lambda>v. True) (\<lambda>v. v * factor) (encode_timestamp_row c factor) take_timestamp
     (encode_timestamp_values c factor) decode_timestamp"
  by (intro array_codec.intro timestamp_codec array_codec_axioms.intro chunk_reader_rows [OF decode_temporal_rows(3)])
    (simp add: encode_timestamp_values_def)

end

subsection \<open>Decimal arrays\<close>

lemma take_decimal_values:
  "try_map_from n (take_decimal w limit hugeint) cs = Ok xs \<Longrightarrow>
     xs = map (\<lambda>v. if v = int_min w then None else Some v) (map from_le cs) \<and>
     (\<forall>v \<in> set (map from_le cs). v = int_min w \<or> (- limit < v \<and> v < limit))"
proof (induction cs arbitrary: n xs)
  case (Cons c cs)
  then obtain x xs' where "take_decimal w limit hugeint n c = Ok x" "xs = x # xs'"
    and r: "try_map_from (Suc n) (take_decimal w limit hugeint) cs = Ok xs'"
    by (auto simp: result_simps)
  with Cons.IH [OF r] show ?case by (auto simp: take_decimal_def Let_def split: if_splits)
qed simp

lemma validate_decimal_rows_Ok:
  "\<forall>v \<in> set vs. v = int_min 16 \<or> (- limit < v \<and> v < limit) \<Longrightarrow> validate_decimal_rows limit hugeint row vs = Ok ()"
  by (induction vs arbitrary: row) auto

lemma decode_width_Ok:
  "\<forall>v \<in> set (map from_le (chunks_exact w bytes)). v = int_min w \<or> (- limit < v \<and> v < limit) \<Longrightarrow>
   decode_width w limit hugeint bytes = Ok (map (\<lambda>c. (from_le c, from_le c \<noteq> int_min w)) (chunks_exact w bytes))"
  unfolding decode_width_def by (rule try_map_from_all_Ok) (auto simp: Let_def)

lemma decode_decimal_rows:
  assumes "arrow_documented lib" "1 \<le> p" "p \<le> 38" "0 \<le> s" "s \<le> int p"
    and w: "(if hugeint then Ok 16 else expect (decimal_width p)) = (Ok w :: (_, decode_error) result)"
    and e: "expect_fixed bytes rows w = Ok ()"
    and t: "try_map_from 0 (take_decimal w (10 ^ p) hugeint) (chunks_exact w bytes) = Ok xs"
  shows "\<exists>q. decode_decimal lib bytes rows p s hugeint = Ok q \<and> logical q = xs"
proof -
  have fin: "finish_decimal lib p s q = Ok q" for q
    using assms(1-5) by (simp add: finish_decimal_def arrow_documented_def)
  note vals = take_decimal_values [OF t]
  show ?thesis
  proof (cases "w = 16")
    case True
    with vals have "validate_decimal_values (map from_le (chunks_exact w bytes)) p hugeint =
        Ok (null_buffer (\<lambda>v. v = int_min 16) (map from_le (chunks_exact w bytes)))"
      by (simp add: validate_decimal_values_def validate_decimal_rows_Ok)
    with True vals fin assms show ?thesis
      by (simp add: decode_decimal_def Let_def null_buffer_logical comp_def)
  next
    case False
    let ?cs = "chunks_exact w bytes"
    have d: "decode_width w (10 ^ p) hugeint bytes = Ok (map (\<lambda>c. (from_le c, from_le c \<noteq> int_min w)) ?cs)"
      using vals by (intro decode_width_Ok) blast
    have "logical \<lparr>pvalues = map from_le ?cs,
        pvalidity = (if list_ex Not (map (\<lambda>c. from_le c \<noteq> int_min w) ?cs)
          then Some (map (\<lambda>c. from_le c \<noteq> int_min w) ?cs) else None)\<rparr> = xs"
      using vals by (subst validity_logical) (auto intro: nth_equalityI)
    with d False fin assms show ?thesis
      by (auto simp: decode_decimal_def Let_def comp_def split: if_splits)
  qed
qed

lemma decimal_array_codec:
  assumes "arrow_documented lib" "1 \<le> p" "p \<le> 38" "0 \<le> s" "s \<le> int p" "decimal_width p = Some w"
  shows "array_codec w (\<lambda>v. True) (\<lambda>v. v) (encode_decimal_row p True) (take_decimal w (10 ^ p) False)
    (\<lambda>a. encode_decimal a p True) (\<lambda>bytes rows. decode_decimal lib bytes rows p s False)"
proof (intro array_codec.intro decimal_codec array_codec_axioms.intro)
  fix bytes rows xs
  assume "expect_fixed bytes rows w = Ok ()" "try_map_from 0 (take_decimal w (10 ^ p) False) (chunks_exact w bytes) = Ok xs"
  with decode_decimal_rows [OF assms(1-5), of False w bytes rows xs] assms(6)
  show "\<exists>q. decode_decimal lib bytes rows p s False = Ok q \<and> logical q = xs" by simp
qed (use assms in \<open>simp_all add: encode_decimal_def\<close>)

lemma hugeint_array_codec:
  assumes "arrow_documented lib"
  shows "array_codec 16 (\<lambda>v. - (10 ^ 38) < v \<and> v < 10 ^ 38) (\<lambda>v. v) (encode_decimal_row 38 False)
    (take_decimal 16 (10 ^ 38) True) (\<lambda>a. encode_decimal a 38 False)
    (\<lambda>bytes rows. decode_decimal lib bytes rows 38 0 True)"
proof (intro array_codec.intro hugeint.row_codec_axioms array_codec_axioms.intro)
  fix bytes rows xs
  assume "expect_fixed bytes rows 16 = Ok ()" "try_map_from 0 (take_decimal 16 (10 ^ 38) True) (chunks_exact 16 bytes) = Ok xs"
  with decode_decimal_rows [OF assms, of 38 0 True 16 bytes rows xs]
  show "\<exists>q. decode_decimal lib bytes rows 38 0 True = Ok q \<and> logical q = xs" by simp
qed (simp add: encode_decimal_def)

end
