(* ===== verification/Roundtrip.thy ===== *)
theory Roundtrip
  imports Decode Encode Column_Codec
begin

text \<open>
  What \<open>encode_column\<close> writes, in any number of pieces, \<open>decode_column\<close> reads back as one column. The two sides meet on \<open>cells\<close>, the
  logical content of an array: flags, texts, bytes, float bit patterns, and numbers in the
  smallest unit of their kind, so that a column of seconds and one of microseconds with the same
  instants have the same cells. Every encodable Arrow type is covered; the wire type decides the
  type of the array that is read back.
\<close>

subsection \<open>The logical content of an array\<close>

datatype cell = Flag bool | Number int | Float nat | Octets "u8 list"

text \<open>Nanoseconds per tick of a temporal type; other numbers count for themselves.\<close>

fun unit_ticks :: "time_unit \<Rightarrow> int" where
  "unit_ticks Second = 1000000000"
| "unit_ticks Millisecond = 1000000"
| "unit_ticks Microsecond = 1000"
| "unit_ticks Nanosecond = 1"

fun ticks :: "data_type \<Rightarrow> int" where
  "ticks DT_Date32 = 86400000000000"
| "ticks DT_Date64 = 1000000"
| "ticks (DT_Time32 unit) = unit_ticks unit"
| "ticks (DT_Time64 unit) = unit_ticks unit"
| "ticks (DT_Timestamp unit _) = unit_ticks unit"
| "ticks (DT_Duration unit) = unit_ticks unit"
| "ticks _ = 1"

text \<open>A half float stands for the float that the library converts it to.\<close>

definition float_bits :: "(nat \<Rightarrow> nat) \<Rightarrow> data_type \<Rightarrow> nat \<Rightarrow> nat" where
  "float_bits half dt v = (if dt = DT_Float16 then half v else v)"

fun data_cells :: "(nat \<Rightarrow> nat) \<Rightarrow> data_type \<Rightarrow> array_data \<Rightarrow> cell option list" where
  "data_cells half dt (NullData n) = replicate n None"
| "data_cells half dt (BoolData p) = map (map_option Flag) (logical p)"
| "data_cells half dt (IntData p) = map (map_option (\<lambda>v. Number (ticks dt * v))) (logical p)"
| "data_cells half dt (FloatData p) = map (map_option (\<lambda>v. Float (float_bits half dt v))) (logical p)"
| "data_cells half dt (TextData vs) = map (map_option Octets) vs"
| "data_cells half dt (BytesData vs) = map (map_option Octets) vs"
| "data_cells half dt (DictData keys values) = map (map_option Octets) (dictionary_values keys values)"

definition cells :: "(nat \<Rightarrow> nat) \<Rightarrow> arrow_array \<Rightarrow> cell option list" where
  "cells half a = data_cells half (a_type a) (a_data a)"

subsection \<open>Arrays that Arrow can hold\<close>

fun int_range :: "data_type \<Rightarrow> (int \<times> int) option" where
  "int_range DT_Int8 = Some (- (2 ^ 7), 2 ^ 7)"
| "int_range DT_Int16 = Some (- (2 ^ 15), 2 ^ 15)"
| "int_range DT_Int32 = Some (- (2 ^ 31), 2 ^ 31)"
| "int_range DT_Int64 = Some (- (2 ^ 63), 2 ^ 63)"
| "int_range DT_UInt8 = Some (0, 2 ^ 8)"
| "int_range DT_UInt16 = Some (0, 2 ^ 16)"
| "int_range DT_UInt32 = Some (0, 2 ^ 32)"
| "int_range DT_UInt64 = Some (0, 2 ^ 64)"
| "int_range (DT_Decimal128 p s) =
     (if 1 \<le> p \<and> p \<le> 38 \<and> s \<le> int p then Some (- (2 ^ 127), 2 ^ 127) else None)"
| "int_range DT_Date32 = Some (- (2 ^ 31), 2 ^ 31)"
| "int_range DT_Date64 = Some (- (2 ^ 63), 2 ^ 63)"
| "int_range (DT_Time32 unit) = Some (- (2 ^ 31), 2 ^ 31)"
| "int_range (DT_Time64 unit) = Some (- (2 ^ 63), 2 ^ 63)"
| "int_range (DT_Timestamp unit _) = Some (- (2 ^ 63), 2 ^ 63)"
| "int_range (DT_Duration unit) = Some (- (2 ^ 63), 2 ^ 63)"
| "int_range _ = None"

fun float_range :: "data_type \<Rightarrow> nat option" where
  "float_range DT_Float16 = Some (2 ^ 16)"
| "float_range DT_Float32 = Some (2 ^ 32)"
| "float_range DT_Float64 = Some (2 ^ 64)"
| "float_range _ = None"

fun bytes_fit :: "data_type \<Rightarrow> u8 list \<Rightarrow> bool" where
  "bytes_fit (DT_FixedSizeBinary n) v \<longleftrightarrow> int (length v) = n"
| "bytes_fit dt v \<longleftrightarrow> dt = DT_Binary \<or> dt = DT_LargeBinary \<or> dt = DT_BinaryView"

fun bytes_type :: "data_type \<Rightarrow> bool" where
  "bytes_type (DT_FixedSizeBinary n) \<longleftrightarrow> True"
| "bytes_type dt \<longleftrightarrow> dt = DT_Binary \<or> dt = DT_LargeBinary \<or> dt = DT_BinaryView"

fun wf_data :: "data_type \<Rightarrow> array_data \<Rightarrow> bool" where
  "wf_data dt (NullData n) \<longleftrightarrow> dt = DT_Null"
| "wf_data dt (BoolData p) \<longleftrightarrow> dt = DT_Boolean \<and> wf_primitive p"
| "wf_data dt (IntData p) \<longleftrightarrow> wf_primitive p \<and>
     (case int_range dt of None \<Rightarrow> False | Some (lo, hi) \<Rightarrow> list_all (\<lambda>v. lo \<le> v \<and> v < hi) (pvalues p))"
| "wf_data dt (FloatData p) \<longleftrightarrow> wf_primitive p \<and>
     (case float_range dt of None \<Rightarrow> False | Some hi \<Rightarrow> list_all (\<lambda>v. v < hi) (pvalues p))"
| "wf_data dt (TextData vs) \<longleftrightarrow> string_type dt \<and> valid_strings vs"
| "wf_data dt (BytesData vs) \<longleftrightarrow> bytes_type dt \<and> list_all (pred_option (bytes_fit dt)) vs"
| "wf_data dt (DictData keys values) \<longleftrightarrow>
     (case dt of DT_Dictionary key value \<Rightarrow> valid_strings values | _ \<Rightarrow> False)"

definition wf_array :: "arrow_array \<Rightarrow> bool" where
  "wf_array a \<longleftrightarrow> wf_data (a_type a) (a_data a)"

subsection \<open>Columns a reader accepts\<close>

text \<open>
  The reader's own limits: text and blob columns fit 32-bit offsets, back-references stay within
  the expansion limit, and a HUGEINT has at most 38 digits.
\<close>

fun column_texts :: "array_data \<Rightarrow> u8 list option list" where
  "column_texts (NullData n) = replicate n None"
| "column_texts (TextData vs) = vs"
| "column_texts (BytesData vs) = vs"
| "column_texts (DictData keys values) = dictionary_values keys values"
| "column_texts _ = []"

fun column_numbers :: "array_data \<Rightarrow> int option list" where
  "column_numbers (IntData p) = logical p"
| "column_numbers _ = []"

definition readable :: "monet_type \<Rightarrow> array_data list \<Rightarrow> u8 list \<Rightarrow> bool" where
  "readable t ds out \<longleftrightarrow>
     (if t = MT_Blob then length out \<le> isize_max \<and> value_size (concat (map column_texts ds)) \<le> i32_max
      else if t = MT_HugeInt
      then list_all (pred_option (\<lambda>v. - (10 ^ 38) < v \<and> v < 10 ^ 38)) (concat (map column_numbers ds))
      else fixed_wire_width t \<noteq> None \<or>
        (length out \<le> i32_max \<and>
         value_size (concat (map column_texts ds)) \<le> min i32_max (max (16 * length out) (1024 * 1024))))"

subsection \<open>The remaining codecs\<close>

lemma map_option_same [simp]: "map (map_option (\<lambda>v. v)) xs = xs"
  by (simp add: map_idI option.map_ident)

lemma logical_all: "list_all P (pvalues p) \<Longrightarrow> list_all (pred_option P) (logical p)"
  by (auto simp: logical_def list_all_length)

definition put_bool :: "bool option \<Rightarrow> u8" where
  "put_bool value = (case value of None \<Rightarrow> 0x80 | Some v \<Rightarrow> if v then 1 else 0)"

lemma decode_bool_rows:
  assumes "length xs \<le> usize_max"
  shows "\<exists>q. decode_bool (map put_bool xs) (length xs) = Ok q \<and> logical q = xs"
proof -
  let ?bs = "map put_bool xs"
  have no: "\<not> invalid_bool (put_bool x)" for x by (auto simp: invalid_bool_def put_bool_def split: option.splits)
  have "fold (\<lambda>value invalid. invalid \<or> invalid_bool value) (map put_bool ys) b = b" for ys b
    by (induction ys arbitrary: b) (simp_all add: no del: fold_map)
  then have f: "\<not> fold (\<lambda>value invalid. invalid \<or> invalid_bool value) ?bs False" by (simp del: fold_map)
  let ?q = "\<lparr>pvalues = map (\<lambda>row. ?bs ! row = 1) [0..<length xs],
      pvalidity = map_option (\<lambda>_. map (\<lambda>row. ?bs ! row \<noteq> 0x80) [0..<length xs]) (position (\<lambda>b. b = 0x80) ?bs)\<rparr>"
  have "decode_bool ?bs (length xs) = Ok ?q"
    using f assms by (simp add: decode_bool_def expect_fixed_def checked_mul_def)
  moreover have "logical ?q = xs"
  proof (rule nth_equalityI)
    fix row assume "row < length (logical ?q)"
    then have r: "row < length xs" by simp
    then have q: "logical ?q ! row = (if is_null ?q row then None else Some (put_bool (xs ! row) = 1))"
      by (simp add: logical_def [of ?q])
    have "is_null ?q row \<longleftrightarrow> put_bool (xs ! row) = 0x80"
    proof (cases "position (\<lambda>b. b = 0x80) ?bs")
      case None
      then have "put_bool (xs ! row) \<noteq> 0x80" using r nth_mem [OF r] unfolding position_None_iff by auto
      with None show ?thesis by (simp add: is_null_def)
    qed (use r in \<open>simp add: is_null_def\<close>)
    with q show "logical ?q ! row = xs ! row" by (auto simp: put_bool_def split: option.splits if_splits)
  qed simp
  ultimately show ?thesis by blast
qed

lemma encode_bool_rows: "encode_bool p = map put_bool (logical p)"
  by (simp add: encode_bool_def put_bool_def [abs_def])

definition put_unsigned :: "nat \<Rightarrow> nat \<Rightarrow> int option \<Rightarrow> (u8 list, encode_error) result" where
  "put_unsigned w row value = Ok (to_le w (case value of None \<Rightarrow> int_min w | Some v \<Rightarrow> v))"

lemma put_unsigned_Ok: "try_map_from n (put_unsigned w) xs =
    Ok (map (\<lambda>value. to_le w (case value of None \<Rightarrow> int_min w | Some v \<Rightarrow> v)) xs)"
  by (rule try_map_from_all_Ok) (simp add: put_unsigned_def)

lemma unsigned_codec:
  assumes "0 < w" "hi \<le> 2 ^ (8 * w - 1)"
  shows "row_codec w (\<lambda>v. 0 \<le> v \<and> v < hi) (\<lambda>v. v) (put_unsigned w) (take_signed w)"
proof
  fix x i bs j
  assume x: "pred_option (\<lambda>v. 0 \<le> v \<and> v < hi) x" and p: "put_unsigned w i x = Ok bs"
  have "in_signed w v \<and> v \<noteq> int_min w" if "x = Some v" for v
  proof -
    have "(0 :: int) < 2 ^ (8 * w - 1)" by simp
    with that x assms show ?thesis by (auto simp: in_signed_def int_min_def)
  qed
  with p show "length bs = w \<and> take_signed w j bs = Ok (map_option (\<lambda>v. v) x)"
    using assms(1) by (cases x) (auto simp: put_unsigned_def take_null_def)
qed (rule assms)

lemma unsigned_array_codec:
  assumes "0 < w" "hi \<le> 2 ^ (8 * w - 1)"
  shows "array_codec w (\<lambda>v. 0 \<le> v \<and> v < hi) (\<lambda>v. v) (put_unsigned w) (take_signed w)
    (\<lambda>p. Ok (encode_unsigned w p)) (decode_primitive w from_le (\<lambda>v. v = int_min w))"
  by (intro array_codec.intro unsigned_codec array_codec_axioms.intro decode_primitive_rows assms)
    (simp_all add: encode_unsigned_def put_unsigned_Ok)

lemma wide_unsigned_array_codec:
  assumes "arrow_documented lib"
  shows "array_codec 16 (\<lambda>v. 0 \<le> v \<and> v < 2 ^ 64) (\<lambda>v. v) (put_unsigned 16) (take_decimal 16 (10 ^ 38) True)
    (\<lambda>p. Ok (encode_unsigned 16 p)) (\<lambda>bytes rows. decode_decimal lib bytes rows 38 0 True)"
proof (intro array_codec.intro array_codec_axioms.intro)
  show "row_codec 16 (\<lambda>v. 0 \<le> v \<and> v < 2 ^ 64) (\<lambda>v. v) (put_unsigned 16) (take_decimal 16 (10 ^ 38) True)"
  proof
    fix x i bs j
    assume x: "pred_option (\<lambda>v. 0 \<le> v \<and> v < (2 :: int) ^ 64) x" and p: "put_unsigned 16 i x = Ok bs"
    have "in_signed 16 v \<and> v \<noteq> int_min 16 \<and> - (10 ^ 38) < v \<and> v < 10 ^ 38" if "x = Some v" for v
      using that x by (auto simp: in_signed_def int_min_def)
    with p show "length bs = 16 \<and> take_decimal 16 (10 ^ 38) True j bs = Ok (map_option (\<lambda>v. v) x)"
      by (cases x) (auto simp: put_unsigned_def take_decimal_def Let_def)
  qed simp
next
  fix bytes rows xs
  assume "expect_fixed bytes rows 16 = Ok ()" "try_map_from 0 (take_decimal 16 (10 ^ 38) True) (chunks_exact 16 bytes) = Ok xs"
  with decode_decimal_rows [OF assms, of 38 0 True 16 bytes rows xs]
  show "\<exists>q. decode_decimal lib bytes rows 38 0 True = Ok q \<and> logical q = xs" by simp
qed (simp add: encode_unsigned_def put_unsigned_Ok)

lemma half_array_codec:
  assumes "\<And>v. half v < 2 ^ 32"
  shows "array_codec 4 (\<lambda>v. True) half (encode_f16_row half) (take_null le_nat f32_is_nan)
    (encode_f16 half) (decode_primitive 4 le_nat f32_is_nan)"
proof (intro array_codec.intro array_codec_axioms.intro decode_primitive_rows)
  show "row_codec 4 (\<lambda>v. True) half (encode_f16_row half) (take_null le_nat f32_is_nan)"
    by unfold_locales
      (use assms in \<open>auto simp: encode_f16_row_def take_null_def finite_not_nan nan_bits Let_def split: option.splits if_splits\<close>)
qed (simp_all add: encode_f16_def)

lemma encode_uuid_decodes:
  assumes "list_all2 (\<lambda>vs out. encode_uuid vs = Ok out) vss outs"
    "\<forall>vs \<in> set vss. list_all (pred_option (\<lambda>v. length v = 16)) vs" "length (concat vss) * 16 \<le> usize_max"
    "arrow_documented lib"
  shows "decode_uuid lib (concat outs) (length (concat vss)) = Ok (concat vss)"
proof -
  have t: "try_map_from 0 take_uuid cs = Ok (map (\<lambda>v. if list_all (\<lambda>b. b = 0) v then None else Some v) cs)" for cs
    by (rule try_map_from_all_Ok) (simp add: take_uuid_def)
  note r = uuid.pieces_roundtrip [OF assms(1) [unfolded encode_uuid_def] assms(2,3)]
  show ?thesis using r(1) r(2) [of 0] by (cases "expect_fixed (concat outs) (length (concat vss)) 16") (auto simp: decode_uuid_documented [OF assms(4)] t)
qed

subsection \<open>Columns of one kind\<close>

lemma int_column:
  assumes codec: "array_codec w valid conv put take_row enc dec"
    and p: "\<forall>p \<in> set ps. wf_primitive p" "\<forall>p \<in> set ps. list_all (pred_option valid) (logical p)"
      "length (concat (map logical ps)) * w \<le> usize_max"
    and e: "list_all2 (\<lambda>p out. enc p = Ok out) ps outs"
    and scale: "\<And>i v b. put i (Some v) = Ok b \<Longrightarrow> ticks dt' * conv v = ticks dt * v"
  shows "\<exists>a. int_array dt' (dec (concat outs) (length (concat (map logical ps)))) = Ok a \<and>
    cells half a = concat (map (\<lambda>p. data_cells half dt (IntData p)) ps)"
proof -
  have each: "ticks dt' * conv v = ticks dt * v" if v: "Some v \<in> set (logical p)" and p': "p \<in> set ps" for v p
  proof -
    obtain out where "enc p = Ok out" using e p' by (auto simp: list_all2_conv_all_nth in_set_conv_nth)
    then have "rbind (try_map_from 0 put (logical p)) (\<lambda>out. Ok (concat out)) = Ok out"
      using array_codec.encode_rows [OF codec] p(1) p' by simp
    then obtain bss where "try_map_from 0 put (logical p) = Ok bss" by (auto simp: result_simps)
    with scale v try_map_from_each show ?thesis by metis
  qed
  have "map_option (\<lambda>v. Number (ticks dt' * v)) (map_option conv x) = map_option (\<lambda>v. Number (ticks dt * v)) x"
    if "x \<in> set (logical p)" "p \<in> set ps" for x p
    by (rule option.exhaust [of x]) (use that each in auto)
  then have "map (\<lambda>x. map_option (\<lambda>v. Number (ticks dt' * v)) (map_option conv x)) (concat (map logical ps)) =
      concat (map (\<lambda>p. map (map_option (\<lambda>v. Number (ticks dt * v))) (logical p)) ps)"
    by (simp add: map_concat comp_def cong: map_cong)
  moreover obtain q where "dec (concat outs) (length (concat (map logical ps))) = Ok q"
    "logical q = map (map_option conv) (concat (map logical ps))"
    using array_codec.array_roundtrip [OF codec e p] by blast
  ultimately show ?thesis by (simp add: int_array_def cells_def comp_def)
qed

lemma float_column:
  assumes codec: "array_codec w valid conv put take_row enc dec"
    and p: "\<forall>p \<in> set ps. wf_primitive p" "\<forall>p \<in> set ps. list_all (pred_option valid) (logical p)"
      "length (concat (map logical ps)) * w \<le> usize_max"
    and e: "list_all2 (\<lambda>p out. enc p = Ok out) ps outs"
    and conv: "\<And>v. float_bits half dt' (conv v) = float_bits half dt v"
  shows "\<exists>a. float_array dt' (dec (concat outs) (length (concat (map logical ps)))) = Ok a \<and>
    cells half a = concat (map (\<lambda>p. data_cells half dt (FloatData p)) ps)"
proof -
  obtain q where "dec (concat outs) (length (concat (map logical ps))) = Ok q"
    "logical q = map (map_option conv) (concat (map logical ps))"
    using array_codec.array_roundtrip [OF codec e p] by blast
  then show ?thesis by (simp add: float_array_def cells_def conv comp_def map_concat option.map_comp)
qed

lemma text_column:
  assumes "list_all2 (\<lambda>vs out. encode_strings vs = Ok out) vss outs" "\<forall>vs \<in> set vss. valid_strings vs"
    "length (concat outs) \<le> i32_max"
    "value_size (concat vss) \<le> min i32_max (max (16 * length (concat outs)) (1024 * 1024))"
  shows "text_array (decode_strings (concat outs) (length (concat vss))) =
    Ok \<lparr>a_type = DT_Utf8, a_data = TextData (concat vss)\<rparr>"
  using encoded_strings_decode [OF assms(1-3)] assms(4) by (simp add: text_array_def)

lemma encode_blobs_concat: "concat (map encode_blobs vss) = encode_blobs (concat vss)"
  by (induction vss) (simp_all add: encode_blobs_def)

subsection \<open>Columns of any type\<close>

lemma encode_column_Ok:
  assumes "encode_column c half field a = Ok out" "monet_type_for_field field = Ok t"
    "f_data_type field = a_type a" "t \<noteq> MT_Inet4" "t \<noteq> MT_Inet6"
  shows "encode_array c half t a = Ok out" "t \<noteq> MT_Inet"
proof -
  from assms show "encode_array c half t a = Ok out"
    by (auto simp: encode_column_def result_simps split: if_splits)
  show "t \<noteq> MT_Inet"
  proof
    assume "t = MT_Inet"
    with assms(2,3) have "string_type (a_type a)"
      by (auto simp: monet_type_for_field_def Let_def string_type_def split: data_type.splits if_splits)
    with assms(1,2) \<open>t = MT_Inet\<close> show False by (auto simp: encode_column_def result_simps)
  qed
qed

lemma list_all_True: "list_all (pred_option (\<lambda>v. True)) xs"
  by (simp add: list_all_iff split: option.splits) (metis option.pred_True)

abbreviation total_rows :: "'v primitive_array list \<Rightarrow> nat" where
  "total_rows ps \<equiv> length (concat (map logical ps))"

abbreviation int_cells :: "(nat \<Rightarrow> nat) \<Rightarrow> data_type \<Rightarrow> int primitive_array list \<Rightarrow> cell option list" where
  "int_cells half dt ps \<equiv> concat (map (\<lambda>p. data_cells half dt (IntData p)) ps)"

lemma signed_decodes:
  assumes "\<forall>p \<in> set ps. wf_data dt (IntData p)" "int_range dt = Some (- (2 ^ (8 * w - 1)), 2 ^ (8 * w - 1))" "0 < w"
    "total_rows ps * w \<le> usize_max" "list_all2 (\<lambda>p out. encode_primitive w p = Ok out) ps outs"
    "ticks dt = 1" "ticks dt' = 1"
  shows "\<exists>a. int_array dt' (decode_signed w (concat outs) (total_rows ps)) = Ok a \<and> cells half a = int_cells half dt ps"
proof -
  have "list_all (in_signed w) (pvalues p)" if "p \<in> set ps" for p
    using assms(1,2) that by (simp add: in_signed_def list_all_iff)
  then show ?thesis
    unfolding decode_signed_def
    by (intro int_column [OF signed_array_codec [OF assms(3)]]) (use assms logical_all in auto)
qed

lemma unsigned_decodes:
  assumes "\<forall>p \<in> set ps. wf_data dt (IntData p)" "int_range dt = Some (0, hi)" "0 < w" "hi \<le> 2 ^ (8 * w - 1)"
    "total_rows ps * w \<le> usize_max" "list_all2 (\<lambda>p out. Ok (encode_unsigned w p) = (Ok out :: (_, encode_error) result)) ps outs"
    "ticks dt = 1" "ticks dt' = 1"
  shows "\<exists>a. int_array dt' (decode_signed w (concat outs) (total_rows ps)) = Ok a \<and> cells half a = int_cells half dt ps"
proof -
  have "list_all (\<lambda>v. 0 \<le> v \<and> v < hi) (pvalues p)" if "p \<in> set ps" for p
    using assms(1,2) that by (simp add: list_all_iff)
  then show ?thesis
    unfolding decode_signed_def
    by (intro int_column [OF unsigned_array_codec [OF assms(3,4)]]) (use assms logical_all in auto)
qed

lemma oid_decodes:
  assumes "\<forall>p \<in> set ps. wf_data DT_UInt64 (IntData p)" "total_rows ps * 8 \<le> usize_max"
    "list_all2 (\<lambda>p out. encode_oid p = Ok out) ps outs"
  shows "\<exists>a. int_array DT_UInt64 (decode_oid (concat outs) (total_rows ps)) = Ok a \<and>
    cells half a = int_cells half DT_UInt64 ps"
proof -
  have "list_all (\<lambda>v. 0 \<le> v) (pvalues p)" if "p \<in> set ps" for p using assms(1) that by (simp add: list_all_iff)
  then show ?thesis
    unfolding decode_oid_def
    by (intro int_column [OF oid_array.array_codec_axioms]) (use assms logical_all in auto)
qed

lemma hugeint_decodes:
  assumes "arrow_documented lib" "\<forall>p \<in> set ps. wf_primitive p" "total_rows ps * 16 \<le> usize_max"
    "list_all2 (\<lambda>p out. encode_decimal p 38 False = Ok out) ps outs" "ticks dt = 1"
    "list_all (pred_option (\<lambda>v. - (10 ^ 38) < v \<and> v < 10 ^ 38)) (concat (map logical ps))"
  shows "\<exists>a. int_array (DT_Decimal128 38 0) (decode_decimal lib (concat outs) (total_rows ps) 38 0 True) = Ok a \<and>
    cells half a = int_cells half dt ps"
  by (rule int_column [OF hugeint_array_codec]) (use assms in \<open>auto simp: list_all_iff\<close>)

lemma wide_unsigned_decodes:
  assumes "arrow_documented lib" "\<forall>p \<in> set ps. wf_data DT_UInt64 (IntData p)" "total_rows ps * 16 \<le> usize_max"
    "list_all2 (\<lambda>p out. Ok (encode_unsigned 16 p) = (Ok out :: (_, encode_error) result)) ps outs"
  shows "\<exists>a. int_array (DT_Decimal128 38 0) (decode_decimal lib (concat outs) (total_rows ps) 38 0 True) = Ok a \<and>
    cells half a = int_cells half DT_UInt64 ps"
proof -
  have "list_all (\<lambda>v. 0 \<le> v \<and> v < 2 ^ 64) (pvalues p)" if "p \<in> set ps" for p
    using assms(2) that by (simp add: list_all_iff)
  then show ?thesis
    by (intro int_column [OF wide_unsigned_array_codec]) (use assms logical_all in auto)
qed

lemma decimal_decodes:
  assumes "arrow_documented lib" "\<forall>p \<in> set ps. wf_data (DT_Decimal128 precision s) (IntData p)" "0 \<le> s"
    "ps \<noteq> []" "total_rows ps * 16 \<le> usize_max" "list_all2 (\<lambda>p out. encode_decimal p precision True = Ok out) ps outs"
  shows "\<exists>a. int_array (DT_Decimal128 precision s)
      (decode_decimal lib (concat outs) (total_rows ps) precision s False) = Ok a \<and>
    cells half a = int_cells half (DT_Decimal128 precision s) ps"
proof -
  have "wf_data (DT_Decimal128 precision s) (IntData (hd ps))" using assms(2,4) by simp
  then have b: "1 \<le> precision" "precision \<le> 38" "s \<le> int precision" by (auto split: if_splits)
  obtain w where w: "decimal_width precision = Some w" "w \<le> 16"
    using decimal_width_Some [OF b(1,2)] by (auto simp: decimal_width_def split: if_splits)
  then have "total_rows ps * w \<le> total_rows ps * 16" by (intro mult_left_mono) simp_all
  then have "total_rows ps * w \<le> usize_max" using assms(5) by linarith
  then show ?thesis
    by (intro int_column [OF decimal_array_codec [OF assms(1) b(1,2) assms(3) b(3) w(1)]])
      (use assms in \<open>auto simp: list_all_True\<close>)
qed

lemma exact_division: "0 < b \<Longrightarrow> trunc_rem v b = 0 \<Longrightarrow> b * trunc_div v b = v"
  using trunc_div_exact trunc_rem_zero_iff by blast

context chrono_lib
begin

lemma date32_decodes:
  assumes "\<forall>p \<in> set ps. wf_primitive p" "total_rows ps * 4 \<le> usize_max"
    "list_all2 (\<lambda>p out. encode_date32 c p = Ok out) ps outs"
  shows "\<exists>a. int_array DT_Date32 (decode_date (concat outs) (total_rows ps)) = Ok a \<and>
    cells half a = int_cells half DT_Date32 ps"
  by (rule int_column [OF date32_array.array_codec_axioms]) (use assms in \<open>auto simp: list_all_True\<close>)

lemma date64_decodes:
  assumes "\<forall>p \<in> set ps. wf_primitive p" "total_rows ps * 4 \<le> usize_max"
    "list_all2 (\<lambda>p out. encode_date64 c p = Ok out) ps outs"
  shows "\<exists>a. int_array DT_Date32 (decode_date (concat outs) (total_rows ps)) = Ok a \<and>
    cells half a = int_cells half DT_Date64 ps"
  by (rule int_column [OF date64_array.array_codec_axioms])
    (use assms exact_division [of 86400000] in \<open>auto simp: list_all_True encode_date64_row_def split: if_splits\<close>)

lemma timestamp_decodes:
  assumes "\<forall>p \<in> set ps. wf_primitive p" "total_rows ps * 12 \<le> usize_max"
    "list_all2 (\<lambda>p out. encode_timestamp c unit p = Ok out) ps outs"
  shows "\<exists>a. int_array (DT_Timestamp Microsecond tz) (decode_timestamp (concat outs) (total_rows ps)) = Ok a \<and>
    cells half a = int_cells half (DT_Timestamp unit tz') ps"
proof (cases "unit = Nanosecond")
  case True
  show ?thesis
    by (rule int_column [OF timestamp_nanos_array.array_codec_axioms])
      (use assms True exact_division [of 1000] in
        \<open>auto simp: list_all_True encode_timestamp_def encode_timestamp_nanos_row_def split: if_splits\<close>)
next
  case False
  then obtain factor where "encode_timestamp c unit = encode_timestamp_values c factor" "1000 * factor = unit_ticks unit"
    using that by (cases unit) (auto simp: encode_timestamp_def [abs_def])
  then show ?thesis
    by (intro int_column [OF timestamp_array_codec [of factor]]) (use assms in \<open>auto simp: list_all_True algebra_simps\<close>)
qed

end

lemma time_decodes:
  assumes "\<forall>p \<in> set ps. wf_primitive p" "total_rows ps * 8 \<le> usize_max"
    "list_all2 (\<lambda>p out. encode_time_values factor p = Ok out) ps outs" "1000 * factor = ticks dt"
  shows "\<exists>a. int_array (DT_Time64 Microsecond) (decode_time (concat outs) (total_rows ps)) = Ok a \<and>
    cells half a = int_cells half dt ps"
  by (rule int_column [OF time_array_codec]) (use assms in \<open>auto simp: list_all_True algebra_simps\<close>)

lemma time_nanos_decodes:
  assumes "\<forall>p \<in> set ps. wf_primitive p" "total_rows ps * 8 \<le> usize_max"
    "list_all2 (\<lambda>p out. encode_time_nanos p = Ok out) ps outs"
  shows "\<exists>a. int_array (DT_Time64 Microsecond) (decode_time (concat outs) (total_rows ps)) = Ok a \<and>
    cells half a = int_cells half (DT_Time64 Nanosecond) ps"
  by (rule int_column [OF time_nanos_array.array_codec_axioms])
    (use assms exact_division [of 1000] in \<open>auto simp: list_all_True encode_time_nanos_row_def split: if_splits\<close>)

lemma duration_decodes:
  assumes "\<forall>p \<in> set ps. wf_data (DT_Duration unit) (IntData p)" "total_rows ps * 8 \<le> usize_max"
    "list_all2 (\<lambda>p out. encode_duration unit days p = Ok out) ps outs"
  shows "\<exists>a. int_array (DT_Duration Millisecond) (decode_signed 8 (concat outs) (total_rows ps)) = Ok a \<and>
    cells half a = int_cells half (DT_Duration unit) ps"
proof -
  obtain m d where md: "encode_duration unit days = encode_duration_values m d days" "0 < d"
    "1000000 * m = unit_ticks unit * d"
    using that [of 1000 1] that [of 1 1] that [of 1 1000] that [of 1 1000000]
    by (cases unit) (auto simp: encode_duration_def [abs_def])
  have v: "list_all (pred_option (in_signed 8)) (logical p)" if "p \<in> set ps" for p
    using assms(1) that by (intro logical_all) (simp add: in_signed_def list_all_iff)
  have scale: "1000000 * (trunc_div v d * m) = unit_ticks unit * v"
    if "encode_duration_row m d days i (Some v) = Ok b" for i v b
  proof -
    have d: "d * trunc_div v d = v"
      using that md(2) exact_division [of d v] by (auto simp: encode_duration_row_def split: if_splits)
    have "1000000 * (trunc_div v d * m) = (1000000 * m) * trunc_div v d" by simp
    also have "\<dots> = unit_ticks unit * (d * trunc_div v d)" unfolding md(3) by simp
    finally show ?thesis by (simp only: d)
  qed
  show ?thesis
    unfolding decode_signed_def
    by (rule int_column [OF duration_array_codec]) (use assms md v scale in auto)
qed

lemma int_arrays_decode:
  assumes c: "chrono_calendar c" and lib: "arrow_documented lib" and ps: "ps \<noteq> []"
    and e: "list_all2 (\<lambda>p out. encode_array c half t \<lparr>a_type = dt, a_data = IntData p\<rparr> = Ok out) ps outs"
    and t: "monet_type_for_field field = Ok t" "f_data_type field = dt" and wf: "\<forall>p \<in> set ps. wf_data dt (IntData p)"
    and w: "total_rows ps * 16 \<le> usize_max" and r: "readable t (map IntData ps) (concat outs)"
  shows "\<exists>b. decode_column lib t (concat outs) (total_rows ps) = Ok b \<and> cells half b = int_cells half dt ps"
proof -
  have l: "chrono_lib c" using c by (rule chrono_lib.intro)
  have p: "\<forall>p \<in> set ps. wf_primitive p" using wf by simp
  have w: "total_rows ps * w \<le> usize_max" if "w \<le> 16" for w
  proof -
    have "total_rows ps * w \<le> total_rows ps * 16" using that by (intro mult_left_mono) simp_all
    with w show ?thesis by linarith
  qed
  obtain q out where h: "encode_array c half t \<lparr>a_type = dt, a_data = IntData q\<rparr> = Ok out"
    using e ps by (cases ps) (auto simp: list_all2_Cons1)
  note defs = encode_array_def encode_signed_def encode_wide_def downcast_int_def monet_type_for_field_def Let_def
  show ?thesis
  proof (cases dt)
    case DT_Int8
    with e t w [of 1] signed_decodes [of ps dt 1 outs DT_Int8] wf show ?thesis by (simp add: defs)
  next
    case DT_Int16
    with e t w [of 2] signed_decodes [of ps dt 2 outs DT_Int16] wf show ?thesis by (simp add: defs)
  next
    case DT_Int32
    with e t w [of 4] signed_decodes [of ps dt 4 outs DT_Int32] wf show ?thesis
      by (auto simp: defs split: if_splits)
  next
    case DT_Int64
    with e t w [of 8] signed_decodes [of ps dt 8 outs DT_Int64] wf show ?thesis by (simp add: defs)
  next
    case DT_UInt8
    with e t w [of 2] unsigned_decodes [of ps dt "2 ^ 8" 2 outs DT_Int16] wf show ?thesis by (auto simp: defs)
  next
    case DT_UInt16
    with e t w [of 4] unsigned_decodes [of ps dt "2 ^ 16" 4 outs DT_Int32] wf show ?thesis by (auto simp: defs)
  next
    case DT_UInt32
    with e t w [of 8] unsigned_decodes [of ps dt "2 ^ 32" 8 outs DT_Int64] wf show ?thesis by (auto simp: defs)
  next
    case DT_UInt64
    with e t w [of 8] w [of 16] oid_decodes [of ps outs] wide_unsigned_decodes [OF lib, of ps outs] wf show ?thesis
      by (auto simp: defs split: if_splits)
  next
    case (DT_Decimal128 precision s)
    show ?thesis
    proof (cases "t = MT_HugeInt")
      case True
      with r have "list_all (pred_option (\<lambda>v. - (10 ^ 38) < v \<and> v < 10 ^ 38)) (concat (map logical ps))"
        by (simp add: readable_def comp_def)
      with True DT_Decimal128 e t w [of 16] p hugeint_decodes [OF lib, of ps outs dt] show ?thesis
        by (auto simp: defs split: if_splits)
    next
      case False
      with DT_Decimal128 t have s: "0 \<le> s" "t = MT_Decimal precision (nat s)" by (auto simp: defs split: if_splits)
      moreover have "wf_data dt (IntData (hd ps))" using wf ps by simp
      then have "s \<le> 38" using DT_Decimal128 by (auto split: if_splits)
      ultimately have "decimal_scale (nat s) = Ok s" by (simp add: decimal_scale_def)
      with DT_Decimal128 e s w [of 16] wf ps decimal_decodes [OF lib, of ps precision s outs] show ?thesis
        by (simp add: defs)
    qed
  next
    case DT_Date32
    with e t w [of 4] p chrono_lib.date32_decodes [OF l] show ?thesis by (simp add: defs)
  next
    case DT_Date64
    with e t w [of 4] p chrono_lib.date64_decodes [OF l] show ?thesis by (simp add: defs)
  next
    case (DT_Time32 unit)
    with h e t w [of 8] p time_decodes [of ps 1000000 outs dt] time_decodes [of ps 1000 outs dt] show ?thesis
      by (cases unit) (auto simp: defs encode_time32_def)
  next
    case (DT_Time64 unit)
    with h e t w [of 8] p time_decodes [of ps 1 outs dt] time_nanos_decodes [of ps outs] show ?thesis
      by (cases unit) (auto simp: defs encode_time64_def split: if_splits)
  next
    case (DT_Timestamp unit tz)
    with e t w [of 12] p chrono_lib.timestamp_decodes [OF l, of ps unit outs _ _ tz] show ?thesis
      by (auto simp: defs split: if_splits)
  next
    case (DT_Duration unit)
    with e t w [of 8] wf duration_decodes [of ps unit "t = MT_DayInterval" outs] show ?thesis
      by (auto simp: defs split: if_splits)
  qed (use wf ps in \<open>auto simp: neq_Nil_conv\<close>)
qed

lemma float_arrays_decode:
  assumes half: "\<And>v. half v < 2 ^ 32"
    and e: "list_all2 (\<lambda>p out. encode_array c half t \<lparr>a_type = dt, a_data = FloatData p\<rparr> = Ok out) ps outs"
    and t: "monet_type_for_field field = Ok t" "f_data_type field = dt"
    and wf: "\<forall>p \<in> set ps. wf_data dt (FloatData p)" "ps \<noteq> []" and w: "total_rows ps * 16 \<le> usize_max"
  shows "\<exists>b. decode_column lib t (concat outs) (total_rows ps) = Ok b \<and>
    cells half b = concat (map (\<lambda>p. data_cells half dt (FloatData p)) ps)"
proof -
  note defs = encode_array_def downcast_float_def monet_type_for_field_def Let_def float_bits_def
  have p: "\<forall>p \<in> set ps. wf_primitive p" using wf by simp
  show ?thesis
  proof (cases dt)
    case DT_Float16
    with e t w p
      float_column [OF half_array_codec [OF half], where ps = ps and outs = outs and half = half and dt' = DT_Float32 and dt = dt]
    show ?thesis by (simp add: defs list_all_True)
  next
    case DT_Float32
    with wf have "\<forall>p \<in> set ps. list_all (pred_option (\<lambda>v. v < 2 ^ 32)) (logical p)" by (intro ballI logical_all) simp
    with DT_Float32 e t w p
      float_column [OF real_array.array_codec_axioms, where ps = ps and outs = outs and half = half and dt' = DT_Float32 and dt = dt]
    show ?thesis by (simp add: defs)
  next
    case DT_Float64
    with wf have "\<forall>p \<in> set ps. list_all (pred_option (\<lambda>v. v < 2 ^ 64)) (logical p)" by (intro ballI logical_all) simp
    with DT_Float64 e t w p
      float_column [OF double_array.array_codec_axioms, where ps = ps and outs = outs and half = half and dt' = DT_Float64 and dt = dt]
    show ?thesis by (simp add: defs)
  qed (use wf in \<open>auto simp: neq_Nil_conv\<close>)
qed

lemma null_rows:
  "backref_loop (pre @ concat (replicate k [0x80, 0])) k row (length pre) vb history =
     Ok (history @ replicate k None, length (pre @ concat (replicate k [0x80, 0])))"
proof (induction k arbitrary: pre row history)
  case (Suc k)
  have "backref_step (pre @ [0x80, 0] @ concat (replicate k [0x80, 0])) row (length pre) vb history =
      Ok (None, length pre + 2, vb)"
    using backref_read_null by (simp add: backref_step_def)
  then show ?case using Suc.IH [of "pre @ [0x80, 0]" "row + 1" "history @ [None]"] by simp
qed simp

lemma null_arrays_decode:
  assumes "list_all2 (\<lambda>n out. encode_nulls n = Ok out) ns outs" "length (concat outs) \<le> i32_max"
  shows "decode_strings (concat outs) (sum_list ns) = Ok (replicate (sum_list ns) None)"
proof -
  from assms(1) have out: "concat outs = concat (replicate (sum_list ns) [0x80, 0])"
    by (induction rule: list_all2_induct) (auto simp: encode_nulls_def result_simps replicate_add)
  then have "length (concat outs) = 2 * sum_list ns" by (simp add: length_concat sum_list_replicate)
  with assms(2) out null_rows [of "[]" "sum_list ns" 0 0 "[]"] show ?thesis
    by (simp add: decode_strings_eq decode_strings_with_backrefs_def)
qed

lemma bool_arrays_decode:
  assumes "list_all2 (\<lambda>p out. Ok (encode_bool p) = (Ok out :: (_, encode_error) result)) ps outs"
    "total_rows ps \<le> usize_max"
  shows "\<exists>q. decode_bool (concat outs) (total_rows ps) = Ok q \<and> logical q = concat (map logical ps)"
proof -
  from assms(1) have "concat outs = map put_bool (concat (map logical ps))"
    by (induction rule: list_all2_induct) (auto simp: encode_bool_rows)
  with decode_bool_rows [of "concat (map logical ps)"] assms(2) show ?thesis by simp
qed

lemma dictionary_values_valid:
  assumes "check_keys keys values = Ok u" "valid_strings values"
  shows "valid_strings (dictionary_values keys values)"
proof -
  have "k < length values" if "Some k \<in> set keys" for k
    using try_map_from_each [OF assms(1) [unfolded check_keys_def] that] by (auto split: if_splits)
  then have "x = None \<or> x \<in> set values" if "x \<in> set (dictionary_values keys values)" for x
    using that by (auto simp: dictionary_values_def Option.bind_eq_None_conv split: bind_splits)
  then show ?thesis using assms(2) by (fastforce simp: valid_strings_def list_all_iff)
qed

lemma text_arrays_decode:
  assumes "list_all2 (\<lambda>vs out. encode_strings vs = Ok out) vss outs" "\<forall>vs \<in> set vss. valid_strings vs"
    "readable t ds (concat outs)" "concat (map column_texts ds) = concat vss"
    "t = MT_Varchar n \<or> t = MT_Url \<or> t = MT_Json"
  shows "\<exists>b. decode_column lib t (concat outs) (length (concat vss)) = Ok b \<and>
    cells half b = map (map_option Octets) (concat vss)"
  using assms text_column [OF assms(1,2)] by (auto simp: readable_def cells_def)

lemma bytes_fit_uuid: "bytes_fit (DT_FixedSizeBinary 16) = (\<lambda>v. length v = 16)"
  by (rule ext) simp

text \<open>The arrays of one type hold data of one kind.\<close>

lemma arrays_of_kind:
  assumes "\<forall>a \<in> set arrays. a_type a = dt" "\<forall>a \<in> set arrays. \<exists>p. a_data a = kind p"
  shows "\<exists>ps. arrays = map (\<lambda>p. \<lparr>a_type = dt, a_data = kind p\<rparr>) ps"
proof -
  have "\<exists>p. a = \<lparr>a_type = dt, a_data = kind p\<rparr>" if a: "a \<in> set arrays" for a
  proof -
    obtain p where "a_data a = kind p" using assms(2) a by blast
    moreover have "a_type a = dt" using assms(1) a by blast
    ultimately show ?thesis by (intro exI [of _ p]) (cases a, simp)
  qed
  then show ?thesis by (simp add: ex_map_conv)
qed

lemma wf_same_kind:
  "wf_data dt (IntData p) \<Longrightarrow> wf_data dt d \<Longrightarrow> \<exists>q. d = IntData q"
  "wf_data dt (FloatData f) \<Longrightarrow> wf_data dt d \<Longrightarrow> \<exists>q. d = FloatData q"
  "wf_data dt (BoolData b) \<Longrightarrow> wf_data dt d \<Longrightarrow> \<exists>q. d = BoolData q"
  "wf_data dt (NullData n) \<Longrightarrow> wf_data dt d \<Longrightarrow> \<exists>q. d = NullData q"
  "wf_data dt (TextData vs) \<Longrightarrow> wf_data dt d \<Longrightarrow> \<exists>q. d = TextData q"
  "wf_data dt (BytesData vs) \<Longrightarrow> wf_data dt d \<Longrightarrow> \<exists>q. d = BytesData q"
  "wf_data dt (DictData ks us) \<Longrightarrow> wf_data dt d \<Longrightarrow> \<exists>q. d = (\<lambda>(keys, vals). DictData keys vals) q"
  by (cases d; cases dt; simp add: string_type_def)+

lemma length_concat_rows:
  "sum_list (map (\<lambda>p. length (pvalues p)) ps) = total_rows ps" "sum_list (map length vss) = length (concat vss)"
  by (simp_all add: length_concat comp_def)

lemma concat_replicates: "concat (map (\<lambda>n. replicate n x) ns) = replicate (sum_list ns) x"
  by (induction ns) (simp_all add: replicate_add)

lemma blob_arrays_decode:
  assumes "list_all2 (\<lambda>vs out. Ok (encode_blobs vs) = (Ok out :: (_, encode_error) result)) vss outs"
    "length (concat outs) \<le> isize_max" "value_size (concat vss) \<le> i32_max"
  shows "decode_blob (concat outs) (length (concat vss)) = Ok (concat vss)"
proof -
  from assms(1) have "outs = map encode_blobs vss" by (induction rule: list_all2_induct) auto
  then have "concat outs = encode_blobs (concat vss)" by (simp add: encode_blobs_concat)
  then show ?thesis
    using assms(2,3) blob_loop_pieces [of "[]" "concat vss" 0 0]
    by (simp add: decode_blob_def checked_mul_def length_encode_blobs)
qed

lemma bytes_arrays_decode:
  assumes e: "list_all2 (\<lambda>vs out. encode_array c half t \<lparr>a_type = dt, a_data = BytesData vs\<rparr> = Ok out) vss outs"
    and t: "monet_type_for_field field = Ok t" "f_data_type field = dt"
    and wf: "\<forall>vs \<in> set vss. wf_data dt (BytesData vs)" "vss \<noteq> []" and w: "length (concat vss) * 16 \<le> usize_max"
    and r: "readable t (map BytesData vss) (concat outs)" and lib: "arrow_documented lib"
  shows "\<exists>b. decode_column lib t (concat outs) (length (concat vss)) = Ok b \<and>
    cells half b = map (map_option Octets) (concat vss)"
proof (cases "t = MT_Uuid")
  case True
  then have "dt = DT_FixedSizeBinary 16"
    using t by (auto simp: monet_type_for_field_def Let_def string_monet_type_def split: data_type.splits if_splits)
  with True e wf w encode_uuid_decodes [of vss outs lib] lib show ?thesis
    by (simp add: encode_array_def downcast_bytes_def bytes_array_def bytes_fit_uuid cells_def)
next
  case False
  have "bytes_type dt" using wf by (cases vss) auto
  then have b: "t = MT_Blob"
    using False t by (auto simp: monet_type_for_field_def Let_def elim!: bytes_type.elims(2) split: if_splits)
  from \<open>bytes_type dt\<close> b e
  have "list_all2 (\<lambda>vs out. Ok (encode_blobs vs) = (Ok out :: (_, encode_error) result)) vss outs"
    by (auto simp: encode_array_def downcast_bytes_def elim!: bytes_type.elims(2) split: if_splits)
  with b r blob_arrays_decode [of vss outs] show ?thesis
    by (simp add: readable_def bytes_array_def cells_def comp_def)
qed

lemma encode_arrays_decode:
  assumes c: "chrono_calendar c" and lib: "arrow_documented lib" and half: "\<And>v. half v < 2 ^ 32"
    and e: "list_all2 (\<lambda>a out. encode_array c half t a = Ok out) arrays outs" and t: "monet_type_for_field field = Ok t"
    and dt: "\<forall>a \<in> set arrays. a_type a = f_data_type field" and inet: "t \<notin> {MT_Inet, MT_Inet4, MT_Inet6}"
    and wf: "\<forall>a \<in> set arrays. wf_array a" "arrays \<noteq> []"
    and w: "sum_list (map array_len arrays) * 16 \<le> usize_max" and r: "readable t (map a_data arrays) (concat outs)"
  shows "\<exists>b. decode_column lib t (concat outs) (sum_list (map array_len arrays)) = Ok b \<and>
    cells half b = concat (map (cells half) arrays)"
proof -
  let ?dt = "f_data_type field"
  have wd: "\<forall>a \<in> set arrays. wf_data ?dt (a_data a)" using dt wf(1) by (simp add: wf_array_def)
  note defs = encode_array_def monet_type_for_field_def Let_def
  note list_simps = list_all2_map1 array_len_def comp_def length_concat_rows cells_def wf_array_def
  have kind: "\<exists>ps. arrays = map (\<lambda>p. \<lparr>a_type = ?dt, a_data = k p\<rparr>) ps"
    if "\<And>d. wf_data ?dt d \<Longrightarrow> \<exists>q. d = k q" for k using arrays_of_kind [OF dt] that wd by blast
  obtain d where d: "wf_data ?dt d" using wd wf(2) by (cases arrays) auto
  show ?thesis
  proof (cases d)
    case (IntData p)
    from kind [of IntData] wf_same_kind(1) [of ?dt p] d IntData obtain ps where "arrays = map (\<lambda>p. \<lparr>a_type = ?dt, a_data = IntData p\<rparr>) ps" by blast
    with int_arrays_decode [OF c lib _ _ t refl, of ps half outs] e wd w r wf(2) show ?thesis by (simp add: list_simps)
  next
    case (FloatData p)
    from kind [of FloatData] wf_same_kind(2) [of ?dt p] d FloatData obtain ps where "arrays = map (\<lambda>p. \<lparr>a_type = ?dt, a_data = FloatData p\<rparr>) ps" by blast
    with float_arrays_decode [OF half _ t refl, where ps = ps and outs = outs] e wd w wf(2) show ?thesis by (simp add: list_simps)
  next
    case (BoolData p)
    from kind [of BoolData] wf_same_kind(3) [of ?dt p] d BoolData obtain ps where "arrays = map (\<lambda>p. \<lparr>a_type = ?dt, a_data = BoolData p\<rparr>) ps" by blast
    with d BoolData bool_arrays_decode [of ps outs] e t w show ?thesis
      by (auto simp: list_simps defs downcast_bool_def map_concat)
  next
    case (NullData n)
    from kind [of NullData] wf_same_kind(4) [of ?dt n] d NullData obtain ns where "arrays = map (\<lambda>n. \<lparr>a_type = ?dt, a_data = NullData n\<rparr>) ns" by blast
    with d NullData null_arrays_decode [of ns outs] e t r show ?thesis
      by (auto simp: list_simps defs downcast_null_def readable_def text_array_def concat_replicates)
  next
    case (TextData vs)
    from kind [of TextData] wf_same_kind(5) [of ?dt vs] d TextData obtain vss where a: "arrays = map (\<lambda>vs. \<lparr>a_type = ?dt, a_data = TextData vs\<rparr>) vss" by blast
    have st: "string_type ?dt" using d TextData by simp
    with e a have "list_all2 (\<lambda>vs out. encode_strings vs = Ok out) vss outs"
      by (auto simp: list_simps encode_array_def string_type_def encode_text_def downcast_text_def result_simps
          elim!: list_all2_mono split: if_splits)
    moreover have "\<exists>n. t = MT_Varchar n \<or> t = MT_Url \<or> t = MT_Json"
      using st t inet by (auto simp: defs string_type_def string_monet_type_def split: if_splits)
    ultimately show ?thesis
      using a wd r text_arrays_decode [of vss outs t "map TextData vss" _ lib half] by (auto simp: list_simps map_concat)
  next
    case (BytesData vs)
    from kind [of BytesData] wf_same_kind(6) [of ?dt vs] d BytesData obtain vss where "arrays = map (\<lambda>vs. \<lparr>a_type = ?dt, a_data = BytesData vs\<rparr>) vss" by blast
    with bytes_arrays_decode [OF _ t refl, where vss = vss and outs = outs and lib = lib] e wd w r wf(2) lib show ?thesis
      by (simp add: list_simps map_concat)
  next
    case (DictData ks us)
    from kind [of "\<lambda>(keys, vals). DictData keys vals"] wf_same_kind(7) [of ?dt ks us] d DictData obtain ds
      where a: "arrays = map (\<lambda>q. \<lparr>a_type = ?dt, a_data = (\<lambda>(keys, vals). DictData keys vals) q\<rparr>) ds" by blast
    obtain k v where kv: "?dt = DT_Dictionary k v" using d DictData by (auto split: data_type.splits)
    let ?vss = "map (\<lambda>(keys, vals). dictionary_values keys vals) ds"
    have enc: "list_all2 (\<lambda>(keys, vals) out. (\<exists>u. check_keys keys vals = Ok u) \<and> encode_strings (dictionary_values keys vals) = Ok out) ds outs"
      using e a kv by (auto simp: list_simps encode_array_def downcast_dict_def encode_dictionary_def result_simps
          elim!: list_all2_mono split: if_splits)
    then have "list_all2 (\<lambda>vs out. encode_strings vs = Ok out) ?vss outs"
      by (auto simp: list_all2_map1 elim!: list_all2_mono)
    moreover have "\<forall>vs \<in> set ?vss. valid_strings vs"
    proof -
      have "valid_strings (snd q)" if "q \<in> set ds" for q
      proof -
        have "wf_data ?dt (DictData (fst q) (snd q))" using wd a that by (auto simp: split_def)
        with kv show ?thesis by simp
      qed
      moreover have "\<exists>u. check_keys (fst q) (snd q) = Ok u" if "q \<in> set ds" for q
        using enc that by (auto simp: list_all2_conv_all_nth in_set_conv_nth split_def)
      ultimately show ?thesis using dictionary_values_valid by (fastforce simp: split_def)
    qed
    moreover have "t = MT_Varchar 0" using kv t by (auto simp: defs split: if_splits)
    moreover have "length (concat ?vss) = (\<Sum>q\<leftarrow>ds. length (fst q))"
      by (simp add: length_concat comp_def split_def dictionary_values_def)
    ultimately show ?thesis
      using a kv r text_arrays_decode [of ?vss outs t "map a_data arrays" 0 lib half]
      by (auto simp: list_simps map_concat split_def)
  qed
qed

text \<open>
  C1 (an encoded column reads back). Take any Arrow arrays of one field that the encoder accepts
  (any integer, float, decimal, text, dictionary, binary, date, time, timestamp or duration type, in
  any unit, with any NULLs), each encoded on its own. Decoding the concatenated bytes as the MonetDB
  type of the field succeeds and gives one array with the cells of all arrays in order: the same
  values, the same instants and durations, and NULL exactly where it was NULL. Address columns, whose
  text is normalised, are the exception; text, blob and HUGEINT columns have to respect the reader's
  limits.
\<close>

theorem encode_column_decodes:
  assumes "chrono_calendar c" "arrow_documented lib" "\<And>v. half v < 2 ^ 32"
    and "list_all2 (\<lambda>a out. encode_column c half field a = Ok out) arrays outs" "arrays \<noteq> []"
    and "monet_type_for_field field = Ok t" "\<forall>a \<in> set arrays. a_type a = f_data_type field \<and> wf_array a"
    and "t \<notin> {MT_Inet4, MT_Inet6}" "readable t (map a_data arrays) (concat outs)"
    and "sum_list (map array_len arrays) * 16 \<le> usize_max"
  shows "\<exists>b. decode_column lib t (concat outs) (sum_list (map array_len arrays)) = Ok b \<and>
    cells half b = concat (map (cells half) arrays)"
proof (rule encode_arrays_decode [OF assms(1-3) _ assms(6) _ _ _ assms(5,10,9)])
  have t: "t \<noteq> MT_Inet4" "t \<noteq> MT_Inet6" using assms(8) by auto
  have ok: "encode_array c half t a = Ok out \<and> t \<noteq> MT_Inet"
    if "a \<in> set arrays" "encode_column c half field a = Ok out" for a out
    using encode_column_Ok [OF that(2) assms(6) _ t] that(1) assms(7) by auto
  show "list_all2 (\<lambda>a out. encode_array c half t a = Ok out) arrays outs"
    using assms(4) by (rule list.rel_mono_strong) (use ok in blast)
  obtain a out where "a \<in> set arrays" "encode_column c half field a = Ok out"
    using assms(4,5) by (cases arrays) (auto simp: list_all2_Cons1)
  with ok t show "t \<notin> {MT_Inet, MT_Inet4, MT_Inet6}" by blast
qed (use assms in auto)

definition sample_field :: arrow_field where
  "sample_field = \<lparr>f_name = ''t'', f_data_type = DT_Timestamp Second None, f_nullable = True, f_metadata = Map.empty\<rparr>"

definition sample_seconds :: arrow_array where
  "sample_seconds =
     \<lparr>a_type = DT_Timestamp Second None,
      a_data = IntData \<lparr>pvalues = [- 1, 0], pvalidity = Some [True, False]\<rparr>\<rparr>"

definition sample_more_seconds :: arrow_array where
  "sample_more_seconds =
     \<lparr>a_type = DT_Timestamp Second None, a_data = IntData \<lparr>pvalues = [86400], pvalidity = None\<rparr>\<rparr>"

theorem encode_column_decodes_witness:
  "\<exists>b. decode_column strict_arrow MT_Timestamp
       ([0, 0, 0, 0, 59, 59, 23, 0, 31, 12, 0xB1, 7] @ replicate 12 0xFF @ [0, 0, 0, 0, 0, 0, 0, 0, 2, 1, 0xB2, 7]) 3 = Ok b \<and>
     cells (\<lambda>v. v mod 2 ^ 32) b = [Some (Number (- 1000000000)), None, Some (Number 86400000000000)]"
proof -
  let ?half = "\<lambda>v :: nat. v mod 2 ^ 32"
  let ?o1 = "[0, 0, 0, 0, 59, 59, 23, 0, 31, 12, 0xB1, 7] @ replicate 12 0xFF :: u8 list"
  let ?o2 = "[0, 0, 0, 0, 0, 0, 0, 0, 2, 1, 0xB2, 7] :: u8 list"
  let ?as = "[sample_seconds, sample_more_seconds]"
  have e: "encode_column stepping_calendar ?half sample_field sample_seconds = Ok ?o1"
    "encode_column stepping_calendar ?half sample_field sample_more_seconds = Ok ?o2" by code_simp+
  have l: "list_all2 (\<lambda>a out. encode_column stepping_calendar ?half sample_field a = Ok out) ?as [?o1, ?o2]"
    using e by (simp only: list_all2_Cons list_all2_Nil simp_thms)
  have t: "monet_type_for_field sample_field = Ok MT_Timestamp" by code_simp
  have "\<exists>b. decode_column strict_arrow MT_Timestamp (concat [?o1, ?o2]) (sum_list (map array_len ?as)) = Ok b \<and>
      cells ?half b = concat (map (cells ?half) ?as)"
    by (rule encode_column_decodes [OF stepping_calendar_ok strict_arrow_documented _ l _ t])
      (simp_all add: sample_field_def sample_seconds_def sample_more_seconds_def wf_array_def wf_primitive_def
        readable_def array_len_def)
  moreover have "sum_list (map array_len ?as) = 3"
    "concat (map (cells ?half) ?as) = [Some (Number (- 1000000000)), None, Some (Number 86400000000000)]"
    by code_simp+
  ultimately show ?thesis by (simp only: concat.simps append.assoc append_Nil2)
qed

end
