(* ===== verification/Chunks.thy ===== *)
theory Chunks
  imports Roundtrip
begin

text \<open>
  \<open>encode_column_chunks\<close> of \<open>encode.rs\<close>: a column encoded in bounded pieces, with the bytes of an
  array borrowed where its memory already is the wire format. The pieces, in the order in which
  they reach the sink, are the column.
\<close>

subsection \<open>Borrowed bytes are the encoded bytes\<close>

lemma borrow_scan_clean:
  "borrow_scan w n p row = Ok True \<Longrightarrow> \<forall>i < n. pvalues p ! (row + i) \<noteq> int_min w"
proof (induction n arbitrary: row)
  case (Suc n)
  from Suc.prems have "pvalues p ! row \<noteq> int_min w" "borrow_scan w n p (Suc row) = Ok True" by (auto split: if_splits)
  with Suc.IH [of "Suc row"] have "pvalues p ! row \<noteq> int_min w" "\<forall>i < n. pvalues p ! Suc (row + i) \<noteq> int_min w" by simp_all
  then show ?case by (auto simp: less_Suc_eq_0_disj)
qed simp

lemma borrow_scan_error:
  "borrow_scan w n p row = Err e \<Longrightarrow> row + n = length (pvalues p) \<Longrightarrow>
   try_map_from row (\<lambda>row value. if value = Some (int_min w) then Err (E_InvalidValue row e_value_sentinel) else Ok ())
     (drop row (logical p)) = Err e"
proof (induction n arbitrary: row)
  case (Suc n)
  have d: "drop row (logical p) = (if is_null p row then None else Some (pvalues p ! row)) # drop (Suc row) (logical p)"
    using Suc.prems(2) by (subst Cons_nth_drop_Suc [symmetric]) (auto simp: logical_def)
  from Suc.prems Suc.IH [of "row + 1"] show ?case
    unfolding d by (auto split: if_splits)
qed simp

lemma borrow_scan_not_Panic: "borrow_scan w n p row \<noteq> Panic"
  by (induction n arbitrary: row) auto

lemma borrow_signed_encode:
  assumes "a_data a = IntData p" "wf_primitive p"
  shows "borrow_signed w a dt = Ok None \<or> borrow_signed w a dt = rbind (encode_primitive w p) (\<lambda>out. Ok (Some out))"
proof (cases "borrow_scan w (length (pvalues p)) p 0")
  case (Ok clean)
  show ?thesis
  proof (cases "clean \<and> null_count p = 0")
    case True
    with Ok borrow_scan_clean [of w "length (pvalues p)" p 0]
    have v: "\<forall>i < length (pvalues p). pvalues p ! i \<noteq> int_min w" by simp
    have "try_map_from 0 (\<lambda>row value. if value = Some (int_min w) then Err (E_InvalidValue row e_value_sentinel) else Ok ())
        (logical p) = Ok (map (\<lambda>_. ()) (logical p))"
      by (rule try_map_from_all_Ok) (use v in \<open>auto simp: logical_def\<close>)
    with True Ok assms show ?thesis
      by (simp add: borrow_signed_def downcast_int_def encode_primitive_def copy_native_with_nulls_def)
  next
    case False
    with Ok assms show ?thesis by (auto simp: borrow_signed_def downcast_int_def)
  qed
next
  case (Err e)
  with borrow_scan_error [of w "length (pvalues p)" p 0 e] assms show ?thesis
    by (simp add: borrow_signed_def downcast_int_def encode_primitive_def)
next
  case Panic
  with borrow_scan_not_Panic show ?thesis by simp
qed

lemma borrow_float_encode:
  assumes "a_data a = FloatData p" "wf_primitive p"
  shows "borrow_float w fin a dt = Ok None \<or>
    borrow_float w fin a dt = rbind (rbind (check_finite fin p) (\<lambda>_.
       Ok (copy_native_with_nulls (le_bytes w) w p (le_bytes w nan)))) (\<lambda>out. Ok (Some out))"
  using assms by (cases "check_finite fin p")
    (auto simp: borrow_float_def downcast_float_def copy_native_with_nulls_def)

lemma wf_IntData: "wf_data dt d \<Longrightarrow> int_range dt \<noteq> None \<Longrightarrow> \<exists>p. d = IntData p \<and> wf_primitive p"
  by (cases d; cases dt; simp add: string_type_def)

lemma wf_FloatData: "wf_data dt d \<Longrightarrow> float_range dt \<noteq> None \<Longrightarrow> \<exists>p. d = FloatData p \<and> wf_primitive p"
  by (cases d; cases dt; simp add: string_type_def)

lemma encode_piece_eq:
  assumes wf: "wf_array a" and dt: "a_type a = f_data_type field" and len: "array_len a * 8 \<le> isize_max"
  shows "encode_piece c half field a = encode_column c half field a"
proof -
  have small: "array_len a \<le> usize_max" "array_len a * 2 \<le> usize_max" "array_len a * 4 \<le> usize_max"
    "array_len a * 8 \<le> usize_max" "array_len a \<le> isize_max" "array_len a * 2 \<le> isize_max" "array_len a * 4 \<le> isize_max"
    using len by auto
  have piece: "encode_piece c half field a = encode_column c half field a"
    if "borrowed_wire_bytes a = Ok None \<or>
      borrowed_wire_bytes a = rbind (encode_column c half field a) (\<lambda>out. Ok (Some out))"
    using that by (cases "encode_column c half field a") (auto simp: encode_piece_def)
  note defs = encode_column_def monet_type_for_field_def Let_def column_wire_width_def fixed_encoded_width_def
    reserve_column_def checked_mul_def string_type_def encode_array_def encode_signed_def downcast_int_def downcast_float_def
  have int: ?thesis if t: "(a_type a, w) \<in> {(DT_Int8, 1), (DT_Int16, 2), (DT_Int32, 4), (DT_Int64, 8)}" for w :: nat
  proof -
    obtain p where p: "a_data a = IntData p" "wf_primitive p"
      using wf_IntData wf t unfolding wf_array_def by fastforce
    have col: "encode_column c half field a = encode_primitive w p" using t dt p small len by (auto simp: defs)
    have "borrowed_wire_bytes a = borrow_signed w a (a_type a)" using t by (auto simp: borrowed_wire_bytes_def)
    with borrow_signed_encode [OF p, of w "a_type a"] show ?thesis by (intro piece) (simp only: col)
  qed
  have float: ?thesis if t: "a_type a = k" "k \<in> {DT_Float32, DT_Float64}" for k
  proof -
    obtain p where p: "a_data a = FloatData p" "wf_primitive p"
      using wf_FloatData wf t unfolding wf_array_def by fastforce
    show ?thesis
    proof (cases "k = DT_Float32")
      case True
      with t dt p small len have col: "encode_column c half field a = encode_f32 p" by (auto simp: defs)
      from True t borrow_float_encode [OF p, of 4 f32_is_finite k f32_nan] show ?thesis
        by (intro piece) (simp add: col borrowed_wire_bytes_def encode_f32_def)
    next
      case False
      with t dt p small len have col: "encode_column c half field a = encode_f64 p" by (auto simp: defs)
      from False t borrow_float_encode [OF p, of 8 f64_is_finite k f64_nan] show ?thesis
        by (intro piece) (auto simp: col borrowed_wire_bytes_def encode_f64_def)
    qed
  qed
  show ?thesis
  proof (cases "a_type a \<in> {DT_Int8, DT_Int16, DT_Int32, DT_Int64, DT_Float32, DT_Float64}")
    case True
    with int float show ?thesis by blast
  next
    case False
    then show ?thesis by (intro piece) (simp add: borrowed_wire_bytes_def split: data_type.splits)
  qed
qed

subsection \<open>Slices of an array\<close>

lemma logical_slice:
  assumes "wf_primitive p"
  shows "logical (slice_primitive start len p) = take len (drop start (logical p))"
proof (rule nth_equalityI)
  fix i assume "i < length (logical (slice_primitive start len p))"
  then have "start + i < length (pvalues p)" "i < len" by (auto simp: slice_primitive_def)
  with assms show "logical (slice_primitive start len p) ! i = take len (drop start (logical p)) ! i"
    by (cases "pvalidity p") (auto simp: logical_def slice_primitive_def is_null_def wf_primitive_def)
qed (simp add: slice_primitive_def)

lemma wf_slice_primitive: "wf_primitive p \<Longrightarrow> wf_primitive (slice_primitive start len p)"
  by (auto simp: wf_primitive_def slice_primitive_def split: option.splits)

lemma list_all_slice: "list_all P xs \<Longrightarrow> list_all P (take len (drop start xs))"
  by (auto simp: list_all_iff dest: in_set_takeD in_set_dropD)

lemma valid_strings_slice: "valid_strings vs \<Longrightarrow> valid_strings (take len (drop start vs))"
  by (simp add: valid_strings_def list_all_slice)

lemma take_drop_replicate: "take len (drop start (replicate n x)) = replicate (min len (n - start)) x"
  by simp

lemma pvalues_slice [simp]: "pvalues (slice_primitive start len p) = take len (drop start (pvalues p))"
  by (simp add: slice_primitive_def)

lemma wf_slice_data: "wf_data dt d \<Longrightarrow> wf_data dt (slice_data start len d)"
  by (cases d)
    (auto simp: wf_slice_primitive list_all_slice valid_strings_slice split: option.splits data_type.splits)

lemma slice_data_cells: "wf_data dt d \<Longrightarrow> data_cells half dt (slice_data start len d) = take len (drop start (data_cells half dt d))"
  by (cases d) (auto simp: logical_slice take_map drop_map dictionary_values_def)

lemma slice_data_texts: "column_texts (slice_data start len d) = take len (drop start (column_texts d))"
  by (cases d) (auto simp: take_map drop_map dictionary_values_def)

lemma slice_data_numbers: "wf_data dt d \<Longrightarrow> column_numbers (slice_data start len d) = take len (drop start (column_numbers d))"
  by (cases d) (auto simp: logical_slice)

lemma slice_data_length: "data_length (slice_data start len d) = min len (data_length d - start)"
  by (cases d) (auto simp: slice_primitive_def)

lemma chunks_cover:
  "0 < step \<Longrightarrow> length xs \<le> rows \<Longrightarrow>
   concat (map (\<lambda>start. take (min (rows - start) step) (drop start xs)) (chunk_starts start rows step)) = drop start xs"
proof (induction start rows step rule: chunk_starts.induct)
  case (1 start rows step)
  show ?case
  proof (cases "start < rows")
    case True
    have "take (min (rows - start) step) (drop start xs) = take step (drop start xs)"
      using 1(3) by (simp add: min_def)
    moreover have "take step (drop start xs) @ drop (start + step) xs = drop start xs"
      using append_take_drop_id [of step "drop start xs"] by (simp add: add.commute)
    ultimately show ?thesis using True 1 by (subst chunk_starts.simps) simp
  next
    case False
    with 1(3) show ?thesis by (subst chunk_starts.simps) simp
  qed
qed

definition slices :: "nat \<Rightarrow> arrow_array \<Rightarrow> arrow_array list" where
  "slices step array = map (\<lambda>start. slice_array start (min (array_len array - start) step) array)
     (chunk_starts 0 (array_len array) step)"

lemma slices_part:
  assumes "wf_array a" "s \<in> set (slices step a)"
  shows "wf_array s" "a_type s = a_type a" "array_len s \<le> array_len a" "array_len s \<le> step"
  using assms by (auto simp: slices_def slice_array_def wf_array_def wf_slice_data array_len_def slice_data_length)

lemma data_cells_length: "length (data_cells half dt d) = data_length d"
  by (cases d) (auto simp: dictionary_values_def)

lemma column_texts_length: "length (column_texts d) \<le> data_length d"
  by (cases d) (auto simp: dictionary_values_def)

lemma column_numbers_length: "length (column_numbers d) \<le> data_length d"
  by (cases d) auto

lemma slices_content:
  assumes "wf_array a" "0 < step"
  shows "concat (map (cells half) (slices step a)) = cells half a"
    and "concat (map (\<lambda>s. column_texts (a_data s)) (slices step a)) = column_texts (a_data a)"
    and "concat (map (\<lambda>s. column_numbers (a_data s)) (slices step a)) = column_numbers (a_data a)"
    and "sum_list (map array_len (slices step a)) = array_len a"
proof -
  have wf: "wf_data (a_type a) (a_data a)" using assms(1) by (simp add: wf_array_def)
  have len: "data_length (a_data a) = array_len a" by (simp add: array_len_def)
  note cover = chunks_cover [OF assms(2), of _ "array_len a" 0]
  show c: "concat (map (cells half) (slices step a)) = cells half a" for half
    using cover [of "cells half a"] wf
    by (simp add: slices_def slice_array_def cells_def comp_def slice_data_cells data_cells_length len)
  show "concat (map (\<lambda>s. column_texts (a_data s)) (slices step a)) = column_texts (a_data a)"
    using cover [of "column_texts (a_data a)"] column_texts_length [of "a_data a"]
    by (simp add: slices_def slice_array_def comp_def slice_data_texts len)
  show "concat (map (\<lambda>s. column_numbers (a_data s)) (slices step a)) = column_numbers (a_data a)"
    using cover [of "column_numbers (a_data a)"] column_numbers_length [of "a_data a"] wf
    by (simp add: slices_def slice_array_def comp_def slice_data_numbers len)
  have l: "length (cells id b) = array_len b" for b by (simp add: cells_def data_cells_length array_len_def)
  have "sum_list (map array_len (slices step a)) = length (concat (map (cells id) (slices step a)))"
    by (simp add: length_concat comp_def l)
  then show "sum_list (map array_len (slices step a)) = array_len a" by (simp add: c l)
qed

subsection \<open>The pieces that reach the sink\<close>

text \<open>A sink that keeps what it is given, in order, and never fails.\<close>

definition record_piece :: "u8 list list \<Rightarrow> u8 list \<Rightarrow> u8 list list \<times> 'x option" where
  "record_piece s bytes = (s @ [bytes], None)"

lemma emit_slices_pieces:
  assumes "emit_slices c half field record_piece array step starts s acc = (s', Ok n :: (nat, 'x chunked_error) result)"
  shows "\<exists>pieces. s' = s @ pieces \<and> n = acc + length (concat pieces) \<and>
    list_all2 (\<lambda>start piece. encode_piece c half field (slice_array start (min (array_len array - start) step) array)
      = Ok piece) starts pieces"
  using assms
proof (induction starts arbitrary: s acc)
  case (Cons start starts)
  from Cons.prems obtain bytes where b: "encode_piece c half field (slice_array start (min (array_len array - start) step) array) = Ok bytes"
    and r: "emit_slices c half field record_piece array step starts (s @ [bytes]) (acc + length bytes) = (s', Ok n :: (nat, 'x chunked_error) result)"
    by (auto simp: record_piece_def [of s] split: result.splits option.splits)
  from Cons.IH [OF r] obtain pieces where "s' = (s @ [bytes]) @ pieces" "n = acc + length bytes + length (concat pieces)"
    "list_all2 (\<lambda>start piece. encode_piece c half field (slice_array start (min (array_len array - start) step) array)
      = Ok piece) starts pieces" by blast
  with b show ?case by (intro exI [of _ "bytes # pieces"]) simp
qed simp

lemma rows_per_chunk_pos: "0 < rows_per_chunk target rows estimated"
  by (simp add: rows_per_chunk_def less_max_iff_disj)

text \<open>The slices of every array, with the step that its estimate gives.\<close>

fun column_slices_for :: "arrow_field \<Rightarrow> nat \<Rightarrow> arrow_array list \<Rightarrow> arrow_array list" where
  "column_slices_for field target [] = []"
| "column_slices_for field target (array # arrays) =
     (case estimated_encoded_size field array of
        Ok estimated \<Rightarrow> slices (rows_per_chunk target (array_len array) estimated) array
      | _ \<Rightarrow> []) @ column_slices_for field target arrays"

lemma encode_column_chunks_pieces:
  assumes "encode_column_chunks c half field arrays target record_piece s acc = (s', Ok n :: (nat, 'x chunked_error) result)"
  shows "\<exists>pieces. s' = s @ pieces \<and> n = acc + length (concat pieces) \<and>
    list_all2 (\<lambda>slice piece. encode_piece c half field slice = Ok piece) (column_slices_for field target arrays) pieces \<and>
    (\<forall>array \<in> set arrays. \<exists>estimated. estimated_encoded_size field array = Ok estimated)"
  using assms
proof (induction arrays arbitrary: s acc)
  case (Cons array arrays)
  then obtain estimated where est: "estimated_encoded_size field array = Ok estimated" by (auto split: result.splits)
  define step where "step = rows_per_chunk target (array_len array) estimated"
  from Cons.prems est obtain s1 acc1 where
    e: "emit_slices c half field record_piece array step (chunk_starts 0 (array_len array) step) s acc = (s1, Ok acc1 :: (nat, 'x chunked_error) result)"
    and r: "encode_column_chunks c half field arrays target record_piece s1 acc1 = (s', Ok n :: (nat, 'x chunked_error) result)"
    by (auto simp: Let_def step_def split: prod.splits result.splits)
  from emit_slices_pieces [OF e] obtain ps where ps: "s1 = s @ ps" "acc1 = acc + length (concat ps)"
    "list_all2 (\<lambda>slice piece. encode_piece c half field slice = Ok piece) (slices step array) ps"
    by (auto simp: slices_def list_all2_map1)
  from Cons.IH [OF r] obtain qs where qs: "s' = s1 @ qs" "n = acc1 + length (concat qs)"
    "list_all2 (\<lambda>slice piece. encode_piece c half field slice = Ok piece) (column_slices_for field target arrays) qs"
    "\<forall>array \<in> set arrays. \<exists>estimated. estimated_encoded_size field array = Ok estimated" by blast
  with ps est show ?case
    by (intro exI [of _ "ps @ qs"]) (simp add: step_def list_all2_appendI)
qed simp

lemma column_slices_part:
  "\<forall>a \<in> set arrays. wf_array a \<and> a_type a = dt \<and> array_len a * 8 \<le> isize_max \<Longrightarrow>
   s \<in> set (column_slices_for field target arrays) \<Longrightarrow> wf_array s \<and> a_type s = dt \<and> array_len s * 8 \<le> isize_max"
proof (induction arrays)
  case (Cons a arrays)
  show ?case
  proof (cases "s \<in> set (column_slices_for field target arrays)")
    case True
    with Cons show ?thesis by simp
  next
    case False
    with Cons.prems(2) obtain step where s: "s \<in> set (slices step a)" by (auto split: result.splits)
    from Cons.prems(1) have "wf_array a" "a_type a = dt" "array_len a * 8 \<le> isize_max" by simp_all
    with slices_part [OF _ s] show ?thesis by auto
  qed
qed simp

lemma column_slices_content:
  "\<forall>a \<in> set arrays. wf_array a \<and> (\<exists>n. estimated_encoded_size field a = Ok n) \<Longrightarrow>
   concat (map (cells half) (column_slices_for field target arrays)) = concat (map (cells half) arrays) \<and>
   concat (map (\<lambda>s. column_texts (a_data s)) (column_slices_for field target arrays)) =
     concat (map (\<lambda>s. column_texts (a_data s)) arrays) \<and>
   concat (map (\<lambda>s. column_numbers (a_data s)) (column_slices_for field target arrays)) =
     concat (map (\<lambda>s. column_numbers (a_data s)) arrays) \<and>
   sum_list (map array_len (column_slices_for field target arrays)) = sum_list (map array_len arrays)"
proof (induction arrays)
  case (Cons a arrays)
  then obtain n where "wf_array a" "estimated_encoded_size field a = Ok n" by auto
  with Cons show ?case
    using slices_content [OF _ rows_per_chunk_pos] by auto
qed simp

lemma chunks_encoded:
  assumes "encode_column_chunks c half field arrays target record_piece [] 0 = (pieces, Ok n :: (nat, 'x chunked_error) result)"
    and "\<forall>a \<in> set arrays. wf_array a \<and> a_type a = f_data_type field \<and> array_len a * 8 \<le> isize_max"
  shows "n = length (concat pieces)"
    "list_all2 (\<lambda>slice piece. encode_column c half field slice = Ok piece) (column_slices_for field target arrays) pieces"
    "\<forall>a \<in> set arrays. \<exists>n. estimated_encoded_size field a = Ok n"
proof -
  from encode_column_chunks_pieces [OF assms(1)]
  have n: "n = length (concat pieces)"
    and p: "list_all2 (\<lambda>slice piece. encode_piece c half field slice = Ok piece) (column_slices_for field target arrays) pieces"
    and e: "\<forall>a \<in> set arrays. \<exists>n. estimated_encoded_size field a = Ok n" by auto
  show "n = length (concat pieces)" "\<forall>a \<in> set arrays. \<exists>n. estimated_encoded_size field a = Ok n" by (rule n e)+
  show "list_all2 (\<lambda>slice piece. encode_column c half field slice = Ok piece) (column_slices_for field target arrays) pieces"
    using p by (rule list.rel_mono_strong) (use column_slices_part [OF assms(2)] encode_piece_eq [of _ field c half] in metis)
qed

lemma readable_texts:
  assumes "concat (map (\<lambda>s. column_texts (a_data s)) xs) = concat (map (\<lambda>s. column_texts (a_data s)) ys)"
    "concat (map (\<lambda>s. column_numbers (a_data s)) xs) = concat (map (\<lambda>s. column_numbers (a_data s)) ys)"
  shows "readable t (map a_data xs) out = readable t (map a_data ys) out"
  using assms by (simp add: readable_def comp_def)

lemma encoded_slices_decode:
  assumes "chrono_calendar c" "arrow_documented lib" "\<And>v. half v < 2 ^ 32"
    and "list_all2 (\<lambda>slice piece. encode_column c half field slice = Ok piece) (column_slices_for field target arrays) pieces"
    and "\<forall>a \<in> set arrays. wf_array a \<and> a_type a = f_data_type field \<and> array_len a * 8 \<le> isize_max"
    and "monet_type_for_field field = Ok t" "t \<notin> {MT_Inet4, MT_Inet6}"
    and "0 < sum_list (map array_len arrays)" "sum_list (map array_len arrays) * 16 \<le> usize_max"
    and "readable t (map a_data arrays) (concat pieces)"
    and "\<forall>a \<in> set arrays. \<exists>n. estimated_encoded_size field a = Ok n"
  shows "\<exists>b. decode_column lib t (concat pieces) (sum_list (map array_len arrays)) = Ok b \<and>
    cells half b = concat (map (cells half) arrays)"
proof -
  let ?slices = "column_slices_for field target arrays"
  have content: "concat (map (cells half) ?slices) = concat (map (cells half) arrays)"
    "sum_list (map array_len ?slices) = sum_list (map array_len arrays)"
    "readable t (map a_data ?slices) (concat pieces)"
    using column_slices_content [of arrays field half target] assms(11) assms(5,10)
      readable_texts [of ?slices arrays t "concat pieces"] by auto
  have t: "t \<noteq> MT_Inet4" "t \<noteq> MT_Inet6" using assms(7) by auto
  have part: "a_type s = f_data_type field" "wf_array s" if "s \<in> set ?slices" for s
    using column_slices_part [OF assms(5) that] by auto
  have ok: "encode_array c half t s = Ok out \<and> t \<noteq> MT_Inet"
    if "s \<in> set ?slices" "encode_column c half field s = Ok out" for s out
    using encode_column_Ok [OF that(2) assms(6) _ t] part [OF that(1)] by auto
  have ne: "?slices \<noteq> []"
  proof
    assume "?slices = []"
    then have "sum_list (map array_len ?slices) = 0" by simp
    with content(2) assms(8) show False by linarith
  qed
  have arr: "list_all2 (\<lambda>a out. encode_array c half t a = Ok out) ?slices pieces"
    using assms(4) by (rule list.rel_mono_strong) (use ok in blast)
  obtain s out where "s \<in> set ?slices" "encode_column c half field s = Ok out"
    using assms(4) ne by (cases ?slices) (auto simp: list_all2_Cons1)
  with ok t have "t \<notin> {MT_Inet, MT_Inet4, MT_Inet6}" by blast
  from encode_arrays_decode [OF assms(1-3) arr assms(6) _ this _ ne] part content assms(9)
  show ?thesis by simp
qed

text \<open>
  C7 (a column sent in pieces is the column). The pieces that \<open>encode_column_chunks\<close> hands to its
  sink, one after the other, form a wire column: decoding their concatenation gives every row of
  every array, in order and with its NULLs, whatever the piece size, and the returned total is the
  number of bytes delivered. Back-references never reach into an earlier piece.
\<close>

theorem encode_column_chunks_decodes:
  fixes n :: nat
  assumes "chrono_calendar c" "arrow_documented lib" "\<And>v. half v < 2 ^ 32"
    and "encode_column_chunks c half field arrays target record_piece [] 0 = (pieces, Ok n :: (nat, 'x chunked_error) result)"
    and "\<forall>a \<in> set arrays. wf_array a \<and> a_type a = f_data_type field \<and> array_len a * 8 \<le> isize_max"
    and "monet_type_for_field field = Ok t" "t \<notin> {MT_Inet4, MT_Inet6}"
    and "0 < sum_list (map array_len arrays)" "sum_list (map array_len arrays) * 16 \<le> usize_max"
    and "readable t (map a_data arrays) (concat pieces)"
  shows "n = length (concat pieces) \<and>
    (\<exists>b. decode_column lib t (concat pieces) (sum_list (map array_len arrays)) = Ok b \<and>
      cells half b = concat (map (cells half) arrays))"
proof -
  note enc = chunks_encoded [OF assms(4,5)]
  from encoded_slices_decode [OF assms(1-3) enc(2) assms(5-10) enc(3)] enc(1) show ?thesis by blast
qed

lemma decode_column_width:
  "decode_column lib t bytes rows = Ok b \<Longrightarrow> fixed_wire_width t = Some w \<Longrightarrow> length bytes = rows * w"
  by (cases t)
    (auto simp: array_defs result_simps decode_bool_def decode_primitive_def decode_decimal_def decode_uuid_def
      decode_date_def decode_time_def decode_timestamp_def expect_fixed_Ok split: if_splits)

lemma chunk_bytes_bounded:
  assumes "0 < rows" "0 < w" "rows * w \<le> usize_max" "k \<le> rows_per_chunk target rows (rows * w)"
  shows "k * w \<le> max target w"
proof -
  have "saturating_mul target rows div (rows * w) \<le> (target * rows) div (rows * w)"
    by (intro div_le_mono) (simp add: saturating_mul_def)
  also have "\<dots> = target div w" using assms(1) by (simp add: mult.commute)
  finally have "k \<le> max (target div w) 1" using assms by (auto simp: rows_per_chunk_def)
  then have "k * w \<le> max (target div w) 1 * w" by (rule mult_right_mono) simp
  also have "\<dots> = max (target div w * w) w" by (simp add: nat_mult_max_left)
  also have "\<dots> \<le> max target w" by (rule max.mono) simp_all
  finally show ?thesis .
qed

lemma fixed_wire_width_pos: "fixed_wire_width t = Some w \<Longrightarrow> 0 < w"
  by (cases t) (auto simp: decimal_width_def split: if_splits)

lemma list_all2_source: "list_all2 P xs ys \<Longrightarrow> y \<in> set ys \<Longrightarrow> \<exists>x \<in> set xs. P x y"
  by (induction rule: list_all2_induct) auto

lemma slice_origin:
  "s \<in> set (column_slices_for field target arrays) \<Longrightarrow>
   \<exists>a \<in> set arrays. \<exists>n. estimated_encoded_size field a = Ok n \<and> s \<in> set (slices (rows_per_chunk target (array_len a) n) a)"
  by (induction arrays) (auto split: result.splits)

lemma chunk_starts_less: "start \<in> set (chunk_starts k rows step) \<Longrightarrow> start < rows"
  by (induction k rows step rule: chunk_starts.induct) (subst (asm) (2) chunk_starts.simps, auto split: if_splits)

lemma slice_nonempty: "0 < step \<Longrightarrow> s \<in> set (slices step a) \<Longrightarrow> 0 < array_len s"
  by (auto simp: slices_def slice_array_def array_len_def slice_data_length dest: chunk_starts_less)

text \<open>
  C20 (pieces of fixed-width columns are bounded). For a type of fixed wire width, every piece that reaches the sink holds at
  least one row and at most the target number of bytes, or a single row when the target is smaller
  than a row.
\<close>

theorem encode_column_chunks_bounded:
  fixes n :: nat
  assumes "chrono_calendar c" "arrow_documented lib" "\<And>v. half v < 2 ^ 32"
    and "encode_column_chunks c half field arrays target record_piece [] 0 = (pieces, Ok n :: (nat, 'x chunked_error) result)"
    and "\<forall>a \<in> set arrays. wf_array a \<and> a_type a = f_data_type field \<and> array_len a * 8 \<le> isize_max"
    and "monet_type_for_field field = Ok t" "fixed_wire_width t = Some w" "f_data_type field \<noteq> DT_Null"
    and "readable t (map a_data arrays) (concat pieces)" "piece \<in> set pieces"
  shows "0 < length piece \<and> length piece \<le> max target w"
proof -
  have wpos: "0 < w" using fixed_wire_width_pos [OF assms(7)] .
  note enc = chunks_encoded [OF assms(4,5)]
  from list_all2_source [OF enc(2) assms(10)] obtain s where s: "s \<in> set (column_slices_for field target arrays)"
    and e: "encode_column c half field s = Ok piece"
    by blast
  from slice_origin [OF s] obtain a est where a: "a \<in> set arrays" "estimated_encoded_size field a = Ok est"
    "s \<in> set (slices (rows_per_chunk target (array_len a) est) a)" by blast
  have wfa: "wf_array a" "a_type a = f_data_type field" using assms(5) a(1) by auto
  have part: "wf_array s" "a_type s = f_data_type field" using column_slices_part [OF assms(5) s] by auto
  have t: "t \<noteq> MT_Inet4" "t \<noteq> MT_Inet6" using assms(7) by auto
  note ok = encode_column_Ok [OF e assms(6) _ t]
  have est: "est = array_len a * w" "array_len a * w \<le> usize_max"
    using a(2) wfa(2) assms(6-8)
    by (auto simp: estimated_encoded_size_def column_wire_width_def fixed_encoded_width_def checked_encoded_size_def result_simps)
  have pos: "0 < array_len s" by (rule slice_nonempty [OF rows_per_chunk_pos a(3)])
  have le: "array_len s \<le> rows_per_chunk target (array_len a) est" "array_len s \<le> array_len a"
    using slices_part [OF wfa(1) a(3)] by auto
  have r: "readable t [a_data s] piece"
  proof (cases "t = MT_HugeInt")
    case True
    have "concat (map (\<lambda>s. column_numbers (a_data s)) (column_slices_for field target arrays)) =
        concat (map (\<lambda>s. column_numbers (a_data s)) arrays)"
      using column_slices_content [of arrays field half target] enc(3) assms(5) by auto
    moreover have "set (column_numbers (a_data s)) \<subseteq>
        set (concat (map (\<lambda>s. column_numbers (a_data s)) (column_slices_for field target arrays)))" using s by auto
    ultimately have "set (column_numbers (a_data s)) \<subseteq> set (concat (map (\<lambda>s. column_numbers (a_data s)) arrays))"
      by (simp only:)
    with True assms(9) show ?thesis unfolding readable_def by (simp add: comp_def list_all_iff subset_iff) blast
  next
    case False
    with assms(7) show ?thesis by (auto simp: readable_def)
  qed
  have "\<exists>b. decode_column lib t (concat [piece]) (sum_list (map array_len [s])) = Ok b \<and>
      cells half b = concat (map (cells half) [s])"
    by (rule encode_arrays_decode [OF assms(1-3) _ assms(6)])
      (use ok part r t assms(5) a(1) le(2) in auto)
  then have "length piece = array_len s * w" using decode_column_width assms(7) by fastforce
  with chunk_bytes_bounded [of "array_len a" w "array_len s" target] pos le est wpos show ?thesis by simp
qed

subsection \<open>Concrete streams\<close>

definition sample_names :: arrow_array where
  "sample_names = \<lparr>a_type = DT_Utf8, a_data = TextData [Some [0x61], Some [0x61], None]\<rparr>"

definition sample_names_field :: arrow_field where
  "sample_names_field = \<lparr>f_name = ''name'', f_data_type = DT_Utf8, f_nullable = True, f_metadata = Map.empty\<rparr>"

lemma sample_names_pieces:
  "encode_column_chunks stepping_calendar (\<lambda>v. v mod 2 ^ 32) sample_names_field [sample_names] 4 record_piece [] 0 =
     ([[0x61, 0, 0x81], [0x80, 0]], Ok 5 :: (nat, nat chunked_error) result)"
  by code_simp

theorem encode_column_chunks_decodes_witness:
  "\<exists>b. decode_column strict_arrow (MT_Varchar 0) [0x61, 0, 0x81, 0x80, 0] 3 = Ok b \<and>
     cells (\<lambda>v. v mod 2 ^ 32) b = [Some (Octets [0x61]), Some (Octets [0x61]), None]"
proof -
  have "monet_type_for_field sample_names_field = Ok (MT_Varchar 0)" by code_simp
  moreover have "wf_array sample_names" "readable (MT_Varchar 0) (map a_data [sample_names]) (concat [[0x61, 0, 0x81], [0x80, 0]])"
    by code_simp+
  ultimately have "(5 :: nat) = length (concat [[0x61, 0, 0x81], [0x80, 0 :: u8]]) \<and>
     (\<exists>b. decode_column strict_arrow (MT_Varchar 0) (concat [[0x61, 0, 0x81], [0x80, 0]]) (sum_list (map array_len [sample_names])) = Ok b \<and>
       cells (\<lambda>v. v mod 2 ^ 32) b = concat (map (cells (\<lambda>v. v mod 2 ^ 32)) [sample_names]))"
    by (intro encode_column_chunks_decodes [OF stepping_calendar_ok strict_arrow_documented _ sample_names_pieces])
      (simp_all add: sample_names_def sample_names_field_def array_len_def)
  then show ?thesis by (simp add: sample_names_def array_len_def cells_def numeral_3_eq_3)
qed

definition sample_counts :: arrow_array where
  "sample_counts = \<lparr>a_type = DT_Int16, a_data = IntData \<lparr>pvalues = [1, 0, 3], pvalidity = Some [True, False, True]\<rparr>\<rparr>"

definition sample_counts_field :: arrow_field where
  "sample_counts_field = \<lparr>f_name = ''n'', f_data_type = DT_Int16, f_nullable = True, f_metadata = Map.empty\<rparr>"

lemma sample_counts_pieces:
  "encode_column_chunks stepping_calendar (\<lambda>v. v mod 2 ^ 32) sample_counts_field [sample_counts] 5 record_piece [] 0 =
     ([[1, 0, 0, 0x80], [3, 0]], Ok 6 :: (nat, nat chunked_error) result)"
  by code_simp

theorem encode_column_chunks_bounded_witness:
  "0 < length [1, 0, 0, 0x80 :: u8] \<and> length [1, 0, 0, 0x80 :: u8] \<le> max 5 2"
proof -
  have "monet_type_for_field sample_counts_field = Ok MT_SmallInt" by code_simp
  moreover have "wf_array sample_counts" "readable MT_SmallInt (map a_data [sample_counts]) (concat [[1, 0, 0, 0x80], [3, 0]])"
    by code_simp+
  ultimately show ?thesis
    by (intro encode_column_chunks_bounded [OF stepping_calendar_ok strict_arrow_documented _ sample_counts_pieces])
      (simp_all add: sample_counts_def sample_counts_field_def array_len_def)
qed

end
