(* ===== verification/Decode_Owned.thy ===== *)
theory Decode_Owned
  imports Decode
begin

text \<open>
  The zero-copy path of \<open>decode.rs\<close>: a response frame whose fixed-width columns are aligned is
  kept as the buffer of the arrays. The address of the frame's allocation is the parameter
  \<open>base\<close>; a column slice is its address and its length. The alignment of an integer is its size.

  The lemmas show that for every address the owned path returns exactly what the copying path
  returns, values and errors, and that the capacity computed for an owned frame is enough for
  every frame the server can send.
\<close>

subsection \<open>Sizes\<close>

fun owned_capacity_loop :: "nat \<Rightarrow> result_column list \<Rightarrow> nat \<Rightarrow> nat option" where
  "owned_capacity_loop capacity [] rows = Some capacity"
| "owned_capacity_loop capacity (column # cols) rows =
     Option.bind (fixed_wire_width (rc_type column)) (\<lambda>width.
     Option.bind (checked_add capacity 31) (\<lambda>c.
     Option.bind (checked_mul rows width) (\<lambda>bytes.
     Option.bind (checked_add c bytes) (\<lambda>c. owned_capacity_loop c cols rows))))"

definition owned_frame_capacity :: "result_column list \<Rightarrow> nat \<Rightarrow> nat option" where
  "owned_frame_capacity cols rows =
     Option.bind (owned_capacity_loop 128 cols rows) (\<lambda>capacity.
     Option.bind (checked_add capacity 31) (\<lambda>c.
     Option.bind (checked_mul (length cols) 16) (\<lambda>toc.
     Option.bind (checked_add c toc) (\<lambda>c. checked_add c 8))))"

definition estimated_frame_bytes_per_row :: "result_column list \<Rightarrow> nat \<Rightarrow> nat" where
  "estimated_frame_bytes_per_row cols variable_value_bytes =
     fold (\<lambda>column total.
       saturating_add total
         (case fixed_wire_width (rc_type column) of
            Some width \<Rightarrow> width
          | None \<Rightarrow> saturating_add variable_value_bytes (if rc_type column = MT_Blob then 8 else 1)))
       cols 0"

definition adoption_is_worthwhile :: "nat \<Rightarrow> nat \<Rightarrow> bool" where
  "adoption_is_worthwhile adoptable_bytes frame_bytes \<longleftrightarrow>
     0 < frame_bytes \<and> frame_bytes - frame_bytes div 4 \<le> adoptable_bytes"

fun adoptable :: "monet_type \<Rightarrow> bool" where
  "adoptable MT_TinyInt = True"
| "adoptable MT_SmallInt = True"
| "adoptable MT_Int = True"
| "adoptable MT_Real = True"
| "adoptable MT_MonthInterval = True"
| "adoptable MT_BigInt = True"
| "adoptable MT_Oid = True"
| "adoptable MT_Double = True"
| "adoptable MT_DayInterval = True"
| "adoptable MT_SecInterval = True"
| "adoptable MT_HugeInt = True"
| "adoptable (MT_Decimal precision _) = (19 \<le> precision \<and> precision \<le> 38)"
| "adoptable _ = False"

fun prefers_owned_loop :: "nat \<Rightarrow> nat \<Rightarrow> monet_type list \<Rightarrow> bool" where
  "prefers_owned_loop adoptable_bytes frame_bytes [] = adoption_is_worthwhile adoptable_bytes frame_bytes"
| "prefers_owned_loop adoptable_bytes frame_bytes (t # ts) =
     (case fixed_wire_width t of
        None \<Rightarrow> False
      | Some width \<Rightarrow>
          prefers_owned_loop
            (if adoptable t then saturating_add adoptable_bytes width else adoptable_bytes)
            (saturating_add frame_bytes width) ts)"

definition prefers_owned_types :: "monet_type list \<Rightarrow> bool" where
  "prefers_owned_types ts = prefers_owned_loop 0 0 ts"

definition prefers_owned_frame :: "result_column list \<Rightarrow> bool" where
  "prefers_owned_frame cols = prefers_owned_types (map rc_type cols)"

subsection \<open>Adopting columns\<close>

fun adopt_alignment :: "monet_type \<Rightarrow> nat option" where
  "adopt_alignment MT_TinyInt = Some 1"
| "adopt_alignment MT_SmallInt = Some 2"
| "adopt_alignment MT_Int = Some 4"
| "adopt_alignment MT_Real = Some 4"
| "adopt_alignment MT_MonthInterval = Some 4"
| "adopt_alignment MT_BigInt = Some 8"
| "adopt_alignment MT_Oid = Some 8"
| "adopt_alignment MT_Double = Some 8"
| "adopt_alignment MT_DayInterval = Some 8"
| "adopt_alignment MT_SecInterval = Some 8"
| "adopt_alignment MT_HugeInt = Some 16"
| "adopt_alignment (MT_Decimal precision _) = (if 19 \<le> precision \<and> precision \<le> 38 then Some 16 else None)"
| "adopt_alignment _ = None"

definition adoptable_len :: "nat \<Rightarrow> result_column \<times> nat \<times> nat \<Rightarrow> nat" where
  "adoptable_len base item =
     (case item of (column, start, end) \<Rightarrow>
        case adopt_alignment (rc_type column) of
          None \<Rightarrow> 0
        | Some alignment \<Rightarrow> if (base + start) mod 2 ^ 64 mod alignment = 0 then end - start else 0)"

definition should_adopt_frame :: "nat \<Rightarrow> result_column list \<Rightarrow> (nat \<times> nat) list \<Rightarrow> nat \<Rightarrow> bool" where
  "should_adopt_frame base cols ranges frame_bytes =
     (if frame_bytes = 0 then False
      else adoption_is_worthwhile
             (fold (\<lambda>item total. saturating_add total (adoptable_len base item)) (zip cols ranges) 0) frame_bytes)"

text \<open>\<open>PrimitiveArray::try_new\<close> refuses NULL bits of another length than the values.\<close>

definition primitive_try_new :: "'v list \<Rightarrow> bool list option \<Rightarrow> ('v primitive_array, decode_error) result" where
  "primitive_try_new values nulls =
     (let array = \<lparr>pvalues = values, pvalidity = nulls\<rparr>
      in if wf_primitive array then Ok array else Err (Arrow_Err ''Incorrect length of null buffer for PrimitiveArray''))"

definition adopt_primitive ::
  "nat \<Rightarrow> u8 list \<Rightarrow> nat \<times> nat \<Rightarrow> nat \<Rightarrow> (u8 list \<Rightarrow> 'v) \<Rightarrow> ('v \<Rightarrow> bool) \<Rightarrow> nat
    \<Rightarrow> ('v primitive_array option, decode_error) result" where
  "adopt_primitive base buffer rng width decode null rows =
     rbind (slice_at buffer (fst rng) (snd rng)) (\<lambda>bytes.
     rbind (expect_fixed bytes rows width) (\<lambda>_.
       if (base + fst rng) mod width \<noteq> 0 then Ok None
       else
         let values = map decode (chunks_exact width bytes)
         in rbind (primitive_try_new values (null_buffer null values)) (\<lambda>array. Ok (Some array))))"

definition adopt_decimal ::
  "arrow_lib \<Rightarrow> nat \<Rightarrow> u8 list \<Rightarrow> nat \<times> nat \<Rightarrow> nat \<Rightarrow> nat \<Rightarrow> int \<Rightarrow> bool
    \<Rightarrow> (int primitive_array option, decode_error) result" where
  "adopt_decimal lib base buffer rng rows precision scale hugeint =
     rbind (slice_at buffer (fst rng) (snd rng)) (\<lambda>bytes.
     rbind (expect_fixed bytes rows 16) (\<lambda>_.
       if (base + fst rng) mod 16 \<noteq> 0 then Ok None
       else
         let values = map from_le (chunks_exact 16 bytes) in
         rbind (validate_decimal_values values precision hugeint) (\<lambda>nulls.
         rbind (finish_decimal lib precision scale \<lparr>pvalues = values, pvalidity = nulls\<rparr>) (\<lambda>p.
           Ok (Some p)))))"

definition adopt_signed ::
  "nat \<Rightarrow> u8 list \<Rightarrow> nat \<times> nat \<Rightarrow> nat \<Rightarrow> data_type \<Rightarrow> nat \<Rightarrow> (arrow_array option, decode_error) result" where
  "adopt_signed base buffer rng width dt rows =
     rbind (adopt_primitive base buffer rng width from_le (\<lambda>v. v = int_min width) rows) (\<lambda>p.
       Ok (map_option (\<lambda>p. \<lparr>a_type = dt, a_data = IntData p\<rparr>) p))"

fun adopt_column ::
  "arrow_lib \<Rightarrow> nat \<Rightarrow> u8 list \<Rightarrow> nat \<times> nat \<Rightarrow> monet_type \<Rightarrow> nat \<Rightarrow> (arrow_array option, decode_error) result" where
  "adopt_column lib base buffer rng MT_TinyInt rows = adopt_signed base buffer rng 1 DT_Int8 rows"
| "adopt_column lib base buffer rng MT_SmallInt rows = adopt_signed base buffer rng 2 DT_Int16 rows"
| "adopt_column lib base buffer rng MT_Int rows = adopt_signed base buffer rng 4 DT_Int32 rows"
| "adopt_column lib base buffer rng MT_BigInt rows = adopt_signed base buffer rng 8 DT_Int64 rows"
| "adopt_column lib base buffer rng MT_Oid rows =
     rbind (adopt_primitive base buffer rng 8 (\<lambda>bs. int (le_nat bs)) (\<lambda>v. v = 2 ^ 63) rows) (\<lambda>p.
       Ok (map_option (\<lambda>p. \<lparr>a_type = DT_UInt64, a_data = IntData p\<rparr>) p))"
| "adopt_column lib base buffer rng MT_Real rows =
     rbind (adopt_primitive base buffer rng 4 le_nat f32_is_nan rows) (\<lambda>p.
       Ok (map_option (\<lambda>p. \<lparr>a_type = DT_Float32, a_data = FloatData p\<rparr>) p))"
| "adopt_column lib base buffer rng MT_Double rows =
     rbind (adopt_primitive base buffer rng 8 le_nat f64_is_nan rows) (\<lambda>p.
       Ok (map_option (\<lambda>p. \<lparr>a_type = DT_Float64, a_data = FloatData p\<rparr>) p))"
| "adopt_column lib base buffer rng MT_MonthInterval rows = adopt_signed base buffer rng 4 DT_Int32 rows"
| "adopt_column lib base buffer rng MT_DayInterval rows =
     adopt_signed base buffer rng 8 (DT_Duration Millisecond) rows"
| "adopt_column lib base buffer rng MT_SecInterval rows =
     adopt_signed base buffer rng 8 (DT_Duration Millisecond) rows"
| "adopt_column lib base buffer rng MT_HugeInt rows =
     rbind (adopt_decimal lib base buffer rng rows 38 0 True) (\<lambda>p.
       Ok (map_option (\<lambda>p. \<lparr>a_type = DT_Decimal128 38 0, a_data = IntData p\<rparr>) p))"
| "adopt_column lib base buffer rng (MT_Decimal precision scale) rows =
     (if 19 \<le> precision \<and> precision \<le> 38 then
        rbind (decimal_scale scale) (\<lambda>s.
        rbind (adopt_decimal lib base buffer rng rows precision s False) (\<lambda>p.
          Ok (map_option (\<lambda>p. \<lparr>a_type = DT_Decimal128 precision s, a_data = IntData p\<rparr>) p)))
      else Ok None)"
| "adopt_column lib base buffer rng _ rows = Ok None"

definition decode_owned_column ::
  "arrow_lib \<Rightarrow> nat \<Rightarrow> u8 list \<Rightarrow> nat \<Rightarrow> result_column \<times> nat \<times> nat \<Rightarrow> (arrow_array, decode_error) result" where
  "decode_owned_column lib base buffer rows item =
     (case item of (column, rng) \<Rightarrow>
        rbind (adopt_column lib base buffer rng (rc_type column) rows) (\<lambda>adopted.
          case adopted of
            Some array \<Rightarrow> Ok array
          | None \<Rightarrow>
              rbind (slice_at buffer (fst rng) (snd rng)) (\<lambda>bytes.
                decode_column lib (rc_type column) bytes rows)))"

subsection \<open>Owned frames\<close>

text \<open>The slices of a parsed frame as addresses and lengths, and their ranges in the allocation.\<close>

definition column_slices :: "nat \<Rightarrow> u8 list \<Rightarrow> ((nat \<times> nat) list, frame_error) result" where
  "column_slices base frame =
     rbind (frame_ranges frame) (\<lambda>(header, ranges). Ok (map (\<lambda>(a, b). (base + a, b - a)) ranges))"

definition owned_range :: "nat \<Rightarrow> nat \<Rightarrow> nat \<times> nat \<Rightarrow> (nat \<times> nat, decode_error) result" where
  "owned_range base frame_len pointer_len =
     (case pointer_len of (pointer, len) \<Rightarrow>
        if pointer < base then Err (InvalidColumn m_pointer_precedes)
        else
          case checked_add (pointer - base) len of
            None \<Rightarrow> Err (InvalidColumn m_range_exceeds)
          | Some end \<Rightarrow>
              if end \<le> frame_len then Ok (pointer - base, end) else Err (InvalidColumn m_range_exceeds))"

definition decode_frame_owned_with_schema ::
  "arrow_lib \<Rightarrow> (decode_error list \<Rightarrow> decode_error) \<Rightarrow> nat \<Rightarrow> u8 list \<Rightarrow> result_column list \<Rightarrow> nat \<Rightarrow> nat \<Rightarrow> nat
    \<Rightarrow> arrow_field list \<Rightarrow> (batch, decode_error) result" where
  "decode_frame_owned_with_schema lib pick base frame cols expected_result_id expected_start_row requested_rows schema =
     rbind (map_err Frame (parse_frame frame)) (\<lambda>parsed.
     rbind (validate_frame parsed cols expected_result_id expected_start_row requested_rows) (\<lambda>rows.
     rbind (map_err Frame (column_slices base frame)) (\<lambda>slices.
     rbind (try_map (owned_range base (length frame)) slices) (\<lambda>ranges.
     let frame_bytes = sum_bytes (columns parsed) in
     if \<not> should_adopt_frame base cols ranges frame_bytes then
       rbind (decode_columns lib pick cols (columns parsed) rows frame_bytes) (\<lambda>arrays.
         record_batch lib schema arrays rows)
     else
       rbind (collect_columns pick frame_bytes (decode_owned_column lib base frame rows) (zip cols ranges))
         (\<lambda>arrays. record_batch lib schema arrays rows)))))"

definition decode_frame_owned ::
  "arrow_lib \<Rightarrow> (decode_error list \<Rightarrow> decode_error) \<Rightarrow> nat \<Rightarrow> u8 list \<Rightarrow> result_column list \<Rightarrow> nat \<Rightarrow> nat \<Rightarrow> nat
    \<Rightarrow> (batch, decode_error) result" where
  "decode_frame_owned lib pick base frame cols expected_result_id expected_start_row requested_rows =
     rbind (schema_for_columns cols) (\<lambda>schema.
       decode_frame_owned_with_schema lib pick base frame cols expected_result_id expected_start_row
         requested_rows schema)"

subsection \<open>The owned path returns what the copying path returns\<close>

lemma adopt_primitive_eq:
  assumes "slice_at buffer (fst rng) (snd rng) = (Ok bytes :: (_, decode_error) result)"
  shows "adopt_primitive base buffer rng width decode null rows =
    (if (base + fst rng) mod width \<noteq> 0 then rbind (expect_fixed bytes rows width) (\<lambda>_. Ok None)
     else rbind (decode_primitive width decode null bytes rows) (\<lambda>p. Ok (Some p)))"
proof -
  have "primitive_try_new vs (null_buffer null vs) = Ok \<lparr>pvalues = vs, pvalidity = null_buffer null vs\<rparr>" for vs
    by (simp add: primitive_try_new_def wf_primitive_def null_buffer_def Let_def)
  with assms show ?thesis by (simp add: adopt_primitive_def decode_primitive_def Let_def rbind_assoc)
qed

lemma decode_primitive_expect:
  "expect_fixed bytes rows width = Err e \<Longrightarrow> decode_primitive width decode null bytes rows = Err e"
  by (simp add: decode_primitive_def)

lemma adopt_decimal_eq:
  assumes "slice_at buffer (fst rng) (snd rng) = (Ok bytes :: (_, decode_error) result)"
    and "1 \<le> p" "p \<le> 38" "0 \<le> s" "s \<le> int p" "hugeint \<or> 19 \<le> p"
  shows "adopt_decimal lib base buffer rng rows p s hugeint =
    (if (base + fst rng) mod 16 \<noteq> 0 then rbind (expect_fixed bytes rows 16) (\<lambda>_. Ok None)
     else rbind (decode_decimal lib bytes rows p s hugeint) (\<lambda>q. Ok (Some q)))"
proof -
  have "(if hugeint then Ok 16 else expect (decimal_width p)) = (Ok 16 :: (_, decode_error) result)"
    using assms by (auto simp: decimal_width_def)
  with assms show ?thesis
    by (simp add: adopt_decimal_def decode_decimal_def Let_def rbind_assoc)
qed

lemma decode_decimal_expect:
  assumes "expect_fixed bytes rows 16 = Err e" "1 \<le> p" "p \<le> 38" "0 \<le> s" "s \<le> int p" "hugeint \<or> 19 \<le> p"
  shows "decode_decimal lib bytes rows p s hugeint = Err e"
proof -
  have "(if hugeint then Ok 16 else expect (decimal_width p)) = (Ok 16 :: (_, decode_error) result)"
    using assms by (auto simp: decimal_width_def)
  with assms show ?thesis by (simp add: decode_decimal_def)
qed

text \<open>Adopting, and falling back to the copying decoder when the column is not aligned.\<close>

lemma adopt_or_decode:
  assumes "adopted = (if c then rbind (expect_fixed bytes rows w) (\<lambda>_. Ok None) else rbind r (\<lambda>p. Ok (Some p)))"
    and "\<And>e. expect_fixed bytes rows w = Err e \<Longrightarrow> r = Err e"
  shows "rbind adopted (\<lambda>x. case x of Some a \<Rightarrow> Ok (g a) | None \<Rightarrow> rbind r (\<lambda>p. Ok (g p))) =
    rbind r (\<lambda>p. Ok (g p))"
proof (cases c)
  case True
  then show ?thesis
    using assms expect_fixed_not_Panic [of bytes rows w] by (cases "expect_fixed bytes rows w") simp_all
next
  case False
  then show ?thesis using assms(1) by (simp add: rbind_assoc)
qed

lemma decode_owned_column_eq:
  assumes "fst rng \<le> snd rng" "snd rng \<le> length buffer" "data_type_for_monet_type (rc_type column) = Ok dt"
  shows "decode_owned_column lib base buffer rows (column, rng) =
    decode_column lib (rc_type column) (slice buffer (fst rng) (snd rng)) rows"
proof -
  have sl: "slice_at buffer (fst rng) (snd rng) = (Ok (slice buffer (fst rng) (snd rng)) :: (_, decode_error) result)"
    using assms(1,2) by (simp add: slice_at_def)
  note prim = adopt_or_decode [OF adopt_primitive_eq [OF sl] decode_primitive_expect]
  note dec = adopt_or_decode [OF adopt_decimal_eq [OF sl] decode_decimal_expect]
  have opt: "rbind (rbind r (\<lambda>p. Ok (map_option g p))) (\<lambda>x. case x of Some a \<Rightarrow> Ok a | None \<Rightarrow> k) =
      rbind r (\<lambda>x. case x of Some a \<Rightarrow> Ok (g a) | None \<Rightarrow> k)" for r :: "('x option, decode_error) result" and g k
    by (cases r) (auto split: option.splits)
  show ?thesis
    using assms(3)
    by (cases "rc_type column")
      (simp_all add: decode_owned_column_def sl opt prim dec array_defs adopt_signed_def
        decimal_data_type_Ok decimal_scale_def)
qed

lemma collect_columns_map_cong:
  "map f xs = map g ys \<Longrightarrow> collect_columns pick n f xs = collect_columns pick n g ys"
  by (metis collect_columns_def length_map try_map_id)

lemma frame_slices:
  assumes "parse_frame frame = Ok f"
  obtains header ranges where "frame_ranges frame = Ok (header, ranges)" "length ranges = length (columns f)"
    "\<forall>i < length ranges. fst (ranges ! i) \<le> snd (ranges ! i) \<and> snd (ranges ! i) \<le> length frame
       \<and> columns f ! i = slice frame (fst (ranges ! i)) (snd (ranges ! i))"
proof -
  from assms obtain header ranges where r: "frame_ranges frame = Ok (header, ranges)"
    and c: "(try_map (\<lambda>(a, b). slice_at frame a b) ranges :: (_, frame_error) result) = Ok (columns f)"
    by (auto simp: parse_frame_def result_simps)
  have "fst (ranges ! i) \<le> snd (ranges ! i) \<and> snd (ranges ! i) \<le> length frame
       \<and> columns f ! i = slice frame (fst (ranges ! i)) (snd (ranges ! i))" if "i < length ranges" for i
    using try_map_nth [OF c that] by (auto simp: result_simps split: prod.splits)
  with that r try_map_length [OF c] show thesis by simp
qed

lemma owned_ranges:
  assumes "parse_frame frame = Ok f" "frame_ranges frame = Ok (header, ranges)"
    and "\<forall>i < length ranges. fst (ranges ! i) \<le> snd (ranges ! i) \<and> snd (ranges ! i) \<le> length frame"
  shows "rbind (map_err Frame (column_slices base frame)) (\<lambda>slices. try_map (owned_range base (length frame)) slices) = Ok ranges"
proof -
  have len: "length frame \<le> usize_max" using parse_frame_bounded [OF assms(1)] by blast
  have "owned_range base (length frame) (base + fst r, snd r - fst r) = Ok r" if "r \<in> set ranges" for r
  proof -
    from that assms(3) have "fst r \<le> snd r" "snd r \<le> length frame" by (auto simp: in_set_conv_nth)
    with len show ?thesis by (simp add: owned_range_def checked_add_def)
  qed
  then have "try_map (owned_range base (length frame)) (map (\<lambda>(a, b). (base + a, b - a)) ranges) = Ok ranges"
    by (induction ranges) auto
  then show ?thesis using assms(2) by (simp add: column_slices_def)
qed

lemma decode_frame_owned_with_schema_eq:
  assumes s: "schema_for_columns cols = Ok schema0"
  shows "decode_frame_owned_with_schema lib pick base frame cols rid start req schema =
    decode_frame_with_schema lib pick frame cols rid start req schema"
proof (cases "parse_frame frame")
  case f: (Ok f)
  show ?thesis
  proof (cases "validate_frame f cols rid start req")
    case v: (Ok rows)
    from frame_slices [OF f] obtain header ranges where fr: "frame_ranges frame = Ok (header, ranges)"
      and n: "length ranges = length (columns f)"
      and sl: "\<forall>i < length ranges. fst (ranges ! i) \<le> snd (ranges ! i) \<and> snd (ranges ! i) \<le> length frame
        \<and> columns f ! i = slice frame (fst (ranges ! i)) (snd (ranges ! i))" .
    have m: "length cols = length (columns f)" using v by (auto simp: validate_frame_def split: if_splits)
    have "map (decode_owned_column lib base frame rows) (zip cols ranges) =
        map (\<lambda>(column, bytes). decode_column lib (rc_type column) bytes rows) (zip cols (columns f))"
    proof (rule nth_equalityI)
      fix i assume "i < length (map (decode_owned_column lib base frame rows) (zip cols ranges))"
      then have i: "i < length cols" "i < length ranges" by simp_all
      from decode_owned_column_eq [of "ranges ! i" frame "cols ! i"] sl schema_field_type [OF s i(1)] i n m
      show "map (decode_owned_column lib base frame rows) (zip cols ranges) ! i =
          map (\<lambda>(column, bytes). decode_column lib (rc_type column) bytes rows) (zip cols (columns f)) ! i"
        by simp
    qed (use n m in simp)
    note same = collect_columns_map_cong [OF this, of pick "sum_bytes (columns f)"]
    have sl': "\<forall>i < length ranges. fst (ranges ! i) \<le> snd (ranges ! i) \<and> snd (ranges ! i) \<le> length frame"
      using sl by blast
    from owned_ranges [OF f fr sl', of base] obtain slices where
      "map_err Frame (column_slices base frame) = Ok slices" "try_map (owned_range base (length frame)) slices = Ok ranges"
      by (auto simp: rbind_Ok_iff)
    with f v same show ?thesis
      by (simp add: decode_frame_owned_with_schema_def decode_frame_with_schema_def decode_columns_def Let_def)
  qed (simp_all add: decode_frame_owned_with_schema_def decode_frame_with_schema_def f)
qed (simp_all add: decode_frame_owned_with_schema_def decode_frame_with_schema_def)

text \<open>
  C8 (zero-copy decoding is transparent). Whatever the address of the response buffer, and so
  whatever columns happen to be aligned and adopted in place, decoding an owned frame returns
  exactly the batch or the error that the copying decoder returns.
\<close>

theorem decode_frame_owned_eq:
  "decode_frame_owned lib pick base frame cols rid start req = decode_frame lib pick frame cols rid start req"
  by (cases "schema_for_columns cols")
    (simp_all add: decode_frame_owned_def decode_frame_def decode_frame_owned_with_schema_eq)

subsection \<open>The capacity of an owned frame\<close>

lemma length_pad32: "length (pad32 bs) \<le> length bs + 31"
  using mod_less_divisor [of 32 "32 - length bs mod 32"] by (simp add: pad32_def)

lemma length_build_columns:
  "build_columns frame cs = (out, toc) \<Longrightarrow>
     length out \<le> length frame + sum_list (map (\<lambda>c. 31 + length c) cs) \<and> length toc = length cs"
proof (induction cs arbitrary: frame out toc)
  case (Cons c cs)
  obtain toc' where b: "build_columns (pad32 frame @ c) cs = (out, toc')" and toc: "length toc = Suc (length toc')"
    using Cons.prems by (auto simp: Let_def split: prod.splits)
  from Cons.IH [OF b] length_pad32 [of frame] toc show ?case by simp
qed simp

lemma owned_capacity_loop_Some:
  "owned_capacity_loop capacity cols rows = Some c \<Longrightarrow>
     c = capacity + sum_list (map (\<lambda>col. 31 + rows * the (fixed_wire_width (rc_type col))) cols)"
proof (induction cols arbitrary: capacity)
  case (Cons col cols)
  then obtain w where "fixed_wire_width (rc_type col) = Some w"
    "owned_capacity_loop (capacity + 31 + rows * w) cols rows = Some c"
    by (auto simp: bind_eq_Some_conv)
  with Cons.IH [OF this(2)] show ?case by simp
qed simp

lemma owned_frame_capacity_Some:
  "owned_frame_capacity cols rows = Some c \<Longrightarrow>
     c = 128 + sum_list (map (\<lambda>col. 31 + rows * the (fixed_wire_width (rc_type col))) cols) + 31 + 16 * length cols + 8"
  by (auto simp: owned_frame_capacity_def bind_eq_Some_conv dest!: owned_capacity_loop_Some)

lemma sum_list_same_lengths:
  assumes "length bytes = length cols"
    and "\<forall>i < length cols. length (bytes ! i) = rows * the (fixed_wire_width (rc_type (cols ! i)))"
  shows "sum_list (map (\<lambda>c. 31 + length c) bytes) =
    sum_list (map (\<lambda>col. 31 + rows * the (fixed_wire_width (rc_type col))) cols)"
proof -
  have "map (\<lambda>c. 31 + length c) bytes = map (\<lambda>col. 31 + rows * the (fixed_wire_width (rc_type col))) cols"
    using assms by (intro nth_equalityI) simp_all
  then show ?thesis by simp
qed

text \<open>
  C27 (an owned frame fits its buffer). Whenever a capacity is computed for a result, every frame the
  server can send for it (the columns at their wire widths, padding, header, table of contents and
  trailer) is at most that long, for every result id, row number and row count of 64 bits.
\<close>

theorem owned_frame_capacity_sufficient:
  assumes "owned_frame_capacity cols rows = Some capacity"
    and "length bytes = length cols"
    and "\<forall>i < length cols. length (bytes ! i) = rows * the (fixed_wire_width (rc_type (cols ! i)))"
    and "in_signed 8 rid" "length cols \<le> usize_max" "nrows \<le> 2 ^ 64 - 1" "start \<le> 2 ^ 64 - 1"
  shows "length (build_frame rid nrows start bytes) \<le> capacity"
proof -
  let ?H = "header_line rid (length bytes) nrows start"
  obtain out toc where b: "build_columns ?H bytes = (out, toc)" by fastforce
  have h: "length ?H \<le> 128"
    using length_header_fields [of rid "length bytes" nrows start] assms
    by (simp add: header_line_fields header_prefix_def)
  have "length (concat (map (\<lambda>(s, l). to_le 8 (int s) @ to_le 8 (int l)) toc)) = length toc * 16"
    by (subst length_concat_same [of _ 16]) auto
  then have "length (build_frame rid nrows start bytes) = length (pad32 out) + length toc * 16 + 8"
    by (simp add: build_frame_def b Let_def)
  with length_pad32 [of out] length_build_columns [OF b] h sum_list_same_lengths [OF assms(2,3)]
    owned_frame_capacity_Some [OF assms(1)] assms(2)
  show ?thesis by simp
qed

theorem owned_frame_capacity_sufficient_witness:
  "owned_frame_capacity [\<lparr>rc_name = ''a'', rc_type = MT_Int\<rparr>, \<lparr>rc_name = ''b'', rc_type = MT_Date\<rparr>] 2 = Some 277 \<and>
   length (build_frame 7 2 100 [[1, 0, 0, 0, 2, 0, 0, 0], [1, 1, 0, 0, 1, 1, 0, 0]]) \<le> 277"
proof -
  let ?cols = "[\<lparr>rc_name = ''a'', rc_type = MT_Int\<rparr>, \<lparr>rc_name = ''b'', rc_type = MT_Date\<rparr>]"
  have c: "owned_frame_capacity ?cols 2 = Some 277"
    by (simp add: owned_frame_capacity_def checked_add_def checked_mul_def)
  have "length (build_frame 7 2 100 [[1, 0, 0, 0, 2, 0, 0, 0], [1, 1, 0, 0, 1, 1, 0, 0]]) \<le> 277"
    by (rule owned_frame_capacity_sufficient [OF c]) (auto simp: in_signed_def less_Suc_eq)
  with c show ?thesis by blast
qed

end
