(* ===== verification/Read_Window.thy ===== *)
theory Read_Window
  imports Decode_Owned
begin

text \<open>
  How many rows the driver asks for at a time: the byte budgets of \<open>driver.rs\<close> and its
  \<open>ReadWindowScheduler\<close>. A duration is its number of nanoseconds; the memory limit, which the
  driver reads from the operating system, is an argument. A division by zero panics, as in the
  source.
\<close>

subsection \<open>Constants\<close>

definition default_read_window_bytes :: nat where "default_read_window_bytes = 64 * 1024 * 1024"
definition remote_read_window_bytes :: nat where "remote_read_window_bytes = 128 * 1024 * 1024"
definition min_read_window_bytes :: nat where "min_read_window_bytes = 1024 * 1024"
definition max_automatic_read_granule_bytes :: nat where "max_automatic_read_granule_bytes = 512 * 1024 * 1024"
definition export_granule_rows :: nat where "export_granule_rows = 131072"
definition variable_read_column_bytes :: nat where "variable_read_column_bytes = 1024"
definition initial_variable_read_rows :: nat where "initial_variable_read_rows = 1"
definition max_read_window_growth :: nat where "max_read_window_growth = 4"
definition default_write_window_bytes :: nat where "default_write_window_bytes = 512 * 1024 * 1024"
definition local_physical_window_bytes :: nat where "local_physical_window_bytes = 128 * 1024 * 1024"
definition wide_local_physical_window_bytes :: nat where "wide_local_physical_window_bytes = 48 * 1024 * 1024"
definition wide_memory_bound_columns :: nat where "wide_memory_bound_columns = 512"
definition incompressible_write_window_bytes :: nat where "incompressible_write_window_bytes = 64 * 1024 * 1024"
definition min_write_window_bytes :: nat where "min_write_window_bytes = 4 * 1024 * 1024"
definition adaptive_network_rtt :: nat where "adaptive_network_rtt = 500 * 1000"
definition remote_write_window_rtt :: nat where "remote_write_window_rtt = 5 * 1000 * 1000"
definition insert_value_encode_micros :: nat where "insert_value_encode_micros = 2"
definition copy_file_exchanges_per_column :: nat where "copy_file_exchanges_per_column = 2"
definition max_adaptive_insert_rows :: nat where "max_adaptive_insert_rows = 10000"

lemmas window_constants =
  default_read_window_bytes_def remote_read_window_bytes_def min_read_window_bytes_def
  max_automatic_read_granule_bytes_def export_granule_rows_def variable_read_column_bytes_def
  initial_variable_read_rows_def max_read_window_growth_def default_write_window_bytes_def
  local_physical_window_bytes_def wide_local_physical_window_bytes_def wide_memory_bound_columns_def
  incompressible_write_window_bytes_def min_write_window_bytes_def adaptive_network_rtt_def
  remote_write_window_rtt_def insert_value_encode_micros_def copy_file_exchanges_per_column_def
  max_adaptive_insert_rows_def

subsection \<open>Budgets\<close>

definition adaptive_insert_rows :: "nat \<Rightarrow> nat \<Rightarrow> nat" where
  "adaptive_insert_rows configured_rows rtt =
     (if configured_rows = 0 \<or> rtt < adaptive_network_rtt then configured_rows
      else
        let crossover = min ((rtt div 1000) * copy_file_exchanges_per_column) (2 ^ 128 - 1) div insert_value_encode_micros
        in max configured_rows (min (if crossover \<le> usize_max then crossover else usize_max) max_adaptive_insert_rows))"

definition adaptive_incompressible_window_bytes :: "nat \<Rightarrow> nat \<Rightarrow> nat" where
  "adaptive_incompressible_window_bytes physical_window_budget rtt =
     (if remote_write_window_rtt \<le> rtt then physical_window_budget
      else min incompressible_write_window_bytes physical_window_budget)"

definition adaptive_physical_window_bytes :: "nat \<Rightarrow> nat \<Rightarrow> nat \<Rightarrow> nat" where
  "adaptive_physical_window_bytes window_budget rtt cols =
     (if remote_write_window_rtt \<le> rtt then window_budget
      else min (if wide_memory_bound_columns \<le> cols then wide_local_physical_window_bytes
                else local_physical_window_bytes) window_budget)"

definition automatic_read_window_bytes_for_memory :: "nat option \<Rightarrow> nat \<Rightarrow> nat" where
  "automatic_read_window_bytes_for_memory memory_limit rtt =
     (let target = (if remote_write_window_rtt \<le> rtt then remote_read_window_bytes else default_read_window_bytes) in
      case memory_limit of
        None \<Rightarrow> target
      | Some limit \<Rightarrow> min target (max (limit div 8) min_read_window_bytes))"

definition automatic_write_window_bytes_for_memory :: "nat option \<Rightarrow> nat" where
  "automatic_write_window_bytes_for_memory memory_limit =
     (case memory_limit of
        None \<Rightarrow> default_write_window_bytes
      | Some limit \<Rightarrow> min default_write_window_bytes (max (limit div 8) min_write_window_bytes))"

definition effective_automatic_read_window_bytes :: "nat \<Rightarrow> nat option \<Rightarrow> nat option \<Rightarrow> nat" where
  "effective_automatic_read_window_bytes base fixed_granule_capacity memory_limit =
     (let maximum = (case memory_limit of
                       None \<Rightarrow> max_automatic_read_granule_bytes
                     | Some limit \<Rightarrow> min max_automatic_read_granule_bytes (max (limit div 8) min_read_window_bytes))
      in case fixed_granule_capacity of
           None \<Rightarrow> base
         | Some capacity \<Rightarrow> if capacity \<le> maximum then max base capacity else base)"

definition effective_read_window_bytes :: "nat option \<Rightarrow> nat option \<Rightarrow> nat \<Rightarrow> nat option \<Rightarrow> nat" where
  "effective_read_window_bytes memory_limit configured_window_bytes rtt fixed_granule_capacity =
     (case configured_window_bytes of
        Some base \<Rightarrow> base
      | None \<Rightarrow>
          effective_automatic_read_window_bytes (automatic_read_window_bytes_for_memory memory_limit rtt)
            fixed_granule_capacity memory_limit)"

subsection \<open>The scheduler\<close>

record read_scheduler =
  exact_batch_rows :: "nat option"
  window_budget_bytes :: nat
  full_granule_fits :: bool
  estimated_bytes_per_row :: nat
  initial_rows_limit :: "nat option"
  previous_rows :: "nat option"
  observed_rows :: nat

definition scheduler_new :: "nat option \<Rightarrow> result_column list \<Rightarrow> nat \<Rightarrow> nat option \<Rightarrow> nat \<Rightarrow> read_scheduler" where
  "scheduler_new memory_limit cols batch_rows configured_window_bytes rtt =
     (let fixed_granule_capacity = owned_frame_capacity cols export_granule_rows;
          budget = effective_read_window_bytes memory_limit configured_window_bytes rtt fixed_granule_capacity
      in \<lparr>exact_batch_rows = (if 0 < batch_rows then Some batch_rows else None),
          window_budget_bytes = budget,
          full_granule_fits = (case fixed_granule_capacity of None \<Rightarrow> False | Some capacity \<Rightarrow> capacity \<le> budget),
          estimated_bytes_per_row = max (estimated_frame_bytes_per_row cols variable_read_column_bytes) 1,
          initial_rows_limit =
            (if owned_frame_capacity cols 1 = None then Some initial_variable_read_rows else None),
          previous_rows = None,
          observed_rows = 0\<rparr>)"

function bit_length :: "nat \<Rightarrow> nat" where
  "bit_length n = (if n = 0 then 0 else Suc (bit_length (n div 2)))"
  by pat_completeness auto
termination
  by (relation "measure id") auto

declare bit_length.simps [simp del]

definition leading_zeros :: "nat \<Rightarrow> nat" where
  "leading_zeros n = 64 - bit_length n"

definition export_alignment_rows :: "nat \<Rightarrow> nat" where
  "export_alignment_rows target =
     (let target = (if target < 1 then 1 else if export_granule_rows < target then export_granule_rows else target)
      in 2 ^ (64 - 1 - leading_zeros target))"

definition window_target :: "read_scheduler \<Rightarrow> nat" where
  "window_target s =
     (let target = max (max (window_budget_bytes s div estimated_bytes_per_row s) 1)
                     (if full_granule_fits s then export_granule_rows else 1)
      in case previous_rows s of
           None \<Rightarrow> min target (case initial_rows_limit s of None \<Rightarrow> usize_max | Some limit \<Rightarrow> limit)
         | Some previous \<Rightarrow> min target (saturating_mul previous max_read_window_growth))"

definition next_rows :: "read_scheduler \<Rightarrow> nat \<Rightarrow> (nat \<times> read_scheduler, 'e) result" where
  "next_rows s remaining =
     (let remaining = min remaining usize_max in
      rbind (case exact_batch_rows s of
               Some exact \<Rightarrow> Ok (min exact remaining)
             | None \<Rightarrow>
                 if estimated_bytes_per_row s = 0 then Panic
                 else
                   let target = window_target s;
                       alignment = export_alignment_rows target;
                       target_end = saturating_add (observed_rows s) target;
                       aligned_end = target_end - target_end mod alignment
                   in Ok (min (max (aligned_end - observed_rows s) 1) remaining)) (\<lambda>rows.
        Ok (rows, s\<lparr>previous_rows := Some rows\<rparr>)))"

definition observe :: "read_scheduler \<Rightarrow> nat \<Rightarrow> nat \<Rightarrow> read_scheduler" where
  "observe s bytes rows =
     (let s = s\<lparr>observed_rows := saturating_add (observed_rows s) rows\<rparr> in
      if exact_batch_rows s = None \<and> 0 < rows
      then s\<lparr>estimated_bytes_per_row := max (saturating_add bytes (rows - 1) div rows) 1\<rparr>
      else s)"

definition response_capacity :: "read_scheduler \<Rightarrow> nat \<Rightarrow> bool \<Rightarrow> nat" where
  "response_capacity s requested_rows adopt_frame =
     (if adopt_frame then 0
      else saturating_add (saturating_mul (estimated_bytes_per_row s) requested_rows) 4096)"

subsection \<open>The contract a reader relies on\<close>

locale row_scheduler =
  fixes good :: "'s \<Rightarrow> bool"
    and next_count :: "'s \<Rightarrow> nat \<Rightarrow> (nat \<times> 's, 'e) result"
    and note_window :: "'s \<Rightarrow> nat \<Rightarrow> nat \<Rightarrow> 's"
  assumes next_count_ok: "good s \<Longrightarrow> 0 < remaining \<Longrightarrow>
      \<exists>rows s'. next_count s remaining = Ok (rows, s') \<and> 1 \<le> rows \<and> rows \<le> remaining \<and> good s'"
    and note_window_good: "good s \<Longrightarrow> good (note_window s bytes rows)"
begin

text \<open>The windows of a result whose every window is answered in full, by size of response.\<close>

fun window_plan :: "nat \<Rightarrow> (nat \<Rightarrow> nat \<Rightarrow> nat) \<Rightarrow> 's \<Rightarrow> nat \<Rightarrow> nat \<Rightarrow> (nat \<times> nat) list" where
  "window_plan 0 len s start limit = []"
| "window_plan (Suc fuel) len s start limit =
     (if limit \<le> start then []
      else case next_count s (limit - start) of
        Ok (rows, s') \<Rightarrow> (start, rows) # window_plan fuel len (note_window s' (len start rows) rows) (start + rows) limit
      | _ \<Rightarrow> [])"

lemma window_plan_tiles:
  "good s \<Longrightarrow> limit \<le> start + fuel \<Longrightarrow> start \<le> limit \<Longrightarrow>
   concat (map (\<lambda>(start, rows). [start..<start + rows]) (window_plan fuel len s start limit)) = [start..<limit]"
proof (induction fuel arbitrary: s start)
  case (Suc fuel)
  show ?case
  proof (cases "limit \<le> start")
    case False
    then obtain rows s' where n: "next_count s (limit - start) = Ok (rows, s')" "1 \<le> rows" "rows \<le> limit - start" "good s'"
      using next_count_ok [OF Suc.prems(1), of "limit - start"] by auto
    have "concat (map (\<lambda>(start, rows). [start..<start + rows])
        (window_plan fuel len (note_window s' (len start rows) rows) (start + rows) limit)) = [start + rows..<limit]"
      by (rule Suc.IH [OF note_window_good [OF n(4)]]) (use n False Suc.prems in auto)
    moreover have "[start..<start + rows] @ [start + rows..<limit] = [start..<limit]"
      using n(3) False upt_add_eq_append [of start "start + rows" "limit - (start + rows)"] by simp
    ultimately show ?thesis using False n(1) by simp
  qed (use Suc.prems in simp)
qed simp

end

subsection \<open>The scheduler keeps it\<close>

definition scheduler_ok :: "read_scheduler \<Rightarrow> bool" where
  "scheduler_ok s \<longleftrightarrow> 0 < estimated_bytes_per_row s \<and> exact_batch_rows s \<noteq> Some 0"

lemma scheduler_ok_observe: "scheduler_ok s \<Longrightarrow> scheduler_ok (observe s bytes rows)"
  by (auto simp: scheduler_ok_def observe_def Let_def less_max_iff_disj)

lemma scheduler_ok_new: "scheduler_ok (scheduler_new memory_limit cols batch_rows configured rtt)"
  by (auto simp: scheduler_ok_def scheduler_new_def Let_def less_max_iff_disj)

lemma bit_length_bounds: "0 < n \<Longrightarrow> 2 ^ (bit_length n - 1) \<le> n \<and> n < 2 ^ bit_length n \<and> 0 < bit_length n"
proof (induction n rule: bit_length.induct)
  case (1 n)
  show ?case
  proof (cases "n = 1")
    case True
    then show ?thesis by (simp add: bit_length.simps)
  next
    case False
    with 1 have IH: "2 ^ (bit_length (n div 2) - 1) \<le> n div 2" "n div 2 < 2 ^ bit_length (n div 2)" "0 < bit_length (n div 2)"
      by auto
    have b: "bit_length n = Suc (bit_length (n div 2))" using 1(2) by (subst bit_length.simps) simp
    from IH(3) obtain k where k: "bit_length (n div 2) = Suc k" by (cases "bit_length (n div 2)") auto
    from IH k b show ?thesis by auto
  qed
qed

lemma export_alignment_rows_bounds:
  "0 < export_alignment_rows target" "0 < target \<Longrightarrow> export_alignment_rows target \<le> target"
proof -
  show "0 < export_alignment_rows target" by (simp add: export_alignment_rows_def Let_def)
  assume t: "0 < target"
  define c where "c = (if export_granule_rows < target then export_granule_rows else target)"
  have c: "0 < c" "c \<le> target" "c \<le> 131072" using t by (auto simp: c_def export_granule_rows_def)
  note b = bit_length_bounds [OF c(1)]
  have "(2 :: nat) ^ (bit_length c - 1) < 2 ^ 64" by (rule le_less_trans [of _ c]) (use b c in simp_all)
  then have "bit_length c - 1 < 64" by (simp only: power_strict_increasing_iff)
  then have "64 - 1 - leading_zeros c = bit_length c - 1" using b by (simp add: leading_zeros_def)
  then show "export_alignment_rows target \<le> target"
    using b c t by (simp add: export_alignment_rows_def Let_def c_def)
qed

lemma next_rows_Ok:
  assumes "scheduler_ok s" "0 < remaining"
  shows "\<exists>rows. next_rows s remaining = Ok (rows, s\<lparr>previous_rows := Some rows\<rparr>) \<and> 1 \<le> rows \<and> rows \<le> remaining"
  using assms by (auto simp: next_rows_def scheduler_ok_def Let_def min_def max_def split: option.splits)

interpretation read_windows: row_scheduler scheduler_ok
    "next_rows :: read_scheduler \<Rightarrow> nat \<Rightarrow> (nat \<times> read_scheduler, 'e) result" observe
proof
  fix s :: read_scheduler and remaining :: nat
  assume s: "scheduler_ok s" and r: "0 < remaining"
  from next_rows_Ok [OF this] obtain rows where
    n: "next_rows s remaining = (Ok (rows, s\<lparr>previous_rows := Some rows\<rparr>) :: (nat \<times> read_scheduler, 'e) result)"
      "1 \<le> rows" "rows \<le> remaining"
    by blast
  moreover have "scheduler_ok (s\<lparr>previous_rows := Some rows\<rparr>)" using s by (simp add: scheduler_ok_def)
  ultimately show "\<exists>rows s'. next_rows s remaining = (Ok (rows, s') :: (nat \<times> read_scheduler, 'e) result) \<and> 1 \<le> rows \<and>
      rows \<le> remaining \<and> scheduler_ok s'"
    by auto
qed (rule scheduler_ok_observe)

subsection \<open>Sizes of windows\<close>

text \<open>The states a scheduler goes through.\<close>

inductive scheduler_reachable :: "read_scheduler \<Rightarrow> bool" where
  start: "scheduler_reachable (scheduler_new memory_limit cols batch_rows configured rtt)"
| ask: "scheduler_reachable s \<Longrightarrow> next_rows s remaining = (Ok (rows, s') :: (nat \<times> read_scheduler, unit) result) \<Longrightarrow> 0 < remaining
    \<Longrightarrow> scheduler_reachable s'"
| answer: "scheduler_reachable s \<Longrightarrow> scheduler_reachable (observe s bytes rows)"

definition scheduler_inv :: "read_scheduler \<Rightarrow> bool" where
  "scheduler_inv s \<longleftrightarrow> scheduler_ok s \<and> previous_rows s \<noteq> Some 0 \<and> initial_rows_limit s \<noteq> Some 0 \<and> observed_rows s \<le> usize_max"

lemma scheduler_reachable_inv: "scheduler_reachable s \<Longrightarrow> scheduler_inv s"
proof (induction rule: scheduler_reachable.induct)
  case (start memory_limit cols batch_rows configured rtt)
  then show ?case using scheduler_ok_new
    by (auto simp: scheduler_inv_def scheduler_new_def Let_def initial_variable_read_rows_def)
next
  case (ask s remaining rows s')
  then have "scheduler_ok s" by (simp add: scheduler_inv_def)
  from next_rows_Ok [OF this ask(3), where 'a = unit] ask show ?case
    by (auto simp: scheduler_inv_def scheduler_ok_def)
next
  case (answer s bytes rows)
  then show ?case using scheduler_ok_observe [of s bytes rows]
    by (auto simp: scheduler_inv_def observe_def Let_def saturating_add_def)
qed

lemma window_target_pos: "scheduler_inv s \<Longrightarrow> 0 < window_target s"
  by (auto simp: scheduler_inv_def window_target_def Let_def less_max_iff_disj saturating_mul_def
      max_read_window_growth_def split: option.splits)

lemma aligned_window:
  assumes "observed \<le> usize_max"
  shows "saturating_add observed target - saturating_add observed target mod export_alignment_rows target - observed \<le> target"
    "export_alignment_rows target dvd saturating_add observed target - saturating_add observed target mod export_alignment_rows target"
  using assms by (auto simp: saturating_add_def)

text \<open>
  C10 (read windows are well sized). In every state the scheduler reaches, asking for the next window of
  a result with rows left never panics and asks for at least one row and at most the rows left. With
  an exact batch size the window has that size, or the rows left if they are fewer; budget, growth and
  alignment do not apply. Otherwise it fits the byte budget at the current estimate (unless it is one
  row, or at most an export granule when a whole granule is known to fit), the first window keeps the
  limit for columns of variable width, a later one has at most four times the rows of the one before,
  and it ends on an export boundary unless it is the last window or a single row.
\<close>

theorem next_rows_sized:
  assumes "scheduler_reachable s" "0 < remaining" "remaining \<le> usize_max"
  shows "\<exists>rows s'. next_rows s remaining = (Ok (rows, s') :: (nat \<times> read_scheduler, unit) result) \<and> 1 \<le> rows \<and> rows \<le> remaining \<and>
    (case exact_batch_rows s of
       Some exact \<Rightarrow> rows = min exact remaining
     | None \<Rightarrow>
         (rows = 1 \<or> rows * estimated_bytes_per_row s \<le> window_budget_bytes s \<or> (full_granule_fits s \<and> rows \<le> export_granule_rows)) \<and>
         (case previous_rows s of
            None \<Rightarrow> (\<forall>limit. initial_rows_limit s = Some limit \<longrightarrow> rows \<le> limit)
          | Some previous \<Rightarrow> rows \<le> max_read_window_growth * previous) \<and>
         (rows = 1 \<or> rows = remaining \<or> export_alignment_rows (window_target s) dvd observed_rows s + rows))"
proof -
  note inv = scheduler_reachable_inv [OF assms(1)]
  then have ok: "scheduler_ok s" "observed_rows s \<le> usize_max" by (simp_all add: scheduler_inv_def)
  from next_rows_Ok [OF ok(1) assms(2)] obtain rows where
    n: "next_rows s remaining = (Ok (rows, s\<lparr>previous_rows := Some rows\<rparr>) :: (nat \<times> read_scheduler, unit) result)"
    "1 \<le> rows" "rows \<le> remaining" by blast
  show ?thesis
  proof (cases "exact_batch_rows s")
    case (Some exact)
    with n assms(3) show ?thesis by (auto simp: next_rows_def Let_def)
  next
    case None
    define target where "target = window_target s"
    define e where "e = saturating_add (observed_rows s) target - saturating_add (observed_rows s) target mod export_alignment_rows target"
    have rows: "rows = min (max (e - observed_rows s) 1) remaining"
      using n(1) None ok assms(3) by (simp add: next_rows_def Let_def target_def e_def scheduler_ok_def)
    have w: "e - observed_rows s \<le> target" "export_alignment_rows target dvd e"
      unfolding e_def by (rule aligned_window [OF ok(2)])+
    have le: "rows \<le> target" using rows w(1) window_target_pos [OF inv] unfolding target_def by (simp add: min_def max_def)
    have budget: "rows = 1 \<or> rows * estimated_bytes_per_row s \<le> window_budget_bytes s \<or>
        (full_granule_fits s \<and> rows \<le> export_granule_rows)"
    proof -
      have "target \<le> max (max (window_budget_bytes s div estimated_bytes_per_row s) 1) (if full_granule_fits s then export_granule_rows else 1)"
        by (simp add: target_def window_target_def Let_def split: option.splits)
      with le n(2) have "rows \<le> window_budget_bytes s div estimated_bytes_per_row s \<or> rows = 1 \<or> (full_granule_fits s \<and> rows \<le> export_granule_rows)"
        by (auto split: if_splits simp: max_def)
      moreover have "rows * estimated_bytes_per_row s \<le> window_budget_bytes s"
        if "rows \<le> window_budget_bytes s div estimated_bytes_per_row s"
        using that ok(1) by (simp add: scheduler_ok_def less_eq_div_iff_mult_less_eq)
      ultimately show ?thesis by blast
    qed
    have growth: "case previous_rows s of
        None \<Rightarrow> (\<forall>limit. initial_rows_limit s = Some limit \<longrightarrow> rows \<le> limit)
      | Some previous \<Rightarrow> rows \<le> max_read_window_growth * previous"
      using le by (auto simp: target_def window_target_def Let_def saturating_mul_def mult.commute split: option.splits)
    have align: "rows = 1 \<or> rows = remaining \<or> export_alignment_rows (window_target s) dvd observed_rows s + rows"
    proof (cases "observed_rows s < e \<and> e - observed_rows s \<le> remaining")
      case True
      then have "observed_rows s + rows = e" using rows by linarith
      with w(2) show ?thesis by (simp add: target_def)
    next
      case False
      with rows show ?thesis by (auto simp: min_def max_def)
    qed
    from n None budget growth align show ?thesis by auto
  qed
qed

text \<open>A window of a text column, the second one after a first row of 3000 bytes.\<close>

definition sample_scheduler :: read_scheduler where
  "sample_scheduler = observe ((scheduler_new None [\<lparr>rc_name = ''name'', rc_type = MT_Varchar 10\<rparr>] 0 (Some 1048576) 0)
     \<lparr>previous_rows := Some 1\<rparr>) 3000 1"

lemma sample_scheduler_reachable: "scheduler_reachable sample_scheduler"
proof -
  let ?s = "scheduler_new None [\<lparr>rc_name = ''name'', rc_type = MT_Varchar 10\<rparr>] 0 (Some 1048576) 0"
  have "next_rows ?s 1000 = (Ok (1, ?s\<lparr>previous_rows := Some 1\<rparr>) :: (nat \<times> read_scheduler, unit) result)" by code_simp
  from scheduler_reachable.ask [OF scheduler_reachable.start this] show ?thesis
    unfolding sample_scheduler_def by (intro scheduler_reachable.answer) simp
qed

theorem next_rows_sized_witness:
  "\<exists>rows s'. next_rows sample_scheduler 999 = (Ok (rows, s') :: (nat \<times> read_scheduler, unit) result) \<and> 1 \<le> rows \<and> rows \<le> 4"
  using next_rows_sized [OF sample_scheduler_reachable, of 999]
  by (auto simp: sample_scheduler_def observe_def scheduler_new_def Let_def max_read_window_growth_def)

end
