(* ===== verification/Readers.thy ===== *)
theory Readers
  imports Read_Window
begin

text \<open>
  The readers of \<open>driver.rs\<close> that hand a result to the consumer as a stream of record batches:
  \<open>BinaryReader\<close>, which fetches one window of a server-resident result per call, \<open>SlicedBatchReader\<close>
  and \<open>SingleBatchReader\<close> over a batch already in memory, and \<open>EmptyReader\<close>.

  The cursor of the \<open>monetdb\<close> crate is a parameter: \<open>e_fetch\<close> is \<open>fetch_binary_into\<close>, which leaves the
  response to a request for some rows from row \<open>start\<close> in the buffer, or fails, or panics. Nothing is
  assumed of what it answers. \<open>e_capacity\<close> is the capacity the growth policy of \<open>Vec\<close> gives a buffer
  and \<open>e_base\<close> the address of an allocation. A call that unwinds is the value \<open>Some Panic\<close>.
\<close>

subsection \<open>Data\<close>

datatype arrow_error =
    External_Cursor string
  | External_Frame frame_error
  | External_Decode decode_error
  | Parse_Error string

definition m_decoding_panicked :: string where "m_decoding_panicked = ''MonetDB result decoding panicked''"
definition m_empty_window :: string where
  "m_empty_window = ''MonetDB returned an empty binary window before the result ended''"

record read_stats =
  st_window_budget_bytes :: nat
  st_exact_batch_rows :: nat
  st_initial_estimated_bytes_per_row :: nat
  st_observed_bytes_per_row :: "nat list"
  st_window_rows :: "nat list"
  st_window_bytes :: "nat list"
  st_window_capacity_bytes :: "nat list"
  st_window_adopted :: "bool list"
  st_prefetch_engaged :: bool
  st_recycled_buffers :: nat

definition stats_new :: "read_scheduler \<Rightarrow> bool \<Rightarrow> read_stats" where
  "stats_new s prefetch_engaged =
     \<lparr>st_window_budget_bytes = window_budget_bytes s,
      st_exact_batch_rows = (case exact_batch_rows s of None \<Rightarrow> 0 | Some rows \<Rightarrow> rows),
      st_initial_estimated_bytes_per_row = estimated_bytes_per_row s,
      st_observed_bytes_per_row = [], st_window_rows = [], st_window_bytes = [],
      st_window_capacity_bytes = [], st_window_adopted = [],
      st_prefetch_engaged = prefetch_engaged, st_recycled_buffers = 0\<rparr>"

definition record_window :: "nat \<Rightarrow> nat \<Rightarrow> nat \<Rightarrow> bool \<Rightarrow> read_stats \<Rightarrow> read_stats" where
  "record_window rows bytes capacity adopted st =
     (let st = st\<lparr>st_window_rows := st_window_rows st @ [rows],
                  st_window_bytes := st_window_bytes st @ [bytes],
                  st_window_capacity_bytes := st_window_capacity_bytes st @ [capacity],
                  st_window_adopted := st_window_adopted st @ [adopted]\<rparr>
      in if rows = 0 then st
         else st\<lparr>st_observed_bytes_per_row :=
                   st_observed_bytes_per_row st @ [saturating_add bytes (rows - 1) div rows]\<rparr>)"

record 'c reader_env =
  e_fetch :: "'c \<Rightarrow> nat \<Rightarrow> nat \<Rightarrow> 'c \<times> (u8 list, string) result"
  e_capacity :: "nat \<Rightarrow> nat \<Rightarrow> nat"
  e_base :: "u8 list \<Rightarrow> nat"
  e_lib :: arrow_lib
  e_pick :: "decode_error list \<Rightarrow> decode_error"

record 'c binary_reader =
  br_cursor :: 'c
  br_result_id :: nat
  br_columns :: "result_column list"
  br_schema :: "arrow_field list"
  br_next_row :: nat
  br_total_rows :: nat
  br_scheduler :: read_scheduler
  br_response :: "u8 list"
  br_capacity :: nat
  br_adopt_frame :: bool
  br_stats :: "read_stats option"
  br_finished :: bool

subsection \<open>Buffers\<close>

text \<open>\<open>Vec::with_capacity\<close> and \<open>Vec::reserve_exact\<close>: \<open>None\<close> when the capacity overflows, which panics.\<close>

definition vec_with_capacity :: "nat \<Rightarrow> nat option" where
  "vec_with_capacity capacity = (if isize_max < capacity then None else Some capacity)"

definition vec_reserve_exact :: "nat \<Rightarrow> nat \<Rightarrow> nat \<Rightarrow> nat option" where
  "vec_reserve_exact len capacity additional =
     (if additional \<le> capacity - len then Some capacity else vec_with_capacity (len + additional))"

text \<open>\<open>shrink_owned_response\<close> on the length and the capacity of the response.\<close>

definition shrink_owned_response :: "nat \<Rightarrow> nat \<Rightarrow> nat" where
  "shrink_owned_response len capacity =
     (let retained_limit = saturating_add len (len div 8) in
      if retained_limit < capacity then len else capacity)"

subsection \<open>BinaryReader\<close>

definition owned_window :: "'c reader_env \<Rightarrow> 'c binary_reader \<Rightarrow> nat \<Rightarrow> (batch, arrow_error) result \<times> 'c binary_reader" where
  "owned_window env r requested =
     (case vec_with_capacity (case owned_frame_capacity (br_columns r) requested of None \<Rightarrow> 0 | Some capacity \<Rightarrow> capacity) of
        None \<Rightarrow> (Panic, r)
      | Some capacity \<Rightarrow>
          let (cursor, fetched) = e_fetch env (br_cursor r) (br_next_row r) requested;
              r = r\<lparr>br_cursor := cursor\<rparr>
          in case fetched of
               Ok response \<Rightarrow>
                 let capacity = shrink_owned_response (length response) (e_capacity env capacity (length response));
                     r = r\<lparr>br_scheduler := observe (br_scheduler r) (length response) requested,
                           br_stats := map_option (record_window requested (length response) capacity True) (br_stats r)\<rparr>
                 in (map_err External_Decode
                       (decode_frame_owned_with_schema (e_lib env) (e_pick env) (e_base env response) response
                         (br_columns r) (br_result_id r) (br_next_row r) requested (br_schema r)), r)
             | Err e \<Rightarrow> (Err (External_Cursor e), r)
             | Panic \<Rightarrow> (Panic, r))"

definition shared_window :: "'c reader_env \<Rightarrow> 'c binary_reader \<Rightarrow> nat \<Rightarrow> (batch, arrow_error) result \<times> 'c binary_reader" where
  "shared_window env r requested =
     (let capacity = response_capacity (br_scheduler r) requested False in
      case (if br_capacity r < capacity then vec_reserve_exact (length (br_response r)) (br_capacity r) capacity
            else Some (br_capacity r)) of
        None \<Rightarrow> (Panic, r)
      | Some capacity \<Rightarrow>
          let (cursor, fetched) = e_fetch env (br_cursor r) (br_next_row r) requested;
              r = r\<lparr>br_cursor := cursor\<rparr>
          in case fetched of
               Ok response \<Rightarrow>
                 let capacity = e_capacity env capacity (length response);
                     r = r\<lparr>br_response := response, br_capacity := capacity,
                           br_scheduler := observe (br_scheduler r) (length response) requested,
                           br_stats := map_option (record_window requested (length response) capacity False) (br_stats r)\<rparr>
                 in (map_err External_Decode
                       (decode_frame_with_schema (e_lib env) (e_pick env) response
                         (br_columns r) (br_result_id r) (br_next_row r) requested (br_schema r)), r)
             | Err e \<Rightarrow> (Err (External_Cursor e), r)
             | Panic \<Rightarrow> (Panic, r))"

definition window :: "'c reader_env \<Rightarrow> 'c binary_reader \<Rightarrow> nat \<Rightarrow> (batch, arrow_error) result \<times> 'c binary_reader" where
  "window env r requested = (if br_adopt_frame r then owned_window env r requested else shared_window env r requested)"

definition reader_next_inner ::
  "'c reader_env \<Rightarrow> 'c binary_reader \<Rightarrow> (batch, arrow_error) result option \<times> 'c binary_reader" where
  "reader_next_inner env r =
     (if br_finished r \<or> br_total_rows r \<le> br_next_row r then (None, r\<lparr>br_finished := True\<rparr>)
      else
        case next_rows (br_scheduler r) (br_total_rows r - br_next_row r) of
          Ok (requested, s) \<Rightarrow>
            let r = r\<lparr>br_scheduler := s\<rparr>;
                (result, r) = window env r requested
            in (case result of
                  Ok batch \<Rightarrow>
                    if 0 < b_rows batch
                    then if br_next_row r + b_rows batch \<le> usize_max
                         then (Some (Ok batch), r\<lparr>br_next_row := br_next_row r + b_rows batch\<rparr>)
                         else (Some Panic, r)
                    else (Some (Err (Parse_Error m_empty_window)), r\<lparr>br_finished := True\<rparr>)
                | Err e \<Rightarrow> (Some (Err e), r\<lparr>br_finished := True\<rparr>)
                | Panic \<Rightarrow> (Some Panic, r))
        | Err e \<Rightarrow> (Some (Err e), r)
        | Panic \<Rightarrow> (Some Panic, r))"

definition reader_next ::
  "'c reader_env \<Rightarrow> 'c binary_reader \<Rightarrow> (batch, arrow_error) result option \<times> 'c binary_reader" where
  "reader_next env r =
     (case reader_next_inner env r of
        (Some Panic, r) \<Rightarrow> (Some (Err (Parse_Error m_decoding_panicked)), r\<lparr>br_finished := True\<rparr>)
      | (item, r) \<Rightarrow> (item, r))"

definition binary_reader_new ::
  "'c \<Rightarrow> nat \<Rightarrow> result_column list \<Rightarrow> arrow_field list \<Rightarrow> nat \<Rightarrow> read_scheduler \<Rightarrow> bool \<Rightarrow> read_stats option
    \<Rightarrow> 'c binary_reader" where
  "binary_reader_new cursor rid cols schema total_rows scheduler adopt_frame stats =
     \<lparr>br_cursor = cursor, br_result_id = rid, br_columns = cols, br_schema = schema, br_next_row = 0,
      br_total_rows = total_rows, br_scheduler = scheduler, br_response = [], br_capacity = 0,
      br_adopt_frame = adopt_frame, br_stats = stats, br_finished = False\<rparr>"

subsection \<open>Readers over a batch in memory\<close>




definition single_next :: "'b option \<Rightarrow> ('b, arrow_error) result option \<times> 'b option" where
  "single_next batch = (map_option Ok batch, None)"

definition empty_next :: "'r \<Rightarrow> ('b, arrow_error) result option \<times> 'r" where
  "empty_next r = (None, r)"

subsection \<open>What a stream of batches promises\<close>

text \<open>Calling an iterator until it returns \<open>None\<close>; \<open>None\<close> when it does not within \<open>fuel\<close> calls.\<close>

fun drain :: "('r \<Rightarrow> 'i option \<times> 'r) \<Rightarrow> nat \<Rightarrow> 'r \<Rightarrow> ('i list \<times> 'r) option" where
  "drain next 0 r = None"
| "drain next (Suc fuel) r =
     (case next r of
        (None, r) \<Rightarrow> Some ([], r)
      | (Some item, r) \<Rightarrow> map_option (\<lambda>(items, r). (item # items, r)) (drain next fuel r))"

text \<open>Batches that follow each other from row \<open>start\<close> on, each as \<open>legit\<close> requires at its place.\<close>

fun consecutive :: "('b \<Rightarrow> nat) \<Rightarrow> (nat \<Rightarrow> 'b \<Rightarrow> bool) \<Rightarrow> nat \<Rightarrow> 'b list \<Rightarrow> bool" where
  "consecutive rows legit start [] = True"
| "consecutive rows legit start (b # bs) = (0 < rows b \<and> legit start b \<and> consecutive rows legit (start + rows b) bs)"

lemma consecutive_append:
  "consecutive rows legit start (bs @ cs) \<longleftrightarrow>
     consecutive rows legit start bs \<and> consecutive rows legit (start + sum_list (map rows bs)) cs"
  by (induction bs arbitrary: start) (auto simp: add.assoc)

locale row_stream =
  fixes good :: "'r \<Rightarrow> bool"
    and advance :: "'r \<Rightarrow> ('b, 'e) result option \<times> 'r"
    and rows :: "'b \<Rightarrow> nat"
    and position :: "'r \<Rightarrow> nat"
    and rows_left :: "'r \<Rightarrow> nat"
    and legit :: "nat \<Rightarrow> 'b \<Rightarrow> bool"
    and closed :: "'r \<Rightarrow> bool"
  assumes batch: "good r \<Longrightarrow> advance r = (Some (Ok b), r') \<Longrightarrow>
      good r' \<and> 0 < rows b \<and> legit (position r) b \<and> position r' = position r + rows b \<and> rows_left r = rows b + rows_left r'"
    and failure: "good r \<Longrightarrow> advance r = (Some (Err e), r') \<Longrightarrow> closed r' \<and> 0 < rows_left r"
    and exhausted: "good r \<Longrightarrow> advance r = (None, r') \<Longrightarrow> rows_left r = 0 \<and> closed r'"
    and not_Panic: "good r \<Longrightarrow> fst (advance r) \<noteq> Some Panic"
    and closed: "closed r \<Longrightarrow> fst (advance r) = None \<and> closed (snd (advance r))"
begin

lemma drain_closed: "closed r \<Longrightarrow> 0 < fuel \<Longrightarrow> \<exists>r'. drain advance fuel r = Some ([], r') \<and> closed r'"
  using closed [of r] by (cases fuel; cases "advance r") auto

lemma drain_stream:
  "good r \<Longrightarrow> rows_left r + 2 \<le> fuel \<Longrightarrow>
   \<exists>bs tail r'. drain advance fuel r = Some (map Ok bs @ tail, r') \<and> closed r' \<and> consecutive rows legit (position r) bs \<and>
     (tail = [] \<and> sum_list (map rows bs) = rows_left r \<or>
      (\<exists>e r0. tail = [Err e] \<and> good r0 \<and> fst (advance r0) = Some (Err e)) \<and> sum_list (map rows bs) < rows_left r)"
proof (induction fuel arbitrary: r)
  case (Suc fuel)
  obtain item r1 where a: "advance r = (item, r1)" by (cases "advance r")
  consider (none) "item = None" | (batch) b where "item = Some (Ok b)" | (failure) e where "item = Some (Err e)"
    using not_Panic [OF Suc.prems(1)] a by (cases item; cases "the item") auto
  then show ?case
  proof cases
    case none
    with exhausted [OF Suc.prems(1)] a show ?thesis by (auto intro: exI [of _ "[]"])
  next
    case (failure e)
    with row_stream.failure [OF row_stream_axioms Suc.prems(1)] a have c: "closed r1" "0 < rows_left r" by auto
    from drain_closed [OF c(1), of fuel] Suc.prems(2) obtain r' where "drain advance fuel r1 = Some ([], r')" "closed r'" by auto
    with failure a c have "drain advance (Suc fuel) r = Some (map Ok [] @ [Err e], r')" "closed r'"
      "fst (advance r) = Some (Err e)" by simp_all
    with c(2) Suc.prems(1) show ?thesis by (metis consecutive.simps(1) list.map(1) sum_list.Nil)
  next
    case (batch b)
    with row_stream.batch [OF row_stream_axioms Suc.prems(1)] a
    have b: "good r1" "0 < rows b" "legit (position r) b" "position r1 = position r + rows b" "rows_left r = rows b + rows_left r1"
      by auto
    from b(2,5) Suc.prems(2) have "rows_left r1 + 2 \<le> fuel" by simp
    from Suc.IH [OF b(1) this] obtain bs tail r' where
      d: "drain advance fuel r1 = Some (map Ok bs @ tail, r')" "closed r'" "consecutive rows legit (position r1) bs"
        "tail = [] \<and> sum_list (map rows bs) = rows_left r1 \<or>
         (\<exists>e r0. tail = [Err e] \<and> good r0 \<and> fst (advance r0) = Some (Err e)) \<and> sum_list (map rows bs) < rows_left r1"
      by blast
    from d(1) batch a have "drain advance (Suc fuel) r = Some (map Ok (b # bs) @ tail, r')" by simp
    moreover have "consecutive rows legit (position r) (b # bs)" using b d(3) by simp
    moreover have "tail = [] \<and> sum_list (map rows (b # bs)) = rows_left r \<or>
        (\<exists>e r0. tail = [Err e] \<and> good r0 \<and> fst (advance r0) = Some (Err e)) \<and> sum_list (map rows (b # bs)) < rows_left r"
      using d(4) b(5) by auto
    ultimately show ?thesis using d(2) by blast
  qed
qed simp

text \<open>A stream whose every call succeeds delivers every row.\<close>

lemma drain_complete:
  assumes "good r" "rows_left r + 2 \<le> fuel" and ok: "\<And>r e. good r \<Longrightarrow> fst (advance r) \<noteq> Some (Err e)"
  shows "\<exists>bs r'. drain advance fuel r = Some (map Ok bs, r') \<and> closed r' \<and> consecutive rows legit (position r) bs \<and>
     sum_list (map rows bs) = rows_left r"
  using drain_stream [OF assms(1,2)] ok by fastforce

end

subsection \<open>BinaryReader keeps the contract\<close>

definition reader_good :: "nat \<Rightarrow> result_column list \<Rightarrow> nat \<Rightarrow> 'c binary_reader \<Rightarrow> bool" where
  "reader_good rid cols total_rows r \<longleftrightarrow>
     br_result_id r = rid \<and> br_columns r = cols \<and> schema_for_columns cols = Ok (br_schema r) \<and> br_total_rows r = total_rows \<and>
     scheduler_ok (br_scheduler r) \<and> \<not> br_finished r \<and> br_next_row r \<le> total_rows \<and> total_rows \<le> usize_max"

text \<open>A batch at row \<open>start\<close> is the decoding of the server's answer to a window that starts there.\<close>

definition fetched_batch :: "'c reader_env \<Rightarrow> nat \<Rightarrow> result_column list \<Rightarrow> nat \<Rightarrow> nat \<Rightarrow> batch \<Rightarrow> bool" where
  "fetched_batch env rid cols total_rows start b \<longleftrightarrow>
     (\<exists>cursor requested frame. snd (e_fetch env cursor start requested) = Ok frame \<and> start + requested \<le> total_rows \<and>
        b_rows b \<le> requested \<and> decode_frame (e_lib env) (e_pick env) frame cols rid start requested = Ok b)"

lemma window_result:
  assumes w: "window env r requested = (result, r')" and s: "schema_for_columns (br_columns r) = Ok (br_schema r)"
  shows "br_result_id r' = br_result_id r \<and> br_columns r' = br_columns r \<and> br_schema r' = br_schema r \<and>
      br_next_row r' = br_next_row r \<and> br_total_rows r' = br_total_rows r \<and> br_finished r' = br_finished r"
    "scheduler_ok (br_scheduler r) \<Longrightarrow> scheduler_ok (br_scheduler r')"
    "result = Ok b \<Longrightarrow> \<exists>frame. snd (e_fetch env (br_cursor r) (br_next_row r) requested) = Ok frame \<and>
       decode_frame (e_lib env) (e_pick env) frame (br_columns r) (br_result_id r) (br_next_row r) requested = Ok b"
  using w s scheduler_ok_observe
  by (auto simp: window_def owned_window_def shared_window_def Let_def decode_frame_def decode_frame_owned_with_schema_eq result_simps
      split: option.splits result.splits prod.splits if_splits)

lemma reader_request:
  assumes "reader_good rid cols total_rows r" "br_next_row r < total_rows"
  obtains requested where
    "next_rows (br_scheduler r) (total_rows - br_next_row r) =
        (Ok (requested, (br_scheduler r)\<lparr>previous_rows := Some requested\<rparr>) :: (nat \<times> read_scheduler, arrow_error) result)"
    "0 < requested" "br_next_row r + requested \<le> total_rows"
proof -
  from assms have "scheduler_ok (br_scheduler r)" "0 < total_rows - br_next_row r" by (simp_all add: reader_good_def)
  from next_rows_Ok [OF this, where 'a = arrow_error] that assms(2) show ?thesis by fastforce
qed

lemma reader_next_cases:
  assumes g: "reader_good rid cols total_rows r"
  shows "case reader_next env r of
      (None, r') \<Rightarrow> br_next_row r = total_rows \<and> br_finished r'
    | (Some (Ok b), r') \<Rightarrow> reader_good rid cols total_rows r' \<and> 0 < b_rows b \<and> br_next_row r' = br_next_row r + b_rows b \<and>
        fetched_batch env rid cols total_rows (br_next_row r) b
    | (Some (Err e), r') \<Rightarrow> br_finished r' \<and> br_next_row r < total_rows
    | (Some Panic, r') \<Rightarrow> False"
proof (cases "br_next_row r = total_rows")
  case True
  with g show ?thesis by (simp add: reader_next_def reader_next_inner_def reader_good_def)
next
  case False
  with g have lt: "br_next_row r < total_rows" by (simp add: reader_good_def)
  from reader_request [OF g this] obtain requested where
    n: "next_rows (br_scheduler r) (total_rows - br_next_row r) =
        (Ok (requested, (br_scheduler r)\<lparr>previous_rows := Some requested\<rparr>) :: (nat \<times> read_scheduler, arrow_error) result)"
    and req: "0 < requested" "br_next_row r + requested \<le> total_rows" .
  let ?r = "r\<lparr>br_scheduler := (br_scheduler r)\<lparr>previous_rows := Some requested\<rparr>\<rparr>"
  obtain result r1 where w: "window env ?r requested = (result, r1)" by (cases "window env ?r requested")
  have s: "schema_for_columns (br_columns ?r) = Ok (br_schema ?r)" "scheduler_ok (br_scheduler ?r)"
    using g by (simp_all add: reader_good_def scheduler_ok_def)
  note res = window_result [OF w s(1)]
  have inner: "reader_next_inner env r = (case result of
        Ok batch \<Rightarrow>
          if 0 < b_rows batch
          then if br_next_row r1 + b_rows batch \<le> usize_max
               then (Some (Ok batch), r1\<lparr>br_next_row := br_next_row r1 + b_rows batch\<rparr>) else (Some Panic, r1)
          else (Some (Err (Parse_Error m_empty_window)), r1\<lparr>br_finished := True\<rparr>)
      | Err e \<Rightarrow> (Some (Err e), r1\<lparr>br_finished := True\<rparr>)
      | Panic \<Rightarrow> (Some Panic, r1))"
    using g lt n w by (simp add: reader_next_inner_def reader_good_def)
  show ?thesis
  proof (cases result)
    case (Ok b)
    from res(3) [OF Ok] obtain frame where f: "snd (e_fetch env (br_cursor r) (br_next_row r) requested) = Ok frame"
      "decode_frame (e_lib env) (e_pick env) frame (br_columns r) (br_result_id r) (br_next_row r) requested = Ok b"
      by auto
    from f(2) have le: "b_rows b \<le> requested" by (rule decode_frame_OkE)
    have "fetched_batch env rid cols total_rows (br_next_row r) b"
      using f le req lt g unfolding fetched_batch_def reader_good_def by blast
    moreover have "br_next_row r1 + b_rows b \<le> total_rows" "total_rows \<le> usize_max" "br_next_row r1 = br_next_row r"
      using res(1) le req lt g by (simp_all add: reader_good_def)
    ultimately show ?thesis using Ok inner res(1) res(2) [OF s(2)] g lt by (simp add: reader_next_def reader_good_def)
  qed (use inner lt in \<open>simp_all add: reader_next_def\<close>)
qed

interpretation binary: row_stream "reader_good rid cols total_rows" "reader_next env" b_rows br_next_row
    "\<lambda>r. total_rows - br_next_row r" "fetched_batch env rid cols total_rows" br_finished
  for rid cols total_rows and env :: "'c reader_env"
proof
  fix r r' :: "'c binary_reader" and b e assume g: "reader_good rid cols total_rows r"
  note c = reader_next_cases [OF g, of env]
  show "reader_next env r = (Some (Ok b), r') \<Longrightarrow> reader_good rid cols total_rows r' \<and> 0 < b_rows b \<and>
      fetched_batch env rid cols total_rows (br_next_row r) b \<and> br_next_row r' = br_next_row r + b_rows b \<and>
      total_rows - br_next_row r = b_rows b + (total_rows - br_next_row r')"
    using c by (auto simp: reader_good_def)
  show "reader_next env r = (Some (Err e), r') \<Longrightarrow> br_finished r' \<and> 0 < total_rows - br_next_row r" using c by auto
  show "reader_next env r = (None, r') \<Longrightarrow> total_rows - br_next_row r = 0 \<and> br_finished r'" using c by auto
  show "fst (reader_next env r) \<noteq> Some Panic" using c by (auto split: prod.splits)
qed (simp add: reader_next_def reader_next_inner_def)

text \<open>
  C5 (a result is delivered in order or its failure is reported). Whatever the server answers, a consumer that keeps
  calling \<open>next\<close> on a \<open>BinaryReader\<close> of a result with \<open>total_rows\<close> rows reaches the end within \<open>total_rows + 2\<close>
  calls. The items are non-empty batches, each the decoding of an answer to a window starting exactly at the row
  after the previous batch, and either they hold every row of the result or a single error follows them. No call
  unwinds, and nothing follows an error.
\<close>

theorem reader_delivers:
  assumes "schema_for_columns cols = Ok schema" "scheduler_reachable s" "total_rows \<le> usize_max"
  shows "\<exists>bs tail r'. drain (reader_next env) (total_rows + 2)
        (binary_reader_new cursor rid cols schema total_rows s adopt_frame stats) = Some (map Ok bs @ tail, r') \<and>
      consecutive b_rows (fetched_batch env rid cols total_rows) 0 bs \<and>
      (tail = [] \<and> sum_list (map b_rows bs) = total_rows \<or> (\<exists>e. tail = [Err e]) \<and> sum_list (map b_rows bs) < total_rows)"
proof -
  let ?r = "binary_reader_new cursor rid cols schema total_rows s adopt_frame stats"
  have "reader_good rid cols total_rows ?r"
    using assms scheduler_reachable_inv [OF assms(2)]
    by (simp add: reader_good_def binary_reader_new_def scheduler_inv_def)
  from binary.drain_stream [OF this, of "total_rows + 2" env]
  have "\<exists>bs tail r'. drain (reader_next env) (total_rows + 2) ?r = Some (map Ok bs @ tail, r') \<and> br_finished r' \<and>
      consecutive b_rows (fetched_batch env rid cols total_rows) 0 bs \<and>
      (tail = [] \<and> sum_list (map b_rows bs) = total_rows \<or>
       (\<exists>e r0. tail = [Err e] \<and> reader_good rid cols total_rows r0 \<and> fst (reader_next env r0) = Some (Err e)) \<and>
       sum_list (map b_rows bs) < total_rows)"
    by (simp add: binary_reader_new_def)
  then show ?thesis by blast
qed

subsection \<open>A server that answers\<close>

text \<open>
  Every window of the result is answered, in at most \<open>len\<close> bytes, with a frame that decodes to at least one row;
  the buffers the reader reserves for such answers, with at most \<open>width\<close> bytes expected of a row, can be allocated.
\<close>

definition answers :: "'c reader_env \<Rightarrow> nat \<Rightarrow> result_column list \<Rightarrow> nat \<Rightarrow> nat \<Rightarrow> bool" where
  "answers env rid cols total_rows len \<longleftrightarrow>
     (\<forall>cursor start requested. 0 < requested \<longrightarrow> start + requested \<le> total_rows \<longrightarrow>
        (\<exists>frame b. snd (e_fetch env cursor start requested) = Ok frame \<and> length frame \<le> len \<and>
           decode_frame (e_lib env) (e_pick env) frame cols rid start requested = Ok b \<and> 0 < b_rows b))"

definition buffers_fit :: "result_column list \<Rightarrow> nat \<Rightarrow> nat \<Rightarrow> nat \<Rightarrow> bool" where
  "buffers_fit cols total_rows len width \<longleftrightarrow>
     len \<le> width \<and> 0 < width \<and> width * total_rows + 4096 + len \<le> isize_max \<and>
     (\<forall>requested \<le> total_rows. case owned_frame_capacity cols requested of None \<Rightarrow> True | Some capacity \<Rightarrow> capacity \<le> isize_max)"

definition served :: "'c reader_env \<Rightarrow> nat \<Rightarrow> result_column list \<Rightarrow> nat \<Rightarrow> nat \<Rightarrow> nat \<Rightarrow> 'c binary_reader \<Rightarrow> bool" where
  "served env rid cols total_rows len width r \<longleftrightarrow>
     reader_good rid cols total_rows r \<and> answers env rid cols total_rows len \<and> buffers_fit cols total_rows len width \<and>
     estimated_bytes_per_row (br_scheduler r) \<le> width \<and> length (br_response r) \<le> len"

lemma observe_estimate:
  assumes "estimated_bytes_per_row s \<le> width" "bytes \<le> width" "0 < width"
  shows "estimated_bytes_per_row (observe s bytes requested) \<le> width"
proof -
  have "saturating_add bytes (requested - 1) div requested \<le> width" if "0 < requested"
  proof -
    have "saturating_add bytes (requested - 1) div requested \<le> (bytes + (requested - 1)) div requested"
      by (rule div_le_mono) (simp add: saturating_add_def)
    also have "\<dots> < Suc bytes"
    proof (rule less_mult_imp_div_less)
      have "bytes \<le> bytes * requested" using that by simp
      then show "bytes + (requested - 1) < Suc bytes * requested" unfolding mult_Suc using that by linarith
    qed
    finally show ?thesis using assms(2) by simp
  qed
  with assms show ?thesis by (auto simp: observe_def Let_def)
qed

lemma capacity_fits:
  assumes "buffers_fit cols total_rows len width" "estimated_bytes_per_row s \<le> width" "requested \<le> total_rows"
  shows "response_capacity s requested False + len \<le> isize_max"
    "(case owned_frame_capacity cols requested of None \<Rightarrow> 0 | Some capacity \<Rightarrow> capacity) \<le> isize_max"
proof -
  have "estimated_bytes_per_row s * requested \<le> width * total_rows" using assms by (intro mult_le_mono) simp_all
  then show "response_capacity s requested False + len \<le> isize_max"
    using assms(1) unfolding response_capacity_def saturating_add_def saturating_mul_def buffers_fit_def
    by (simp add: min_def split: if_splits)
  show "(case owned_frame_capacity cols requested of None \<Rightarrow> 0 | Some capacity \<Rightarrow> capacity) \<le> isize_max"
    using assms(1,3) by (auto simp: buffers_fit_def split: option.splits)
qed

lemma fitting_window:
  assumes g: "reader_good rid cols total_rows r" and fit: "buffers_fit cols total_rows len width"
    and est: "estimated_bytes_per_row (br_scheduler r) \<le> width" and len: "length (br_response r) \<le> len" "length frame \<le> len"
    and req: "requested \<le> total_rows"
    and f: "e_fetch env (br_cursor r) (br_next_row r) requested = (cursor, Ok frame)"
      "decode_frame (e_lib env) (e_pick env) frame cols rid (br_next_row r) requested = Ok b"
  shows "\<exists>r'. window env r requested = (Ok b, r') \<and> br_cursor r' = cursor \<and>
    br_scheduler r' = observe (br_scheduler r) (length frame) requested \<and> length (br_response r') \<le> len"
proof -
  from g have s: "schema_for_columns cols = Ok (br_schema r)" "br_columns r = cols" "br_result_id r = rid"
    by (simp_all add: reader_good_def)
  have d: "decode_frame_with_schema (e_lib env) (e_pick env) frame cols rid (br_next_row r) requested (br_schema r) = Ok b"
    using f(2) s(1) by (simp add: decode_frame_def)
  note c = capacity_fits [OF fit est req]
  have w: "vec_with_capacity (case owned_frame_capacity cols requested of None \<Rightarrow> 0 | Some capacity \<Rightarrow> capacity) \<noteq> None"
    using c(2) by (simp add: vec_with_capacity_def)
  have v: "vec_reserve_exact (length (br_response r)) (br_capacity r) (response_capacity (br_scheduler r) requested False) \<noteq> None"
    using c(1) len(1) by (simp add: vec_reserve_exact_def vec_with_capacity_def)
  show ?thesis
  proof (cases "br_adopt_frame r")
    case True
    with w f d s len show ?thesis
      by (auto simp: window_def owned_window_def decode_frame_owned_with_schema_eq Let_def)
  next
    case False
    with v f d s len show ?thesis by (auto simp: window_def shared_window_def Let_def)
  qed
qed

lemma served_window:
  assumes v: "served env rid cols total_rows len width r" and req: "0 < requested" "br_next_row r + requested \<le> total_rows"
  shows "\<exists>b r'. window env r requested = (Ok b, r') \<and> 0 < b_rows b \<and>
    estimated_bytes_per_row (br_scheduler r') \<le> width \<and> length (br_response r') \<le> len"
proof -
  from v have g: "reader_good rid cols total_rows r" and a: "answers env rid cols total_rows len"
    and fit: "buffers_fit cols total_rows len width" and est: "estimated_bytes_per_row (br_scheduler r) \<le> width"
    and len: "length (br_response r) \<le> len"
    by (simp_all add: served_def)
  obtain cursor frame b where f: "e_fetch env (br_cursor r) (br_next_row r) requested = (cursor, Ok frame)" "length frame \<le> len"
    "decode_frame (e_lib env) (e_pick env) frame cols rid (br_next_row r) requested = Ok b" "0 < b_rows b"
    using a req unfolding answers_def by (metis prod.collapse)
  have "estimated_bytes_per_row (observe (br_scheduler r) (length frame) requested) \<le> width"
    using observe_estimate [OF est] f(2) fit by (simp add: buffers_fit_def)
  with fitting_window [OF g fit est len f(2) _ f(1,3)] f(4) req show ?thesis by auto
qed

lemma served_next:
  assumes v: "served env rid cols total_rows len width r" and n: "reader_next env r = (Some item, r')"
  shows "\<exists>b. item = Ok b \<and> served env rid cols total_rows len width r'"
proof -
  from v have g: "reader_good rid cols total_rows r" by (simp add: served_def)
  with n have lt: "br_next_row r < total_rows"
    by (auto simp: reader_good_def reader_next_def reader_next_inner_def split: if_splits)
  from reader_request [OF g this] obtain requested where
    q: "next_rows (br_scheduler r) (total_rows - br_next_row r) =
        (Ok (requested, (br_scheduler r)\<lparr>previous_rows := Some requested\<rparr>) :: (nat \<times> read_scheduler, arrow_error) result)"
    and req: "0 < requested" "br_next_row r + requested \<le> total_rows" .
  let ?r = "r\<lparr>br_scheduler := (br_scheduler r)\<lparr>previous_rows := Some requested\<rparr>\<rparr>"
  have v': "served env rid cols total_rows len width ?r"
    using v by (simp add: served_def reader_good_def scheduler_ok_def)
  from served_window [OF v', of requested] req lt obtain b r1 where
    w: "window env ?r requested = (Ok b, r1)" "0 < b_rows b"
      "estimated_bytes_per_row (br_scheduler r1) \<le> width" "length (br_response r1) \<le> len"
    by auto
  with n g lt q have i: "item = Ok b \<and> r' = r1\<lparr>br_next_row := br_next_row r1 + b_rows b\<rparr> \<or> item = Err (Parse_Error m_decoding_panicked)
      \<and> usize_max < br_next_row r1 + b_rows b"
    by (auto simp: reader_next_def reader_next_inner_def reader_good_def split: if_splits)
  from window_result(1,3) [OF w(1)] g obtain frame where
    "decode_frame (e_lib env) (e_pick env) frame cols rid (br_next_row r) requested = Ok b" "br_next_row r1 = br_next_row r"
    by (auto simp: reader_good_def)
  then have "b_rows b \<le> requested" "br_next_row r1 = br_next_row r" by (auto elim: decode_frame_OkE)
  with req lt g i have item: "item = Ok b" "r' = r1\<lparr>br_next_row := br_next_row r1 + b_rows b\<rparr>"
    by (auto simp: reader_good_def)
  from binary.batch [OF g n [unfolded item(1)]] have "reader_good rid cols total_rows r'" by blast
  with v w item show ?thesis by (simp add: served_def)
qed

interpretation served: row_stream "served env rid cols total_rows len width" "reader_next env" b_rows br_next_row
    "\<lambda>r. total_rows - br_next_row r" "fetched_batch env rid cols total_rows" br_finished
  for rid cols total_rows len width and env :: "'c reader_env"
proof
  fix r r' :: "'c binary_reader" and b e assume v: "served env rid cols total_rows len width r"
  then have g: "reader_good rid cols total_rows r" by (simp add: served_def)
  show "reader_next env r = (Some (Ok b), r') \<Longrightarrow> served env rid cols total_rows len width r' \<and> 0 < b_rows b \<and>
      fetched_batch env rid cols total_rows (br_next_row r) b \<and> br_next_row r' = br_next_row r + b_rows b \<and>
      total_rows - br_next_row r = b_rows b + (total_rows - br_next_row r')"
    using binary.batch [OF g] served_next [OF v] by blast
  show "reader_next env r = (Some (Err e), r') \<Longrightarrow> br_finished r' \<and> 0 < total_rows - br_next_row r"
    by (rule binary.failure [OF g])
  show "reader_next env r = (None, r') \<Longrightarrow> total_rows - br_next_row r = 0 \<and> br_finished r'"
    by (rule binary.exhausted [OF g])
  show "fst (reader_next env r) \<noteq> Some Panic" by (rule binary.not_Panic [OF g])
qed (rule binary.closed)

text \<open>
  C13 (every row of an answered result is delivered). When the server answers every window of a result with a frame
  that decodes to at least one row, even if to fewer rows than asked, and the buffers can be allocated, the reader
  returns batches only, in order, with every row of the result, and then ends.
\<close>

theorem reader_delivers_all:
  assumes "schema_for_columns cols = Ok schema" "scheduler_reachable s" "total_rows \<le> usize_max"
    and "answers env rid cols total_rows len" "buffers_fit cols total_rows len width" "estimated_bytes_per_row s \<le> width"
  shows "\<exists>bs r'. drain (reader_next env) (total_rows + 2)
        (binary_reader_new cursor rid cols schema total_rows s adopt_frame stats) = Some (map Ok bs, r') \<and>
      consecutive b_rows (fetched_batch env rid cols total_rows) 0 bs \<and> sum_list (map b_rows bs) = total_rows"
proof -
  let ?r = "binary_reader_new cursor rid cols schema total_rows s adopt_frame stats"
  have v: "served env rid cols total_rows len width ?r"
    using assms scheduler_reachable_inv [OF assms(2)]
    by (simp add: served_def reader_good_def binary_reader_new_def scheduler_inv_def)
  have "fst (reader_next env r) \<noteq> Some (Err e)" if "served env rid cols total_rows len width r" for r e
    using served_next [OF that, of "Err e"] by (cases "reader_next env r") auto
  from served.drain_complete [OF v, of "total_rows + 2", OF _ this]
  have "\<exists>bs r'. drain (reader_next env) (total_rows + 2) ?r = Some (map Ok bs, r') \<and> br_finished r' \<and>
      consecutive b_rows (fetched_batch env rid cols total_rows) 0 bs \<and> sum_list (map b_rows bs) = total_rows"
    by (simp add: binary_reader_new_def)
  then show ?thesis by blast
qed

text \<open>A server whose result has two rows of one column, and which answers every window with its first row only.\<close>

definition sample_column :: "result_column list" where
  "sample_column = [\<lparr>rc_name = ''id'', rc_type = MT_SmallInt\<rparr>]"

definition sample_row :: batch where
  "sample_row =
     \<lparr>b_schema = [\<lparr>f_name = ''id'', f_data_type = DT_Int16, f_nullable = True, f_metadata = Map.empty\<rparr>],
      b_arrays = [\<lparr>a_type = DT_Int16, a_data = IntData \<lparr>pvalues = [7], pvalidity = None\<rparr>\<rparr>],
      b_rows = 1\<rparr>"

definition sample_env :: "unit reader_env" where
  "sample_env =
     \<lparr>e_fetch = (\<lambda>cursor start requested. ((), Ok (build_frame 5 1 start [[7, 0]]))),
      e_capacity = (\<lambda>capacity len. min (max capacity len) isize_max), e_base = (\<lambda>_. 0), e_lib = strict_arrow, e_pick = hd\<rparr>"

lemma sample_schema: "schema_for_columns sample_column = Ok (b_schema sample_row)"
  by (simp add: schema_for_columns_def sample_column_def field_for_column_def field_for_monet_type_def sample_row_def)

lemma sample_row_decodes:
  assumes "start < 2" "0 < requested"
  shows "length (build_frame 5 1 start [[7, 0]]) \<le> 128"
    "decode_frame strict_arrow hd (build_frame 5 1 start [[7, 0]]) sample_column 5 start requested = Ok sample_row"
proof -
  have "start = 0 \<or> start = 1" using assms(1) by auto
  moreover have "length (build_frame 5 1 0 [[7, 0]]) \<le> 128" "length (build_frame 5 1 1 [[7, 0]]) \<le> 128" by code_simp+
  ultimately show l: "length (build_frame 5 1 start [[7, 0]]) \<le> 128" by metis
  then have "parse_frame (build_frame 5 1 start [[7, 0]]) =
      Ok \<lparr>result_id = 5, row_count = 1, start_row = start, columns = [[7, 0]]\<rparr>"
    using assms by (intro parse_build_frame) (simp_all add: in_signed_def)
  moreover have "decode_columns strict_arrow hd sample_column [[7, 0]] 1 2 = Ok (b_arrays sample_row)"
    "sum_bytes [[7, 0]] = 2" by code_simp+
  moreover have "try_new_batch strict_arrow (b_schema sample_row) (b_arrays sample_row) 1 = None"
    by (simp add: strict_arrow_def sample_row_def array_len_def)
  ultimately show "decode_frame strict_arrow hd (build_frame 5 1 start [[7, 0]]) sample_column 5 start requested = Ok sample_row"
    using assms(2) sample_schema
    by (simp add: decode_frame_def decode_frame_with_schema_def validate_frame_def sample_column_def
        usize_try_from_def record_batch_def) (simp add: sample_row_def)
qed

lemma sample_answers: "answers sample_env 5 sample_column 2 128"
  unfolding answers_def
proof (intro allI impI)
  fix cursor :: unit and start requested :: nat assume "0 < requested" "start + requested \<le> 2"
  then show "\<exists>frame b. snd (e_fetch sample_env cursor start requested) = Ok frame \<and> length frame \<le> 128 \<and>
      decode_frame (e_lib sample_env) (e_pick sample_env) frame sample_column 5 start requested = Ok b \<and> 0 < b_rows b"
    using sample_row_decodes [of start requested] by (simp add: sample_env_def) (simp add: sample_row_def)
qed

definition sample_start :: read_scheduler where
  "sample_start = scheduler_new None sample_column 0 (Some 1048576) 0"

lemma sample_start_reachable: "scheduler_reachable sample_start"
  by (simp add: sample_start_def scheduler_reachable.start)

lemma sample_buffers_fit: "buffers_fit sample_column 2 128 1024"
proof -
  have "(case owned_frame_capacity sample_column requested of None \<Rightarrow> 0 | Some capacity \<Rightarrow> capacity) \<le> 1024"
    if "requested \<le> 2" for requested
  proof -
    from that have "requested \<in> {0, 1, 2}" by auto
    moreover have "\<forall>requested \<in> {0, 1, 2}.
        (case owned_frame_capacity sample_column requested of None \<Rightarrow> 0 | Some capacity \<Rightarrow> capacity) \<le> 1024"
      by code_simp
    ultimately show ?thesis by blast
  qed
  then show ?thesis by (fastforce simp: buffers_fit_def split: option.splits)
qed

theorem reader_delivers_witness:
  "\<exists>items r'. drain (reader_next sample_env) (2 + 2)
      (binary_reader_new () 5 sample_column (b_schema sample_row) 2 sample_start True None) = Some (items, r')"
proof -
  have "(2 :: nat) \<le> usize_max" by simp
  from reader_delivers [OF sample_schema sample_start_reachable this, where env = sample_env and cursor = "()" and rid = 5
      and adopt_frame = True and stats = None]
  show ?thesis by blast
qed

theorem reader_delivers_all_witness:
  "\<exists>bs r'. drain (reader_next sample_env) (2 + 2)
      (binary_reader_new () 5 sample_column (b_schema sample_row) 2 sample_start True None) = Some (map Ok bs, r') \<and>
      sum_list (map b_rows bs) = 2"
proof -
  have "(2 :: nat) \<le> usize_max" by simp
  moreover have "buffers_fit sample_column 2 128 1024" by (rule sample_buffers_fit)
  moreover have "estimated_bytes_per_row sample_start \<le> 1024" by code_simp
  ultimately show ?thesis
    using reader_delivers_all [OF sample_schema sample_start_reachable _ sample_answers, where cursor = "()"
        and adopt_frame = True and stats = None]
    by blast
qed

subsection \<open>SlicedBatchReader keeps the contract\<close>







end
