(* ===== verification/Prefetch.thy ===== *)
theory Prefetch
  imports Readers
begin

text \<open>
  \<open>PrefetchedBinaryReader\<close> of \<open>driver.rs\<close>: a worker thread fetches the windows of a result ahead of the
  consumer and hands them over on a channel that holds one frame; the consumer decodes them and gives the
  buffers back on a second channel that holds two. The two threads are an interleaving step relation.
  \<open>fetch_frame\<close> is one iteration of \<open>fetch_binary_frames\<close> up to the send, \<open>prefetched_take\<close> is
  \<open>next_inner\<close> from the receive on. A message carries the capacity of its response next to the frame. The
  time limit on joining the worker when the reader is dropped is not modelled.
\<close>

subsection \<open>Data\<close>

definition m_receiver_unavailable :: string where
  "m_receiver_unavailable = ''MonetDB result prefetch receiver is unavailable''"
definition m_prefetch_ended :: string where
  "m_prefetch_ended = ''MonetDB result prefetch ended before the result was complete''"
definition m_fetching_panicked :: string where "m_fetching_panicked = ''MonetDB result fetching panicked''"
definition m_window_platform :: string where
  "m_window_platform = ''MonetDB binary window row count exceeds this platform''"

record binary_frame =
  bf_start_row :: nat
  bf_requested_rows :: nat
  bf_response :: "u8 list"

type_synonym frame_result = "(binary_frame, arrow_error) result"

record 'c fetch_task =
  ft_cursor :: 'c
  ft_result_id :: nat
  ft_columns :: "result_column list"
  ft_total_rows :: nat
  ft_scheduler :: read_scheduler
  ft_adopt_frame :: bool
  ft_next_row :: nat

record prefetched_reader =
  pr_result_id :: nat
  pr_columns :: "result_column list"
  pr_schema :: "arrow_field list"
  pr_total_rows :: nat
  pr_decoded_rows :: nat
  pr_adopt_frame :: bool
  pr_receiver :: bool
  pr_finished :: bool

subsection \<open>The worker\<close>

text \<open>The checks of a response against the window asked for; the rows it holds.\<close>

definition check_frame :: "nat \<Rightarrow> nat \<Rightarrow> nat \<Rightarrow> u8 list \<Rightarrow> (nat, arrow_error) result" where
  "check_frame rid next_row requested_rows response =
     rbind (map_err External_Frame (parse_frame_header response)) (\<lambda>frame.
       if h_result_id frame \<noteq> int rid then Err (External_Decode (ResultId rid (h_result_id frame)))
       else if h_start_row frame \<noteq> next_row then Err (External_Decode (StartRow next_row (h_start_row frame)))
       else
         case usize_try_from (int (h_row_count frame)) of
           None \<Rightarrow> Err (Parse_Error m_window_platform)
         | Some actual_rows \<Rightarrow>
             if requested_rows < actual_rows then Err (External_Decode (RowCount requested_rows actual_rows))
             else Ok actual_rows)"

text \<open>The buffer for the next response: the capacity of a returned one if there is one of acceptable size.\<close>

definition take_recycled :: "'c fetch_task \<Rightarrow> nat list \<Rightarrow> nat \<times> bool \<times> nat list" where
  "take_recycled t recycle =
     (if ft_adopt_frame t then (0, False, recycle)
      else case recycle of
        [] \<Rightarrow> (0, False, [])
      | capacity # recycle \<Rightarrow>
          if exact_batch_rows (ft_scheduler t) \<noteq> None \<or> capacity \<le> saturating_mul (window_budget_bytes (ft_scheduler t)) 2
          then (capacity, True, recycle) else (0, False, recycle))"

definition wanted_capacity :: "'c fetch_task \<Rightarrow> nat \<Rightarrow> nat" where
  "wanted_capacity t requested_rows =
     (if ft_adopt_frame t
      then (case owned_frame_capacity (ft_columns t) requested_rows of None \<Rightarrow> 0 | Some capacity \<Rightarrow> capacity)
      else response_capacity (ft_scheduler t) requested_rows False)"

text \<open>
  One iteration: the frame or error to send (\<open>Panic\<close> when the thread unwinds), the capacity of its buffer, the task
  to go on with (\<open>None\<close> when the loop returns after the send), the returned buffers left and the statistics. The sum of
  the row numbers does not overflow: it is at most \<open>total_rows\<close>.
\<close>

definition fetch_frame ::
  "'c reader_env \<Rightarrow> nat list \<Rightarrow> read_stats option \<Rightarrow> 'c fetch_task
    \<Rightarrow> frame_result \<times> nat \<times> 'c fetch_task option \<times> nat list \<times> read_stats option" where
  "fetch_frame env recycle stats t =
     (case next_rows (ft_scheduler t) (ft_total_rows t - ft_next_row t) of
        Err e \<Rightarrow> (Err e, 0, None, recycle, stats)
      | Panic \<Rightarrow> (Panic, 0, None, recycle, stats)
      | Ok (requested_rows, s) \<Rightarrow>
          let t = t\<lparr>ft_scheduler := s\<rparr>;
              capacity = wanted_capacity t requested_rows;
              (buffer, recycled, recycle) = take_recycled t recycle;
              stats = (if recycled then map_option (\<lambda>st. st\<lparr>st_recycled_buffers := st_recycled_buffers st + 1\<rparr>) stats else stats)
          in case (if buffer < capacity then vec_reserve_exact 0 buffer capacity else Some buffer) of
               None \<Rightarrow> (Panic, 0, None, recycle, stats)
             | Some buffer \<Rightarrow>
                 let (cursor, fetched) = e_fetch env (ft_cursor t) (ft_next_row t) requested_rows
                 in case rbind (map_err External_Cursor fetched) (\<lambda>response.
                      rbind (check_frame (ft_result_id t) (ft_next_row t) requested_rows response) (\<lambda>actual_rows.
                        Ok (response, actual_rows))) of
                      Err e \<Rightarrow> (Err e, 0, None, recycle, stats)
                    | Panic \<Rightarrow> (Panic, 0, None, recycle, stats)
                    | Ok (response, actual_rows) \<Rightarrow>
                        let capacity = e_capacity env buffer (length response);
                            stats = map_option (record_window actual_rows (length response) capacity (ft_adopt_frame t)) stats;
                            frame = \<lparr>bf_start_row = ft_next_row t, bf_requested_rows = requested_rows, bf_response = response\<rparr>
                        in (Ok frame, capacity,
                            if actual_rows = 0 then None
                            else Some (t\<lparr>ft_cursor := cursor, ft_scheduler := observe s (length response) actual_rows,
                                         ft_next_row := ft_next_row t + actual_rows\<rparr>),
                            recycle, stats))"

text \<open>What the thread sends: an unwinding is caught and sent as an error.\<close>

fun caught :: "frame_result \<Rightarrow> frame_result" where
  "caught Panic = Err (Parse_Error m_fetching_panicked)"
| "caught m = m"

subsection \<open>The consumer\<close>

definition pr_finish :: "prefetched_reader \<Rightarrow> prefetched_reader" where
  "pr_finish r = r\<lparr>pr_finished := True, pr_receiver := False\<rparr>"

definition pr_at_end :: "prefetched_reader \<Rightarrow> bool" where
  "pr_at_end r \<longleftrightarrow> pr_finished r \<or> pr_total_rows r \<le> pr_decoded_rows r"

definition decode_binary_frame :: "'c reader_env \<Rightarrow> prefetched_reader \<Rightarrow> binary_frame \<Rightarrow> (batch, arrow_error) result" where
  "decode_binary_frame env r frame =
     map_err External_Decode
      (if pr_adopt_frame r
       then decode_frame_owned_with_schema (e_lib env) (e_pick env) (e_base env (bf_response frame)) (bf_response frame)
              (pr_columns r) (pr_result_id r) (bf_start_row frame) (bf_requested_rows frame) (pr_schema r)
       else decode_frame_with_schema (e_lib env) (e_pick env) (bf_response frame)
              (pr_columns r) (pr_result_id r) (bf_start_row frame) (bf_requested_rows frame) (pr_schema r))"

text \<open>
  The item a call of \<open>next_inner\<close> returns once \<open>recv\<close> has returned: a message, or \<open>None\<close> when the worker is gone.
\<close>

fun prefetched_take_inner ::
  "'c reader_env \<Rightarrow> prefetched_reader \<Rightarrow> frame_result option \<Rightarrow> (batch, arrow_error) result \<times> prefetched_reader" where
  "prefetched_take_inner env r (Some (Ok frame)) =
     (case decode_binary_frame env r frame of
        Ok batch \<Rightarrow>
          if 0 < b_rows batch
          then if usize_max < pr_decoded_rows r + b_rows batch then (Panic, r)
               else let r = r\<lparr>pr_decoded_rows := pr_decoded_rows r + b_rows batch\<rparr>
                    in (Ok batch, if pr_total_rows r \<le> pr_decoded_rows r then pr_finish r else r)
          else (Err (Parse_Error m_empty_window), pr_finish r)
      | Err e \<Rightarrow> (Err e, pr_finish r)
      | Panic \<Rightarrow> (Panic, r))"
| "prefetched_take_inner env r (Some (Err e)) = (Err e, pr_finish r)"
| "prefetched_take_inner env r (Some Panic) = (Panic, r)"
| "prefetched_take_inner env r None = (Err (Parse_Error m_prefetch_ended), pr_finish r)"

definition prefetched_take ::
  "'c reader_env \<Rightarrow> prefetched_reader \<Rightarrow> frame_result option \<Rightarrow> (batch, arrow_error) result \<times> prefetched_reader" where
  "prefetched_take env r m =
     (case prefetched_take_inner env r m of
        (Panic, r) \<Rightarrow> (Err (Parse_Error m_decoding_panicked), pr_finish r)
      | (item, r) \<Rightarrow> (item, r))"

text \<open>\<open>try_send\<close> of a cleared buffer on the channel of two, by a reader that does not adopt its frames.\<close>

definition give_back :: "prefetched_reader \<Rightarrow> frame_result \<Rightarrow> nat \<Rightarrow> nat list \<Rightarrow> nat list" where
  "give_back r m capacity recycle =
     (case m of
        Ok frame \<Rightarrow> if \<not> pr_adopt_frame r \<and> length recycle < 2 then recycle @ [capacity] else recycle
      | _ \<Rightarrow> recycle)"

subsection \<open>The two threads\<close>

datatype consumer = Reading | Saw_End | Dropped

datatype 'c worker =
    Fetching "'c fetch_task"
  | Sending frame_result nat "'c fetch_task option"
  | Ended

record 'c prefetch =
  pf_worker :: "'c worker"
  pf_channel :: "(frame_result \<times> nat) list"
  pf_recycle :: "nat list"
  pf_stats :: "read_stats option"
  pf_reader :: prefetched_reader
  pf_items :: "(batch, arrow_error) result list"
  pf_consumer :: consumer

definition resume_worker :: "'c fetch_task option \<Rightarrow> 'c worker" where
  "resume_worker next_task = (case next_task of None \<Rightarrow> Ended | Some t \<Rightarrow> Fetching t)"

text \<open>
  \<open>pf_items\<close> is what the consumer has been given; it is \<open>Reading\<close> until it is given \<open>None\<close> or drops the reader.
  A finished reader has dropped its receiver, and with it the messages on the channel.
\<close>

inductive prefetch_step :: "'c reader_env \<Rightarrow> 'c prefetch \<Rightarrow> 'c prefetch \<Rightarrow> bool" for env where
  fetch: "pf_worker s = Fetching t \<Longrightarrow> ft_next_row t < ft_total_rows t \<Longrightarrow>
    fetch_frame env (pf_recycle s) (pf_stats s) t = (m, capacity, next_task, recycle, stats) \<Longrightarrow>
    prefetch_step env s (s\<lparr>pf_worker := Sending (caught m) capacity next_task, pf_recycle := recycle, pf_stats := stats\<rparr>)"
| complete: "pf_worker s = Fetching t \<Longrightarrow> ft_total_rows t \<le> ft_next_row t \<Longrightarrow>
    prefetch_step env s (s\<lparr>pf_worker := Ended\<rparr>)"
| send: "pf_worker s = Sending m capacity next_task \<Longrightarrow> pf_channel s = [] \<Longrightarrow> pr_receiver (pf_reader s) \<Longrightarrow>
    prefetch_step env s (s\<lparr>pf_worker := resume_worker next_task, pf_channel := [(m, capacity)]\<rparr>)"
| hang_up: "pf_worker s = Sending m capacity next_task \<Longrightarrow> \<not> pr_receiver (pf_reader s) \<Longrightarrow>
    prefetch_step env s (s\<lparr>pf_worker := Ended\<rparr>)"
| receive: "pf_consumer s = Reading \<Longrightarrow> \<not> pr_at_end (pf_reader s) \<Longrightarrow> pr_receiver (pf_reader s) \<Longrightarrow>
    pf_channel s = (m, capacity) # channel \<Longrightarrow> prefetched_take env (pf_reader s) (Some m) = (item, r) \<Longrightarrow>
    prefetch_step env s (s\<lparr>pf_channel := (if pr_receiver r then channel else []), pf_reader := r, pf_items := pf_items s @ [item],
      pf_recycle := give_back (pf_reader s) m capacity (pf_recycle s)\<rparr>)"
| disconnected: "pf_consumer s = Reading \<Longrightarrow> \<not> pr_at_end (pf_reader s) \<Longrightarrow> pr_receiver (pf_reader s) \<Longrightarrow>
    pf_channel s = [] \<Longrightarrow> pf_worker s = Ended \<Longrightarrow> prefetched_take env (pf_reader s) None = (item, r) \<Longrightarrow>
    prefetch_step env s (s\<lparr>pf_reader := r, pf_items := pf_items s @ [item]\<rparr>)"
| unavailable: "pf_consumer s = Reading \<Longrightarrow> \<not> pr_at_end (pf_reader s) \<Longrightarrow> \<not> pr_receiver (pf_reader s) \<Longrightarrow>
    prefetch_step env s (s\<lparr>pf_reader := pr_finish (pf_reader s),
      pf_items := pf_items s @ [Err (Parse_Error m_receiver_unavailable)]\<rparr>)"
| finish: "pf_consumer s = Reading \<Longrightarrow> pr_at_end (pf_reader s) \<Longrightarrow>
    prefetch_step env s (s\<lparr>pf_reader := pr_finish (pf_reader s), pf_channel := [], pf_consumer := Saw_End\<rparr>)"

text \<open>The consumer may drop the reader between two calls.\<close>

inductive prefetch_reachable :: "'c reader_env \<Rightarrow> 'c prefetch \<Rightarrow> 'c prefetch \<Rightarrow> bool" for env s0 where
  start: "prefetch_reachable env s0 s0"
| step: "prefetch_reachable env s0 s \<Longrightarrow> prefetch_step env s s' \<Longrightarrow> prefetch_reachable env s0 s'"
| drop_reader: "prefetch_reachable env s0 s \<Longrightarrow> pf_consumer s = Reading \<Longrightarrow>
    prefetch_reachable env s0 (s\<lparr>pf_reader := pr_finish (pf_reader s), pf_channel := [], pf_consumer := Dropped\<rparr>)"

inductive_cases prefetch_stepE: "prefetch_step env s s'"

definition prefetched_new ::
  "'c \<Rightarrow> nat \<Rightarrow> result_column list \<Rightarrow> arrow_field list \<Rightarrow> nat \<Rightarrow> read_scheduler \<Rightarrow> bool \<Rightarrow> read_stats option \<Rightarrow> 'c prefetch" where
  "prefetched_new cursor rid cols schema total_rows scheduler adopt_frame stats =
     \<lparr>pf_worker = Fetching \<lparr>ft_cursor = cursor, ft_result_id = rid, ft_columns = cols, ft_total_rows = total_rows,
                            ft_scheduler = scheduler, ft_adopt_frame = adopt_frame, ft_next_row = 0\<rparr>,
      pf_channel = [], pf_recycle = [], pf_stats = stats,
      pf_reader = \<lparr>pr_result_id = rid, pr_columns = cols, pr_schema = schema, pr_total_rows = total_rows, pr_decoded_rows = 0,
                   pr_adopt_frame = adopt_frame, pr_receiver = True, pr_finished = False\<rparr>,
      pf_items = [], pf_consumer = Reading\<rparr>"

subsection \<open>The frames of the worker\<close>

definition frame_of :: "'c reader_env \<Rightarrow> 'c fetch_task \<Rightarrow> frame_result \<times> 'c fetch_task option" where
  "frame_of env t = (case fetch_frame env [] None t of (m, _, next_task, _) \<Rightarrow> (caught m, next_task))"

definition vec_documented :: "'c reader_env \<Rightarrow> bool" where
  "vec_documented env \<longleftrightarrow> (\<forall>capacity len. e_capacity env capacity len \<le> isize_max)"

lemma reserve_None:
  "buffer \<le> isize_max \<Longrightarrow>
   (if buffer < capacity then vec_reserve_exact 0 buffer capacity else Some buffer) = None \<longleftrightarrow> isize_max < capacity"
  by (auto simp: vec_reserve_exact_def vec_with_capacity_def)

lemma take_recycled_bound:
  "\<forall>c \<in> set recycle. c \<le> isize_max \<Longrightarrow> take_recycled t recycle = (buffer, recycled, recycle') \<Longrightarrow>
   buffer \<le> isize_max \<and> set recycle' \<subseteq> set recycle"
  by (auto simp: take_recycled_def split: if_splits list.splits)

lemma fetch_frame_Ok:
  assumes "fetch_frame env recycle stats t = (m, capacity, Some t', recycle', stats')"
  shows "ft_total_rows t' = ft_total_rows t \<and> ft_next_row t < ft_next_row t'"
  using assms
  by (auto simp: fetch_frame_def Let_def split: result.splits prod.splits option.splits if_splits)

lemma frame_of_Some: "frame_of env t = (m, Some t') \<Longrightarrow> ft_total_rows t' = ft_total_rows t \<and> ft_next_row t < ft_next_row t'"
  by (auto simp: frame_of_def split: prod.splits dest: fetch_frame_Ok)

text \<open>Which buffer the worker got back does not show in the frame it sends.\<close>

lemma fetch_frame_same:
  assumes c: "\<forall>c \<in> set recycle. c \<le> isize_max"
    and f: "fetch_frame env recycle stats t = (m, capacity, next_task, recycle', stats')"
  shows "frame_of env t = (caught m, next_task)" "vec_documented env \<Longrightarrow> capacity \<le> isize_max" "set recycle' \<subseteq> set recycle"
proof -
  consider (ok) requested s where "next_rows (ft_scheduler t) (ft_total_rows t - ft_next_row t) = (Ok (requested, s) :: (nat \<times> read_scheduler, arrow_error) result)"
    | (err) e where "next_rows (ft_scheduler t) (ft_total_rows t - ft_next_row t) = (Err e :: (nat \<times> read_scheduler, arrow_error) result)"
    | (panic) "next_rows (ft_scheduler t) (ft_total_rows t - ft_next_row t) = (Panic :: (nat \<times> read_scheduler, arrow_error) result)"
    by (cases "next_rows (ft_scheduler t) (ft_total_rows t - ft_next_row t) :: (nat \<times> read_scheduler, arrow_error) result") auto
  then have "frame_of env t = (caught m, next_task) \<and> (vec_documented env \<longrightarrow> capacity \<le> isize_max) \<and> set recycle' \<subseteq> set recycle"
  proof cases
    case ok
    let ?t = "t\<lparr>ft_scheduler := s\<rparr>"
    let ?w = "wanted_capacity ?t requested"
    obtain buffer recycled rest where r: "take_recycled ?t recycle = (buffer, recycled, rest)" by (cases "take_recycled ?t recycle")
    note b = take_recycled_bound [OF c r]
    have r0: "take_recycled ?t [] = (0, False, [])" by (simp add: take_recycled_def)
    show ?thesis
    proof (cases "isize_max < ?w")
      case True
      with reserve_None [of buffer ?w] reserve_None [of 0 ?w] b f ok r r0 show ?thesis
        by (simp add: fetch_frame_def frame_of_def Let_def)
    next
      case False
      with reserve_None [of buffer ?w] reserve_None [of 0 ?w] b obtain x y where
        "(if buffer < ?w then vec_reserve_exact 0 buffer ?w else Some buffer) = Some x"
        "(if 0 < ?w then vec_reserve_exact 0 0 ?w else Some 0) = Some y"
        by fastforce
      with b f ok r r0 show ?thesis
        by (auto simp: fetch_frame_def frame_of_def Let_def vec_documented_def split: result.splits prod.splits)
    qed
  qed (use f in \<open>auto simp: fetch_frame_def frame_of_def\<close>)
  then show "frame_of env t = (caught m, next_task)" "vec_documented env \<Longrightarrow> capacity \<le> isize_max" "set recycle' \<subseteq> set recycle"
    by simp_all
qed

function worker_frames :: "'c reader_env \<Rightarrow> 'c fetch_task \<Rightarrow> frame_result list" where
  "worker_frames env t =
     (if ft_total_rows t \<le> ft_next_row t then []
      else case frame_of env t of
        (m, None) \<Rightarrow> [m]
      | (m, Some t') \<Rightarrow> m # worker_frames env t')"
  by pat_completeness auto
termination
  by (relation "measure (\<lambda>(env, t). ft_total_rows t - ft_next_row t)") (auto dest!: frame_of_Some [OF sym])

declare worker_frames.simps [simp del]

subsection \<open>The sequential reading\<close>

text \<open>What a consumer is given that reads the whole sequence of messages of a worker that then ends.\<close>

fun consume_all :: "'c reader_env \<Rightarrow> prefetched_reader \<Rightarrow> frame_result list \<Rightarrow> (batch, arrow_error) result list" where
  "consume_all env r [] = (if pr_at_end r then [] else [fst (prefetched_take env r None)])"
| "consume_all env r (m # ms) =
     (if pr_at_end r then []
      else case prefetched_take env r (Some m) of (item, r) \<Rightarrow> item # consume_all env r ms)"

lemma consume_all_at_end: "pr_at_end r \<Longrightarrow> consume_all env r ms = []"
  by (cases ms) simp_all

definition pending_tail :: "'c reader_env \<Rightarrow> 'c fetch_task option \<Rightarrow> frame_result list" where
  "pending_tail env next_task = (case next_task of None \<Rightarrow> [] | Some t \<Rightarrow> worker_frames env t)"

fun pending :: "'c reader_env \<Rightarrow> 'c worker \<Rightarrow> frame_result list" where
  "pending env (Fetching t) = worker_frames env t"
| "pending env (Sending m capacity next_task) = m # pending_tail env next_task"
| "pending env Ended = []"

lemma pending_resume: "pending env (resume_worker next_task) = pending_tail env next_task"
  by (cases next_task) (simp_all add: resume_worker_def pending_tail_def)

text \<open>The items of a state and those still to come.\<close>

definition outcome :: "'c reader_env \<Rightarrow> 'c prefetch \<Rightarrow> (batch, arrow_error) result list" where
  "outcome env s = pf_items s @ (if pf_consumer s = Reading
     then consume_all env (pf_reader s) (map fst (pf_channel s) @ pending env (pf_worker s)) else [])"

definition prefetch_inv :: "'c prefetch \<Rightarrow> bool" where
  "prefetch_inv s \<longleftrightarrow>
     pr_receiver (pf_reader s) = (\<not> pr_finished (pf_reader s)) \<and>
     (pf_consumer s \<noteq> Reading \<longrightarrow> pr_finished (pf_reader s)) \<and>
     (\<forall>c \<in> set (pf_recycle s). c \<le> isize_max) \<and> (\<forall>(m, c) \<in> set (pf_channel s). c \<le> isize_max) \<and> length (pf_channel s) \<le> 1 \<and>
     (case pf_worker s of Sending m capacity next_task \<Rightarrow> capacity \<le> isize_max | _ \<Rightarrow> True)"

lemma prefetched_take_receiver:
  "prefetched_take env r m = (item, r') \<Longrightarrow> pr_receiver r = (\<not> pr_finished r) \<Longrightarrow> pr_receiver r' = (\<not> pr_finished r')"
  by (cases "(env, r, m)" rule: prefetched_take_inner.cases)
    (auto simp: prefetched_take_def pr_finish_def Let_def split: result.splits prod.splits if_splits)

lemma prefetched_take_finished: "prefetched_take env r None = (item, r') \<Longrightarrow> pr_finished r'"
  by (auto simp: prefetched_take_def pr_finish_def)

lemma prefetch_inv_new: "prefetch_inv (prefetched_new cursor rid cols schema total_rows scheduler adopt_frame stats)"
  by (simp add: prefetch_inv_def prefetched_new_def)

lemma prefetch_step_inv:
  assumes "prefetch_step env s s'" "vec_documented env" "prefetch_inv s"
  shows "prefetch_inv s'"
  using assms(1)
proof cases
  case (fetch t m capacity next_task recycle stats)
  with fetch_frame_same [OF _ fetch(4)] assms show ?thesis by (auto simp: prefetch_inv_def)
next
  case (receive m capacity channel item r)
  with prefetched_take_receiver [OF receive(6)] assms(3) show ?thesis
    by (auto simp: prefetch_inv_def give_back_def split: result.splits)
next
  case (disconnected item r)
  with prefetched_take_receiver [OF disconnected(7)] assms(3) show ?thesis by (auto simp: prefetch_inv_def)
qed (use assms(3) in \<open>auto simp: prefetch_inv_def resume_worker_def pr_finish_def split: option.splits worker.splits\<close>)

lemma prefetch_step_outcome:
  assumes "prefetch_step env s s'" "prefetch_inv s"
  shows "outcome env s' = outcome env s"
  using assms(1)
proof cases
  case (fetch t m capacity next_task recycle stats)
  have "\<forall>c \<in> set (pf_recycle s). c \<le> isize_max" using assms(2) by (simp add: prefetch_inv_def)
  from fetch_frame_same(1) [OF this fetch(4)] fetch(3)
  have "worker_frames env t = caught m # pending_tail env next_task"
    by (subst worker_frames.simps) (simp add: pending_tail_def split: option.splits)
  with fetch show ?thesis by (simp add: outcome_def)
next
  case (complete t)
  then have "worker_frames env t = []" by (simp add: worker_frames.simps)
  with complete show ?thesis by (simp add: outcome_def)
next
  case (hang_up m capacity next_task)
  with assms(2) have "pr_at_end (pf_reader s)" by (simp add: prefetch_inv_def pr_at_end_def)
  with hang_up show ?thesis by (simp add: outcome_def consume_all_at_end)
next
  case (receive m capacity channel item r)
  have "consume_all env r (map fst (if pr_receiver r then channel else []) @ pending env (pf_worker s)) =
      consume_all env r (map fst channel @ pending env (pf_worker s))"
  proof (cases "pr_receiver r")
    case False
    with prefetched_take_receiver [OF receive(6)] assms(2) have "pr_at_end r" by (simp add: prefetch_inv_def pr_at_end_def)
    then show ?thesis by (simp add: consume_all_at_end)
  qed simp
  with receive show ?thesis by (simp add: outcome_def)
next
  case (disconnected item r)
  with prefetched_take_finished [OF disconnected(7)] show ?thesis
    by (simp add: outcome_def consume_all_at_end pr_at_end_def)
next
  case unavailable
  with assms(2) show ?thesis by (simp add: prefetch_inv_def pr_at_end_def)
next
  case finish
  then show ?thesis by (simp add: outcome_def consume_all_at_end)
qed (simp_all add: outcome_def pending_resume)

text \<open>The steps left: three for every row the worker may still fetch, one for a message to receive, two to end.\<close>

fun worker_steps :: "'c worker \<Rightarrow> nat" where
  "worker_steps (Fetching t) = 3 * (ft_total_rows t - ft_next_row t) + 3"
| "worker_steps (Sending m capacity None) = 2"
| "worker_steps (Sending m capacity (Some t)) = 3 * (ft_total_rows t - ft_next_row t) + 5"
| "worker_steps Ended = 0"

definition steps_left :: "'c prefetch \<Rightarrow> nat" where
  "steps_left s = worker_steps (pf_worker s) + length (pf_channel s) +
     (if pf_consumer s \<noteq> Reading then 0 else if pr_finished (pf_reader s) then 1 else 2)"

lemma prefetch_step_decreases:
  assumes "prefetch_step env s s'" "prefetch_inv s"
  shows "steps_left s' < steps_left s"
  using assms(1)
proof cases
  case (fetch t m capacity next_task recycle stats)
  have "\<forall>c \<in> set (pf_recycle s). c \<le> isize_max" using assms(2) by (simp add: prefetch_inv_def)
  from fetch_frame_same(1) [OF this fetch(4)] frame_of_Some [of env t "caught m"]
  have "worker_steps (Sending (caught m) capacity next_task) < worker_steps (Fetching t)"
    using fetch(3) by (cases next_task) auto
  with fetch show ?thesis by (simp add: steps_left_def)
next
  case (send m capacity next_task)
  then show ?thesis by (cases next_task) (simp_all add: steps_left_def resume_worker_def)
next
  case (hang_up m capacity next_task)
  then show ?thesis by (cases next_task) (simp_all add: steps_left_def)
next
  case (receive m capacity channel item r)
  with assms(2) show ?thesis by (simp add: steps_left_def prefetch_inv_def)
next
  case (disconnected item r)
  with prefetched_take_finished [OF disconnected(7)] show ?thesis by (simp add: steps_left_def pr_at_end_def)
next
  case unavailable
  with assms(2) show ?thesis by (simp add: prefetch_inv_def pr_at_end_def)
qed (simp_all add: steps_left_def pr_finish_def)

lemma receive_enabled:
  assumes "pf_consumer s = Reading" "pr_receiver (pf_reader s)" "pf_channel s \<noteq> [] \<or> pf_worker s = Ended"
  shows "\<exists>s'. prefetch_step env s s'"
proof (cases "pr_at_end (pf_reader s)")
  case True
  with assms(1) show ?thesis by (blast intro: prefetch_step.finish)
next
  case False
  show ?thesis
  proof (cases "pf_channel s")
    case Nil
    obtain item r where "prefetched_take env (pf_reader s) None = (item, r)" by fastforce
    with Nil False assms show ?thesis by (blast intro: prefetch_step.disconnected)
  next
    case (Cons mc channel)
    moreover obtain m capacity where "mc = (m, capacity)" by fastforce
    moreover obtain item r where "prefetched_take env (pf_reader s) (Some m) = (item, r)" by fastforce
    ultimately show ?thesis using False assms by (blast intro: prefetch_step.receive)
  qed
qed

text \<open>While the consumer reads or the worker has not ended, some thread can move.\<close>

lemma prefetch_progress:
  assumes inv: "prefetch_inv s" and "pf_consumer s = Reading \<or> pf_worker s \<noteq> Ended"
  shows "\<exists>s'. prefetch_step env s s'"
proof (cases "pf_worker s")
  case (Fetching t)
  then show ?thesis
    by (cases "ft_next_row t < ft_total_rows t"; cases "fetch_frame env (pf_recycle s) (pf_stats s) t")
      (auto simp: not_less intro: prefetch_step.intros)
next
  case Ended
  with assms have r: "pf_consumer s = Reading" by simp
  show ?thesis
  proof (cases "pr_receiver (pf_reader s)")
    case False
    then have "pr_at_end (pf_reader s)" using inv by (simp add: prefetch_inv_def pr_at_end_def)
    with r show ?thesis by (blast intro: prefetch_step.finish)
  qed (use receive_enabled r Ended in blast)
next
  case (Sending m capacity next_task)
  consider (hung) "\<not> pr_receiver (pf_reader s)" | (room) "pr_receiver (pf_reader s)" "pf_channel s = []"
    | (full) "pr_receiver (pf_reader s)" "pf_channel s \<noteq> []" by blast
  then show ?thesis
  proof cases
    case full
    moreover from this have "pf_consumer s = Reading" using inv by (auto simp: prefetch_inv_def)
    ultimately show ?thesis by (blast intro: receive_enabled)
  qed (use Sending in \<open>blast intro: prefetch_step.intros\<close>)+
qed

subsection \<open>The messages and the batches they give\<close>

text \<open>A task and a reader of the same result that have come to the same row.\<close>

definition task_good :: "nat \<Rightarrow> result_column list \<Rightarrow> nat \<Rightarrow> 'c fetch_task \<Rightarrow> bool" where
  "task_good rid cols total_rows t \<longleftrightarrow> ft_result_id t = rid \<and> ft_columns t = cols \<and> ft_total_rows t = total_rows \<and>
     scheduler_ok (ft_scheduler t)"

lemma check_frame_Ok:
  "check_frame rid start requested response = Ok actual \<longleftrightarrow>
   (\<exists>h. parse_frame_header response = Ok h \<and> h_result_id h = int rid \<and> h_start_row h = start \<and>
      h_row_count h \<le> usize_max \<and> actual = h_row_count h \<and> actual \<le> requested)"
  by (cases "parse_frame_header response") (auto simp: check_frame_def usize_try_from_def split: if_splits)

lemma frame_of_Ok:
  assumes t: "task_good rid cols total_rows t" "ft_next_row t < total_rows" and f: "frame_of env t = (Ok frame, next_task)"
  obtains requested actual t' where
    "frame = \<lparr>bf_start_row = ft_next_row t, bf_requested_rows = requested, bf_response = bf_response frame\<rparr>"
    "snd (e_fetch env (ft_cursor t) (ft_next_row t) requested) = Ok (bf_response frame)" "ft_next_row t + requested \<le> total_rows"
    "check_frame rid (ft_next_row t) requested (bf_response frame) = Ok actual"
    "next_task = (if actual = 0 then None else Some t')" "task_good rid cols total_rows t'" "ft_next_row t' = ft_next_row t + actual"
proof -
  obtain m capacity recycle' stats' where g: "fetch_frame env [] None t = (m, capacity, next_task, recycle', stats')" "caught m = Ok frame"
    using f by (auto simp: frame_of_def split: prod.splits)
  then have g: "fetch_frame env [] None t = (Ok frame, capacity, next_task, recycle', stats')" by (cases m) simp_all
  have "scheduler_ok (ft_scheduler t)" "0 < ft_total_rows t - ft_next_row t" using t by (simp_all add: task_good_def)
  from next_rows_Ok [OF this, where 'a = arrow_error] obtain requested where
    n: "next_rows (ft_scheduler t) (ft_total_rows t - ft_next_row t) =
        (Ok (requested, (ft_scheduler t)\<lparr>previous_rows := Some requested\<rparr>) :: (nat \<times> read_scheduler, arrow_error) result)"
      "requested \<le> ft_total_rows t - ft_next_row t"
    by blast
  have ok: "scheduler_ok ((ft_scheduler t)\<lparr>previous_rows := Some requested\<rparr>)" using t by (simp add: task_good_def scheduler_ok_def)
  obtain cursor fetched where e: "e_fetch env (ft_cursor t) (ft_next_row t) requested = (cursor, fetched)" by fastforce
  from g n e obtain response actual where
    r: "fetched = Ok response" "check_frame (ft_result_id t) (ft_next_row t) requested response = Ok actual"
      "frame = \<lparr>bf_start_row = ft_next_row t, bf_requested_rows = requested, bf_response = response\<rparr>"
      "next_task = (if actual = 0 then None else Some (t\<lparr>ft_cursor := cursor,
         ft_scheduler := observe ((ft_scheduler t)\<lparr>previous_rows := Some requested\<rparr>) (length response) actual,
         ft_next_row := ft_next_row t + actual\<rparr>))"
    by (auto simp: fetch_frame_def Let_def take_recycled_def result_simps split: option.splits result.splits prod.splits if_splits)
  show ?thesis
    by (rule that [OF _ _ _ _ r(4)]) (use r e n(2) t scheduler_ok_observe [OF ok] in \<open>auto simp: task_good_def\<close>)
qed

lemma parsed_header:
  assumes "parse_frame frame = Ok f"
  shows "\<exists>h. parse_frame_header frame = Ok h \<and> h_result_id h = result_id f \<and> h_row_count h = row_count f \<and> h_start_row h = start_row f"
  using assms by (rule parse_frame_OkE) (simp add: parse_frame_header_def)

text \<open>The batch of a frame has as many rows as the header the worker has read.\<close>

lemma checked_frame_rows:
  assumes "check_frame rid start requested response = Ok actual"
    and "decode_frame lib pick response cols rid start req = Ok b"
  shows "b_rows b = actual"
proof -
  from assms(2) obtain f where f: "parse_frame response = Ok f" "row_count f = b_rows b" by (rule decode_frame_OkE)
  with parsed_header [OF f(1)] assms(1) show ?thesis by (auto simp: check_frame_Ok)
qed

lemma decode_binary_frame_Ok:
  assumes "schema_for_columns (pr_columns r) = Ok (pr_schema r)"
  shows "decode_binary_frame env r frame = map_err External_Decode (decode_frame (e_lib env) (e_pick env) (bf_response frame)
    (pr_columns r) (pr_result_id r) (bf_start_row frame) (bf_requested_rows frame))"
  using assms by (simp add: decode_binary_frame_def decode_frame_owned_with_schema_eq decode_frame_def)

subsection \<open>The sequential reading is a stream\<close>

definition channel_next ::
  "'c reader_env \<Rightarrow> prefetched_reader \<times> frame_result list
    \<Rightarrow> (batch, arrow_error) result option \<times> prefetched_reader \<times> frame_result list" where
  "channel_next env = (\<lambda>(r, ms).
     if pr_at_end r then (None, pr_finish r, [])
     else case ms of
       [] \<Rightarrow> (case prefetched_take env r None of (item, r) \<Rightarrow> (Some item, r, []))
     | m # ms \<Rightarrow> (case prefetched_take env r (Some m) of (item, r) \<Rightarrow> (Some item, r, ms)))"

lemma drain_channel:
  "length ms + 2 \<le> fuel \<Longrightarrow> \<exists>r'. drain (channel_next env) fuel (r, ms) = Some (consume_all env r ms, r')"
proof (induction ms arbitrary: r fuel)
  case Nil
  then obtain n where n: "fuel = Suc (Suc n)" by (metis add_2_eq_Suc' le_iff_add add.commute add_Suc_right list.size(3) add_0)
  obtain item r1 where t: "prefetched_take env r None = (item, r1)" by fastforce
  with prefetched_take_finished [OF t] show ?case by (auto simp: n channel_next_def pr_at_end_def)
next
  case (Cons m ms)
  then obtain n where n: "fuel = Suc n" "length ms + 2 \<le> n" by (cases fuel) auto
  obtain item r1 where t: "prefetched_take env r (Some m) = (item, r1)" by fastforce
  from Cons.IH [OF n(2), of r1] t show ?case by (auto simp: n(1) channel_next_def)
qed

definition channel_good :: "'c reader_env \<Rightarrow> nat \<Rightarrow> result_column list \<Rightarrow> nat \<Rightarrow> prefetched_reader \<times> frame_result list \<Rightarrow> bool" where
  "channel_good env rid cols total_rows = (\<lambda>(r, ms).
     pr_result_id r = rid \<and> pr_columns r = cols \<and> schema_for_columns cols = Ok (pr_schema r) \<and> pr_total_rows r = total_rows \<and>
     total_rows \<le> usize_max \<and>
     (pr_decoded_rows r = total_rows \<or> pr_decoded_rows r < total_rows \<and> \<not> pr_finished r \<and>
        (\<exists>t. task_good rid cols total_rows t \<and> ft_next_row t = pr_decoded_rows r \<and> ms = worker_frames env t)))"

lemma take_message_cases:
  assumes r: "pr_result_id r = rid" "pr_columns r = cols" "schema_for_columns cols = Ok (pr_schema r)"
      "pr_total_rows r = total_rows" "total_rows \<le> usize_max" "\<not> pr_finished r"
    and t: "task_good rid cols total_rows t" "ft_next_row t < total_rows" "ft_next_row t = pr_decoded_rows r"
    and f: "frame_of env t = (m, next_task)"
  shows "case prefetched_take env r (Some m) of
      (Ok b, r') \<Rightarrow> channel_good env rid cols total_rows (r', pending_tail env next_task) \<and> 0 < b_rows b \<and>
        fetched_batch env rid cols total_rows (ft_next_row t) b \<and> pr_decoded_rows r' = ft_next_row t + b_rows b
    | (Err e, r') \<Rightarrow> pr_finished r'
    | (Panic, r') \<Rightarrow> False"
proof (cases m)
  case (Ok frame)
  from frame_of_Ok [OF t(1,2) f [unfolded Ok]] obtain requested actual t' where
    fr: "frame = \<lparr>bf_start_row = ft_next_row t, bf_requested_rows = requested, bf_response = bf_response frame\<rparr>"
    and e: "snd (e_fetch env (ft_cursor t) (ft_next_row t) requested) = Ok (bf_response frame)" "ft_next_row t + requested \<le> total_rows"
    and c: "check_frame rid (ft_next_row t) requested (bf_response frame) = Ok actual"
    and next_task: "next_task = (if actual = 0 then None else Some t')" "task_good rid cols total_rows t'"
      "ft_next_row t' = ft_next_row t + actual" .
  from fr have bf: "bf_start_row frame = ft_next_row t" "bf_requested_rows frame = requested" by (metis binary_frame.select_convs)+
  let ?d = "decode_frame (e_lib env) (e_pick env) (bf_response frame) cols rid (ft_next_row t) requested"
  have d: "decode_binary_frame env r frame = map_err External_Decode ?d"
    using decode_binary_frame_Ok [of r env frame] r bf by simp
  have rows: "actual \<le> requested" using c by (auto simp: check_frame_Ok)
  show ?thesis
  proof (cases ?d)
    case (Ok b)
    note same = checked_frame_rows [OF c Ok]
    then have "b_rows b \<le> requested" using rows by simp
    with e Ok have fb: "fetched_batch env rid cols total_rows (ft_next_row t) b" unfolding fetched_batch_def by blast
    show ?thesis
    proof (cases "actual = 0")
      case True
      with same d Ok \<open>m = Ok frame\<close> show ?thesis by (simp add: prefetched_take_def pr_finish_def)
    next
      case False
      with same rows e(2) r d Ok t(3) fb next_task \<open>m = Ok frame\<close> show ?thesis
        by (auto simp: prefetched_take_def pr_finish_def channel_good_def pending_tail_def Let_def)
    qed
  qed (use d \<open>m = Ok frame\<close> in \<open>simp_all add: prefetched_take_def pr_finish_def\<close>)
qed (simp_all add: prefetched_take_def pr_finish_def)

lemma channel_next_cases:
  assumes g: "channel_good env rid cols total_rows (r, ms)"
  shows "case channel_next env (r, ms) of
      (None, r', ms') \<Rightarrow> pr_decoded_rows r = total_rows \<and> pr_finished r'
    | (Some (Ok b), r', ms') \<Rightarrow> channel_good env rid cols total_rows (r', ms') \<and> 0 < b_rows b \<and>
        pr_decoded_rows r' = pr_decoded_rows r + b_rows b \<and> fetched_batch env rid cols total_rows (pr_decoded_rows r) b
    | (Some (Err e), r', ms') \<Rightarrow> pr_finished r' \<and> pr_decoded_rows r < total_rows
    | (Some Panic, r', ms') \<Rightarrow> False"
proof (cases "pr_decoded_rows r = total_rows")
  case True
  with g show ?thesis by (simp add: channel_good_def channel_next_def pr_at_end_def pr_finish_def)
next
  case False
  with g obtain t where r: "pr_result_id r = rid" "pr_columns r = cols" "schema_for_columns cols = Ok (pr_schema r)"
      "pr_total_rows r = total_rows" "total_rows \<le> usize_max" "\<not> pr_finished r" "pr_decoded_rows r < total_rows"
    and t: "task_good rid cols total_rows t" "ft_next_row t = pr_decoded_rows r" "ms = worker_frames env t"
    by (auto simp: channel_good_def)
  obtain m next_task where f: "frame_of env t = (m, next_task)" by fastforce
  have "ms = m # pending_tail env next_task"
    using t r(7) f by (subst t(3), subst worker_frames.simps) (simp add: task_good_def pending_tail_def split: option.splits)
  moreover have "\<not> pr_at_end r" using r by (simp add: pr_at_end_def)
  moreover have "ft_next_row t < total_rows" using t(2) r(7) by simp
  moreover note take_message_cases [OF r(1-6) t(1) this t(2) f]
  ultimately show ?thesis using r(7) t(2)
    by (simp add: channel_next_def split: prod.splits result.splits)
qed

interpretation prefetched: row_stream "channel_good env rid cols total_rows" "channel_next env" b_rows "\<lambda>(r, ms). pr_decoded_rows r"
    "\<lambda>(r, ms). total_rows - pr_decoded_rows r" "fetched_batch env rid cols total_rows" "\<lambda>(r, ms). pr_finished r"
  for rid cols total_rows and env :: "'c reader_env"
proof
  fix s s' :: "prefetched_reader \<times> frame_result list" and b e assume g: "channel_good env rid cols total_rows s"
  obtain r ms r' ms' where s: "s = (r, ms)" "s' = (r', ms')" by fastforce
  note c = channel_next_cases [OF g [unfolded s(1)]]
  have le: "pr_decoded_rows r' \<le> total_rows" if "channel_good env rid cols total_rows (r', ms')"
    using that by (auto simp: channel_good_def)
  show "channel_next env s = (Some (Ok b), s') \<Longrightarrow> channel_good env rid cols total_rows s' \<and> 0 < b_rows b \<and>
      fetched_batch env rid cols total_rows (case s of (r, ms) \<Rightarrow> pr_decoded_rows r) b \<and>
      (case s' of (r, ms) \<Rightarrow> pr_decoded_rows r) = (case s of (r, ms) \<Rightarrow> pr_decoded_rows r) + b_rows b \<and>
      (case s of (r, ms) \<Rightarrow> total_rows - pr_decoded_rows r) = b_rows b + (case s' of (r, ms) \<Rightarrow> total_rows - pr_decoded_rows r)"
    using c le by (auto simp: s)
  show "channel_next env s = (Some (Err e), s') \<Longrightarrow> (case s' of (r, ms) \<Rightarrow> pr_finished r) \<and>
      0 < (case s of (r, ms) \<Rightarrow> total_rows - pr_decoded_rows r)" using c by (auto simp: s)
  show "channel_next env s = (None, s') \<Longrightarrow> (case s of (r, ms) \<Rightarrow> total_rows - pr_decoded_rows r) = 0 \<and>
      (case s' of (r, ms) \<Rightarrow> pr_finished r)" using c by (auto simp: s)
  show "fst (channel_next env s) \<noteq> Some Panic" using c by (auto simp: s split: prod.splits)
qed (auto simp: channel_next_def pr_at_end_def pr_finish_def)

subsection \<open>Every interleaving gives the sequential reading\<close>

lemma prefetch_step_dropped: "prefetch_step env s s' \<Longrightarrow> pf_consumer s' = Dropped \<longleftrightarrow> pf_consumer s = Dropped"
  by (elim prefetch_stepE) simp_all

lemma prefetch_reachable_inv:
  assumes "prefetch_reachable env s0 s" "vec_documented env" "prefetch_inv s0"
  shows "prefetch_inv s \<and> (\<exists>rest. pf_items s @ rest = outcome env s0) \<and> (pf_consumer s \<noteq> Dropped \<longrightarrow> outcome env s = outcome env s0)"
  using assms(1)
proof induction
  case start
  then show ?case using assms(3) by (simp add: outcome_def)
next
  case (step s s')
  then have inv: "prefetch_inv s" by simp
  note same = prefetch_step_dropped [OF step.hyps(2)]
  from prefetch_step_outcome [OF step.hyps(2) inv]
  have o: "pf_consumer s' \<noteq> Dropped \<longrightarrow> outcome env s' = outcome env s0" using step.IH same by simp
  have "\<exists>rest. pf_items s' @ rest = outcome env s0"
  proof (cases "pf_consumer s' = Dropped")
    case False
    with o have "outcome env s' = outcome env s0" by simp
    then show ?thesis unfolding outcome_def [of env s'] by blast
  next
    case True
    with same have "pf_consumer s = Dropped" by simp
    with step.hyps(2) have "pf_items s' = pf_items s" by cases simp_all
    with step.IH show ?thesis by simp
  qed
  with o prefetch_step_inv [OF step.hyps(2) assms(2) inv] show ?case by blast
next
  case (drop_reader s)
  then show ?case by (auto simp: prefetch_inv_def pr_finish_def split: worker.splits)
qed

lemma prefetch_steps_inv:
  assumes "(prefetch_step env ^^ n) s0 s" "vec_documented env" "prefetch_inv s0" "pf_consumer s0 = Reading"
  shows "prefetch_reachable env s0 s \<and> pf_consumer s \<noteq> Dropped \<and> n + steps_left s \<le> steps_left s0"
  using assms(1)
proof (induction n arbitrary: s)
  case 0
  then show ?case using assms(4) prefetch_reachable.start by simp
next
  case (Suc n)
  then obtain s1 where s1: "(prefetch_step env ^^ n) s0 s1" "prefetch_step env s1 s" by auto
  note IH = Suc.IH [OF s1(1)]
  have "prefetch_inv s1" using prefetch_reachable_inv [of env s0 s1] IH assms by blast
  from prefetch_step_decreases [OF s1(2) this] IH prefetch_step_dropped [OF s1(2)]
    prefetch_reachable.step [OF _ s1(2)] show ?case by auto
qed

text \<open>A run that reads to the end exists.\<close>

lemma prefetch_completes:
  assumes "vec_documented env" "prefetch_inv s0"
  shows "prefetch_reachable env s0 s \<Longrightarrow> pf_consumer s \<noteq> Dropped \<Longrightarrow>
    \<exists>s'. prefetch_reachable env s0 s' \<and> pf_consumer s' = Saw_End"
proof (induction "steps_left s" arbitrary: s rule: less_induct)
  case less
  have inv: "prefetch_inv s" using prefetch_reachable_inv [OF less.prems(1) assms] by blast
  show ?case
  proof (cases "pf_consumer s = Reading")
    case True
    then obtain s1 where s1: "prefetch_step env s s1" using prefetch_progress [OF inv] by blast
    show ?thesis
      by (rule less.hyps [OF prefetch_step_decreases [OF s1 inv] prefetch_reachable.step [OF less.prems(1) s1]])
        (use prefetch_step_dropped [OF s1] less.prems(2) in simp)
  next
    case False
    with less.prems show ?thesis by (cases "pf_consumer s") auto
  qed
qed

lemma outcome_stream:
  assumes "schema_for_columns cols = Ok schema" "scheduler_ok scheduler" "total_rows \<le> usize_max"
  shows "\<exists>bs tail. outcome env (prefetched_new cursor rid cols schema total_rows scheduler adopt_frame stats) = map Ok bs @ tail \<and>
      consecutive b_rows (fetched_batch env rid cols total_rows) 0 bs \<and>
      (tail = [] \<and> sum_list (map b_rows bs) = total_rows \<or> (\<exists>e. tail = [Err e]) \<and> sum_list (map b_rows bs) < total_rows)"
proof -
  let ?s = "prefetched_new cursor rid cols schema total_rows scheduler adopt_frame stats"
  obtain t where w: "pf_worker ?s = Fetching t" and t: "task_good rid cols total_rows t" "ft_next_row t = 0"
    using assms(2) by (simp add: prefetched_new_def task_good_def)
  let ?r = "pf_reader ?s" and ?ms = "worker_frames env t"
  have o: "outcome env ?s = consume_all env ?r ?ms" using w by (simp add: outcome_def) (simp add: prefetched_new_def)
  have d: "pr_decoded_rows ?r = 0" by (simp add: prefetched_new_def)
  have g: "channel_good env rid cols total_rows (?r, ?ms)"
    using assms t by (auto simp: channel_good_def) (auto simp: prefetched_new_def)
  define fuel where "fuel = max (total_rows + 2) (length ?ms + 2)"
  obtain r' where "drain (channel_next env) fuel (?r, ?ms) = Some (consume_all env ?r ?ms, r')"
    using drain_channel [of ?ms fuel env ?r] by (auto simp: fuel_def)
  moreover have "\<exists>bs tail r'. drain (channel_next env) fuel (?r, ?ms) = Some (map Ok bs @ tail, r') \<and>
      consecutive b_rows (fetched_batch env rid cols total_rows) 0 bs \<and>
      (tail = [] \<and> sum_list (map b_rows bs) = total_rows \<or> (\<exists>e. tail = [Err e]) \<and> sum_list (map b_rows bs) < total_rows)"
    using prefetched.drain_stream [OF g, of fuel] unfolding fuel_def by (simp add: d) blast
  ultimately show ?thesis unfolding o by auto
qed

text \<open>
  C2 (prefetching does not change the result). However the worker and the consumer interleave, and whichever buffers
  are reused, the consumer is given a prefix of one sequence of items, which depends on the server's answers only,
  and all of it when it reads to the end. These are consecutive non-empty batches, decoded from answers to windows
  that start where the previous batch ended, with every row of the result, or with fewer and one error after them.
\<close>

theorem prefetch_outcome:
  assumes "schema_for_columns cols = Ok schema" "scheduler_reachable scheduler" "total_rows \<le> usize_max" "vec_documented env"
  shows "\<exists>bs tail. (tail = [] \<and> sum_list (map b_rows bs) = total_rows \<or> (\<exists>e. tail = [Err e]) \<and> sum_list (map b_rows bs) < total_rows) \<and>
      consecutive b_rows (fetched_batch env rid cols total_rows) 0 bs \<and>
      (\<forall>s. prefetch_reachable env (prefetched_new cursor rid cols schema total_rows scheduler adopt_frame stats) s \<longrightarrow>
         (\<exists>rest. pf_items s @ rest = map Ok bs @ tail \<and> (pf_consumer s = Saw_End \<longrightarrow> rest = [])))"
proof -
  have "scheduler_ok scheduler" using scheduler_reachable_inv [OF assms(2)] by (simp add: scheduler_inv_def)
  from outcome_stream [OF assms(1) this assms(3), of env cursor rid adopt_frame stats] obtain bs tail where
    o: "outcome env (prefetched_new cursor rid cols schema total_rows scheduler adopt_frame stats) = map Ok bs @ tail"
      "consecutive b_rows (fetched_batch env rid cols total_rows) 0 bs"
      "tail = [] \<and> sum_list (map b_rows bs) = total_rows \<or> (\<exists>e. tail = [Err e]) \<and> sum_list (map b_rows bs) < total_rows"
    by blast
  have "\<exists>rest. pf_items s @ rest = map Ok bs @ tail \<and> (pf_consumer s = Saw_End \<longrightarrow> rest = [])"
    if "prefetch_reachable env (prefetched_new cursor rid cols schema total_rows scheduler adopt_frame stats) s" for s
    using prefetch_reachable_inv [OF that assms(4) prefetch_inv_new] o(1)
    by (cases "pf_consumer s") (auto simp: outcome_def [of env s])
  with o(2,3) show ?thesis by blast
qed

text \<open>
  C12 (prefetching neither deadlocks nor runs for ever). From a new prefetching reader the two threads make at most
  \<open>3 * total_rows + 5\<close> steps together, in any order, and they can make another one until the consumer has been told
  the end and the worker has returned.
\<close>

theorem prefetch_terminates:
  assumes "vec_documented env"
    and "(prefetch_step env ^^ n) (prefetched_new cursor rid cols schema total_rows scheduler adopt_frame stats) s"
  shows "n \<le> 3 * total_rows + 5 \<and> ((\<exists>s'. prefetch_step env s s') \<or> pf_consumer s = Saw_End \<and> pf_worker s = Ended)"
proof -
  let ?s = "prefetched_new cursor rid cols schema total_rows scheduler adopt_frame stats"
  have "pf_consumer ?s = Reading" "steps_left ?s = 3 * total_rows + 5" by (simp_all add: prefetched_new_def steps_left_def)
  with prefetch_steps_inv [OF assms(2,1) prefetch_inv_new] have
    s: "prefetch_reachable env ?s s" "pf_consumer s \<noteq> Dropped" "n \<le> 3 * total_rows + 5" by auto
  with prefetch_reachable_inv [OF s(1) assms(1) prefetch_inv_new] prefetch_progress [of s env] show ?thesis
    by (cases "pf_consumer s") auto
qed

subsection \<open>Prefetching and reading window by window\<close>

text \<open>Every window is answered with exactly the rows asked for.\<close>

definition answers_in_full :: "'c reader_env \<Rightarrow> nat \<Rightarrow> result_column list \<Rightarrow> nat \<Rightarrow> nat \<Rightarrow> bool" where
  "answers_in_full env rid cols total_rows len \<longleftrightarrow>
     (\<forall>cursor start requested. 0 < requested \<longrightarrow> start + requested \<le> total_rows \<longrightarrow>
        (\<exists>frame b. snd (e_fetch env cursor start requested) = Ok frame \<and> length frame \<le> len \<and>
           decode_frame (e_lib env) (e_pick env) frame cols rid start requested = Ok b \<and> b_rows b = requested))"

lemma answers_in_full: "answers_in_full env rid cols total_rows len \<Longrightarrow> answers env rid cols total_rows len"
  unfolding answers_in_full_def answers_def by (metis less_irrefl)

text \<open>The reader, the worker and the consumer are at the same row of the same result.\<close>

definition in_step :: "'c binary_reader \<Rightarrow> 'c fetch_task \<Rightarrow> prefetched_reader \<Rightarrow> bool" where
  "in_step b t r \<longleftrightarrow>
     ft_cursor t = br_cursor b \<and> ft_result_id t = br_result_id b \<and> ft_columns t = br_columns b \<and> ft_total_rows t = br_total_rows b \<and>
     ft_scheduler t = br_scheduler b \<and> ft_next_row t = br_next_row b \<and>
     pr_result_id r = br_result_id b \<and> pr_columns r = br_columns b \<and> pr_schema r = br_schema b \<and>
     pr_total_rows r = br_total_rows b \<and> pr_decoded_rows r = br_next_row b"

lemma frame_of_answered:
  assumes fit: "buffers_fit cols total_rows len width" "estimated_bytes_per_row (ft_scheduler t) \<le> width" "requested \<le> total_rows"
    and t: "ft_columns t = cols" "ft_total_rows t = total_rows"
    and n: "next_rows (ft_scheduler t) (total_rows - ft_next_row t) =
        (Ok (requested, s) :: (nat \<times> read_scheduler, arrow_error) result)" "estimated_bytes_per_row s = estimated_bytes_per_row (ft_scheduler t)"
    and f: "e_fetch env (ft_cursor t) (ft_next_row t) requested = (cursor, Ok frame)"
      "check_frame (ft_result_id t) (ft_next_row t) requested frame = Ok requested" "0 < requested"
  shows "frame_of env t = (Ok \<lparr>bf_start_row = ft_next_row t, bf_requested_rows = requested, bf_response = frame\<rparr>,
    Some (t\<lparr>ft_cursor := cursor, ft_scheduler := observe s (length frame) requested, ft_next_row := ft_next_row t + requested\<rparr>))"
proof -
  note c = capacity_fits [OF fit(1) _ fit(3), of s]
  have "wanted_capacity (t\<lparr>ft_scheduler := s\<rparr>) requested \<le> isize_max"
    using c fit(2) n(2) t(1) by (simp add: wanted_capacity_def)
  with reserve_None [of 0 "wanted_capacity (t\<lparr>ft_scheduler := s\<rparr>) requested"] obtain buffer where
    "(if 0 < wanted_capacity (t\<lparr>ft_scheduler := s\<rparr>) requested
      then vec_reserve_exact 0 0 (wanted_capacity (t\<lparr>ft_scheduler := s\<rparr>) requested) else Some 0) = Some buffer"
    by fastforce
  moreover have "take_recycled (t\<lparr>ft_scheduler := s\<rparr>) [] = (0, False, [])" by (simp add: take_recycled_def)
  ultimately show ?thesis using n(1) t(2) f by (simp add: frame_of_def fetch_frame_def Let_def)
qed

lemma answered_next:
  assumes v: "served env rid cols total_rows len width b" and full: "answers_in_full env rid cols total_rows len"
    and lt: "br_next_row b < total_rows"
  obtains requested s cursor frame batch b' where
    "next_rows (br_scheduler b) (total_rows - br_next_row b) = (Ok (requested, s) :: (nat \<times> read_scheduler, arrow_error) result)"
    "estimated_bytes_per_row s = estimated_bytes_per_row (br_scheduler b)" "0 < requested" "br_next_row b + requested \<le> total_rows"
    "e_fetch env (br_cursor b) (br_next_row b) requested = (cursor, Ok frame)"
    "decode_frame (e_lib env) (e_pick env) frame cols rid (br_next_row b) requested = Ok batch" "b_rows batch = requested"
    "check_frame rid (br_next_row b) requested frame = Ok requested"
    "reader_next env b = (Some (Ok batch), b')" "served env rid cols total_rows len width b'"
    "br_cursor b' = cursor" "br_scheduler b' = observe s (length frame) requested" "br_next_row b' = br_next_row b + requested"
    "br_schema b' = br_schema b"
proof -
  from v have g: "reader_good rid cols total_rows b" and fit: "buffers_fit cols total_rows len width"
    and est: "estimated_bytes_per_row (br_scheduler b) \<le> width" and len: "length (br_response b) \<le> len"
    by (simp_all add: served_def)
  from reader_request [OF g lt] obtain requested where
    n: "next_rows (br_scheduler b) (total_rows - br_next_row b) =
        (Ok (requested, (br_scheduler b)\<lparr>previous_rows := Some requested\<rparr>) :: (nat \<times> read_scheduler, arrow_error) result)"
    and req: "0 < requested" "br_next_row b + requested \<le> total_rows" .
  let ?b = "b\<lparr>br_scheduler := (br_scheduler b)\<lparr>previous_rows := Some requested\<rparr>\<rparr>"
  have g': "reader_good rid cols total_rows ?b" using g by (simp add: reader_good_def scheduler_ok_def)
  obtain cursor frame batch where f: "e_fetch env (br_cursor b) (br_next_row b) requested = (cursor, Ok frame)" "length frame \<le> len"
    "decode_frame (e_lib env) (e_pick env) frame cols rid (br_next_row b) requested = Ok batch" "b_rows batch = requested"
    using full req unfolding answers_in_full_def by (metis prod.collapse)
  from fitting_window [OF g' fit, of frame requested env cursor batch] est len f req obtain b1 where
    w: "window env ?b requested = (Ok batch, b1)" "br_cursor b1 = cursor"
      "br_scheduler b1 = observe ((br_scheduler b)\<lparr>previous_rows := Some requested\<rparr>) (length frame) requested"
    by auto
  have st: "br_next_row b1 = br_next_row b \<and> br_schema b1 = br_schema b"
    using window_result(1) [OF w(1)] g' by (simp add: reader_good_def)
  have next_b: "reader_next env b = (Some (Ok batch), b1\<lparr>br_next_row := br_next_row b + requested\<rparr>)"
    using n w(1) st lt g req f(4) by (simp add: reader_next_def reader_next_inner_def reader_good_def)
  from f(3) obtain p where p: "parse_frame frame = Ok p" "row_count p = b_rows batch" "result_id p = int rid" "start_row p = br_next_row b"
    by (rule decode_frame_OkE)
  have "check_frame rid (br_next_row b) requested frame = Ok requested"
    using parsed_header [OF p(1)] p f(4) req g by (auto simp: check_frame_Ok reader_good_def)
  with that [OF n _ req f(1,3,4) _ next_b] served_next [OF v next_b] w st show ?thesis by simp
qed

lemma same_reading:
  assumes full: "answers_in_full env rid cols total_rows len"
  shows "served env rid cols total_rows len width b \<Longrightarrow> in_step b t r \<Longrightarrow> pr_finished r = (br_next_row b = total_rows \<and> pr_finished r) \<Longrightarrow>
    total_rows - br_next_row b + 2 \<le> fuel \<Longrightarrow>
    \<exists>b'. drain (reader_next env) fuel b = Some (consume_all env r (worker_frames env t), b')"
proof (induction fuel arbitrary: b t r)
  case (Suc fuel)
  from Suc.prems(1) have g: "reader_good rid cols total_rows b" and fit: "buffers_fit cols total_rows len width"
    and est: "estimated_bytes_per_row (br_scheduler b) \<le> width"
    by (simp_all add: served_def)
  show ?case
  proof (cases "br_next_row b = total_rows")
    case True
    with g Suc.prems(2) have "pr_at_end r" by (simp add: in_step_def pr_at_end_def reader_good_def)
    moreover have "reader_next env b = (None, b\<lparr>br_finished := True\<rparr>)"
      using True g by (simp add: reader_next_def reader_next_inner_def reader_good_def)
    ultimately show ?thesis by (simp add: consume_all_at_end)
  next
    case False
    with g have lt: "br_next_row b < total_rows" by (simp add: reader_good_def)
    from answered_next [OF Suc.prems(1) full lt] obtain requested s cursor frame batch b' where
      n: "next_rows (br_scheduler b) (total_rows - br_next_row b) = (Ok (requested, s) :: (nat \<times> read_scheduler, arrow_error) result)"
        "estimated_bytes_per_row s = estimated_bytes_per_row (br_scheduler b)" "0 < requested" "br_next_row b + requested \<le> total_rows"
      and f: "e_fetch env (br_cursor b) (br_next_row b) requested = (cursor, Ok frame)"
        "decode_frame (e_lib env) (e_pick env) frame cols rid (br_next_row b) requested = Ok batch" "b_rows batch = requested"
        "check_frame rid (br_next_row b) requested frame = Ok requested"
      and b': "reader_next env b = (Some (Ok batch), b')" "served env rid cols total_rows len width b'"
        "br_cursor b' = cursor" "br_scheduler b' = observe s (length frame) requested" "br_next_row b' = br_next_row b + requested"
        "br_schema b' = br_schema b" .
    let ?t = "t\<lparr>ft_cursor := cursor, ft_scheduler := observe s (length frame) requested, ft_next_row := ft_next_row t + requested\<rparr>"
    let ?f = "\<lparr>bf_start_row = ft_next_row t, bf_requested_rows = requested, bf_response = frame\<rparr>"
    have c: "ft_columns t = cols" "ft_total_rows t = total_rows" "ft_result_id t = rid" "ft_next_row t = br_next_row b"
      "ft_cursor t = br_cursor b" "ft_scheduler t = br_scheduler b"
      using Suc.prems(2) g by (simp_all add: in_step_def reader_good_def)
    have "frame_of env t = (Ok ?f, Some ?t)"
      by (rule frame_of_answered [OF fit]) (use c n f est in simp_all)
    then have wf: "worker_frames env t = Ok ?f # worker_frames env ?t"
      using c lt by (subst worker_frames.simps) simp
    have r: "pr_columns r = cols" "pr_result_id r = rid" "schema_for_columns cols = Ok (pr_schema r)" "\<not> pr_finished r"
        "pr_total_rows r = total_rows" "pr_decoded_rows r = br_next_row b" "total_rows \<le> usize_max"
      using Suc.prems(2,3) g False by (simp_all add: in_step_def reader_good_def)
    define r1 where "r1 = r\<lparr>pr_decoded_rows := br_next_row b + requested\<rparr>"
    define r' where "r' = (if total_rows \<le> br_next_row b + requested then pr_finish r1 else r1)"
    have "decode_binary_frame env r ?f = Ok batch" using decode_binary_frame_Ok [of r env ?f] r f c by simp
    then have tk: "prefetched_take env r (Some (Ok ?f)) = (Ok batch, r')"
      using r f(3) n(3,4) by (auto simp: prefetched_take_def r'_def r1_def Let_def)
    have "in_step b' ?t r'"
      using Suc.prems(2) b' c g by (simp add: in_step_def r'_def r1_def pr_finish_def served_def reader_good_def)
    moreover have "pr_finished r' = (br_next_row b' = total_rows \<and> pr_finished r')"
      using r(4) n(4) b'(5) by (auto simp: r'_def r1_def pr_finish_def)
    moreover have "total_rows - br_next_row b' + 2 \<le> fuel" using Suc.prems(4) b'(5) n(3,4) by simp
    ultimately obtain b'' where "drain (reader_next env) fuel b' = Some (consume_all env r' (worker_frames env ?t), b'')"
      using Suc.IH [OF b'(2)] by blast
    moreover have "\<not> pr_at_end r" using r lt by (simp add: pr_at_end_def)
    ultimately show ?thesis using b'(1) wf tk by simp
  qed
qed simp

text \<open>
  C11 (prefetching and not prefetching agree). When the server answers every window in full and the buffers can be
  allocated, every run of the prefetching reader that reaches the end gives the consumer exactly the items the
  \<open>BinaryReader\<close> of the same result gives.
\<close>

theorem prefetch_equals_reader:
  assumes "schema_for_columns cols = Ok schema" "scheduler_reachable scheduler" "total_rows \<le> usize_max" "vec_documented env"
    and "answers_in_full env rid cols total_rows len" "buffers_fit cols total_rows len width" "estimated_bytes_per_row scheduler \<le> width"
    and "prefetch_reachable env (prefetched_new cursor rid cols schema total_rows scheduler adopt_frame stats) s"
    and "pf_consumer s = Saw_End"
  shows "\<exists>b'. drain (reader_next env) (total_rows + 2)
    (binary_reader_new cursor rid cols schema total_rows scheduler adopt_frame stats) = Some (pf_items s, b')"
proof -
  let ?b = "binary_reader_new cursor rid cols schema total_rows scheduler adopt_frame stats"
  let ?s = "prefetched_new cursor rid cols schema total_rows scheduler adopt_frame stats"
  obtain t where w: "pf_worker ?s = Fetching t" and st: "in_step ?b t (pf_reader ?s)"
    by (simp add: prefetched_new_def binary_reader_new_def in_step_def)
  have o: "outcome env ?s = consume_all env (pf_reader ?s) (worker_frames env t)"
    using w by (simp add: outcome_def) (simp add: prefetched_new_def)
  have v: "served env rid cols total_rows len width ?b"
    using assms(1,3,6,7) answers_in_full [OF assms(5)] scheduler_reachable_inv [OF assms(2)]
    by (simp add: served_def reader_good_def binary_reader_new_def scheduler_inv_def)
  have "\<not> pr_finished (pf_reader ?s)" by (simp add: prefetched_new_def)
  then have "\<exists>b'. drain (reader_next env) (total_rows + 2) ?b = Some (outcome env ?s, b')"
    unfolding o by (intro same_reading [OF assms(5) v st]) simp_all
  moreover have "pf_items s = outcome env ?s"
    using prefetch_reachable_inv [OF assms(8,4) prefetch_inv_new] assms(9) by (simp add: outcome_def [of env s])
  ultimately show ?thesis by simp
qed

subsection \<open>Samples\<close>

lemma sample_vec: "vec_documented sample_env"
  by (simp add: vec_documented_def sample_env_def)

lemma sample_answers_in_full: "answers_in_full sample_env 5 sample_column 1 128"
  unfolding answers_in_full_def
proof (intro allI impI)
  fix cursor :: unit and start requested :: nat assume "0 < requested" "start + requested \<le> 1"
  then have "start < 2" "requested = 1" by simp_all
  with sample_row_decodes [of start 1]
  show "\<exists>frame b. snd (e_fetch sample_env cursor start requested) = Ok frame \<and> length frame \<le> 128 \<and>
      decode_frame (e_lib sample_env) (e_pick sample_env) frame sample_column 5 start requested = Ok b \<and> b_rows b = requested"
    by (simp add: sample_env_def) (simp add: sample_row_def)
qed

definition sample_prefetch :: "nat \<Rightarrow> unit prefetch" where
  "sample_prefetch total_rows = prefetched_new () 5 sample_column (b_schema sample_row) total_rows sample_start False None"

theorem prefetch_outcome_witness:
  "\<exists>bs tail. (tail = [] \<and> sum_list (map b_rows bs) = 2 \<or> (\<exists>e. tail = [Err e]) \<and> sum_list (map b_rows bs) < 2) \<and>
     consecutive b_rows (fetched_batch sample_env 5 sample_column 2) 0 bs \<and>
     (\<exists>rest. pf_items (sample_prefetch 2) @ rest = map Ok bs @ tail)"
proof -
  have "(2 :: nat) \<le> usize_max" by simp
  from prefetch_outcome [OF sample_schema sample_start_reachable this sample_vec, where rid = 5 and cursor = "()"
      and adopt_frame = False and stats = None] obtain bs tail where
    "tail = [] \<and> sum_list (map b_rows bs) = 2 \<or> (\<exists>e. tail = [Err e]) \<and> sum_list (map b_rows bs) < 2"
    "consecutive b_rows (fetched_batch sample_env 5 sample_column 2) 0 bs"
    and s: "\<forall>s. prefetch_reachable sample_env (sample_prefetch 2) s \<longrightarrow>
      (\<exists>rest. pf_items s @ rest = map Ok bs @ tail \<and> (pf_consumer s = Saw_End \<longrightarrow> rest = []))"
    unfolding sample_prefetch_def by blast
  moreover have "\<exists>rest. pf_items (sample_prefetch 2) @ rest = map Ok bs @ tail"
    using s prefetch_reachable.start by blast
  ultimately show ?thesis by blast
qed

theorem prefetch_terminates_witness: "\<exists>s'. prefetch_step sample_env (sample_prefetch 2) s'"
proof -
  have "(prefetch_step sample_env ^^ 0) (sample_prefetch 2) (sample_prefetch 2)" by simp
  from prefetch_terminates [OF sample_vec this [unfolded sample_prefetch_def]]
  show ?thesis by (simp add: sample_prefetch_def prefetched_new_def)
qed

theorem prefetch_equals_reader_witness:
  "\<exists>(s :: unit prefetch) b'. pf_consumer s = Saw_End \<and> drain (reader_next sample_env) (1 + 2)
     (binary_reader_new () 5 sample_column (b_schema sample_row) 1 sample_start False None) = Some (pf_items s, b')"
proof -
  have "(1 :: nat) \<le> usize_max" "estimated_bytes_per_row sample_start \<le> 1024" by simp code_simp
  moreover have "buffers_fit sample_column 1 128 1024"
    using sample_buffers_fit by (auto simp: buffers_fit_def)
  moreover obtain s where "prefetch_reachable sample_env (sample_prefetch 1) s" "pf_consumer s = Saw_End"
    using prefetch_completes [OF sample_vec prefetch_inv_new prefetch_reachable.start, of "()" 5 sample_column
        "b_schema sample_row" 1 sample_start False None]
    unfolding sample_prefetch_def by (auto simp: prefetched_new_def)
  ultimately have "\<exists>b'. drain (reader_next sample_env) (1 + 2)
     (binary_reader_new () 5 sample_column (b_schema sample_row) 1 sample_start False None) = Some (pf_items s, b')"
    by (intro prefetch_equals_reader [OF sample_schema sample_start_reachable _ sample_vec sample_answers_in_full])
      (simp_all add: sample_prefetch_def)
  with \<open>pf_consumer s = Saw_End\<close> show ?thesis by blast
qed

end
