(* ===== verification/Prepared_Cache.thy ===== *)
theory Prepared_Cache
  imports Rust_Prelude "HOL-Library.AList"
begin

text \<open>
  \<open>PreparedCache\<close> of \<open>driver.rs\<close>: what the driver remembers about preparing a query, by its normalised
  text, with the least recently used entry dropped when there are too many. The entries of the \<open>HashMap\<close> are an
  association list; the order in which the map is iterated, which the standard library leaves open, is an
  argument. Prepared statements, fallbacks and templates are shared by reference in the code and opaque here. A
  query is the list of its Unicode scalar values.
\<close>

subsection \<open>Queries\<close>

type_synonym query = "nat list"

text \<open>\<open>char::is_whitespace\<close>: the Unicode property \<open>White_Space\<close>.\<close>

definition is_whitespace :: "nat \<Rightarrow> bool" where
  "is_whitespace c \<longleftrightarrow>
     9 \<le> c \<and> c \<le> 13 \<or> c \<in> {0x20, 0x85, 0xA0, 0x1680, 0x2028, 0x2029, 0x202F, 0x205F, 0x3000} \<or> 0x2000 \<le> c \<and> c \<le> 0x200A"

definition trim_end_matches :: "(nat \<Rightarrow> bool) \<Rightarrow> query \<Rightarrow> query" where
  "trim_end_matches p q = rev (dropWhile p (rev q))"

definition normalize_prepared_query :: "query \<Rightarrow> query" where
  "normalize_prepared_query q =
     trim_end_matches is_whitespace (trim_end_matches (\<lambda>c. c = 0x3B)
       (trim_end_matches is_whitespace (dropWhile is_whitespace q)))"

subsection \<open>Data\<close>

datatype ('e, 'f, 't) prepare_outcome =
    Prepared 'e
  | Literal 'f
  | Deferred 't nat

datatype prepare_request = Declare | Execute | Force

datatype ('e, 'f, 't) prepare_decision_t =
    Outcome "('e, 'f, 't) prepare_outcome" bool
  | Prepare

record ('e, 'f, 't) cached_prepared =
  cp_outcome :: "('e, 'f, 't) prepare_outcome"
  cp_last_used :: nat

type_synonym ('e, 'f, 't) cache_entries = "(query \<times> ('e, 'f, 't) cached_prepared) list"

record ('e, 'f, 't) prepared_cache =
  pc_capacity :: nat
  pc_entries :: "('e, 'f, 't) cache_entries"
  pc_use_counter :: nat

subsection \<open>Operations\<close>

definition cache_new :: "nat \<Rightarrow> (('e, 'f, 't) prepared_cache, unit) result" where
  "cache_new capacity = (if capacity = 0 then Panic else Ok \<lparr>pc_capacity = capacity, pc_entries = [], pc_use_counter = 0\<rparr>)"

definition next_use :: "('e, 'f, 't) prepared_cache \<Rightarrow> nat \<times> ('e, 'f, 't) prepared_cache" where
  "next_use c = (let n = saturating_add (pc_use_counter c) 1 in (n, c\<lparr>pc_use_counter := n\<rparr>))"

text \<open>\<open>min_by_key\<close>: the first entry with the least \<open>last_used\<close>, \<open>None\<close> on an empty iterator.\<close>

fun min_by_last_used :: "('e, 'f, 't) cache_entries \<Rightarrow> (query \<times> ('e, 'f, 't) cached_prepared) option" where
  "min_by_last_used [] = None"
| "min_by_last_used (e # es) =
     (case min_by_last_used es of
        None \<Rightarrow> Some e
      | Some e' \<Rightarrow> Some (if cp_last_used (snd e') < cp_last_used (snd e) then e' else e))"

type_synonym ('e, 'f, 't) map_iter = "('e, 'f, 't) cache_entries \<Rightarrow> ('e, 'f, 't) cache_entries"

text \<open>The loop of \<open>trim\<close>; every pass removes an entry, so as many passes as there are entries are enough.\<close>

fun trim_loop :: "('e, 'f, 't) map_iter \<Rightarrow> nat \<Rightarrow> nat \<Rightarrow> ('e, 'f, 't) cache_entries \<Rightarrow> (('e, 'f, 't) cache_entries, unit) result" where
  "trim_loop iter fuel capacity es =
     (if length es \<le> capacity then Ok es
      else case fuel of
        0 \<Rightarrow> Panic
      | Suc fuel \<Rightarrow>
          (case min_by_last_used (iter es) of
             None \<Rightarrow> Panic
           | Some (oldest, _) \<Rightarrow> trim_loop iter fuel capacity (AList.delete oldest es)))"

declare trim_loop.simps [simp del]

definition trim_cache :: "('e, 'f, 't) map_iter \<Rightarrow> ('e, 'f, 't) prepared_cache \<Rightarrow> (('e, 'f, 't) prepared_cache, unit) result" where
  "trim_cache iter c =
     rbind (trim_loop iter (length (pc_entries c)) (pc_capacity c) (pc_entries c)) (\<lambda>es. Ok (c\<lparr>pc_entries := es\<rparr>))"

text \<open>\<open>HashMap::insert\<close> followed by \<open>trim\<close>, as the code has it in four places.\<close>

definition store_outcome ::
  "('e, 'f, 't) map_iter \<Rightarrow> query \<Rightarrow> ('e, 'f, 't) prepare_outcome \<Rightarrow> nat \<Rightarrow> ('e, 'f, 't) prepared_cache
    \<Rightarrow> (('e, 'f, 't) prepared_cache, unit) result" where
  "store_outcome iter q v n c =
     trim_cache iter (c\<lparr>pc_entries := AList.update q \<lparr>cp_outcome = v, cp_last_used = n\<rparr> (pc_entries c)\<rparr>)"

definition get_outcome ::
  "('e, 'f, 't) prepared_cache \<Rightarrow> query \<Rightarrow> ('e, 'f, 't) prepare_outcome option \<times> ('e, 'f, 't) prepared_cache" where
  "get_outcome c q =
     (let q = normalize_prepared_query q;
          (n, c) = next_use c
      in case map_of (pc_entries c) q of
           None \<Rightarrow> (None, c)
         | Some cached \<Rightarrow>
             (Some (cp_outcome cached), c\<lparr>pc_entries := AList.update q (cached\<lparr>cp_last_used := n\<rparr>) (pc_entries c)\<rparr>))"

definition get_prepared :: "('e, 'f, 't) prepared_cache \<Rightarrow> query \<Rightarrow> 'e option \<times> ('e, 'f, 't) prepared_cache" where
  "get_prepared c q =
     (case get_outcome c q of
        (Some (Prepared e), c) \<Rightarrow> (Some e, c)
      | (_, c) \<Rightarrow> (None, c))"

definition prepare_decision ::
  "('e, 'f, 't) map_iter \<Rightarrow> ('e, 'f, 't) prepared_cache \<Rightarrow> query \<Rightarrow> 't \<Rightarrow> nat \<Rightarrow> prepare_request
    \<Rightarrow> (('e, 'f, 't) prepare_decision_t \<times> ('e, 'f, 't) prepared_cache, unit) result" where
  "prepare_decision iter c q template threshold request =
     (let q = normalize_prepared_query q;
          (n, c) = next_use c;
          touched = (\<lambda>v. c\<lparr>pc_entries := AList.update q \<lparr>cp_outcome = v, cp_last_used = n\<rparr> (pc_entries c)\<rparr>);
          removed = c\<lparr>pc_entries := AList.delete q (pc_entries c)\<rparr>
      in case map_option cp_outcome (map_of (pc_entries c) q) of
           Some (Prepared e) \<Rightarrow> Ok (Outcome (Prepared e) True, touched (Prepared e))
         | Some (Literal f) \<Rightarrow> Ok (Outcome (Literal f) True, touched (Literal f))
         | Some (Deferred t executions) \<Rightarrow>
             (case request of
                Declare \<Rightarrow> Ok (Outcome (Deferred t executions) True, touched (Deferred t executions))
              | Execute \<Rightarrow>
                  let executions = saturating_add executions 1
                  in if threshold = 0 \<or> executions < threshold
                     then Ok (Outcome (Deferred t executions) True, touched (Deferred t executions))
                     else Ok (Prepare, removed)
              | Force \<Rightarrow> Ok (Prepare, removed))
         | None \<Rightarrow>
             if request \<noteq> Force \<and> threshold \<noteq> 1
             then let executions = (if request = Execute then 1 else 0)
                  in rbind (store_outcome iter q (Deferred template executions) n c) (\<lambda>c.
                       Ok (Outcome (Deferred template executions) False, c))
             else Ok (Prepare, c))"

definition cache_insert ::
  "('e, 'f, 't) map_iter \<Rightarrow> ('e, 'f, 't) prepared_cache \<Rightarrow> query \<Rightarrow> 'e \<Rightarrow> ('e \<times> ('e, 'f, 't) prepared_cache, unit) result" where
  "cache_insert iter c q candidate =
     (let q = normalize_prepared_query q in
      case get_outcome c q of
        (Some (Prepared existing), c) \<Rightarrow> Ok (existing, c)
      | (_, c) \<Rightarrow>
          let (n, c) = next_use c
          in rbind (store_outcome iter q (Prepared candidate) n c) (\<lambda>c. Ok (candidate, c)))"

definition insert_literal ::
  "('e, 'f, 't) map_iter \<Rightarrow> ('e, 'f, 't) prepared_cache \<Rightarrow> query \<Rightarrow> 'f
    \<Rightarrow> (('e, 'f, 't) prepare_outcome \<times> ('e, 'f, 't) prepared_cache, unit) result" where
  "insert_literal iter c q candidate =
     (let q = normalize_prepared_query q;
          (existing, c) = get_outcome c q;
          fresh = (let (n, c) = next_use c
                   in rbind (store_outcome iter q (Literal candidate) n c) (\<lambda>c. Ok (Literal candidate, c)))
      in case existing of
           None \<Rightarrow> fresh
         | Some (Deferred _ _) \<Rightarrow> fresh
         | Some existing \<Rightarrow> Ok (existing, c))"

definition replace_prepared_with_literal ::
  "('e \<Rightarrow> nat) \<Rightarrow> ('e, 'f, 't) map_iter \<Rightarrow> ('e, 'f, 't) prepared_cache \<Rightarrow> query \<Rightarrow> nat \<Rightarrow> 'f
    \<Rightarrow> ('f \<times> ('e, 'f, 't) prepared_cache, unit) result" where
  "replace_prepared_with_literal id_of iter c q sid candidate =
     (let q = normalize_prepared_query q;
          fresh = (let (n, c) = next_use c
                   in rbind (store_outcome iter q (Literal candidate) n c) (\<lambda>c. Ok (candidate, c)))
      in case map_option cp_outcome (map_of (pc_entries c) q) of
           Some (Literal fallback) \<Rightarrow> Ok (fallback, c)
         | Some (Prepared e) \<Rightarrow> if id_of e \<noteq> sid then Ok (candidate, c) else fresh
         | _ \<Rightarrow> fresh)"

definition remove_if_id :: "('e \<Rightarrow> nat) \<Rightarrow> ('e, 'f, 't) prepared_cache \<Rightarrow> query \<Rightarrow> nat \<Rightarrow> ('e, 'f, 't) prepared_cache" where
  "remove_if_id id_of c q sid =
     (let q = normalize_prepared_query q in
      case map_option cp_outcome (map_of (pc_entries c) q) of
        Some (Prepared e) \<Rightarrow> if id_of e = sid then c\<lparr>pc_entries := AList.delete q (pc_entries c)\<rparr> else c
      | _ \<Rightarrow> c)"

definition cache_clear :: "('e, 'f, 't) prepared_cache \<Rightarrow> ('e, 'f, 't) prepared_cache" where
  "cache_clear c = c\<lparr>pc_entries := []\<rparr>"

definition set_capacity ::
  "('e, 'f, 't) map_iter \<Rightarrow> ('e, 'f, 't) prepared_cache \<Rightarrow> nat \<Rightarrow> (('e, 'f, 't) prepared_cache, unit) result" where
  "set_capacity iter c capacity = (if capacity = 0 then Panic else trim_cache iter (c\<lparr>pc_capacity := capacity\<rparr>))"

subsection \<open>The abstract cache\<close>

text \<open>
  The contract: the queries with what is remembered of them, the most recently used first. \<open>lru_touch\<close> moves a query
  to the front, \<open>lru_put\<close> puts it there and drops what does not fit. Before an insertion, the entry of the probe is
  looked up: the normalised query, normalised once more (\<open>insert_settled\<close> says when the two are the same).
\<close>

type_synonym ('e, 'f, 't) lru = "(query \<times> ('e, 'f, 't) prepare_outcome) list"

definition without :: "query \<Rightarrow> (query \<times> 'v) list \<Rightarrow> (query \<times> 'v) list" where
  "without q xs = filter (\<lambda>e. fst e \<noteq> q) xs"

definition lru_touch :: "query \<Rightarrow> (query \<times> 'v) list \<Rightarrow> (query \<times> 'v) list" where
  "lru_touch q xs = (case map_of xs q of None \<Rightarrow> xs | Some v \<Rightarrow> (q, v) # without q xs)"

definition lru_put :: "nat \<Rightarrow> query \<Rightarrow> 'v \<Rightarrow> (query \<times> 'v) list \<Rightarrow> (query \<times> 'v) list" where
  "lru_put capacity q v xs = take capacity ((q, v) # without q xs)"

datatype ('e, 'f, 't) cache_op =
    Get query
  | Decide query 't nat prepare_request
  | Insert query 'e
  | Insert_Literal query 'f
  | Replace query nat 'f
  | Remove query nat
  | Clear
  | Set_Capacity nat

datatype ('e, 'f, 't) cache_reply =
    Found "('e, 'f, 't) prepare_outcome option"
  | Decided "('e, 'f, 't) prepare_decision_t"
  | Entry 'e
  | Fallback 'f
  | Done

fun lru_decide ::
  "nat \<Rightarrow> query \<Rightarrow> 't \<Rightarrow> nat \<Rightarrow> prepare_request \<Rightarrow> ('e, 'f, 't) lru \<Rightarrow> ('e, 'f, 't) prepare_decision_t \<times> ('e, 'f, 't) lru" where
  "lru_decide capacity q template threshold request xs =
     (case map_of xs q of
        Some (Deferred t executions) \<Rightarrow>
          let executions = (if request = Execute then saturating_add executions 1 else executions)
          in if request = Declare \<or> request = Execute \<and> (threshold = 0 \<or> executions < threshold)
             then (Outcome (Deferred t executions) True, (q, Deferred t executions) # without q xs)
             else (Prepare, without q xs)
      | Some v \<Rightarrow> (Outcome v True, lru_touch q xs)
      | None \<Rightarrow>
          let v = Deferred template (if request = Execute then 1 else 0)
          in if request = Force \<or> threshold = 1 then (Prepare, xs) else (Outcome v False, lru_put capacity q v xs))"

declare lru_decide.simps [simp del]

fun lru_op ::
  "('e \<Rightarrow> nat) \<Rightarrow> ('e, 'f, 't) cache_op \<Rightarrow> nat \<times> ('e, 'f, 't) lru \<Rightarrow> ('e, 'f, 't) cache_reply \<times> nat \<times> ('e, 'f, 't) lru" where
  "lru_op id_of (Get q) (capacity, xs) =
     (let q = normalize_prepared_query q in (Found (map_of xs q), capacity, lru_touch q xs))"
| "lru_op id_of (Decide q template threshold request) (capacity, xs) =
     (case lru_decide capacity (normalize_prepared_query q) template threshold request xs of
        (decision, xs) \<Rightarrow> (Decided decision, capacity, xs))"
| "lru_op id_of (Insert q candidate) (capacity, xs) =
     (let q = normalize_prepared_query q; probe = normalize_prepared_query q in
      case map_of xs probe of
        Some (Prepared e) \<Rightarrow> (Entry e, capacity, lru_touch probe xs)
      | _ \<Rightarrow> (Entry candidate, capacity, lru_put capacity q (Prepared candidate) (lru_touch probe xs)))"
| "lru_op id_of (Insert_Literal q candidate) (capacity, xs) =
     (let q = normalize_prepared_query q; probe = normalize_prepared_query q;
          fresh = (Found (Some (Literal candidate)), capacity, lru_put capacity q (Literal candidate) (lru_touch probe xs))
      in case map_of xs probe of
           None \<Rightarrow> fresh
         | Some (Deferred _ _) \<Rightarrow> fresh
         | Some v \<Rightarrow> (Found (Some v), capacity, lru_touch probe xs))"
| "lru_op id_of (Replace q sid candidate) (capacity, xs) =
     (let q = normalize_prepared_query q;
          fresh = (Fallback candidate, capacity, lru_put capacity q (Literal candidate) xs)
      in case map_of xs q of
           Some (Literal f) \<Rightarrow> (Fallback f, capacity, xs)
         | Some (Prepared e) \<Rightarrow> if id_of e \<noteq> sid then (Fallback candidate, capacity, xs) else fresh
         | _ \<Rightarrow> fresh)"
| "lru_op id_of (Remove q sid) (capacity, xs) =
     (let q = normalize_prepared_query q in
      (Done, capacity, case map_of xs q of Some (Prepared e) \<Rightarrow> if id_of e = sid then without q xs else xs | _ \<Rightarrow> xs))"
| "lru_op id_of Clear (capacity, xs) = (Done, capacity, [])"
| "lru_op id_of (Set_Capacity n) (capacity, xs) = (Done, n, take n xs)"

text \<open>The same operations of the code.\<close>

fun run_cache_op ::
  "('e \<Rightarrow> nat) \<Rightarrow> ('e, 'f, 't) map_iter \<Rightarrow> ('e, 'f, 't) cache_op \<Rightarrow> ('e, 'f, 't) prepared_cache
    \<Rightarrow> (('e, 'f, 't) cache_reply \<times> ('e, 'f, 't) prepared_cache, unit) result" where
  "run_cache_op id_of iter (Get q) c = (case get_outcome c q of (v, c) \<Rightarrow> Ok (Found v, c))"
| "run_cache_op id_of iter (Decide q template threshold request) c =
     rbind (prepare_decision iter c q template threshold request) (\<lambda>(decision, c). Ok (Decided decision, c))"
| "run_cache_op id_of iter (Insert q candidate) c = rbind (cache_insert iter c q candidate) (\<lambda>(e, c). Ok (Entry e, c))"
| "run_cache_op id_of iter (Insert_Literal q candidate) c =
     rbind (insert_literal iter c q candidate) (\<lambda>(v, c). Ok (Found (Some v), c))"
| "run_cache_op id_of iter (Replace q sid candidate) c =
     rbind (replace_prepared_with_literal id_of iter c q sid candidate) (\<lambda>(f, c). Ok (Fallback f, c))"
| "run_cache_op id_of iter (Remove q sid) c = Ok (Done, remove_if_id id_of c q sid)"
| "run_cache_op id_of iter Clear c = Ok (Done, cache_clear c)"
| "run_cache_op id_of iter (Set_Capacity n) c = rbind (set_capacity iter c n) (\<lambda>c. Ok (Done, c))"

subsection \<open>Recency\<close>

definition recency :: "('e, 'f, 't) cache_entries \<Rightarrow> ('e, 'f, 't) cache_entries \<Rightarrow> bool" where
  "recency es ys \<longleftrightarrow> distinct (map fst es) \<and> distinct (map fst ys) \<and> set ys = set es \<and>
     sorted_wrt (\<lambda>a b. cp_last_used (snd b) < cp_last_used (snd a)) ys"

lemma recency_length: "recency es ys \<Longrightarrow> length ys = length es"
  unfolding recency_def by (metis distinct_card distinct_map)

lemma recency_map_of: "recency es ys \<Longrightarrow> map_of ys = map_of es"
  unfolding recency_def by (metis map_of_inject_set)

lemma set_update:
  "distinct (map fst es) \<Longrightarrow> set (AList.update q v es) = insert (q, v) {e \<in> set es. fst e \<noteq> q}"
  by (induction es) force+

lemma recency_update:
  assumes "recency es ys" "\<forall>e \<in> set es. cp_last_used (snd e) < cp_last_used v"
  shows "recency (AList.update q v es) ((q, v) # without q ys)"
  using assms
  by (auto simp: recency_def without_def set_update distinct_map_filter sorted_wrt_filter intro: AList.distinct_update)

lemma recency_delete: "recency es ys \<Longrightarrow> recency (AList.delete q es) (without q ys)"
  by (auto simp: recency_def without_def AList.delete_eq distinct_map_filter sorted_wrt_filter)

lemma min_by_last_used:
  "es \<noteq> [] \<Longrightarrow> \<exists>e \<in> set es. min_by_last_used es = Some e \<and> (\<forall>e' \<in> set es. cp_last_used (snd e) \<le> cp_last_used (snd e'))"
proof (induction es)
  case (Cons a es)
  then show ?case by (cases "es = []") (auto split: option.splits)
qed simp

definition iterates_map :: "('e, 'f, 't) map_iter \<Rightarrow> bool" where
  "iterates_map iter \<longleftrightarrow> (\<forall>es. set (iter es) = set es)"

lemma without_last: "distinct (map fst (zs @ [z])) \<Longrightarrow> without (fst z) (zs @ [z]) = zs"
  by (induction zs) (auto simp: without_def)

lemma recency_oldest:
  assumes r: "recency es ys" "es \<noteq> []" and i: "iterates_map iter"
  shows "min_by_last_used (iter es) = Some (last ys)" "recency (AList.delete (fst (last ys)) es) (butlast ys)"
proof -
  have set_iter: "set (iter es) = set es" "iter es \<noteq> []" using i r(2) by (auto simp: iterates_map_def) (metis set_empty)
  have ne: "ys \<noteq> []" using r by (auto simp: recency_def)
  from min_by_last_used [OF set_iter(2)] obtain e where
    e: "e \<in> set ys" "min_by_last_used (iter es) = Some e" "\<forall>e' \<in> set ys. cp_last_used (snd e) \<le> cp_last_used (snd e')"
    using r set_iter by (auto simp: recency_def)
  have split: "ys = butlast ys @ [last ys]" using ne by simp
  then have old: "cp_last_used (snd (last ys)) < cp_last_used (snd a)" if "a \<in> set (butlast ys)" for a
    using r that unfolding recency_def by (metis sorted_wrt_append list.set_intros(1))
  have "e = last ys"
  proof (rule ccontr)
    assume "e \<noteq> last ys"
    with e(1) split have "e \<in> set (butlast ys)" by (metis UnE set_append set_ConsD list.set(1) empty_iff)
    from old [OF this] e(3) ne show False by (meson last_in_set leD)
  qed
  with e show "min_by_last_used (iter es) = Some (last ys)" by simp
  have "distinct (map fst (butlast ys @ [last ys]))" using r split by (simp add: recency_def)
  from without_last [OF this] split have "without (fst (last ys)) ys = butlast ys" by simp
  with recency_delete [OF r(1)] show "recency (AList.delete (fst (last ys)) es) (butlast ys)" by metis
qed

lemma recency_trim_loop:
  "recency es ys \<Longrightarrow> iterates_map iter \<Longrightarrow> length es \<le> fuel \<Longrightarrow>
   \<exists>es'. trim_loop iter fuel capacity es = Ok es' \<and> recency es' (take capacity ys)"
proof (induction fuel arbitrary: es ys)
  case 0
  then show ?case using recency_length [of es ys] by (auto simp: trim_loop.simps)
next
  case (Suc fuel)
  note len = recency_length [OF Suc.prems(1)]
  show ?case
  proof (cases "length es \<le> capacity")
    case True
    with Suc.prems len show ?thesis by (auto simp: trim_loop.simps)
  next
    case False
    then have ne: "es \<noteq> []" by auto
    note o = recency_oldest [OF Suc.prems(1) ne Suc.prems(2)]
    have "length (AList.delete (fst (last ys)) es) = length es - 1" using recency_length [OF o(2)] len by simp
    then have "length (AList.delete (fst (last ys)) es) \<le> fuel" using Suc.prems(3) by simp
    from Suc.IH [OF o(2) Suc.prems(2) this] obtain es' where
      "trim_loop iter fuel capacity (AList.delete (fst (last ys)) es) = Ok es'" "recency es' (take capacity (butlast ys))" by blast
    moreover have "take capacity (butlast ys) = take capacity ys" using False len by (simp add: take_butlast)
    ultimately show ?thesis using False o(1) by (subst trim_loop.simps) (simp add: case_prod_beta)
  qed
qed

subsection \<open>The cache refines it\<close>

definition view :: "('e, 'f, 't) cache_entries \<Rightarrow> ('e, 'f, 't) lru" where
  "view ys = map (\<lambda>(q, v). (q, cp_outcome v)) ys"

lemma view_simps [simp]:
  "view [] = []" "view ((q, v) # ys) = (q, cp_outcome v) # view ys" "length (view ys) = length ys"
  "view (take n ys) = take n (view ys)" "view (without q ys) = without q (view ys)"
  "map_of (view ys) q = map_option cp_outcome (map_of ys q)" "map fst (view ys) = map fst ys"
  by (auto simp: view_def without_def take_map filter_map o_def map_of_map case_prod_beta)

definition lru_rel :: "('e, 'f, 't) prepared_cache \<Rightarrow> nat \<times> ('e, 'f, 't) lru \<Rightarrow> bool" where
  "lru_rel c a \<longleftrightarrow> (\<exists>ys. recency (pc_entries c) ys \<and> a = (pc_capacity c, view ys) \<and> 0 < pc_capacity c \<and>
     length ys \<le> pc_capacity c \<and> (\<forall>e \<in> set (pc_entries c). cp_last_used (snd e) \<le> pc_use_counter c))"

text \<open>A cache about to record a use: the counter is above every entry.\<close>

definition lru_fresh :: "nat \<Rightarrow> ('e, 'f, 't) prepared_cache \<Rightarrow> nat \<times> ('e, 'f, 't) lru \<Rightarrow> bool" where
  "lru_fresh n c a \<longleftrightarrow> lru_rel c a \<and> pc_use_counter c = n \<and> (\<forall>e \<in> set (pc_entries c). cp_last_used (snd e) < n)"

lemma next_use_fresh:
  "lru_rel c a \<Longrightarrow> pc_use_counter c < usize_max \<Longrightarrow> next_use c = (n, c') \<Longrightarrow>
   lru_fresh n c' a \<and> n = Suc (pc_use_counter c) \<and> pc_entries c' = pc_entries c \<and> pc_capacity c' = pc_capacity c"
  by (fastforce simp: next_use_def lru_fresh_def lru_rel_def saturating_add_def Let_def less_Suc_eq_le)

lemma lru_rel_map_of: "lru_rel c (capacity, xs) \<Longrightarrow> map_of xs q = map_option cp_outcome (map_of (pc_entries c) q)"
  by (auto simp: lru_rel_def dest: recency_map_of)

lemma length_without: "length (without q xs) \<le> length xs" "q \<in> fst ` set xs \<Longrightarrow> length (without q xs) < length xs"
  by (auto simp: without_def length_filter_less)

lemma fresh_touch:
  assumes f: "lru_fresh n c (capacity, xs)" and m: "map_of (pc_entries c) q = Some w" and v: "cp_last_used v = n"
  shows "lru_rel (c\<lparr>pc_entries := AList.update q v (pc_entries c)\<rparr>) (capacity, (q, cp_outcome v) # without q xs)"
proof -
  from f obtain ys where y: "recency (pc_entries c) ys" "xs = view ys" "capacity = pc_capacity c" "0 < capacity" "length ys \<le> capacity"
    "\<forall>e \<in> set (pc_entries c). cp_last_used (snd e) < n" "pc_use_counter c = n"
    by (auto simp: lru_fresh_def lru_rel_def)
  have r: "recency (AList.update q v (pc_entries c)) ((q, v) # without q ys)" using recency_update [OF y(1)] y(6) v by simp
  have "q \<in> fst ` set ys" using m recency_map_of [OF y(1)] by (metis map_of_eq_None_iff option.distinct(1))
  then have "length ((q, v) # without q ys) \<le> capacity" using length_without(2) [of q ys] y(5) by simp
  moreover have "\<forall>e \<in> set (AList.update q v (pc_entries c)). cp_last_used (snd e) \<le> n"
    using y(1,6) v set_update [of "pc_entries c" q v] by (auto simp: recency_def)
  ultimately show ?thesis using r y by (auto simp: lru_rel_def intro!: exI [of _ "(q, v) # without q ys"])
qed

lemma fresh_store:
  assumes f: "lru_fresh n c (capacity, xs)" and i: "iterates_map iter"
  shows "\<exists>c'. store_outcome iter q v n c = Ok c' \<and> lru_rel c' (capacity, lru_put capacity q v xs) \<and> pc_use_counter c' = n"
proof -
  from f obtain ys where y: "recency (pc_entries c) ys" "xs = view ys" "capacity = pc_capacity c" "0 < capacity"
    "\<forall>e \<in> set (pc_entries c). cp_last_used (snd e) < n" "pc_use_counter c = n"
    by (auto simp: lru_fresh_def lru_rel_def)
  let ?v = "\<lparr>cp_outcome = v, cp_last_used = n\<rparr>"
  let ?es = "AList.update q ?v (pc_entries c)"
  have r: "recency ?es ((q, ?v) # without q ys)" using recency_update [OF y(1)] y(5) by simp
  from recency_trim_loop [OF r i, of "length ?es" capacity] obtain es' where
    t: "trim_loop iter (length ?es) capacity ?es = Ok es'" "recency es' (take capacity ((q, ?v) # without q ys))" by auto
  have "set es' \<subseteq> set ?es" using t(2) r unfolding recency_def by (metis set_take_subset)
  moreover have "\<forall>e \<in> set ?es. cp_last_used (snd e) \<le> n"
    using y(1,5) set_update [of "pc_entries c" q ?v] by (auto simp: recency_def)
  ultimately have "\<forall>e \<in> set es'. cp_last_used (snd e) \<le> n" by blast
  then show ?thesis using t y
    by (auto simp: store_outcome_def trim_cache_def lru_rel_def lru_put_def
        intro!: exI [of _ "take capacity ((q, ?v) # without q ys)"])
qed

lemma rel_delete:
  assumes "lru_rel c (capacity, xs)"
  shows "lru_rel (c\<lparr>pc_entries := AList.delete q (pc_entries c)\<rparr>) (capacity, without q xs)"
proof -
  from assms obtain ys where y: "recency (pc_entries c) ys" "xs = view ys" "capacity = pc_capacity c" "0 < capacity"
    "length ys \<le> capacity" "\<forall>e \<in> set (pc_entries c). cp_last_used (snd e) \<le> pc_use_counter c"
    by (auto simp: lru_rel_def)
  have "length (without q ys) \<le> capacity" using length_without(1) [of q ys] y(5) by simp
  with recency_delete [OF y(1)] y show ?thesis
    by (auto simp: lru_rel_def AList.delete_eq intro!: exI [of _ "without q ys"])
qed

lemma without_idem [simp]: "without q (without q xs) = without q xs" "without q ((q, v) # xs) = without q xs"
  by (simp_all add: without_def)

lemma lru_put_touch [simp]: "lru_put capacity q v (lru_touch q xs) = lru_put capacity q v xs"
  by (simp add: lru_put_def lru_touch_def split: option.splits)

lemma map_of_touch [simp]: "map_of (lru_touch q xs) q = map_of xs q"
  by (simp add: lru_touch_def split: option.splits)

lemma get_outcome_refines:
  assumes "lru_rel c (capacity, xs)" "pc_use_counter c < usize_max" "get_outcome c q = (v, c')"
  shows "v = map_of xs (normalize_prepared_query q) \<and> lru_rel c' (capacity, lru_touch (normalize_prepared_query q) xs) \<and>
    pc_use_counter c' = Suc (pc_use_counter c)"
proof -
  obtain n c1 where n: "next_use c = (n, c1)" by fastforce
  note f = next_use_fresh [OF assms(1,2) n]
  then have f1: "lru_fresh n c1 (capacity, xs)" by blast
  show ?thesis
  proof (cases "map_of (pc_entries c1) (normalize_prepared_query q)")
    case None
    with assms(3) n f lru_rel_map_of [OF assms(1)] show ?thesis
      by (auto simp: get_outcome_def lru_touch_def lru_fresh_def)
  next
    case (Some w)
    have "lru_rel (c1\<lparr>pc_entries := AList.update (normalize_prepared_query q) (w\<lparr>cp_last_used := n\<rparr>) (pc_entries c1)\<rparr>)
        (capacity, (normalize_prepared_query q, cp_outcome w) # without (normalize_prepared_query q) xs)"
      using fresh_touch [OF f1 Some, of "w\<lparr>cp_last_used := n\<rparr>"] by simp
    with Some assms(3) n f lru_rel_map_of [OF assms(1)] show ?thesis
      by (auto simp: get_outcome_def lru_touch_def lru_fresh_def)
  qed
qed

text \<open>Recording a use and storing an outcome, as the operations end.\<close>

lemma store_refines:
  assumes "lru_rel c (capacity, xs)" "pc_use_counter c < usize_max" "iterates_map iter" "next_use c = (n, c1)"
  shows "\<exists>c'. store_outcome iter q v n c1 = Ok c' \<and> lru_rel c' (capacity, lru_put capacity q v xs) \<and>
    pc_use_counter c' = Suc (pc_use_counter c)"
  using next_use_fresh [OF assms(1,2,4)] fresh_store [OF _ assms(3), of n c1 capacity xs q v] by metis

definition refined ::
  "nat \<Rightarrow> (('r \<times> ('e, 'f, 't) prepared_cache), unit) result \<Rightarrow> 'r \<times> nat \<times> ('e, 'f, 't) lru \<Rightarrow> bool" where
  "refined n res spec \<longleftrightarrow> (\<exists>c'. res = Ok (fst spec, c') \<and> lru_rel c' (snd spec) \<and> pc_use_counter c' \<le> n + 2)"

lemma decide_refines:
  assumes r: "lru_rel c (capacity, xs)" and u: "pc_use_counter c + 2 \<le> usize_max" and i: "iterates_map iter"
  shows "refined (pc_use_counter c) (prepare_decision iter c q template threshold request)
    (case lru_decide capacity (normalize_prepared_query q) template threshold request xs of (d, xs) \<Rightarrow> (d, capacity, xs))"
proof -
  obtain n c1 where n: "next_use c = (n, c1)" by fastforce
  have u': "pc_use_counter c < usize_max" using u by simp
  note f = next_use_fresh [OF r u' n]
  then have f1: "lru_fresh n c1 (capacity, xs)" "pc_use_counter c1 = Suc (pc_use_counter c)"
    unfolding lru_fresh_def by blast+
  then have r1: "lru_rel c1 (capacity, xs)" by (simp add: lru_fresh_def)
  let ?q = "normalize_prepared_query q"
  have m: "map_of xs ?q = map_option cp_outcome (map_of (pc_entries c1) ?q)" by (rule lru_rel_map_of [OF r1])
  show ?thesis
  proof (cases "map_of (pc_entries c1) ?q")
    case None
    have "\<exists>c'. store_outcome iter ?q v n c1 = Ok c' \<and> lru_rel c' (capacity, lru_put capacity ?q v xs) \<and>
        pc_use_counter c' = Suc (pc_use_counter c)" for v
      by (rule store_refines [OF r u' i n])
    from this [of "Deferred template (if request = Execute then 1 else 0)"] None m n r1 f1 show ?thesis
      by (auto simp: prepare_decision_def lru_decide.simps refined_def Let_def)
  next
    case (Some w)
    have t: "lru_rel (c1\<lparr>pc_entries := AList.update ?q \<lparr>cp_outcome = v, cp_last_used = n\<rparr> (pc_entries c1)\<rparr>)
        (capacity, (?q, v) # without ?q xs)" for v
      using fresh_touch [OF f1(1) Some, of "\<lparr>cp_outcome = v, cp_last_used = n\<rparr>"] by simp
    from Some m n f1 t rel_delete [OF r1, of ?q] show ?thesis
      by (cases "cp_outcome w"; cases request) (auto simp: prepare_decision_def lru_decide.simps refined_def Let_def lru_touch_def)
  qed
qed

lemma insert_refines:
  assumes r: "lru_rel c (capacity, xs)" and u: "pc_use_counter c + 2 \<le> usize_max" and i: "iterates_map iter"
  shows "refined (pc_use_counter c) (run_cache_op id_of iter (Insert q candidate) c) (lru_op id_of (Insert q candidate) (capacity, xs))"
proof -
  let ?q = "normalize_prepared_query q"
  obtain v c1 where g: "get_outcome c ?q = (v, c1)" by fastforce
  have "pc_use_counter c < usize_max" using u by simp
  from get_outcome_refines [OF r this g] have
    g': "v = map_of xs (normalize_prepared_query ?q)" "lru_rel c1 (capacity, lru_touch (normalize_prepared_query ?q) xs)"
    "pc_use_counter c1 = Suc (pc_use_counter c)" by simp_all
  obtain n c2 where n: "next_use c1 = (n, c2)" by fastforce
  have "pc_use_counter c1 < usize_max" using u g'(3) by simp
  from store_refines [OF g'(2) this i n, of ?q "Prepared candidate"] g' g n show ?thesis
    by (auto simp: cache_insert_def refined_def Let_def split: option.splits prepare_outcome.splits)
qed

lemma insert_literal_refines:
  assumes r: "lru_rel c (capacity, xs)" and u: "pc_use_counter c + 2 \<le> usize_max" and i: "iterates_map iter"
  shows "refined (pc_use_counter c) (run_cache_op id_of iter (Insert_Literal q candidate) c)
    (lru_op id_of (Insert_Literal q candidate) (capacity, xs))"
proof -
  let ?q = "normalize_prepared_query q"
  obtain v c1 where g: "get_outcome c ?q = (v, c1)" by fastforce
  have "pc_use_counter c < usize_max" using u by simp
  from get_outcome_refines [OF r this g] have
    g': "v = map_of xs (normalize_prepared_query ?q)" "lru_rel c1 (capacity, lru_touch (normalize_prepared_query ?q) xs)"
    "pc_use_counter c1 = Suc (pc_use_counter c)" by simp_all
  obtain n c2 where n: "next_use c1 = (n, c2)" by fastforce
  have "pc_use_counter c1 < usize_max" using u g'(3) by simp
  from store_refines [OF g'(2) this i n, of ?q "Literal candidate"] g' g n show ?thesis
    by (auto simp: insert_literal_def refined_def Let_def split: option.splits prepare_outcome.splits)
qed

lemma replace_refines:
  assumes r: "lru_rel c (capacity, xs)" and u: "pc_use_counter c + 2 \<le> usize_max" and i: "iterates_map iter"
  shows "refined (pc_use_counter c) (run_cache_op id_of iter (Replace q sid candidate) c) (lru_op id_of (Replace q sid candidate) (capacity, xs))"
proof -
  let ?q = "normalize_prepared_query q"
  obtain n c1 where n: "next_use c = (n, c1)" by fastforce
  have "pc_use_counter c < usize_max" using u by simp
  from store_refines [OF r this i n, of ?q "Literal candidate"] n r lru_rel_map_of [OF r, of ?q] show ?thesis
    by (auto simp: replace_prepared_with_literal_def refined_def Let_def split: option.splits prepare_outcome.splits)
qed

lemma remove_refines:
  assumes r: "lru_rel c (capacity, xs)"
  shows "refined (pc_use_counter c) (run_cache_op id_of iter (Remove q sid) c) (lru_op id_of (Remove q sid) (capacity, xs))"
  using r rel_delete [OF r, of "normalize_prepared_query q"] lru_rel_map_of [OF r, of "normalize_prepared_query q"]
  by (auto simp: remove_if_id_def refined_def Let_def split: option.splits prepare_outcome.splits)

lemma set_capacity_refines:
  assumes r: "lru_rel c (capacity, xs)" and i: "iterates_map iter" and n: "0 < n"
  shows "refined (pc_use_counter c) (run_cache_op id_of iter (Set_Capacity n) c) (lru_op id_of (Set_Capacity n) (capacity, xs))"
proof -
  from r obtain ys where y: "recency (pc_entries c) ys" "xs = view ys"
    "\<forall>e \<in> set (pc_entries c). cp_last_used (snd e) \<le> pc_use_counter c"
    by (auto simp: lru_rel_def)
  from recency_trim_loop [OF y(1) i, of "length (pc_entries c)" n] obtain es' where
    t: "trim_loop iter (length (pc_entries c)) n (pc_entries c) = Ok es'" "recency es' (take n ys)" by auto
  have "set es' \<subseteq> set (pc_entries c)" using t(2) y(1) unfolding recency_def by (metis set_take_subset)
  with y(3) have "\<forall>e \<in> set es'. cp_last_used (snd e) \<le> pc_use_counter c" by blast
  with t n y show ?thesis
    by (auto simp: set_capacity_def trim_cache_def refined_def lru_rel_def intro!: exI [of _ "take n ys"])
qed

subsection \<open>Runs\<close>

fun run_ops :: "('op \<Rightarrow> 'c \<Rightarrow> ('r \<times> 'c, 'x) result) \<Rightarrow> 'op list \<Rightarrow> 'c \<Rightarrow> ('r list \<times> 'c, 'x) result" where
  "run_ops step [] c = Ok ([], c)"
| "run_ops step (op # ops) c =
     rbind (step op c) (\<lambda>(r, c). rbind (run_ops step ops c) (\<lambda>(rs, c). Ok (r # rs, c)))"

fun run_spec :: "('op \<Rightarrow> 'a \<Rightarrow> 'r \<times> 'a) \<Rightarrow> 'op list \<Rightarrow> 'a \<Rightarrow> 'r list \<times> 'a" where
  "run_spec step [] a = ([], a)"
| "run_spec step (op # ops) a = (case step op a of (r, a) \<Rightarrow> case run_spec step ops a of (rs, a) \<Rightarrow> (r # rs, a))"

text \<open>
  A component whose every operation answers as its specification does, as long as a counter that an operation
  advances by at most \<open>price\<close> stays below \<open>limit\<close>.
\<close>

locale simulation =
  fixes rel :: "'c \<Rightarrow> 'a \<Rightarrow> bool"
    and step :: "'op \<Rightarrow> 'c \<Rightarrow> ('r \<times> 'c, 'x) result"
    and spec :: "'op \<Rightarrow> 'a \<Rightarrow> 'r \<times> 'a"
    and permitted :: "'op \<Rightarrow> bool"
    and counter :: "'c \<Rightarrow> nat"
    and price limit :: nat
  assumes simulates: "rel c a \<Longrightarrow> permitted op \<Longrightarrow> counter c + price \<le> limit \<Longrightarrow>
    \<exists>c'. step op c = Ok (fst (spec op a), c') \<and> rel c' (snd (spec op a)) \<and> counter c' \<le> counter c + price"
begin

lemma run_simulates:
  "rel c a \<Longrightarrow> list_all permitted ops \<Longrightarrow> counter c + price * length ops \<le> limit \<Longrightarrow>
   \<exists>c'. run_ops step ops c = Ok (fst (run_spec spec ops a), c') \<and> rel c' (snd (run_spec spec ops a))"
proof (induction ops arbitrary: c a)
  case (Cons op ops)
  then have "counter c + price \<le> limit" by (simp add: algebra_simps)
  with simulates [of c a op] Cons.prems obtain c1 where
    c1: "step op c = Ok (fst (spec op a), c1)" "rel c1 (snd (spec op a))" "counter c1 \<le> counter c + price" by auto
  have "counter c1 + price * length ops \<le> limit" using c1(3) Cons.prems(3) by (simp add: algebra_simps)
  from Cons.IH [OF c1(2) _ this] Cons.prems(2) c1(1) show ?case by (auto simp: case_prod_beta)
qed simp

end

text \<open>\<open>set_capacity\<close> asserts that the new capacity is positive; every other call is permitted.\<close>

fun op_permitted :: "('e, 'f, 't) cache_op \<Rightarrow> bool" where
  "op_permitted (Set_Capacity n) = (0 < n)"
| "op_permitted _ = True"

definition cache_rel :: "('e, 'f, 't) map_iter \<Rightarrow> ('e, 'f, 't) prepared_cache \<Rightarrow> nat \<times> ('e, 'f, 't) lru \<Rightarrow> bool" where
  "cache_rel iter c a \<longleftrightarrow> lru_rel c a \<and> iterates_map iter"

interpretation cache_simulation: simulation "cache_rel iter" "run_cache_op id_of iter" "lru_op id_of" op_permitted pc_use_counter 2 usize_max
  for iter :: "('e, 'f, 't) map_iter" and id_of
proof
  fix c :: "('e, 'f, 't) prepared_cache" and a and op :: "('e, 'f, 't) cache_op"
  assume "cache_rel iter c a" and p: "op_permitted op" and u: "pc_use_counter c + 2 \<le> usize_max"
  then have r: "lru_rel c a" and i: "iterates_map iter" by (simp_all add: cache_rel_def)
  obtain capacity xs where a: "a = (capacity, xs)" by fastforce
  note r = r [unfolded a]
  have "refined (pc_use_counter c) (run_cache_op id_of iter op c) (lru_op id_of op (capacity, xs))"
  proof (cases op)
    case (Get q)
    obtain v c' where g: "get_outcome c q = (v, c')" by fastforce
    with get_outcome_refines [OF r _ g] u Get show ?thesis by (auto simp: refined_def Let_def)
  next
    case (Decide q template threshold request)
    with decide_refines [OF r u i, of q template threshold request] show ?thesis
      by (auto simp: refined_def split: prod.splits)
  next
    case Clear
    with r show ?thesis by (auto simp: refined_def cache_clear_def lru_rel_def recency_def)
  qed (use p r u i in \<open>auto intro: insert_refines insert_literal_refines replace_refines remove_refines set_capacity_refines
        simp del: run_cache_op.simps lru_op.simps\<close>)
  then show "\<exists>c'. run_cache_op id_of iter op c = Ok (fst (lru_op id_of op a), c') \<and> cache_rel iter c' (snd (lru_op id_of op a)) \<and>
      pc_use_counter c' \<le> pc_use_counter c + 2"
    using i a by (auto simp: refined_def cache_rel_def)
qed

lemma cache_rel_new: "iterates_map iter \<Longrightarrow> 0 < capacity \<Longrightarrow>
    \<exists>c. cache_new capacity = (Ok c :: (('e, 'f, 't) prepared_cache, unit) result) \<and> cache_rel iter c (capacity, []) \<and> pc_use_counter c = 0"
  by (auto simp: cache_new_def cache_rel_def lru_rel_def recency_def)

lemma lru_rel_bounded: "lru_rel c a \<Longrightarrow> length (pc_entries c) \<le> pc_capacity c \<and> length (snd a) = length (pc_entries c)"
  by (auto simp: lru_rel_def dest: recency_length)

text \<open>
  C4 (the cache is a least-recently-used cache). Whatever the order in which the hash map is iterated, every sequence
  of operations on a new cache, with any query texts, answers exactly as a list of normalised queries kept in order of
  last use, cut at the capacity, would; nothing panics, and there are never more entries than the capacity. The two
  insertions look for an existing entry under the normalised query normalised again, as the code does. Capacities are
  positive, as the code asserts, and the use counter does not reach the end of its 64 bits.
\<close>

theorem cache_refines_lru:
  fixes iter :: "('e, 'f, 't) map_iter"
  assumes "iterates_map iter" "0 < capacity" "list_all op_permitted ops" "2 * length ops \<le> usize_max"
  shows "\<exists>c. rbind (cache_new capacity) (run_ops (run_cache_op id_of iter) ops) =
      Ok (fst (run_spec (lru_op id_of) ops (capacity, [])), c) \<and>
    lru_rel c (snd (run_spec (lru_op id_of) ops (capacity, []))) \<and> length (pc_entries c) \<le> pc_capacity c"
proof -
  from cache_rel_new [OF assms(1,2)] obtain c where
    c: "cache_new capacity = (Ok c :: (('e, 'f, 't) prepared_cache, unit) result)" "cache_rel iter c (capacity, [])" "pc_use_counter c = 0"
    by blast
  have "pc_use_counter c + 2 * length ops \<le> usize_max" using c(3) assms(4) by simp
  from cache_simulation.run_simulates [OF c(2) assms(3) this, of id_of] c(1) show ?thesis
    by (auto simp: cache_rel_def dest: lru_rel_bounded)
qed

subsection \<open>When a query is prepared\<close>

text \<open>The decisions on repeated executions of one query that is not in the cache.\<close>

definition deferral :: "'t \<Rightarrow> nat \<Rightarrow> ('e, 'f, 't) cache_reply" where
  "deferral template i = Decided (Outcome (Deferred template (Suc i)) (0 < i))"

lemma lru_decide_deferred:
  assumes "map_of xs q = Some (Deferred template k)" "Suc k \<le> usize_max"
  shows "lru_decide capacity q template' threshold Execute xs =
    (if threshold = 0 \<or> Suc k < threshold
     then (Outcome (Deferred template (Suc k)) True, (q, Deferred template (Suc k)) # without q xs) else (Prepare, without q xs))"
  using assms by (simp add: lru_decide.simps saturating_add_def)

lemma deferrals:
  assumes q: "normalize_prepared_query q = k" and "threshold = 0 \<or> i + n < threshold" "0 < i" "i + n \<le> usize_max"
    and m: "map_of xs k = Some (Deferred template i)"
  shows "\<exists>ys. run_spec (lru_op id_of) (replicate n (Decide q template threshold Execute)) (capacity, xs) =
      (map (deferral template) [i..<i + n], capacity, ys) \<and> map_of ys k = Some (Deferred template (i + n))"
  using assms(2-)
proof (induction n arbitrary: i xs)
  case (Suc n)
  have d: "lru_decide capacity k template threshold Execute xs =
      (Outcome (Deferred template (Suc i)) True, (k, Deferred template (Suc i)) # without k xs)"
    using Suc.prems by (subst lru_decide_deferred [OF Suc.prems(4)]) auto
  have "[i..<i + Suc n] = i # [Suc i..<Suc i + n]" by (simp add: upt_conv_Cons)
  moreover obtain ys where "run_spec (lru_op id_of) (replicate n (Decide q template threshold Execute))
      (capacity, (k, Deferred template (Suc i)) # without k xs) = (map (deferral template) [Suc i..<Suc i + n], capacity, ys)"
    "map_of ys k = Some (Deferred template (Suc i + n))"
    using Suc.IH [of "Suc i" "(k, Deferred template (Suc i)) # without k xs"] Suc.prems by auto
  ultimately show ?case using d q Suc.prems(2) by (simp add: deferral_def del: upt_Suc)
qed simp

text \<open>
  C19 (a query is prepared when it has been executed often enough). On a new cache with a threshold of at least two, the
  first \<open>threshold - 1\<close> executions of a query are answered with its deferred template and a growing count, and the next
  one decides to prepare it.
\<close>

theorem prepared_at_threshold:
  fixes iter :: "('e, 'f, 't) map_iter"
  assumes "iterates_map iter" "0 < capacity" "2 \<le> threshold" "2 * threshold \<le> usize_max"
  shows "\<exists>c. rbind (cache_new capacity) (run_ops (run_cache_op id_of iter) (replicate threshold (Decide q template threshold Execute))) =
    Ok (map (deferral template) [0..<threshold - 1] @ [Decided Prepare], c)"
proof -
  let ?op = "Decide q template threshold Execute :: ('e, 'f, 't) cache_op" and ?k = "normalize_prepared_query q"
  obtain n where n: "threshold = Suc (Suc n)" using assms(3) by (metis add_2_eq_Suc le_Suc_ex)
  have first: "lru_op id_of ?op (capacity, []) = (deferral template 0, capacity, [(?k, Deferred template 1)])"
    using assms(2,3) by (cases capacity) (auto simp: deferral_def lru_decide.simps lru_put_def without_def Let_def)
  obtain ys where ys: "run_spec (lru_op id_of) (replicate n ?op) (capacity, [(?k, Deferred template 1)]) =
      (map (deferral template) [1..<1 + n], capacity, ys)" "map_of ys ?k = Some (Deferred template (1 + n))"
    using deferrals [of q ?k threshold 1 n "[(?k, Deferred template 1)]" template id_of capacity] n assms(4) by auto
  have final: "lru_op id_of ?op (capacity, ys) = (Decided Prepare, capacity, without ?k ys)"
    using ys(2) n assms(4) by (subst lru_op.simps, subst lru_decide_deferred) auto
  have app: "run_spec (lru_op id_of) (os @ [op]) a = (case run_spec (lru_op id_of) os a of (rs, b) \<Rightarrow>
      case lru_op id_of op b of (r, c) \<Rightarrow> (rs @ [r], c))" for os op and a :: "nat \<times> ('e, 'f, 't) lru"
    by (induction os arbitrary: a) (auto split: prod.splits)
  have "replicate threshold ?op = ?op # replicate n ?op @ [?op]" by (simp add: n replicate_append_same)
  moreover have "[0..<threshold - 1] = 0 # [1..<1 + n]" by (simp add: n upt_conv_Cons)
  ultimately have "fst (run_spec (lru_op id_of) (replicate threshold ?op) (capacity, [])) =
      map (deferral template) [0..<threshold - 1] @ [Decided Prepare]"
    using first ys(1) final app by (simp del: lru_op.simps upt_Suc)
  moreover from cache_rel_new [OF assms(1,2)] obtain c where
    c: "cache_new capacity = (Ok c :: (('e, 'f, 't) prepared_cache, unit) result)" "cache_rel iter c (capacity, [])" "pc_use_counter c = 0"
    by blast
  moreover have "pc_use_counter c + 2 * length (replicate threshold ?op) \<le> usize_max" using c(3) assms(4) by simp
  moreover have "list_all op_permitted (replicate threshold ?op)" by (simp add: list_all_iff)
  ultimately show ?thesis using cache_simulation.run_simulates [OF c(2), of "replicate threshold ?op" id_of] by auto
qed

text \<open>A cache of two queries, iterated backwards.\<close>

definition sample_ops :: "(nat, nat, nat) cache_op list" where
  "sample_ops = [Insert [97] 1, Insert [98, 0x3B] 2, Get [0x20, 97], Insert [99] 3, Get [98], Get [97]]"

lemma sample_iter: "iterates_map rev"
  by (simp add: iterates_map_def)

theorem cache_refines_lru_witness:
  "\<exists>c. rbind (cache_new 2) (run_ops (run_cache_op id rev) sample_ops) =
    Ok ([Entry 1, Entry 2, Found (Some (Prepared 1)), Entry 3, Found None, Found (Some (Prepared 1))], c) \<and>
    length (pc_entries c) \<le> pc_capacity c"
proof -
  have "list_all op_permitted sample_ops" by code_simp
  moreover have "fst (run_spec (lru_op id) sample_ops (2, [])) =
    [Entry 1, Entry 2, Found (Some (Prepared 1)), Entry 3, Found None, Found (Some (Prepared 1))]" by code_simp
  moreover have "2 * length sample_ops \<le> usize_max" by (simp add: sample_ops_def)
  ultimately show ?thesis using cache_refines_lru [OF sample_iter, of 2 sample_ops id] by auto
qed

theorem prepared_at_threshold_witness:
  "\<exists>c. rbind (cache_new 1) (run_ops (run_cache_op id rev) (replicate 3 (Decide [97] 0 3 Execute))) =
    Ok ([Decided (Outcome (Deferred 0 1) False), Decided (Outcome (Deferred 0 2) True), Decided Prepare]
      :: (nat, nat, nat) cache_reply list, c)"
proof -
  have "map (deferral 0) [0..<3 - 1] @ [Decided Prepare] =
      ([Decided (Outcome (Deferred 0 1) False), Decided (Outcome (Deferred 0 2) True), Decided Prepare]
        :: (nat, nat, nat) cache_reply list)"
    by (simp add: deferral_def upt_conv_Cons)
  moreover have "\<exists>c. rbind (cache_new 1) (run_ops (run_cache_op id rev) (replicate 3 (Decide [97] 0 3 Execute))) =
    Ok (map (deferral 0) [0..<3 - 1] @ [Decided Prepare] :: (nat, nat, nat) cache_reply list, c)"
    by (rule prepared_at_threshold [OF sample_iter]) simp_all
  ultimately show ?thesis by simp
qed

text \<open>When a second pass changes nothing, an insertion replaces, keeps and moves the entry of its own query.\<close>

definition settled :: "query \<Rightarrow> bool" where
  "settled q \<longleftrightarrow> normalize_prepared_query (normalize_prepared_query q) = normalize_prepared_query q"

lemma insert_settled:
  assumes "settled q"
  defines "k \<equiv> normalize_prepared_query q"
  shows "lru_op id_of (Insert q candidate) (capacity, xs) =
    (case map_of xs k of
       Some (Prepared e) \<Rightarrow> (Entry e, capacity, lru_touch k xs)
     | _ \<Rightarrow> (Entry candidate, capacity, lru_put capacity k (Prepared candidate) xs))"
  using assms by (simp add: settled_def Let_def split: option.split prepare_outcome.split)

text \<open>A query that ends in several separated semicolons is normalised to different texts by one pass and by two.\<close>

lemma normalize_not_idempotent:
  "normalize_prepared_query [97, 0x3B, 0x20, 0x3B] = [97, 0x3B]"
  "normalize_prepared_query [97, 0x3B] = [97]"
  by code_simp+

end
