(* ===== verification/Sql_Scan.thy ===== *)
theory Sql_Scan
  imports Text
begin

text \<open>
  The SQL scanner of \<open>parameters.rs\<close>: it finds the statements of a query and its parameter markers outside
  strings, quoted identifiers and comments. A query is the list of its UTF-8 bytes. The scan is the loop of
  \<open>scan_query\<close> with the bytes from \<open>index\<close> on (\<open>rest\<close>) and the byte before them (\<open>prev\<close>) as arguments; a step returns how
  far the index moves. Cutting a string inside a character panics. Whether a character outside ASCII is
  alphanumeric, which the standard library answers from the Unicode tables, is an argument on its bytes.
\<close>

subsection \<open>Errors\<close>

datatype status =
    InvalidArguments | InvalidData | InvalidState | NotImplemented | Internal | NotFound | AlreadyExists
  | Cancelled | Timeout | IO | Unauthenticated | Unauthorized | Integrity | Unknown

datatype adbc_error = Adbc_Error string status

definition e_named_ascii :: adbc_error where
  "e_named_ascii = Adbc_Error ''named parameter identifiers must be ASCII'' InvalidArguments"
definition e_backslash_quote :: adbc_error where
  "e_backslash_quote = Adbc_Error (''backslash-escaped quotes in ordinary SQL strings depend on the server'' @ [CHR 0x27] @
     ''s raw_strings setting; use E'' @ [CHR 0x27] @ ''...'' @ [CHR 0x27] @ '' or R'' @ [CHR 0x27] @ ''...'' @ [CHR 0x27])
     InvalidArguments"
definition e_unterminated :: adbc_error where
  "e_unterminated = Adbc_Error ''query contains an unterminated quoted string, identifier, or comment'' InvalidArguments"
definition e_empty_query :: adbc_error where "e_empty_query = Adbc_Error ''SQL query is empty'' InvalidArguments"
definition e_not_bound :: adbc_error where "e_not_bound = Adbc_Error ''parameters are not bound'' InvalidState"

subsection \<open>Bytes of a query\<close>

definition ascii :: "string \<Rightarrow> u8 list" where
  "ascii s = map (\<lambda>c. word_of_nat (of_char c)) s"

definition to_ascii_lowercase :: "u8 \<Rightarrow> u8" where
  "to_ascii_lowercase b = (if 0x41 \<le> b \<and> b \<le> 0x5A then b + 0x20 else b)"

definition to_ascii_uppercase :: "u8 \<Rightarrow> u8" where
  "to_ascii_uppercase b = (if 0x61 \<le> b \<and> b \<le> 0x7A then b - 0x20 else b)"

definition eq_ignore_ascii_case :: "u8 list \<Rightarrow> string \<Rightarrow> bool" where
  "eq_ignore_ascii_case bs s \<longleftrightarrow> map to_ascii_lowercase bs = map to_ascii_lowercase (ascii s)"

definition is_identifier_start :: "u8 \<Rightarrow> bool" where
  "is_identifier_start b \<longleftrightarrow> (0x41 \<le> b \<and> b \<le> 0x5A \<or> 0x61 \<le> b \<and> b \<le> 0x7A) \<or> b = 0x5F"

definition is_identifier_continue :: "u8 \<Rightarrow> bool" where
  "is_identifier_continue b \<longleftrightarrow> is_identifier_start b \<or> is_digit b"

text \<open>How far \<open>next_char\<close> moves: the length of the character that starts here.\<close>

definition char_len :: "u8 \<Rightarrow> nat" where
  "char_len b = (if b < 0x80 then 1 else if b < 0xE0 then 2 else if b < 0xF0 then 3 else 4)"

definition next_char :: "u8 list \<Rightarrow> (nat, adbc_error) result" where
  "next_char rest =
     (case rest of
        [] \<Rightarrow> Panic
      | b # _ \<Rightarrow> if continuation b then Panic else Ok (char_len b))"

subsection \<open>Procedural bodies\<close>

datatype create_prefix = CP_Start | CP_Create | CP_Or | CP_Replace | CP_Modifier | CP_Procedural | CP_Other
datatype procedural_block = PB_Begin | PB_Case | PB_If | PB_While

record procedural_scan =
  ps_prefix :: create_prefix
  ps_active :: bool
  ps_blocks :: "procedural_block list"
  ps_statement_start :: bool
  ps_after_end :: "procedural_block option"

definition procedural_new :: procedural_scan where
  "procedural_new =
     \<lparr>ps_prefix = CP_Start, ps_active = False, ps_blocks = [], ps_statement_start = True, ps_after_end = None\<rparr>"

definition is_routine_keyword :: "u8 list \<Rightarrow> bool" where
  "is_routine_keyword word \<longleftrightarrow> eq_ignore_ascii_case word ''function'' \<or> eq_ignore_ascii_case word ''procedure''
     \<or> eq_ignore_ascii_case word ''trigger''"

definition is_routine_modifier :: "u8 list \<Rightarrow> bool" where
  "is_routine_modifier word \<longleftrightarrow> eq_ignore_ascii_case word ''aggregate'' \<or> eq_ignore_ascii_case word ''filter''
     \<or> eq_ignore_ascii_case word ''loader'' \<or> eq_ignore_ascii_case word ''window''"

fun terminates_block :: "u8 list \<Rightarrow> procedural_block \<Rightarrow> bool" where
  "terminates_block word PB_Begin = False"
| "terminates_block word PB_Case = eq_ignore_ascii_case word ''case''"
| "terminates_block word PB_If = eq_ignore_ascii_case word ''if''"
| "terminates_block word PB_While = eq_ignore_ascii_case word ''while''"

definition next_prefix :: "create_prefix \<Rightarrow> u8 list \<Rightarrow> create_prefix" where
  "next_prefix prefix word =
     (case prefix of
        CP_Start \<Rightarrow> if eq_ignore_ascii_case word ''create'' then CP_Create else CP_Other
      | CP_Create \<Rightarrow>
          if eq_ignore_ascii_case word ''or'' then CP_Or
          else if is_routine_keyword word then CP_Procedural
          else if is_routine_modifier word then CP_Modifier else CP_Other
      | CP_Replace \<Rightarrow>
          if is_routine_keyword word then CP_Procedural
          else if is_routine_modifier word then CP_Modifier else CP_Other
      | CP_Or \<Rightarrow> if eq_ignore_ascii_case word ''replace'' then CP_Replace else CP_Other
      | CP_Modifier \<Rightarrow> if eq_ignore_ascii_case word ''function'' then CP_Procedural else CP_Other
      | CP_Procedural \<Rightarrow> CP_Procedural
      | CP_Other \<Rightarrow> CP_Other)"

text \<open>The top of the stack of blocks is the end of the list.\<close>

definition observe_word :: "procedural_scan \<Rightarrow> u8 list \<Rightarrow> procedural_scan" where
  "observe_word p word =
     (if \<not> ps_active p then
        let p = p\<lparr>ps_prefix := next_prefix (ps_prefix p) word\<rparr>
        in if ps_prefix p = CP_Procedural \<and> eq_ignore_ascii_case word ''begin''
           then p\<lparr>ps_active := True, ps_blocks := ps_blocks p @ [PB_Begin], ps_statement_start := True\<rparr>
           else p
      else
        let ended = ps_after_end p;
            p = p\<lparr>ps_after_end := None\<rparr>
        in if (case ended of None \<Rightarrow> False | Some block \<Rightarrow> terminates_block word block) then p
           else if eq_ignore_ascii_case word ''end'' then
             p\<lparr>ps_after_end := (if ps_blocks p = [] then None else Some (last (ps_blocks p))),
               ps_blocks := butlast (ps_blocks p), ps_statement_start := False\<rparr>
           else if eq_ignore_ascii_case word ''case'' then
             p\<lparr>ps_blocks := ps_blocks p @ [PB_Case], ps_statement_start := False\<rparr>
           else if eq_ignore_ascii_case word ''if'' \<and> ps_statement_start p then
             p\<lparr>ps_blocks := ps_blocks p @ [PB_If], ps_statement_start := False\<rparr>
           else if eq_ignore_ascii_case word ''while'' then
             p\<lparr>ps_blocks := ps_blocks p @ [PB_While], ps_statement_start := False\<rparr>
           else
             p\<lparr>ps_statement_start := eq_ignore_ascii_case word ''then'' \<or> eq_ignore_ascii_case word ''else''
                 \<or> eq_ignore_ascii_case word ''elseif'' \<or> eq_ignore_ascii_case word ''do''\<rparr>)"

definition semicolon_is_internal :: "procedural_scan \<Rightarrow> bool \<times> procedural_scan" where
  "semicolon_is_internal p =
     (if ps_active p \<and> ps_blocks p \<noteq> [] then (True, p\<lparr>ps_statement_start := True, ps_after_end := None\<rparr>) else (False, p))"

definition is_bare_integer_keyword :: "u8 list \<Rightarrow> bool" where
  "is_bare_integer_keyword word \<longleftrightarrow> eq_ignore_ascii_case word ''limit'' \<or> eq_ignore_ascii_case word ''offset''
     \<or> eq_ignore_ascii_case word ''sample'' \<or> eq_ignore_ascii_case word ''seed''"

subsection \<open>The scan\<close>

datatype lex_state =
    Normal | SingleQuote | EscapedSingleQuote | RawSingleQuote | DoubleQuote | LineComment | BlockComment

record scanned_slot =
  slot_start :: nat
  slot_end :: nat
  slot_name :: "(nat \<times> nat) option"
  slot_bare :: bool

record query_scan =
  qs_statements :: "(nat \<times> nat) list"
  qs_slots :: "scanned_slot list"
  qs_first_keyword :: "(nat \<times> nat) option"
  qs_has_data_change :: bool

record scan_state =
  ss_lex :: lex_state
  ss_statement_start :: nat
  ss_has_code :: bool
  ss_scan :: query_scan
  ss_procedural :: procedural_scan
  ss_bare :: bool
  ss_fetch :: bool

definition scan_start :: scan_state where
  "scan_start =
     \<lparr>ss_lex = Normal, ss_statement_start = 0, ss_has_code = False,
      ss_scan = \<lparr>qs_statements = [], qs_slots = [], qs_first_keyword = None, qs_has_data_change = False\<rparr>,
      ss_procedural = procedural_new, ss_bare = False, ss_fetch = False\<rparr>"

definition code_token :: "lex_state \<Rightarrow> scan_state \<Rightarrow> scan_state" where
  "code_token state st = st\<lparr>ss_has_code := True, ss_bare := False, ss_fetch := False, ss_lex := state\<rparr>"

definition push_slot :: "nat \<Rightarrow> nat \<Rightarrow> (nat \<times> nat) option \<Rightarrow> scan_state \<Rightarrow> scan_state" where
  "push_slot start stop name st =
     (let scan = ss_scan st;
          slot = \<lparr>slot_start = start, slot_end = stop, slot_name = name, slot_bare = ss_bare st\<rparr>
      in st\<lparr>ss_has_code := True, ss_scan := scan\<lparr>qs_slots := qs_slots scan @ [slot]\<rparr>, ss_bare := False, ss_fetch := False\<rparr>)"

definition scan_semicolon :: "nat \<Rightarrow> scan_state \<Rightarrow> scan_state" where
  "scan_semicolon index st =
     (case semicolon_is_internal (ss_procedural st) of
        (True, p) \<Rightarrow> st\<lparr>ss_procedural := p\<rparr>
      | (False, p) \<Rightarrow>
          let scan = ss_scan st
          in st\<lparr>ss_scan := (if ss_has_code st
                            then scan\<lparr>qs_statements := qs_statements scan @ [(ss_statement_start st, index)]\<rparr> else scan),
                ss_statement_start := index + 1, ss_has_code := False, ss_procedural := procedural_new,
                ss_bare := False, ss_fetch := False\<rparr>)"

definition is_data_change :: "u8 list \<Rightarrow> bool" where
  "is_data_change word \<longleftrightarrow>
     map to_ascii_uppercase word \<in> {ascii ''INSERT'', ascii ''UPDATE'', ascii ''DELETE'', ascii ''MERGE'', ascii ''TRUNCATE''}"

definition scan_word :: "nat \<Rightarrow> u8 list \<Rightarrow> scan_state \<Rightarrow> scan_state" where
  "scan_word index word st =
     (let scan = ss_scan st;
          keyword = (case qs_first_keyword scan of None \<Rightarrow> Some (index, index + length word) | Some k \<Rightarrow> Some k)
      in st\<lparr>ss_has_code := True,
            ss_scan := scan\<lparr>qs_first_keyword := keyword, qs_has_data_change := qs_has_data_change scan \<or> is_data_change word\<rparr>,
            ss_procedural := observe_word (ss_procedural st) word,
            ss_bare := (is_bare_integer_keyword word \<or>
              ss_fetch st \<and> (eq_ignore_ascii_case word ''first'' \<or> eq_ignore_ascii_case word ''next'')),
            ss_fetch := eq_ignore_ascii_case word ''fetch''\<rparr>)"

definition identifier_run :: "nat \<Rightarrow> u8 list \<Rightarrow> nat" where
  "identifier_run n rest = n + length (takeWhile is_identifier_continue (drop n rest))"

definition scan_named :: "(u8 list \<Rightarrow> bool) \<Rightarrow> u8 list \<Rightarrow> nat \<Rightarrow> scan_state \<Rightarrow> (nat \<times> scan_state, adbc_error) result" where
  "scan_named alnum rest index st =
     (let n = identifier_run 2 rest in
      case drop n rest of
        [] \<Rightarrow> Ok (n, push_slot index (index + n) (Some (index + 1, index + n)) st)
      | b # _ \<Rightarrow>
          if continuation b then Panic
          else if \<not> b < 0x80 \<and> alnum (take (char_len b) (drop n rest)) then Err e_named_ascii
          else Ok (n, push_slot index (index + n) (Some (index + 1, index + n)) st))"

definition scan_normal ::
  "(u8 list \<Rightarrow> bool) \<Rightarrow> u8 option \<Rightarrow> u8 list \<Rightarrow> nat \<Rightarrow> scan_state \<Rightarrow> (nat \<times> scan_state, adbc_error) result" where
  "scan_normal alnum prev rest index st =
     (let current = hd rest; next = get rest 1; third = get rest 2 in
      if current = 0x3B then Ok (1, scan_semicolon index st)
      else if ascii_whitespace current then rbind (next_char rest) (\<lambda>n. Ok (n, st))
      else if current = 0x2D \<and> next = Some 0x2D then Ok (2, st\<lparr>ss_lex := LineComment\<rparr>)
      else if current = 0x23 then Ok (1, st\<lparr>ss_lex := LineComment\<rparr>)
      else if current = 0x2F \<and> next = Some 0x2A then Ok (2, st\<lparr>ss_lex := BlockComment\<rparr>)
      else if current = 0x3F then Ok (1, push_slot index (index + 1) None st)
      else if current = 0x3A \<and> (case next of None \<Rightarrow> False | Some b \<Rightarrow> is_identifier_start b) \<and> prev \<noteq> Some 0x3A
        then scan_named alnum rest index st
      else if current \<in> {0x72, 0x52, 0x78, 0x58} \<and> next = Some 0x27 then Ok (2, code_token RawSingleQuote st)
      else if current \<in> {0x65, 0x45} \<and> next = Some 0x27 then Ok (2, code_token EscapedSingleQuote st)
      else if current \<in> {0x75, 0x55} \<and> next = Some 0x26 \<and> third = Some 0x27 then Ok (3, code_token RawSingleQuote st)
      else if current \<in> {0x75, 0x55} \<and> next = Some 0x26 \<and> third = Some 0x22 then Ok (3, code_token DoubleQuote st)
      else if current = 0x27 then Ok (1, code_token SingleQuote st)
      else if current = 0x22 then Ok (1, code_token DoubleQuote st)
      else if is_identifier_start current then
        let n = identifier_run 1 rest in Ok (n, scan_word index (take n rest) st)
      else rbind (next_char rest) (\<lambda>n. Ok (n, code_token Normal st)))"

text \<open>A doubled delimiter stays inside the string, a single one ends it.\<close>

definition close_quote :: "u8 \<Rightarrow> u8 list \<Rightarrow> nat \<Rightarrow> scan_state \<Rightarrow> nat \<times> scan_state" where
  "close_quote delimiter rest n st =
     (if hd rest = delimiter
      then if get rest 1 = Some delimiter then (n + 1, st) else (n, st\<lparr>ss_lex := Normal\<rparr>)
      else (n, st))"

definition scan_step ::
  "(u8 list \<Rightarrow> bool) \<Rightarrow> u8 option \<Rightarrow> u8 list \<Rightarrow> nat \<Rightarrow> scan_state \<Rightarrow> (nat \<times> scan_state, adbc_error) result" where
  "scan_step alnum prev rest index st =
     (case ss_lex st of
        Normal \<Rightarrow> scan_normal alnum prev rest index st
      | SingleQuote \<Rightarrow>
          if hd rest = 0x5C \<and> get rest 1 = Some 0x27 then Err e_backslash_quote
          else rbind (next_char rest) (\<lambda>n. Ok (close_quote 0x27 rest n st))
      | EscapedSingleQuote \<Rightarrow>
          rbind (next_char rest) (\<lambda>n.
            if hd rest = 0x5C \<and> n < length rest then rbind (next_char (drop n rest)) (\<lambda>m. Ok (n + m, st))
            else Ok (close_quote 0x27 rest n st))
      | RawSingleQuote \<Rightarrow> rbind (next_char rest) (\<lambda>n. Ok (close_quote 0x27 rest n st))
      | DoubleQuote \<Rightarrow> rbind (next_char rest) (\<lambda>n. Ok (close_quote 0x22 rest n st))
      | LineComment \<Rightarrow> rbind (next_char rest) (\<lambda>n. Ok (n, if hd rest = 0x0A then st\<lparr>ss_lex := Normal\<rparr> else st))
      | BlockComment \<Rightarrow>
          rbind (next_char rest) (\<lambda>n.
            Ok (if hd rest = 0x2A \<and> get rest 1 = Some 0x2F then (n + 1, st\<lparr>ss_lex := Normal\<rparr>) else (n, st))))"

text \<open>What a successful result satisfies, branch by branch.\<close>

definition ensures :: "('a \<Rightarrow> bool) \<Rightarrow> ('a, 'e) result \<Rightarrow> bool" where
  "ensures P r \<longleftrightarrow> (case r of Ok x \<Rightarrow> P x | Err _ \<Rightarrow> True | Panic \<Rightarrow> True)"

named_theorems ensures_intros

lemma ensures_Ok [ensures_intros]: "P x \<Longrightarrow> ensures P (Ok x)"
  and ensures_Err [ensures_intros]: "ensures P (Err e)"
  and ensures_Panic [ensures_intros]: "ensures P Panic"
  and ensures_if [ensures_intros]: "(b \<Longrightarrow> ensures P r) \<Longrightarrow> (\<not> b \<Longrightarrow> ensures P s) \<Longrightarrow> ensures P (if b then r else s)"
  by (simp_all add: ensures_def)

lemma ensures_rbind [ensures_intros]: "(\<And>x. r = Ok x \<Longrightarrow> ensures P (f x)) \<Longrightarrow> ensures P (rbind r f)"
  by (cases r) (simp_all add: ensures_def)

lemma ensuresD: "ensures P r \<Longrightarrow> r = Ok x \<Longrightarrow> P x"
  by (simp add: ensures_def)

lemma char_len_pos [simp]: "0 < char_len b"
  by (simp add: char_len_def)

lemma next_char_Ok: "next_char rest = Ok n \<longleftrightarrow> rest \<noteq> [] \<and> \<not> continuation (hd rest) \<and> n = char_len (hd rest)"
  by (cases rest) (auto simp: next_char_def)

lemma identifier_run_pos: "0 < n \<Longrightarrow> 0 < identifier_run n rest"
  by (simp add: identifier_run_def)

lemma next_char_pos: "next_char rest = Ok n \<Longrightarrow> 0 < n"
  by (simp add: next_char_Ok)

lemma close_quote_pos: "0 < n \<Longrightarrow> 0 < fst (close_quote delimiter rest n st)"
  by (simp add: close_quote_def)

lemma scan_named_pos: "ensures (\<lambda>p. 0 < fst p) (scan_named alnum rest index st)"
  using identifier_run_pos [of 2 rest] by (simp add: scan_named_def Let_def ensures_def split: list.split)

lemma scan_normal_pos: "ensures (\<lambda>p. 0 < fst p) (scan_normal alnum prev rest index st)"
  unfolding scan_normal_def Let_def
  by (intro ensures_intros scan_named_pos) (simp_all add: identifier_run_pos next_char_pos)

lemma scan_step_ensures: "ensures (\<lambda>p. 0 < fst p) (scan_step alnum prev rest index st)"
proof (cases "ss_lex st")
  case Normal
  then show ?thesis by (simp add: scan_step_def scan_normal_pos)
qed (auto simp: scan_step_def intro!: ensures_intros close_quote_pos dest: next_char_pos)

lemma scan_step_pos: "scan_step alnum prev rest index st = Ok (n, st') \<Longrightarrow> 0 < n"
  using ensuresD [OF scan_step_ensures] by fastforce

function scan_loop ::
  "(u8 list \<Rightarrow> bool) \<Rightarrow> u8 option \<Rightarrow> u8 list \<Rightarrow> nat \<Rightarrow> scan_state \<Rightarrow> (scan_state, adbc_error) result" where
  "scan_loop alnum prev rest index st =
     (if rest = [] then Ok st
      else case scan_step alnum prev rest index st of
        Ok (n, st) \<Rightarrow> scan_loop alnum (get rest (n - 1)) (drop n rest) (index + n) st
      | Err e \<Rightarrow> Err e
      | Panic \<Rightarrow> Panic)"
  by pat_completeness auto
termination
  by (relation "measure (\<lambda>(alnum, prev, rest, index, st). length rest)") (auto dest: scan_step_pos)

declare scan_loop.simps [simp del]

definition scan_finish :: "nat \<Rightarrow> scan_state \<Rightarrow> (query_scan, adbc_error) result" where
  "scan_finish len st =
     (if ss_lex st \<noteq> Normal \<and> ss_lex st \<noteq> LineComment then Err e_unterminated
      else
        let scan = ss_scan st
        in Ok (if ss_has_code st
               then scan\<lparr>qs_statements := qs_statements scan @ [(ss_statement_start st, len)]\<rparr> else scan))"

definition scan_query :: "(u8 list \<Rightarrow> bool) \<Rightarrow> u8 list \<Rightarrow> (query_scan, adbc_error) result" where
  "scan_query alnum query = rbind (scan_loop alnum None query 0 scan_start) (scan_finish (length query))"

subsection \<open>Characters are never cut\<close>

definition consumable :: "u8 list \<Rightarrow> nat \<Rightarrow> bool" where
  "consumable rest n \<longleftrightarrow> n \<le> length rest \<and> utf8_valid (drop n rest)"

lemma utf8_valid_drop_ascii: "utf8_valid (xs @ ys) \<Longrightarrow> \<forall>b \<in> set xs. b < 0x80 \<Longrightarrow> utf8_valid ys"
  by (induction xs) (auto simp: utf8_valid_ascii_Cons)

lemma utf8_step_char_len:
  assumes "bs \<noteq> []" "utf8_step bs = (True, n)"
  shows "n = char_len (hd bs) \<and> n \<le> length bs \<and> \<not> continuation (hd bs)"
proof -
  obtain b cs where b: "bs = b # cs" using assms(1) by (cases bs) auto
  have z: "\<not> continuation 0" by (simp add: continuation_def)
  have two: "\<not> second_of_three c 0" "\<not> second_of_four c 0" for c
    by (auto simp: second_of_three_def second_of_four_def continuation_def)
  show ?thesis
    using assms(2) z two unfolding b utf8_step_def Let_def safe_get_def
    by (auto simp: Suc_le_eq char_len_def continuation_def word_le_nat_alt word_less_nat_alt split: if_splits)
qed

lemma next_char_valid:
  assumes "utf8_valid rest" "rest \<noteq> []"
  shows "next_char rest = Ok (char_len (hd rest))" "consumable rest (char_len (hd rest))"
proof -
  obtain v n where s: "utf8_step rest = (v, n)" by fastforce
  with assms have v: "v" "utf8_valid (drop n rest)" by (auto simp: utf8_valid.simps [of rest] split: if_splits)
  from utf8_step_char_len [OF assms(2) s [unfolded eqTrueI [OF v(1)]]] v
  show "next_char rest = Ok (char_len (hd rest))" "consumable rest (char_len (hd rest))"
    using assms(2) by (auto simp: next_char_Ok consumable_def)
qed

lemma next_char_consumable: "utf8_valid rest \<Longrightarrow> next_char rest = Ok n \<Longrightarrow> consumable rest n"
  by (cases "rest = []") (auto simp: next_char_Ok dest: next_char_valid)

lemma consumable_1: "utf8_valid rest \<Longrightarrow> rest \<noteq> [] \<Longrightarrow> hd rest < 0x80 \<Longrightarrow> consumable rest 1"
  by (cases rest) (auto simp: consumable_def utf8_valid_ascii_Cons)

lemma consumable_2: "utf8_valid rest \<Longrightarrow> hd rest < 0x80 \<Longrightarrow> get rest 1 = Some b \<Longrightarrow> b < 0x80 \<Longrightarrow> consumable rest 2"
  by (cases rest rule: remdups_adj.cases) (auto simp: consumable_def get_def utf8_valid_ascii_Cons)

lemma consumable_Suc:
  "utf8_valid rest \<Longrightarrow> hd rest < 0x80 \<Longrightarrow> get rest 1 = Some b \<Longrightarrow> b < 0x80 \<Longrightarrow> consumable rest (Suc (char_len (hd rest)))"
  using consumable_2 [of rest b] by (simp add: char_len_def eval_nat_numeral(3) del: One_nat_def)

lemma consumable_3:
  assumes "utf8_valid rest" "hd rest < 0x80" "get rest 1 = Some b" "b < 0x80" "get rest 2 = Some c" "c < 0x80"
  shows "consumable rest 3"
proof -
  from assms(5) have "3 \<le> length rest" by (auto simp: get_def split: if_splits)
  then obtain x y z t where "rest = x # y # z # t"
    by (cases rest; cases "tl rest"; cases "tl (tl rest)") auto
  with assms show ?thesis by (simp add: consumable_def get_def utf8_valid_ascii_Cons)
qed

lemma is_identifier_start_ascii: "is_identifier_start b \<Longrightarrow> b < 0x80"
  by (auto simp: is_identifier_start_def word_le_nat_alt word_less_nat_alt)

lemma is_identifier_continue_ascii: "is_identifier_continue b \<Longrightarrow> b < 0x80"
  by (auto simp: is_identifier_continue_def is_identifier_start_ascii is_digit_ascii)

lemma identifier_run_consumable:
  assumes "utf8_valid rest" "k \<le> length rest" "\<forall>b \<in> set (take k rest). b < 0x80"
  shows "consumable rest (identifier_run k rest)"
proof -
  let ?w = "takeWhile is_identifier_continue (drop k rest)"
  have split: "rest = (take k rest @ ?w) @ dropWhile is_identifier_continue (drop k rest)" by simp
  have "\<forall>b \<in> set (take k rest @ ?w). b < 0x80"
    using assms(3) by (auto dest!: set_takeWhileD simp: is_identifier_continue_ascii)
  with assms(1) split have "utf8_valid (dropWhile is_identifier_continue (drop k rest))"
    using utf8_valid_drop_ascii [of "take k rest @ ?w"] by simp
  moreover have "drop (identifier_run k rest) rest = dropWhile is_identifier_continue (drop k rest)"
    by (simp add: identifier_run_def dropWhile_eq_drop add.commute)
  moreover have "identifier_run k rest \<le> length rest"
    using assms(2) length_takeWhile_le [of is_identifier_continue "drop k rest"] by (simp add: identifier_run_def)
  ultimately show ?thesis by (simp add: consumable_def)
qed

subsection \<open>Ranges\<close>

text \<open>The name of a named marker is the marker without its colon.\<close>

definition slot_ok :: "scanned_slot \<Rightarrow> bool" where
  "slot_ok s \<longleftrightarrow> slot_start s < slot_end s \<and>
     (case slot_name s of None \<Rightarrow> slot_end s = slot_start s + 1 | Some (a, b) \<Rightarrow> a = slot_start s + 1 \<and> b = slot_end s \<and> a < b)"

definition within :: "scanned_slot \<Rightarrow> nat \<times> nat \<Rightarrow> bool" where
  "within s r \<longleftrightarrow> fst r \<le> slot_start s \<and> slot_end s \<le> snd r"

text \<open>A position between two characters.\<close>

definition between :: "u8 list \<Rightarrow> nat \<Rightarrow> bool" where
  "between q i \<longleftrightarrow> i \<le> length q \<and> utf8_valid (drop i q)"

definition slot_between :: "u8 list \<Rightarrow> scanned_slot \<Rightarrow> bool" where
  "slot_between q s \<longleftrightarrow> between q (slot_start s) \<and> between q (slot_end s) \<and>
     get q (slot_start s) = Some (if slot_name s = None then 0x3F else 0x3A) \<and>
     (case slot_name s of None \<Rightarrow> True | Some (a, b) \<Rightarrow> between q a)"

definition ranges_ok :: "u8 list \<Rightarrow> query_scan \<Rightarrow> bool" where
  "ranges_ok q scan \<longleftrightarrow>
     sorted_wrt (\<lambda>a b. snd a < fst b) (qs_statements scan) \<and>
     (\<forall>r \<in> set (qs_statements scan). fst r < snd r \<and> between q (fst r) \<and> between q (snd r)) \<and>
     sorted_wrt (\<lambda>a b. slot_end a \<le> slot_start b) (qs_slots scan) \<and> (\<forall>s \<in> set (qs_slots scan). slot_ok s \<and> slot_between q s)"

definition scan_inv :: "u8 list \<Rightarrow> nat \<Rightarrow> scan_state \<Rightarrow> bool" where
  "scan_inv q index st \<longleftrightarrow>
     ranges_ok q (ss_scan st) \<and> between q index \<and> between q (ss_statement_start st) \<and> ss_statement_start st \<le> index \<and> (ss_has_code st \<longrightarrow> ss_statement_start st < index) \<and>
     (\<forall>r \<in> set (qs_statements (ss_scan st)). snd r < ss_statement_start st) \<and>
     (\<forall>s \<in> set (qs_slots (ss_scan st)). slot_end s \<le> index \<and>
        ((\<exists>r \<in> set (qs_statements (ss_scan st)). within s r) \<or> ss_has_code st \<and> ss_statement_start st \<le> slot_start s))"

lemma scan_inv_mono: "scan_inv q i st \<Longrightarrow> i \<le> j \<Longrightarrow> between q j \<Longrightarrow> scan_inv q j st"
  by (auto simp: scan_inv_def)

lemma scan_inv_lex: "scan_inv q i st \<Longrightarrow> scan_inv q i (st\<lparr>ss_lex := lx\<rparr>)"
  by (simp add: scan_inv_def)

lemma scan_inv_code_token: "scan_inv q i st \<Longrightarrow> i < j \<Longrightarrow> between q j \<Longrightarrow> scan_inv q j (code_token lx st)"
  by (auto simp: scan_inv_def code_token_def)

lemma scan_inv_push_slot:
  assumes "scan_inv q i st" "i < j" "between q j" "get q i = Some (if name = None then 0x3F else 0x3A)"
    "case name of None \<Rightarrow> j = i + 1 | Some (a, b) \<Rightarrow> a = i + 1 \<and> b = j \<and> a < b \<and> between q a"
  shows "scan_inv q j (push_slot i j name st)"
  using assms
  by (auto simp: scan_inv_def push_slot_def Let_def ranges_ok_def sorted_wrt_append slot_ok_def slot_between_def split: option.splits)

lemma scan_inv_semicolon: "scan_inv q i st \<Longrightarrow> between q (Suc i) \<Longrightarrow> scan_inv q (Suc i) (scan_semicolon i st)"
  by (fastforce simp: scan_inv_def scan_semicolon_def semicolon_is_internal_def Let_def ranges_ok_def sorted_wrt_append within_def)

lemma scan_inv_word: "scan_inv q i st \<Longrightarrow> i < j \<Longrightarrow> between q j \<Longrightarrow> scan_inv q j (scan_word k word st)"
  by (auto simp: scan_inv_def scan_word_def Let_def ranges_ok_def)

text \<open>A step moves to the start of a character inside the query and keeps the invariant.\<close>

definition good_step :: "u8 list \<Rightarrow> nat \<Rightarrow> nat \<times> scan_state \<Rightarrow> bool" where
  "good_step q index p \<longleftrightarrow> scan_inv q (index + fst p) (snd p)"

lemma scan_inv_rest: "scan_inv q index st \<Longrightarrow> index \<le> length q \<and> utf8_valid (drop index q)"
  by (simp add: scan_inv_def between_def)

lemma consumable_between: "index \<le> length q \<Longrightarrow> consumable (drop index q) n \<longleftrightarrow> between q (index + n)"
  by (auto simp: consumable_def between_def add.commute)

lemma good_step_stay:
  "scan_inv q index st \<Longrightarrow> consumable (drop index q) n \<Longrightarrow> good_step q index (n, st\<lparr>ss_lex := lx\<rparr>)"
  "scan_inv q index st \<Longrightarrow> consumable (drop index q) n \<Longrightarrow> good_step q index (n, st)"
  using scan_inv_rest [of q index st]
  by (auto simp: good_step_def consumable_between intro: scan_inv_mono scan_inv_lex)

lemma good_step_code_token:
  "scan_inv q index st \<Longrightarrow> consumable (drop index q) n \<Longrightarrow> 0 < n \<Longrightarrow> good_step q index (n, code_token lx st)"
  using scan_inv_rest [of q index st] by (simp add: good_step_def scan_inv_code_token consumable_between)

lemma identifier_run_ge: "n \<le> identifier_run n rest"
  by (simp add: identifier_run_def)

lemma get_hd: "drop i q \<noteq> [] \<Longrightarrow> get q i = Some (hd (drop i q))"
  by (simp add: get_def hd_drop_conv_nth)

lemma scan_named_good:
  assumes i: "scan_inv q index st" and rest: "rest = drop index q"
    and v: "hd rest = 0x3A" "get rest 1 = Some b" "b < 0x80"
  shows "ensures (good_step q index) (scan_named alnum rest index st)" "scan_named alnum rest index st \<noteq> Panic"
proof -
  have u: "utf8_valid rest" "index \<le> length q" using scan_inv_rest [OF i] rest by simp_all
  have l: "2 \<le> length rest" using v(2) by (auto simp: get_def split: if_splits)
  then obtain x y t where r: "rest = x # y # t" by (cases rest; cases "tl rest") auto
  let ?n = "identifier_run 2 rest"
  have c: "consumable rest ?n" "consumable rest 1"
    using identifier_run_consumable [OF u(1) l] consumable_1 [OF u(1)] v r by (auto simp: get_def)
  then have bt: "between q (index + ?n)" "between q (index + 1)" using consumable_between [OF u(2)] rest by simp_all
  have g: "get q index = Some 0x3A" using v(1) r get_hd [of index q] rest by simp
  have "2 \<le> ?n" by (rule identifier_run_ge)
  then have "good_step q index (?n, push_slot index (index + ?n) (Some (index + 1, index + ?n)) st)"
    using bt i g by (auto simp: good_step_def intro!: scan_inv_push_slot)
  then show "ensures (good_step q index) (scan_named alnum rest index st)"
    by (auto simp: scan_named_def Let_def ensures_def split: list.splits)
  show "scan_named alnum rest index st \<noteq> Panic"
    using c(1) utf8_valid_hd by (auto simp: scan_named_def Let_def consumable_def split: list.splits if_splits)
qed

lemma scan_normal_good:
  assumes i: "scan_inv q index st" and rest: "rest = drop index q" "rest \<noteq> []"
  shows "ensures (good_step q index) (scan_normal alnum prev rest index st)"
proof -
  have v: "utf8_valid rest" "index \<le> length q" using scan_inv_rest [OF i] rest by simp_all
  have stay: "good_step q index (n, st\<lparr>ss_lex := lx\<rparr>)" "good_step q index (n, st)"
    "0 < n \<Longrightarrow> good_step q index (n, code_token lx st)" if "consumable rest n" for n lx
    using that i rest by (simp_all add: good_step_stay good_step_code_token)
  note c1 = consumable_1 [OF v(1) rest(2)] and c2 = consumable_2 [OF v(1)] and c3 = consumable_3 [OF v(1)]
  have letter: "b < 0x80" if "b \<in> {0x72, 0x52, 0x78, 0x58} \<or> b \<in> {0x65, 0x45} \<or> b \<in> {0x75, 0x55}" for b :: u8
    using that by auto
  have one: "between q (Suc index)" if "hd rest < 0x80"
    using c1 [OF that] consumable_between [OF v(2), of 1] rest by simp
  have semi: "good_step q index (1, scan_semicolon index st)" if "hd rest = 0x3B"
    using one that i by (simp add: good_step_def scan_inv_semicolon)
  have slot: "good_step q index (1, push_slot index (index + 1) None st)" if "hd rest = 0x3F"
    using one that i get_hd [of index q] rest by (simp add: good_step_def scan_inv_push_slot)
  have named: "ensures (good_step q index) (scan_named alnum rest index st)"
    if "hd rest = 0x3A \<and> (case get rest 1 of None \<Rightarrow> False | Some b \<Rightarrow> is_identifier_start b) \<and> prev \<noteq> Some 0x3A"
    using that scan_named_good(1) [OF i rest(1)] by (auto simp: is_identifier_start_ascii split: option.splits)
  have word: "good_step q index (identifier_run 1 rest, scan_word index (take (identifier_run 1 rest) rest) st)"
    if "is_identifier_start (hd rest)"
  proof -
    have "consumable rest (identifier_run 1 rest)"
      using identifier_run_consumable [OF v(1), of 1] rest(2) is_identifier_start_ascii [OF that] by (cases rest) auto
    then have "between q (index + identifier_run 1 rest)" using consumable_between [OF v(2)] rest by simp
    then show ?thesis using i identifier_run_pos [of 1 rest] by (simp add: good_step_def scan_inv_word)
  qed
  show ?thesis
    unfolding scan_normal_def Let_def
    by (intro ensures_intros; (erule semi slot named word)?; (rule stay)?)
      (use c1 c2 c3 letter next_char_consumable [OF v(1)] next_char_pos in simp_all)
qed

lemma scan_normal_not_Panic:
  assumes i: "scan_inv q index st" and rest: "rest = drop index q" "rest \<noteq> []"
  shows "scan_normal alnum prev rest index st \<noteq> Panic"
proof -
  have v: "utf8_valid rest" using scan_inv_rest [OF i] rest by simp
  have named: "scan_named alnum rest index st \<noteq> Panic"
    if "hd rest = 0x3A \<and> (case get rest 1 of None \<Rightarrow> False | Some b \<Rightarrow> is_identifier_start b) \<and> prev \<noteq> Some 0x3A"
    using that scan_named_good(2) [OF i rest(1)] by (auto simp: is_identifier_start_ascii split: option.splits)
  have next_char: "next_char rest \<noteq> Panic" using next_char_valid [OF v rest(2)] by simp
  show ?thesis
    unfolding scan_normal_def Let_def by (intro no_panic next_char; (erule named)?; (rule no_panic)?)
qed

lemma close_quote_good:
  assumes i: "scan_inv q index st" and rest: "rest = drop index q" "rest \<noteq> []" and d: "delimiter < 0x80"
  shows "good_step q index (close_quote delimiter rest (char_len (hd rest)) st)"
proof -
  have v: "utf8_valid rest" using scan_inv_rest [OF i] rest by simp
  note c = next_char_valid(2) [OF v rest(2)]
  have "consumable rest (Suc (char_len (hd rest)))" if "hd rest = delimiter" "get rest 1 = Some delimiter"
    using consumable_Suc [OF v, of delimiter] that d by simp
  with c i rest show ?thesis by (auto simp: close_quote_def good_step_stay)
qed

lemma scan_step_good:
  assumes i: "scan_inv q index st" and rest: "rest = drop index q" "rest \<noteq> []"
  shows "ensures (good_step q index) (scan_step alnum prev rest index st)" "scan_step alnum prev rest index st \<noteq> Panic"
proof -
  have v: "utf8_valid rest" using scan_inv_rest [OF i] rest by simp
  note nc = next_char_valid [OF v rest(2)]
  have two: "\<exists>m. next_char (drop (char_len (hd rest)) rest) = Ok m \<and> good_step q index (char_len (hd rest) + m, st)"
    if "char_len (hd rest) < length rest"
  proof -
    have r: "utf8_valid (drop (char_len (hd rest)) rest)" "drop (char_len (hd rest)) rest \<noteq> []"
      using nc(2) that by (simp_all add: consumable_def)
    from next_char_valid [OF r] that have
      "consumable rest (char_len (hd rest) + char_len (hd (drop (char_len (hd rest)) rest)))"
      by (auto simp: consumable_def add.commute)
    with next_char_valid(1) [OF r] i rest(1) show ?thesis by (simp add: good_step_stay)
  qed
  have block: "good_step q index (Suc (char_len (hd rest)), st\<lparr>ss_lex := Normal\<rparr>)"
    if "hd rest = 0x2A" "get rest 1 = Some 0x2F"
    using consumable_Suc [OF v, of "0x2F"] that i rest(1) by (simp add: good_step_stay)
  have stay: "good_step q index (char_len (hd rest), st\<lparr>ss_lex := lx\<rparr>)" "good_step q index (char_len (hd rest), st)" for lx
    using good_step_stay [OF i] nc(2) rest(1) by simp_all
  have "ensures (good_step q index) (scan_step alnum prev rest index st) \<and> scan_step alnum prev rest index st \<noteq> Panic"
  proof (cases "ss_lex st")
    case Normal
    then show ?thesis using scan_normal_good [OF i rest] scan_normal_not_Panic [OF i rest] by (simp add: scan_step_def)
  next
    case EscapedSingleQuote
    with two nc close_quote_good [OF i rest, of "0x27"] show ?thesis by (auto simp: scan_step_def ensures_def)
  next
    case BlockComment
    with block nc stay show ?thesis by (auto simp: scan_step_def ensures_def)
  next
    case LineComment
    have "good_step q index (char_len (hd rest), if hd rest = 0x0A then st\<lparr>ss_lex := Normal\<rparr> else st)"
      using stay by (split if_split) blast
    with LineComment nc(1) show ?thesis by (simp add: scan_step_def ensures_def)
  qed (use nc close_quote_good [OF i rest] in \<open>simp_all add: scan_step_def ensures_def\<close>)
  then show "ensures (good_step q index) (scan_step alnum prev rest index st)" "scan_step alnum prev rest index st \<noteq> Panic"
    by simp_all
qed

lemma scan_loop_good:
  "scan_inv q index st \<Longrightarrow> rest = drop index q \<Longrightarrow>
   ensures (scan_inv q (length q)) (scan_loop alnum prev rest index st) \<and> scan_loop alnum prev rest index st \<noteq> Panic"
proof (induction alnum prev rest index st rule: scan_loop.induct)
  case (1 alnum prev rest index st)
  have l: "index \<le> length q" using scan_inv_rest [OF 1(2)] by simp
  show ?case
  proof (cases "rest = []")
    case True
    with 1(2,3) l show ?thesis by (simp add: scan_loop.simps ensures_def)
  next
    case False
    note g = scan_step_good [OF 1(2,3) False, of alnum prev]
    show ?thesis
    proof (cases "scan_step alnum prev rest index st")
      case (Ok p)
      obtain n st' where p: "p = (n, st')" by fastforce
      from ensuresD [OF g(1) Ok] p have c: "scan_inv q (index + n) st'" by (simp add: good_step_def)
      from 1(1) [OF False Ok p [symmetric] c] 1(3) Ok p False show ?thesis
        by (subst (1 2) scan_loop.simps) (simp add: add.commute)
    qed (use g False in \<open>simp_all add: scan_loop.simps ensures_def\<close>)
  qed
qed

lemma scan_query_good:
  assumes "utf8_valid query"
  shows "scan_query alnum query \<noteq> Panic"
    "ensures (\<lambda>scan. ranges_ok query scan \<and> (\<forall>s \<in> set (qs_slots scan). \<exists>r \<in> set (qs_statements scan). within s r))
      (scan_query alnum query)"
proof -
  have "scan_inv query 0 scan_start"
    using assms by (simp add: scan_inv_def scan_start_def ranges_ok_def between_def)
  from scan_loop_good [OF this, of query alnum None]
  have l: "ensures (scan_inv query (length query)) (scan_loop alnum None query 0 scan_start)"
    "scan_loop alnum None query 0 scan_start \<noteq> Panic"
    by simp_all
  have "ensures (\<lambda>scan. ranges_ok query scan \<and> (\<forall>s \<in> set (qs_slots scan). \<exists>r \<in> set (qs_statements scan). within s r))
      (scan_finish (length query) st)" if "scan_inv query (length query) st" for st
    using that by (fastforce simp: scan_finish_def scan_inv_def ranges_ok_def ensures_def Let_def sorted_wrt_append within_def)
  then show "ensures (\<lambda>scan. ranges_ok query scan \<and> (\<forall>s \<in> set (qs_slots scan). \<exists>r \<in> set (qs_statements scan). within s r))
      (scan_query alnum query)"
    using l by (cases "scan_loop alnum None query 0 scan_start") (simp_all add: scan_query_def ensures_def)
  show "scan_query alnum query \<noteq> Panic"
    using l(2) by (cases "scan_loop alnum None query 0 scan_start") (simp_all add: scan_query_def scan_finish_def Let_def)
qed

text \<open>
  C17 (the scan finds well-formed ranges). Scanning any UTF-8 text returns, without a panic. When it succeeds, the
  statements are non-empty ranges of the text in order without overlap, the parameter markers are in order without
  overlap, a positional marker is one byte and a named one is its name after one byte, all of them start and end
  between characters, and every marker lies inside one of the statements.
\<close>

theorem scan_query_ranges:
  assumes "utf8_valid query"
  shows "scan_query alnum query \<noteq> Panic \<and>
    ensures (\<lambda>scan. ranges_ok query scan \<and> (\<forall>s \<in> set (qs_slots scan). \<exists>r \<in> set (qs_statements scan). within s r))
      (scan_query alnum query)"
  using scan_query_good [OF assms] by blast

definition sample_query :: "u8 list" where
  "sample_query = ascii ''v :a -- ?''"

lemma sample_query_scan:
  "scan_query (\<lambda>_. False) sample_query =
     Ok \<lparr>qs_statements = [(0, 9)], qs_slots = [\<lparr>slot_start = 2, slot_end = 4, slot_name = Some (3, 4), slot_bare = False\<rparr>],
         qs_first_keyword = Some (0, 1), qs_has_data_change = False\<rparr>"
  by code_simp

theorem scan_query_ranges_witness:
  "ranges_ok sample_query \<lparr>qs_statements = [(0, 9)], qs_slots = [\<lparr>slot_start = 2, slot_end = 4, slot_name = Some (3, 4), slot_bare = False\<rparr>],
         qs_first_keyword = Some (0, 1), qs_has_data_change = False\<rparr>"
proof -
  have "utf8_valid sample_query" by code_simp
  from scan_query_ranges [OF this, of "\<lambda>_. False"] show ?thesis by (simp add: sample_query_scan ensures_def)
qed

end
