(* ===== verification/Sql_Template.thy ===== *)
theory Sql_Template
  imports Sql_Scan
begin

text \<open>
  Query templates of \<open>parameters.rs\<close>: a query cut at its parameter markers, and its rendering with a text in place of
  each marker. Names and texts are UTF-8 bytes.
\<close>

subsection \<open>Data\<close>

datatype parameter_layout = Positional nat | Named "u8 list list"
datatype parameter_slot = Positional_Slot nat | Named_Slot nat

record template_slot =
  ts_parameter :: parameter_slot
  ts_bare :: bool

record query_template =
  qt_query :: "u8 list"
  qt_segments :: "(nat \<times> nat) list"
  qt_slots :: "template_slot list"
  qt_layout :: parameter_layout

record template_argument =
  ta_literal :: "u8 list"
  ta_typed :: "u8 list"

fun layout_count :: "parameter_layout \<Rightarrow> nat" where
  "layout_count (Positional n) = n"
| "layout_count (Named names) = length names"

fun layout_field_names :: "parameter_layout \<Rightarrow> u8 list list" where
  "layout_field_names (Positional n) = map print_nat [0..<n]"
| "layout_field_names (Named names) = names"

fun layout_is_named :: "parameter_layout \<Rightarrow> bool" where
  "layout_is_named (Positional _) = False"
| "layout_is_named (Named _) = True"

definition e_multiple_statements :: adbc_error where
  "e_multiple_statements = Adbc_Error ''multiple SQL statements are not supported'' InvalidArguments"
definition e_mixed :: adbc_error where
  "e_mixed = Adbc_Error ''positional and named parameters cannot be mixed'' InvalidArguments"
definition e_positional_by_name :: adbc_error where
  "e_positional_by_name = Adbc_Error ''positional parameters cannot be bound by name'' InvalidArguments"
definition e_bind_by_name :: adbc_error where
  "e_bind_by_name = Adbc_Error ''named parameters require adbc.monetdb.bind_by_name'' InvalidArguments"

text \<open>Messages that name a parameter or a count.\<close>

datatype template_error =
    Plain adbc_error
  | Value_Count nat nat
  | Duplicated "u8 list"
  | Not_Bound "u8 list"
  | Not_In_Query "u8 list"

subsection \<open>Slices of a string\<close>

definition is_char_boundary :: "u8 list \<Rightarrow> nat \<Rightarrow> bool" where
  "is_char_boundary q i \<longleftrightarrow> i = 0 \<or> i = length q \<or> i < length q \<and> \<not> continuation (q ! i)"

definition str_slice :: "u8 list \<Rightarrow> nat \<Rightarrow> nat \<Rightarrow> (u8 list, 'e) result" where
  "str_slice q a b = (if a \<le> b \<and> b \<le> length q \<and> is_char_boundary q a \<and> is_char_boundary q b then Ok (slice q a b) else Panic)"

subsection \<open>Compilation\<close>

fun try_fold :: "('s \<Rightarrow> 'a \<Rightarrow> ('s, 'e) result) \<Rightarrow> 's \<Rightarrow> 'a list \<Rightarrow> ('s, 'e) result" where
  "try_fold f s [] = Ok s"
| "try_fold f s (x # xs) = rbind (f s x) (\<lambda>s. try_fold f s xs)"

record compile_state =
  cs_segment_start :: nat
  cs_segments :: "(nat \<times> nat) list"
  cs_slots :: "template_slot list"
  cs_positional_count :: nat
  cs_named :: "u8 list list"
  cs_named_indices :: "u8 list \<Rightarrow> nat option"

definition named_index :: "compile_state \<Rightarrow> u8 list \<Rightarrow> nat \<times> compile_state" where
  "named_index cs name =
     (case cs_named_indices cs name of
        Some i \<Rightarrow> (i, cs)
      | None \<Rightarrow>
          let i = length (cs_named cs)
          in (i, cs\<lparr>cs_named := cs_named cs @ [name], cs_named_indices := (cs_named_indices cs)(name \<mapsto> i)\<rparr>))"

definition compile_slot :: "u8 list \<Rightarrow> compile_state \<Rightarrow> scanned_slot \<Rightarrow> (compile_state, adbc_error) result" where
  "compile_slot query cs scanned =
     (let cs = cs\<lparr>cs_segments := cs_segments cs @ [(cs_segment_start cs, slot_start scanned)]\<rparr> in
      rbind
       (case slot_name scanned of
          None \<Rightarrow>
            if cs_named cs \<noteq> [] then Err e_mixed
            else Ok (cs\<lparr>cs_slots := cs_slots cs @
                         [\<lparr>ts_parameter = Positional_Slot (cs_positional_count cs), ts_bare = slot_bare scanned\<rparr>],
                       cs_positional_count := cs_positional_count cs + 1\<rparr>)
        | Some (a, b) \<Rightarrow>
            if 0 < cs_positional_count cs then Err e_mixed
            else rbind (str_slice query a b) (\<lambda>name.
              case named_index cs name of (i, cs) \<Rightarrow>
                Ok (cs\<lparr>cs_slots := cs_slots cs @ [\<lparr>ts_parameter = Named_Slot i, ts_bare = slot_bare scanned\<rparr>]\<rparr>)))
       (\<lambda>cs. Ok (cs\<lparr>cs_segment_start := slot_end scanned\<rparr>)))"

definition compile_start :: compile_state where
  "compile_start =
     \<lparr>cs_segment_start = 0, cs_segments = [], cs_slots = [], cs_positional_count = 0, cs_named = [],
      cs_named_indices = Map.empty\<rparr>"

definition compile_query :: "(u8 list \<Rightarrow> bool) \<Rightarrow> u8 list \<Rightarrow> (query_template, adbc_error) result" where
  "compile_query alnum query =
     rbind (scan_query alnum query) (\<lambda>scan.
       if 1 < length (qs_statements scan) then Err e_multiple_statements
       else rbind (try_fold (compile_slot query) compile_start (qs_slots scan)) (\<lambda>cs.
         Ok \<lparr>qt_query = query, qt_segments = cs_segments cs @ [(cs_segment_start cs, length query)], qt_slots = cs_slots cs,
             qt_layout = (if cs_named cs = [] then Positional (cs_positional_count cs) else Named (cs_named cs))\<rparr>))"

definition parameter_layout_of :: "(u8 list \<Rightarrow> bool) \<Rightarrow> u8 list \<Rightarrow> (parameter_layout, adbc_error) result" where
  "parameter_layout_of alnum query = rbind (compile_query alnum query) (\<lambda>t. Ok (qt_layout t))"

subsection \<open>Rendering\<close>

definition render_part ::
  "u8 list \<Rightarrow> (template_slot \<Rightarrow> (u8 list, 'e) result) \<Rightarrow> u8 list \<Rightarrow> (nat \<times> nat) \<times> template_slot \<Rightarrow> (u8 list, 'e) result" where
  "render_part query resolve output part =
     rbind (str_slice query (fst (fst part)) (snd (fst part))) (\<lambda>segment.
     rbind (resolve (snd part)) (\<lambda>text. Ok (output @ segment @ text)))"

definition render :: "query_template \<Rightarrow> (template_slot \<Rightarrow> (u8 list, 'e) result) \<Rightarrow> (u8 list, 'e) result" where
  "render t resolve =
     rbind (try_fold (render_part (qt_query t) resolve) [] (zip (qt_segments t) (qt_slots t))) (\<lambda>output.
       if qt_segments t = [] then Ok output
       else case last (qt_segments t) of (a, b) \<Rightarrow>
         rbind (str_slice (qt_query t) a b) (\<lambda>segment. Ok (output @ segment)))"

definition render_nulls :: "query_template \<Rightarrow> (u8 list, template_error) result" where
  "render_nulls t = render t (\<lambda>_. Ok (ascii ''NULL''))"

definition argument_render :: "template_argument \<Rightarrow> bool \<Rightarrow> u8 list" where
  "argument_render a bare = (if bare then ta_literal a else ta_typed a)"

text \<open>The values bound by name; a repeated name is an error.\<close>

fun bind_names ::
  "(u8 list \<Rightarrow> template_argument option) \<Rightarrow> (u8 list \<times> template_argument) list
    \<Rightarrow> (u8 list \<Rightarrow> template_argument option, template_error) result" where
  "bind_names m [] = Ok m"
| "bind_names m ((name, v) # rest) = (if m name \<noteq> None then Err (Duplicated name) else bind_names (m(name \<mapsto> v)) rest)"

text \<open>
  \<open>fields\<close> are the names of the bound batch and \<open>arguments\<close> the texts of its row; \<open>pick\<close> is the first unexpected name in the
  iteration order of the hash map. An index out of range and the branches the code marks unreachable panic.
\<close>

definition render_bound ::
  "(u8 list list \<Rightarrow> u8 list) \<Rightarrow> query_template \<Rightarrow> u8 list list \<Rightarrow> template_argument list \<Rightarrow> bool \<Rightarrow> (u8 list, template_error) result" where
  "render_bound pick t field_names arguments bind_by_name =
     (case qt_layout t of
        Positional n \<Rightarrow>
          if bind_by_name then Err (Plain e_positional_by_name)
          else if n \<noteq> length arguments then Err (Value_Count n (length arguments))
          else render t (\<lambda>slot.
            case ts_parameter slot of
              Positional_Slot i \<Rightarrow> if i < length arguments then Ok (argument_render (arguments ! i) (ts_bare slot)) else Panic
            | Named_Slot _ \<Rightarrow> Panic)
      | Named names \<Rightarrow>
          if \<not> bind_by_name then Err (Plain e_bind_by_name)
          else rbind (bind_names Map.empty (zip field_names arguments)) (\<lambda>named_values.
            case find (\<lambda>name. named_values name = None) names of
              Some missing \<Rightarrow> Err (Not_Bound missing)
            | None \<Rightarrow>
                let bound = map fst (zip field_names arguments) in
                if length names < length bound
                then (case filter (\<lambda>name. name \<notin> set names) bound of
                        [] \<Rightarrow> Panic
                      | extra \<Rightarrow> Err (Not_In_Query (pick extra)))
                else render t (\<lambda>slot.
                  case ts_parameter slot of
                    Named_Slot i \<Rightarrow>
                      if i < length names
                      then (case named_values (names ! i) of
                              Some v \<Rightarrow> Ok (argument_render v (ts_bare slot))
                            | None \<Rightarrow> Err (Not_Bound (names ! i)))
                      else Panic
                  | Positional_Slot _ \<Rightarrow> Panic)))"

subsection \<open>Statements\<close>

text \<open>The characters of a UTF-8 text, and \<open>str::trim\<close>, which drops those with the Unicode property \<open>White_Space\<close>.\<close>

function char_chunks :: "u8 list \<Rightarrow> u8 list list" where
  "char_chunks [] = []"
| "char_chunks (b # bs) = take (char_len b) (b # bs) # char_chunks (drop (char_len b) (b # bs))"
  by pat_completeness auto
termination
  by (relation "measure length") (auto simp: char_len_def)

definition white_space :: "u8 list \<Rightarrow> bool" where
  "white_space c \<longleftrightarrow>
     (case c of
        [b] \<Rightarrow> 0x09 \<le> b \<and> b \<le> 0x0D \<or> b = 0x20
      | [a, b] \<Rightarrow> a = 0xC2 \<and> (b = 0x85 \<or> b = 0xA0)
      | [a, b, c] \<Rightarrow>
          a = 0xE1 \<and> b = 0x9A \<and> c = 0x80 \<or> a = 0xE3 \<and> b = 0x80 \<and> c = 0x80 \<or> a = 0xE2 \<and> b = 0x81 \<and> c = 0x9F \<or>
          a = 0xE2 \<and> b = 0x80 \<and> (0x80 \<le> c \<and> c \<le> 0x8A \<or> c = 0xA8 \<or> c = 0xA9 \<or> c = 0xAF)
      | _ \<Rightarrow> False)"

definition trim_text :: "u8 list \<Rightarrow> u8 list" where
  "trim_text bs = concat (rev (dropWhile white_space (rev (dropWhile white_space (char_chunks bs)))))"

definition statement_slices :: "u8 list \<Rightarrow> query_scan \<Rightarrow> (u8 list list, adbc_error) result" where
  "statement_slices query scan =
     (if qs_statements scan = [] then Err e_empty_query
      else try_map (\<lambda>(a, b). rbind (str_slice query a b) (\<lambda>text. Ok (trim_text text))) (qs_statements scan))"

definition unbound_statements :: "(u8 list \<Rightarrow> bool) \<Rightarrow> u8 list \<Rightarrow> (u8 list list, adbc_error) result" where
  "unbound_statements alnum query =
     rbind (scan_query alnum query) (\<lambda>scan.
       if qs_slots scan \<noteq> [] then Err e_not_bound else statement_slices query scan)"

definition parameterized_statements :: "(u8 list \<Rightarrow> bool) \<Rightarrow> u8 list \<Rightarrow> (u8 list list, adbc_error) result" where
  "parameterized_statements alnum query = rbind (scan_query alnum query) (statement_slices query)"

definition statement_may_modify :: "(u8 list \<Rightarrow> bool) \<Rightarrow> u8 list \<Rightarrow> (bool, adbc_error) result" where
  "statement_may_modify alnum query =
     rbind (scan_query alnum query) (\<lambda>scan.
     rbind (case qs_first_keyword scan of
              None \<Rightarrow> Ok False
            | Some (a, b) \<Rightarrow> rbind (str_slice query a b) (\<lambda>word.
                Ok (map to_ascii_uppercase word \<in> set (map ascii
                  [''SELECT'', ''WITH'', ''VALUES'', ''TABLE'', ''EXPLAIN'', ''PLAN'', ''COMMIT'', ''ROLLBACK'', ''SAVEPOINT'',
                   ''RELEASE'', ''START'', ''BEGIN''])))) (\<lambda>reads.
       Ok (qs_has_data_change scan \<or> \<not> reads)))"

subsection \<open>What a template keeps of its query\<close>

text \<open>Segments and texts in turn.\<close>

fun weave :: "u8 list list \<Rightarrow> u8 list list \<Rightarrow> u8 list" where
  "weave [] texts = []"
| "weave (s # ss) [] = s"
| "weave (s # ss) (t # texts) = s @ t @ weave ss texts"

fun segments_from :: "nat \<Rightarrow> scanned_slot list \<Rightarrow> nat \<Rightarrow> (nat \<times> nat) list" where
  "segments_from start [] len = [(start, len)]"
| "segments_from start (s # slots) len = (start, slot_start s) # segments_from (slot_end s) slots len"

definition range_text :: "u8 list \<Rightarrow> nat \<times> nat \<Rightarrow> u8 list" where
  "range_text q r = slice q (fst r) (snd r)"

definition marker_text :: "u8 list \<Rightarrow> scanned_slot \<Rightarrow> u8 list" where
  "marker_text q s = slice q (slot_start s) (slot_end s)"

lemma length_segments_from [simp]: "length (segments_from start slots len) = Suc (length slots)"
  by (induction slots arbitrary: start) simp_all

lemma slice_append_slice: "a \<le> b \<Longrightarrow> b \<le> c \<Longrightarrow> c \<le> length q \<Longrightarrow> slice q a b @ slice q b c = slice q a c"
  by (simp add: slice_def) (metis add_diff_inverse_nat diff_add_assoc2 diff_diff_cancel drop_drop le_add_diff_inverse2 not_le take_add)

text \<open>The slots in order from \<open>start\<close> on.\<close>

fun slots_from :: "u8 list \<Rightarrow> nat \<Rightarrow> scanned_slot list \<Rightarrow> bool" where
  "slots_from q start [] = between q start"
| "slots_from q start (s # slots) =
     (between q start \<and> start \<le> slot_start s \<and> slot_ok s \<and> slot_between q s \<and> slots_from q (slot_end s) slots)"

lemma slots_from_ranges:
  "sorted_wrt (\<lambda>a b. slot_end a \<le> slot_start b) slots \<Longrightarrow> \<forall>s \<in> set slots. slot_ok s \<and> slot_between q s \<and> start \<le> slot_start s \<Longrightarrow>
   between q start \<Longrightarrow> slots_from q start slots"
  by (induction slots arbitrary: start) (auto simp: slot_between_def)

lemma slots_from_between: "slots_from q start slots \<Longrightarrow> start \<le> length q"
  by (cases slots) (auto simp: between_def)

lemma weave_markers:
  "slots_from q start slots \<Longrightarrow>
   weave (map (range_text q) (segments_from start slots (length q))) (map (marker_text q) slots) = drop start q"
proof (induction slots arbitrary: start)
  case Nil
  then show ?case by (simp add: range_text_def slice_def)
next
  case (Cons s slots)
  then have b: "start \<le> slot_start s" "slot_start s \<le> slot_end s" "slot_end s \<le> length q"
    by (auto simp: slot_ok_def slot_between_def between_def)
  have "slice q start (slot_start s) @ slice q (slot_start s) (slot_end s) @ drop (slot_end s) q =
      slice q start (slot_end s) @ slice q (slot_end s) (length q)"
    using b slice_append_slice [of start "slot_start s" "slot_end s" q] by (simp add: slice_def)
  also have "\<dots> = drop start q" using b slice_append_slice [of start "slot_end s" "length q" q] by (simp add: slice_def)
  finally show ?case using Cons by (simp add: range_text_def marker_text_def)
qed

lemma between_boundary: "between q i \<Longrightarrow> is_char_boundary q i"
proof -
  assume b: "between q i"
  show ?thesis
  proof (cases "i = length q")
    case False
    with b have "drop i q = q ! i # drop (Suc i) q" by (simp add: between_def Cons_nth_drop_Suc)
    with b utf8_valid_hd [of "q ! i"] False show ?thesis by (auto simp: is_char_boundary_def between_def)
  qed (simp add: is_char_boundary_def)
qed

lemma str_slice_between: "a \<le> b \<Longrightarrow> between q a \<Longrightarrow> between q b \<Longrightarrow> str_slice q a b = Ok (slice q a b)"
  by (simp add: str_slice_def between_boundary) (simp add: between_def)

lemma render_weave:
  assumes "slots_from q start slots" "length values' = length slots" "length ts = length slots"
    "\<forall>i < length ts. resolve (ts ! i) = Ok (values' ! i)"
  shows "try_fold (render_part q resolve) out (zip (segments_from start slots (length q)) ts) =
     Ok (out @ weave (butlast (map (range_text q) (segments_from start slots (length q)))) values') \<and>
    weave (map (range_text q) (segments_from start slots (length q))) values' =
     weave (butlast (map (range_text q) (segments_from start slots (length q)))) values' @
       range_text q (last (segments_from start slots (length q))) \<and>
    between q (fst (last (segments_from start slots (length q)))) \<and> snd (last (segments_from start slots (length q))) = length q"
  using assms
proof (induction slots arbitrary: start values' ts out)
  case Nil
  then show ?case by (simp add: slots_from_between)
next
  case (Cons s slots)
  obtain v vs where v: "values' = v # vs" using Cons.prems(2) by (cases values') auto
  obtain t ts' where t: "ts = t # ts'" using Cons.prems(3) by (cases ts) auto
  have b: "between q start" "between q (slot_start s)" "start \<le> slot_start s"
    using Cons.prems(1) by (auto simp: slot_between_def)
  have rv: "resolve t = Ok v" using Cons.prems(4) v t by auto
  have "\<forall>i < length ts'. resolve (ts' ! i) = Ok (vs ! i)" using Cons.prems(4) v t by auto
  with Cons.IH [of "slot_end s" vs ts' "out @ range_text q (start, slot_start s) @ v"] Cons.prems v t
  have IH: "try_fold (render_part q resolve) (out @ range_text q (start, slot_start s) @ v) (zip (segments_from (slot_end s) slots (length q)) ts') =
     Ok (out @ range_text q (start, slot_start s) @ v @ weave (butlast (map (range_text q) (segments_from (slot_end s) slots (length q)))) vs)"
    "weave (map (range_text q) (segments_from (slot_end s) slots (length q))) vs =
     weave (butlast (map (range_text q) (segments_from (slot_end s) slots (length q)))) vs @
       range_text q (last (segments_from (slot_end s) slots (length q)))"
    "between q (fst (last (segments_from (slot_end s) slots (length q))))" "snd (last (segments_from (slot_end s) slots (length q))) = length q"
    by simp_all
  have ne: "segments_from (slot_end s) slots (length q) \<noteq> []" by (cases slots) simp_all
  have "render_part q resolve out ((start, slot_start s), t) = Ok (out @ range_text q (start, slot_start s) @ v)"
    using b rv by (simp add: render_part_def str_slice_between range_text_def)
  with IH ne v t show ?case by simp
qed

subsection \<open>What compilation records\<close>

definition slot_match :: "u8 list \<Rightarrow> u8 list list \<Rightarrow> nat \<Rightarrow> scanned_slot \<Rightarrow> template_slot \<Rightarrow> bool" where
  "slot_match q named i s ts \<longleftrightarrow> ts_bare ts = slot_bare s \<and>
     (case slot_name s of
        None \<Rightarrow> named = [] \<and> ts_parameter ts = Positional_Slot i
      | Some (a, b) \<Rightarrow> \<exists>k < length named. ts_parameter ts = Named_Slot k \<and> named ! k = slice q a b)"

lemma slot_match_mono: "named \<noteq> [] \<Longrightarrow> slot_match q named i s ts \<Longrightarrow> slot_match q (named @ more') i s ts"
  by (auto simp: slot_match_def nth_append split: option.splits)

definition compiled :: "u8 list \<Rightarrow> scanned_slot list \<Rightarrow> compile_state \<Rightarrow> bool" where
  "compiled q ss cs \<longleftrightarrow>
     length (cs_slots cs) = length ss \<and> (\<forall>i < length ss. slot_match q (cs_named cs) i (ss ! i) (cs_slots cs ! i)) \<and>
     cs_positional_count cs = (if cs_named cs = [] then length ss else 0) \<and> distinct (cs_named cs) \<and>
     (\<forall>name k. cs_named_indices cs name = Some k \<longleftrightarrow> k < length (cs_named cs) \<and> cs_named cs ! k = name)"

lemma named_index_compiled:
  assumes c: "compiled q ss cs" and n: "named_index cs name = (k, cs')"
  shows "k < length (cs_named cs') \<and> cs_named cs' ! k = name \<and> (\<exists>zs. cs_named cs' = cs_named cs @ zs) \<and> distinct (cs_named cs') \<and>
    cs_slots cs' = cs_slots cs \<and> cs_segments cs' = cs_segments cs \<and> cs_segment_start cs' = cs_segment_start cs \<and>
    cs_positional_count cs' = cs_positional_count cs \<and>
    (\<forall>name k. cs_named_indices cs' name = Some k \<longleftrightarrow> k < length (cs_named cs') \<and> cs_named cs' ! k = name)"
proof (cases "cs_named_indices cs name")
  case (Some i)
  with n have "k = i" "cs' = cs" by (simp_all add: named_index_def)
  moreover from c Some have "i < length (cs_named cs)" "cs_named cs ! i = name" unfolding compiled_def by blast+
  moreover have "\<exists>zs. cs_named cs = cs_named cs @ zs" by simp
  ultimately show ?thesis using c unfolding compiled_def by blast
next
  case None
  have notin: "name \<notin> set (cs_named cs)"
  proof
    assume "name \<in> set (cs_named cs)"
    then obtain j where "j < length (cs_named cs)" "cs_named cs ! j = name" by (auto simp: in_set_conv_nth)
    with c have "cs_named_indices cs name = Some j" unfolding compiled_def by blast
    with None show False by simp
  qed
  from None n have cs': "k = length (cs_named cs)" "cs' = cs\<lparr>cs_named := cs_named cs @ [name],
      cs_named_indices := (cs_named_indices cs)(name \<mapsto> length (cs_named cs))\<rparr>"
    by (auto simp: named_index_def Let_def)
  have "((cs_named_indices cs)(name \<mapsto> length (cs_named cs))) nm = Some j \<longleftrightarrow>
      j < length (cs_named cs @ [name]) \<and> (cs_named cs @ [name]) ! j = nm" for nm j
  proof (cases "nm = name")
    case True
    with notin show ?thesis by (auto simp: nth_append less_Suc_eq)
  next
    case False
    have "cs_named_indices cs nm = Some j \<longleftrightarrow> j < length (cs_named cs) \<and> cs_named cs ! j = nm"
      using c unfolding compiled_def by blast
    with False show ?thesis by (auto simp: nth_append less_Suc_eq)
  qed
  moreover have "distinct (cs_named cs @ [name])" using c notin unfolding compiled_def by simp
  ultimately show ?thesis using cs' by simp
qed

lemma compile_slot_compiled:
  assumes c: "compiled q ss cs" and r: "compile_slot q cs s = Ok cs'" and s: "slot_ok s" "slot_between q s"
  shows "compiled q (ss @ [s]) cs' \<and> cs_segments cs' = cs_segments cs @ [(cs_segment_start cs, slot_start s)] \<and>
    cs_segment_start cs' = slot_end s"
proof (cases "slot_name s")
  case None
  let ?ts = "\<lparr>ts_parameter = Positional_Slot (cs_positional_count cs), ts_bare = slot_bare s\<rparr>"
  have n: "cs_named cs = []" and cs': "cs' = cs\<lparr>cs_segments := cs_segments cs @ [(cs_segment_start cs, slot_start s)],
      cs_slots := cs_slots cs @ [?ts], cs_positional_count := cs_positional_count cs + 1, cs_segment_start := slot_end s\<rparr>"
    using None r by (auto simp: compile_slot_def Let_def split: if_splits)
  have "slot_match q [] (length ss) s ?ts" using None n c by (simp add: slot_match_def compiled_def)
  with n cs' c show ?thesis by (simp add: compiled_def nth_append less_Suc_eq)
next
  case (Some ab)
  obtain a b where ab: "ab = (a, b)" by fastforce
  have sl: "str_slice q a b = (Ok (slice q a b) :: (u8 list, adbc_error) result)"
    using s Some ab by (intro str_slice_between) (auto simp: slot_ok_def slot_between_def)
  let ?cs = "cs\<lparr>cs_segments := cs_segments cs @ [(cs_segment_start cs, slot_start s)]\<rparr>"
  obtain k cs1 where n: "named_index ?cs (slice q a b) = (k, cs1)" by fastforce
  have c1: "compiled q ss ?cs" using c by (simp add: compiled_def)
  note m = named_index_compiled [OF c1 n]
  then obtain zs where zs: "cs_named cs1 = cs_named cs @ zs" by auto
  have ne: "cs_named cs1 \<noteq> []" using m by auto
  have z: "cs_positional_count cs = 0" and cs': "cs' = cs1\<lparr>cs_slots := cs_slots cs1 @
      [\<lparr>ts_parameter = Named_Slot k, ts_bare = slot_bare s\<rparr>], cs_segment_start := slot_end s\<rparr>"
    using r Some ab sl n by (auto simp: compile_slot_def Let_def split: if_splits)
  have "\<forall>i < length ss. slot_match q (cs_named cs1) i (ss ! i) (cs_slots cs ! i)"
    using c z zs slot_match_mono by (auto simp: compiled_def split: if_splits)
  moreover have "slot_match q (cs_named cs1) (length ss) s \<lparr>ts_parameter = Named_Slot k, ts_bare = slot_bare s\<rparr>"
    using Some ab m by (auto simp: slot_match_def)
  ultimately show ?thesis
    using m ne z cs' c by (auto simp: compiled_def nth_append less_Suc_eq)
qed

lemma compile_fold:
  "try_fold (compile_slot q) cs slots = Ok cs' \<Longrightarrow> compiled q ss cs \<Longrightarrow> \<forall>s \<in> set slots. slot_ok s \<and> slot_between q s \<Longrightarrow>
   compiled q (ss @ slots) cs' \<and>
   cs_segments cs' @ [(cs_segment_start cs', len)] = cs_segments cs @ segments_from (cs_segment_start cs) slots len"
proof (induction slots arbitrary: cs ss)
  case (Cons s slots)
  then obtain cs1 where c: "compile_slot q cs s = Ok cs1" "try_fold (compile_slot q) cs1 slots = Ok cs'" by (auto simp: rbind_Ok_iff)
  from compile_slot_compiled [OF Cons.prems(2) c(1)] Cons.prems(3) have
    s: "compiled q (ss @ [s]) cs1" "cs_segments cs1 = cs_segments cs @ [(cs_segment_start cs, slot_start s)]"
      "cs_segment_start cs1 = slot_end s" by auto
  from Cons.IH [OF c(2) s(1)] Cons.prems(3) s(2,3) show ?case by simp
qed simp

definition template_of :: "u8 list \<Rightarrow> query_scan \<Rightarrow> query_template \<Rightarrow> bool" where
  "template_of q scan t \<longleftrightarrow>
     slots_from q 0 (qs_slots scan) \<and> qt_query t = q \<and> qt_segments t = segments_from 0 (qs_slots scan) (length q) \<and>
     length (qt_slots t) = length (qs_slots scan) \<and>
     (case qt_layout t of Positional n \<Rightarrow> n = length (qs_slots scan) | Named named \<Rightarrow> distinct named \<and> named \<noteq> []) \<and>
     (\<forall>i < length (qs_slots scan).
       slot_match q (case qt_layout t of Named named \<Rightarrow> named | _ \<Rightarrow> []) i (qs_slots scan ! i) (qt_slots t ! i))"

lemma compile_query_OkE:
  assumes v: "utf8_valid q" and c: "compile_query alnum q = Ok t"
  obtains scan where "scan_query alnum q = Ok scan" "length (qs_statements scan) \<le> 1" "template_of q scan t"
proof -
  from c obtain scan cs where s: "scan_query alnum q = Ok scan" "length (qs_statements scan) \<le> 1"
    "try_fold (compile_slot q) compile_start (qs_slots scan) = Ok cs"
    and t: "t = \<lparr>qt_query = q, qt_segments = cs_segments cs @ [(cs_segment_start cs, length q)], qt_slots = cs_slots cs,
             qt_layout = (if cs_named cs = [] then Positional (cs_positional_count cs) else Named (cs_named cs))\<rparr>"
    by (auto simp: compile_query_def rbind_Ok_iff split: if_splits)
  from ensuresD [OF scan_query_good(2) [OF v] s(1)] have r: "ranges_ok q scan" by simp
  have "slots_from q 0 (qs_slots scan)"
    using r v by (intro slots_from_ranges) (auto simp: ranges_ok_def between_def)
  moreover have "compiled q [] compile_start" by (simp add: compiled_def compile_start_def)
  from compile_fold [OF s(3) this, of "length q"] r have
    f: "compiled q (qs_slots scan) cs" "cs_segments cs @ [(cs_segment_start cs, length q)] = segments_from 0 (qs_slots scan) (length q)"
    by (simp_all add: ranges_ok_def compile_start_def)
  moreover have d: "length (cs_slots cs) = length (qs_slots scan)" "distinct (cs_named cs)"
    "cs_positional_count cs = (if cs_named cs = [] then length (qs_slots scan) else 0)"
    "\<And>i. i < length (qs_slots scan) \<Longrightarrow> slot_match q (cs_named cs) i (qs_slots scan ! i) (cs_slots cs ! i)"
    using f(1) unfolding compiled_def by blast+
  ultimately have "template_of q scan t" by (auto simp: t template_of_def)
  with s that show thesis by blast
qed

text \<open>The marker a slot stands for.\<close>

fun slot_marker :: "parameter_layout \<Rightarrow> template_slot \<Rightarrow> u8 list" where
  "slot_marker (Positional _) _ = [0x3F]"
| "slot_marker (Named names) slot = (case ts_parameter slot of Named_Slot k \<Rightarrow> 0x3A # names ! k | Positional_Slot _ \<Rightarrow> [])"

definition slots_agree :: "query_template \<Rightarrow> bool" where
  "slots_agree t \<longleftrightarrow>
     (case qt_layout t of
        Positional n \<Rightarrow> map ts_parameter (qt_slots t) = map Positional_Slot [0..<n]
      | Named names \<Rightarrow> distinct names \<and> names \<noteq> [] \<and> (\<forall>slot \<in> set (qt_slots t). \<exists>k < length names. ts_parameter slot = Named_Slot k))"

definition template_segments :: "query_template \<Rightarrow> u8 list list" where
  "template_segments t = map (range_text (qt_query t)) (qt_segments t)"

lemma marker_text_slot:
  assumes m: "slot_match q named i s ts" and b: "slot_ok s" "slot_between q s"
  shows "marker_text q s = (case slot_name s of None \<Rightarrow> [0x3F] | Some (a, b) \<Rightarrow> 0x3A # slice q a b)"
proof -
  have l: "slot_start s < length q" "q ! slot_start s = (if slot_name s = None then 0x3F else 0x3A)" "slot_end s \<le> length q"
    using b by (auto simp: slot_between_def get_def between_def split: if_splits)
  then have "marker_text q s = q ! slot_start s # slice q (slot_start s + 1) (slot_end s)"
    using b by (simp add: marker_text_def slice_def slot_ok_def flip: Cons_nth_drop_Suc) (simp add: take_Cons')
  with l b show ?thesis by (auto simp: slot_ok_def slice_def split: option.splits)
qed

lemma slots_from_each: "slots_from q start slots \<Longrightarrow> s \<in> set slots \<Longrightarrow> slot_ok s \<and> slot_between q s"
  by (induction slots arbitrary: start) auto

lemma template_slots_agree:
  assumes "template_of q scan t"
  shows "slots_agree t"
proof (cases "qt_layout t")
  case (Positional n)
  with assms have "length (qt_slots t) = n" "\<And>i. i < n \<Longrightarrow> slot_match q [] i (qs_slots scan ! i) (qt_slots t ! i)"
    by (simp_all add: template_of_def)
  moreover have "ts_parameter ts = Positional_Slot i" if "slot_match q [] i s ts" for i s ts
    using that by (auto simp: slot_match_def split: option.splits)
  ultimately have "map ts_parameter (qt_slots t) = map Positional_Slot [0..<n]"
    by (simp add: list_eq_iff_nth_eq) blast
  with Positional show ?thesis by (simp add: slots_agree_def)
next
  case (Named names)
  with assms have n: "distinct names" "names \<noteq> []" "length (qt_slots t) = length (qs_slots scan)"
    "\<And>i. i < length (qs_slots scan) \<Longrightarrow> slot_match q names i (qs_slots scan ! i) (qt_slots t ! i)"
    by (simp_all add: template_of_def)
  have "\<exists>k < length names. ts_parameter (qt_slots t ! i) = Named_Slot k" if "i < length (qs_slots scan)" for i
    using n(2) n(4) [OF that] by (auto simp: slot_match_def split: option.splits)
  with n Named show ?thesis by (simp add: slots_agree_def all_set_conv_all_nth)
qed

lemma template_markers:
  assumes "template_of q scan t"
  shows "weave (template_segments t) (map (slot_marker (qt_layout t)) (qt_slots t)) = q"
proof -
  have s: "slots_from q 0 (qs_slots scan)" "qt_query t = q" "qt_segments t = segments_from 0 (qs_slots scan) (length q)"
    "length (qt_slots t) = length (qs_slots scan)"
    using assms by (simp_all add: template_of_def)
  have "slot_marker (qt_layout t) (qt_slots t ! i) = marker_text q (qs_slots scan ! i)" if i: "i < length (qs_slots scan)" for i
  proof -
    have m: "slot_match q (case qt_layout t of Named named \<Rightarrow> named | _ \<Rightarrow> []) i (qs_slots scan ! i) (qt_slots t ! i)"
      using assms i by (simp add: template_of_def)
    have "slot_ok (qs_slots scan ! i)" "slot_between q (qs_slots scan ! i)" using slots_from_each [OF s(1)] i by simp_all
    moreover have "qt_layout t \<noteq> Named []" using assms by (auto simp: template_of_def)
    ultimately show ?thesis using marker_text_slot [OF m] m
      by (cases "qt_layout t") (auto simp: slot_match_def split: option.splits)
  qed
  then have "map (slot_marker (qt_layout t)) (qt_slots t) = map (marker_text q) (qs_slots scan)"
    using s(4) by (simp add: list_eq_iff_nth_eq)
  with weave_markers [OF s(1)] s(2,3) show ?thesis by (simp add: template_segments_def)
qed

lemma render_template:
  assumes "template_of q scan t" and r: "\<forall>slot \<in> set (qt_slots t). resolve slot = Ok (f slot)"
  shows "render t resolve = Ok (weave (template_segments t) (map f (qt_slots t)))"
proof -
  have s: "slots_from q 0 (qs_slots scan)" "qt_query t = q" "qt_segments t = segments_from 0 (qs_slots scan) (length q)"
    "length (qt_slots t) = length (qs_slots scan)"
    using assms by (simp_all add: template_of_def)
  from render_weave [OF s(1), of "map f (qt_slots t)" "qt_slots t" resolve "[]"] r s(4) have
    w: "try_fold (render_part q resolve) [] (zip (qt_segments t) (qt_slots t)) =
        Ok (weave (butlast (template_segments t)) (map f (qt_slots t)))"
      "weave (template_segments t) (map f (qt_slots t)) =
        weave (butlast (template_segments t)) (map f (qt_slots t)) @ range_text q (last (qt_segments t))"
      "between q (fst (last (qt_segments t)))" "snd (last (qt_segments t)) = length q"
    by (simp_all add: s template_segments_def)
  have "qt_segments t \<noteq> []" using s(3) by (cases "qs_slots scan") simp_all
  moreover have "between q (length q)" by (simp add: between_def)
  ultimately show ?thesis using w s(2)
    by (auto simp: render_def str_slice_between between_def range_text_def split: prod.splits)
qed

lemma compile_query_no_panic: "utf8_valid q \<Longrightarrow> compile_query alnum q \<noteq> Panic"
proof -
  assume v: "utf8_valid q"
  have slot: "compile_slot q cs s \<noteq> Panic" if "slot_ok s" "slot_between q s" for cs s
    using that by (auto simp: compile_slot_def Let_def slot_ok_def slot_between_def str_slice_between split: option.splits prod.splits)
  have fold: "\<forall>s \<in> set slots. slot_ok s \<and> slot_between q s \<Longrightarrow> try_fold (compile_slot q) cs slots \<noteq> Panic" for slots cs
  proof (induction slots arbitrary: cs)
    case (Cons s slots)
    then show ?case using slot [of s cs] by (cases "compile_slot q cs s") simp_all
  qed simp
  have "\<forall>s \<in> set (qs_slots scan). slot_ok s \<and> slot_between q s" if "scan_query alnum q = Ok scan" for scan
    using ensuresD [OF scan_query_good(2) [OF v] that] by (simp add: ranges_ok_def)
  then show ?thesis
    unfolding compile_query_def by (intro no_panic scan_query_good(1) v fold) blast
qed

text \<open>
  C9 (a template keeps its query). Compiling a UTF-8 query returns, without a panic. A template it returns has the segments
  of the query around its markers: putting back each marker, \<open>?\<close> or a colon and the name its slot refers to, gives the
  query. Its slots agree with its layout: the positional ones are numbered in order, the named ones refer to distinct
  names. Rendering puts the text of each slot in the place of its marker and changes nothing else.
\<close>

theorem template_keeps_query:
  assumes "utf8_valid q"
  shows "compile_query alnum q \<noteq> Panic \<and>
    ensures (\<lambda>t. slots_agree t \<and> weave (template_segments t) (map (slot_marker (qt_layout t)) (qt_slots t)) = q \<and>
      (\<forall>f. render t (\<lambda>slot. Ok (f slot) :: (u8 list, unit) result) = Ok (weave (template_segments t) (map f (qt_slots t)))))
      (compile_query alnum q)"
proof (cases "compile_query alnum q")
  case (Ok t)
  with assms obtain scan where "template_of q scan t" by (rule compile_query_OkE)
  with Ok show ?thesis by (simp add: ensures_def template_slots_agree template_markers render_template)
qed (use compile_query_no_panic [OF assms] in \<open>simp_all add: ensures_def\<close>)

lemma sample_query_compile:
  "compile_query (\<lambda>_. False) sample_query =
     Ok \<lparr>qt_query = sample_query, qt_segments = [(0, 2), (4, 9)],
         qt_slots = [\<lparr>ts_parameter = Named_Slot 0, ts_bare = False\<rparr>], qt_layout = Named [ascii ''a'']\<rparr>"
  by (simp add: compile_query_def sample_query_scan compile_slot_def compile_start_def named_index_def str_slice_def
      is_char_boundary_def) code_simp

theorem template_keeps_query_witness:
  "weave (map (range_text sample_query) [(0, 2), (4, 9)]) [0x3A # ascii ''a''] = sample_query"
proof -
  have "utf8_valid sample_query" by code_simp
  from template_keeps_query [OF this, of "\<lambda>_. False"] show ?thesis
    by (simp add: sample_query_compile ensures_def template_segments_def)
qed

subsection \<open>Binding a row\<close>

definition bindable :: "parameter_layout \<Rightarrow> u8 list list \<Rightarrow> bool \<Rightarrow> bool" where
  "bindable layout field_names bind_by_name \<longleftrightarrow>
     (case layout of
        Positional n \<Rightarrow> \<not> bind_by_name \<and> n = length field_names
      | Named names \<Rightarrow> bind_by_name \<and> distinct field_names \<and> set field_names = set names)"

definition slot_argument :: "parameter_layout \<Rightarrow> u8 list list \<Rightarrow> template_argument list \<Rightarrow> template_slot \<Rightarrow> template_argument" where
  "slot_argument layout field_names arguments slot =
     (case (layout, ts_parameter slot) of
        (Named names, Named_Slot k) \<Rightarrow> the (map_of (zip field_names arguments) (names ! k))
      | (_, Positional_Slot i) \<Rightarrow> arguments ! i
      | (_, Named_Slot k) \<Rightarrow> arguments ! k)"

lemma bind_names_Ok:
  "distinct (map fst ps) \<Longrightarrow> dom m \<inter> fst ` set ps = {} \<Longrightarrow> bind_names m ps = Ok (m ++ map_of ps)"
proof (induction ps arbitrary: m)
  case (Cons p rest)
  obtain name v where p: "p = (name, v)" by fastforce
  with Cons.prems have n: "m name = None" "dom (m(name \<mapsto> v)) \<inter> fst ` set rest = {}" "distinct (map fst rest)" by auto
  moreover have "m(name \<mapsto> v) ++ map_of rest = m ++ map_of ((name, v) # rest)"
    using Cons.prems p by (simp add: map_add_upd_left dom_map_of_conv_image_fst)
  ultimately show ?case using Cons.IH [OF n(3,2)] unfolding p bind_names.simps by presburger
qed simp

lemma bind_names_Err:
  "\<not> (distinct (map fst ps) \<and> dom m \<inter> fst ` set ps = {}) \<Longrightarrow> \<exists>name. bind_names m ps = Err (Duplicated name)"
proof (induction ps arbitrary: m)
  case (Cons p rest)
  obtain name v where p: "p = (name, v)" by fastforce
  show ?case
  proof (cases "m name")
    case None
    with Cons.prems p have "\<not> (distinct (map fst rest) \<and> dom (m(name \<mapsto> v)) \<inter> fst ` set rest = {})" by auto
    from Cons.IH [OF this] None p show ?thesis by (simp del: fun_upd_apply)
  qed (simp add: p)
qed simp

lemma map_of_zip_bound:
  "length xs = length ys \<Longrightarrow> map_of (zip xs ys) x = None \<longleftrightarrow> x \<notin> set xs"
  by (metis map_fst_zip map_of_eq_None_iff set_map)

lemma find_missing: "length xs = length ys \<Longrightarrow>
   find (\<lambda>name. map_of (zip xs ys) name = None) names = None \<longleftrightarrow> set names \<subseteq> set xs"
  by (auto simp: find_None_iff map_of_zip_bound subset_iff)

lemma extra_bound:
  "distinct names \<Longrightarrow> distinct bound \<Longrightarrow> set names \<subseteq> set bound \<Longrightarrow> length names < length bound \<longleftrightarrow> set bound \<noteq> set names"
  by (metis card_subset_eq distinct_card less_irrefl linorder_neqE_nat card_mono finite_set not_le)

lemma render_bound_positional:
  assumes t: "template_of q scan t" and l: "qt_layout t = Positional n" and len: "length field_names = length arguments"
  shows "render_bound pick t field_names arguments by_name =
    (if by_name then Err (Plain e_positional_by_name)
     else if n \<noteq> length arguments then Err (Value_Count n (length arguments))
     else Ok (weave (template_segments t)
       (map (\<lambda>s. argument_render (slot_argument (qt_layout t) field_names arguments s) (ts_bare s)) (qt_slots t))))"
proof -
  have "map ts_parameter (qt_slots t) = map Positional_Slot [0..<n]"
    using template_slots_agree [OF t] l by (simp add: slots_agree_def)
  then have "\<forall>p \<in> ts_parameter ` set (qt_slots t). \<exists>i < n. p = Positional_Slot i"
    by (metis (no_types, lifting) atLeastLessThan_iff imageE image_set set_upt)
  then have s: "\<exists>i < n. ts_parameter s = Positional_Slot i" if "s \<in> set (qt_slots t)" for s
    using that by blast
  show ?thesis
  proof (cases "by_name \<or> n \<noteq> length arguments")
    case False
    then show ?thesis
      by (simp add: render_bound_def l) (rule render_template [OF t], auto dest!: s simp: slot_argument_def l)
  qed (auto simp: render_bound_def l)
qed

lemma render_bound_named:
  assumes t: "template_of q scan t" and l: "qt_layout t = Named names" and len: "length field_names = length arguments"
    and b: "distinct field_names" "set field_names = set names"
  shows "render_bound pick t field_names arguments True = Ok (weave (template_segments t)
      (map (\<lambda>s. argument_render (slot_argument (qt_layout t) field_names arguments s) (ts_bare s)) (qt_slots t)))"
proof -
  have n: "distinct names" "\<forall>s \<in> set (qt_slots t). \<exists>k < length names. ts_parameter s = Named_Slot k"
    using template_slots_agree [OF t] l by (simp_all add: slots_agree_def)
  have "\<not> length names < length field_names" using extra_bound n(1) b by blast
  moreover have "find (\<lambda>name. map_of (zip field_names arguments) name = None) names = None"
    using find_missing [OF len] b by simp
  moreover have "\<exists>v. map_of (zip field_names arguments) (names ! k) = Some v" if "k < length names" for k
    using that b(2) len by (metis map_of_zip_bound nth_mem not_None_eq)
  ultimately show ?thesis
    using b(1) len
    by (simp add: render_bound_def l bind_names_Ok Let_def)
      (rule render_template [OF t], use n(2) in \<open>fastforce simp: slot_argument_def l\<close>)
qed

lemma render_bound_unbound:
  assumes t: "template_of q scan t" and l: "qt_layout t = Named names" and len: "length field_names = length arguments"
    and b: "\<not> (by_name \<and> distinct field_names \<and> set field_names = set names)"
  shows "\<exists>e. render_bound pick t field_names arguments by_name = Err e"
proof (cases "by_name \<and> distinct field_names")
  case False
  then show ?thesis using len bind_names_Err [of "zip field_names arguments" Map.empty]
    by (auto simp: render_bound_def l)
next
  case True
  have n: "distinct names" using template_slots_agree [OF t] l by (simp add: slots_agree_def)
  have bn: "bind_names Map.empty (zip field_names arguments) = Ok (map_of (zip field_names arguments))"
    using True len by (simp add: bind_names_Ok)
  show ?thesis
  proof (cases "set names \<subseteq> set field_names")
    case False
    then obtain m where "find (\<lambda>name. map_of (zip field_names arguments) name = None) names = Some m"
      using find_missing [OF len, of names] by fastforce
    with bn True show ?thesis by (simp add: render_bound_def l)
  next
    case sub: True
    with b True have ne: "set field_names \<noteq> set names" by blast
    with sub have "filter (\<lambda>name. name \<notin> set names) field_names \<noteq> []" by (auto simp: filter_empty_conv)
    then obtain x xs where "filter (\<lambda>name. name \<notin> set names) field_names = x # xs" by (cases "filter (\<lambda>name. name \<notin> set names) field_names") auto
    moreover have "length names < length field_names" using extra_bound [OF n _ sub] True ne by blast
    moreover have "find (\<lambda>name. map_of (zip field_names arguments) name = None) names = None"
      using find_missing [OF len] sub by blast
    ultimately show ?thesis using bn True len by (simp add: render_bound_def l Let_def)
  qed
qed

lemma render_bound_cases:
  assumes t: "template_of q scan t" and len: "length field_names = length arguments"
  shows "if bindable (qt_layout t) field_names by_name
    then render_bound pick t field_names arguments by_name = Ok (weave (template_segments t)
      (map (\<lambda>s. argument_render (slot_argument (qt_layout t) field_names arguments s) (ts_bare s)) (qt_slots t)))
    else \<exists>e. render_bound pick t field_names arguments by_name = Err e"
proof (cases "qt_layout t")
  case (Positional n)
  with render_bound_positional [OF t this len] len show ?thesis by (simp add: bindable_def)
next
  case (Named names)
  with render_bound_named [OF t this len] render_bound_unbound [OF t this len] show ?thesis
    by (auto simp: bindable_def)
qed

text \<open>
  C18 (a row binds exactly when its names fit). For a compiled template and a row with one argument per field, rendering
  gives the query with each marker replaced by its argument exactly when the row fits the layout: positional markers
  bound by position by as many arguments, or named ones bound by name by fields with distinct names that are the names
  of the query. Every other row is refused with an error, without a panic.
\<close>

theorem render_bound_fits:
  assumes "utf8_valid q" "compile_query alnum q = Ok t" "length field_names = length arguments"
  shows "if bindable (qt_layout t) field_names by_name
    then render_bound pick t field_names arguments by_name = Ok (weave (template_segments t)
      (map (\<lambda>s. argument_render (slot_argument (qt_layout t) field_names arguments s) (ts_bare s)) (qt_slots t)))
    else \<exists>e. render_bound pick t field_names arguments by_name = Err e"
proof -
  obtain scan where "template_of q scan t" using assms(1,2) by (rule compile_query_OkE)
  then show ?thesis using assms(3) by (rule render_bound_cases)
qed

theorem render_bound_fits_witness:
  "render_bound hd \<lparr>qt_query = sample_query, qt_segments = [(0, 2), (4, 9)],
         qt_slots = [\<lparr>ts_parameter = Named_Slot 0, ts_bare = False\<rparr>], qt_layout = Named [ascii ''a'']\<rparr>
     [ascii ''a''] [\<lparr>ta_literal = ascii ''5'', ta_typed = ascii ''5''\<rparr>] True =
   Ok (weave (map (range_text sample_query) [(0, 2), (4, 9)]) [ascii ''5''])"
proof -
  have "utf8_valid sample_query" by code_simp
  from render_bound_fits [OF this sample_query_compile, of "[ascii ''a'']" "[\<lparr>ta_literal = ascii ''5'', ta_typed = ascii ''5''\<rparr>]" True hd]
  show ?thesis by (simp add: bindable_def template_segments_def slot_argument_def argument_render_def)
qed

end
