(* ===== verification/Like_Pattern.thy ===== *)
theory Like_Pattern
  imports Sql_Template Monet_Types
begin

text \<open>
  The LIKE patterns of the metadata filters: \<open>validate_like_pattern\<close> and \<open>like_pattern_matches\<close> of
  \<open>crates/adbc-monetdb/src/driver/metadata.rs\<close>. A character is the list of its bytes. The matcher of
  the source is a loop over indices that backtracks to the last \<open>%\<close> only.

  The loop ends from every state, and the lemmas show that it decides the language of the pattern,
  where a value belongs to the language when it can be cut into one piece for each token.
\<close>

subsection \<open>Errors\<close>

text \<open>The errors of \<open>metadata.rs\<close>; the messages with a part that varies carry that part.\<close>

datatype metadata_error =
    Metadata_Error string status
  | Invalid_Escape "u8 list"
  | Column_Type nat
  | Ordinal_Overflow
  | Table_Missing "u8 list" "u8 list"
  | Type_Error "u8 list"
  | Field_Error decode_error
  | Reader_Error adbc_error

definition e_escape_end :: "metadata_error" where
  "e_escape_end = Metadata_Error ''metadata LIKE pattern ends with an escape character'' InvalidArguments"
definition e_filter_nul :: "metadata_error" where
  "e_filter_nul = Metadata_Error ''metadata filter contains a NUL byte'' InvalidArguments"

subsection \<open>Patterns\<close>

abbreviation percent :: "u8 list" where "percent \<equiv> [0x25]"
abbreviation underscore :: "u8 list" where "underscore \<equiv> [0x5F]"
abbreviation backslash :: "u8 list" where "backslash \<equiv> [0x5C]"

fun validate_chars :: "u8 list list \<Rightarrow> (unit, metadata_error) result" where
  "validate_chars [] = Ok ()"
| "validate_chars (c # cs) =
     (if c \<noteq> backslash then validate_chars cs
      else case cs of
          [] \<Rightarrow> Err e_escape_end
        | d # ds \<Rightarrow> if d = percent \<or> d = underscore \<or> d = backslash then validate_chars ds else Err (Invalid_Escape d))"

definition validate_like_pattern :: "u8 list \<Rightarrow> (unit, metadata_error) result" where
  "validate_like_pattern pattern = validate_chars (char_chunks pattern)"

datatype like_token = Many | One | Literal "u8 list"

fun like_tokens :: "u8 list list \<Rightarrow> (like_token list, 'e) result" where
  "like_tokens [] = Ok []"
| "like_tokens (c # cs) =
     (if c = percent then rbind (like_tokens cs) (\<lambda>ts. Ok (Many # ts))
      else if c = underscore then rbind (like_tokens cs) (\<lambda>ts. Ok (One # ts))
      else if c = backslash then
        (case cs of
           [] \<Rightarrow> Panic
         | d # ds \<Rightarrow> rbind (like_tokens ds) (\<lambda>ts. Ok (Literal d # ts)))
      else rbind (like_tokens cs) (\<lambda>ts. Ok (Literal c # ts)))"

subsection \<open>The matching loop\<close>

record like_state =
  lk_token :: nat
  lk_character :: nat
  lk_star :: "nat option"
  lk_retry :: nat
  lk_failed :: bool

definition get_token :: "like_token list \<Rightarrow> nat \<Rightarrow> like_token option" where
  "get_token ts i = (if i < length ts then Some (ts ! i) else None)"

definition like_retry :: "like_state \<Rightarrow> like_state" where
  "like_retry s =
     (case lk_star s of
        Some star \<Rightarrow> s\<lparr>lk_token := star + 1, lk_retry := lk_retry s + 1, lk_character := lk_retry s + 1\<rparr>
      | None \<Rightarrow> s\<lparr>lk_failed := True\<rparr>)"

definition like_step :: "like_token list \<Rightarrow> u8 list list \<Rightarrow> like_state \<Rightarrow> like_state" where
  "like_step ts v s =
     (case get_token ts (lk_token s) of
        Some (Literal c) \<Rightarrow>
          if c = v ! lk_character s then s\<lparr>lk_token := lk_token s + 1, lk_character := lk_character s + 1\<rparr>
          else like_retry s
      | Some One \<Rightarrow> s\<lparr>lk_token := lk_token s + 1, lk_character := lk_character s + 1\<rparr>
      | Some Many \<Rightarrow> s\<lparr>lk_star := Some (lk_token s), lk_token := lk_token s + 1, lk_retry := lk_character s\<rparr>
      | None \<Rightarrow> like_retry s)"

definition like_start :: like_state where
  "like_start = \<lparr>lk_token = 0, lk_character = 0, lk_star = None, lk_retry = 0, lk_failed = False\<rparr>"

definition star_measure :: "like_token list \<Rightarrow> like_state \<Rightarrow> nat" where
  "star_measure ts s = (case lk_star s of None \<Rightarrow> Suc (length ts) | Some star \<Rightarrow> length ts - star)"

definition star_ahead :: "like_state \<Rightarrow> nat" where
  "star_ahead s = (case lk_star s of None \<Rightarrow> 0 | Some star \<Rightarrow> if star < lk_token s then 0 else 1)"

lemmas like_step_defs = like_step_def like_retry_def get_token_def

function like_loop :: "like_token list \<Rightarrow> u8 list list \<Rightarrow> like_state \<Rightarrow> like_state" where
  "like_loop ts v s =
     (if lk_failed s \<or> length v \<le> lk_character s then s else like_loop ts v (like_step ts v s))"
  by pat_completeness auto
termination
  by (relation "measures [\<lambda>(ts, v, s). if lk_failed s then 0 else 1, \<lambda>(ts, v, s). star_ahead s,
        \<lambda>(ts, v, s). star_measure ts s, \<lambda>(ts, v, s). length v - lk_retry s, \<lambda>(ts, v, s). length v - lk_character s]")
    (auto simp: like_step_defs star_measure_def star_ahead_def split: option.splits like_token.splits if_splits)

declare like_loop.simps [simp del]

text \<open>The tokens after the last character: \<open>%\<close> matches nothing, and none may be left.\<close>

definition like_rest :: "like_token list \<Rightarrow> nat \<Rightarrow> bool" where
  "like_rest ts i \<longleftrightarrow> i + length (takeWhile (\<lambda>t. t = Many) (drop i ts)) = length ts"

definition like_pattern_matches :: "u8 list \<Rightarrow> u8 list \<Rightarrow> (bool, metadata_error) result" where
  "like_pattern_matches pattern val =
     rbind (validate_like_pattern pattern) (\<lambda>_.
     rbind (like_tokens (char_chunks pattern)) (\<lambda>ts.
       let s = like_loop ts (char_chunks val) like_start
       in Ok (\<not> lk_failed s \<and> like_rest ts (lk_token s))))"

definition matches_filter :: "u8 list option \<Rightarrow> u8 list \<Rightarrow> (bool, metadata_error) result" where
  "matches_filter filter_text val =
     (case filter_text of None \<Rightarrow> Ok True | Some pattern \<Rightarrow> like_pattern_matches pattern val)"

subsection \<open>The language of a pattern\<close>

fun fits :: "like_token \<Rightarrow> u8 list list \<Rightarrow> bool" where
  "fits Many piece = True"
| "fits One piece = (length piece = 1)"
| "fits (Literal c) piece = (piece = [c])"

definition like_language :: "like_token list \<Rightarrow> u8 list list \<Rightarrow> bool" where
  "like_language ts v \<longleftrightarrow> (\<exists>pieces. list_all2 fits ts pieces \<and> concat pieces = v)"

lemma like_language_Nil [simp]: "like_language [] v \<longleftrightarrow> v = []"
  by (auto simp: like_language_def)

lemma like_language_Cons:
  "like_language (t # ts) v \<longleftrightarrow> (\<exists>k \<le> length v. fits t (take k v) \<and> like_language ts (drop k v))"
proof
  assume "like_language (t # ts) v"
  then obtain piece pieces where "fits t piece" "list_all2 fits ts pieces" "v = piece @ concat pieces"
    by (auto simp: like_language_def list_all2_Cons1)
  then show "\<exists>k \<le> length v. fits t (take k v) \<and> like_language ts (drop k v)"
    by (intro exI [of _ "length piece"]) (auto simp: like_language_def)
next
  assume "\<exists>k \<le> length v. fits t (take k v) \<and> like_language ts (drop k v)"
  then obtain k pieces where "fits t (take k v)" "list_all2 fits ts pieces" "concat pieces = drop k v"
    by (auto simp: like_language_def)
  then show "like_language (t # ts) v"
    unfolding like_language_def by (intro exI [of _ "take k v # pieces"]) auto
qed

lemma like_language_Many: "like_language (Many # ts) v \<longleftrightarrow> (\<exists>k \<le> length v. like_language ts (drop k v))"
  by (simp add: like_language_Cons)

definition accepts :: "like_token \<Rightarrow> u8 list \<Rightarrow> bool" where
  "accepts t c \<longleftrightarrow> t = One \<or> t = Literal c"

lemma fits_single: "t \<noteq> Many \<Longrightarrow> fits t piece \<longleftrightarrow> (\<exists>c. piece = [c] \<and> accepts t c)"
  by (cases t) (auto simp: accepts_def length_Suc_conv)

lemma like_language_single:
  assumes "t \<noteq> Many"
  shows "like_language (t # ts) v \<longleftrightarrow> (\<exists>c w. v = c # w \<and> accepts t c \<and> like_language ts w)"
proof
  assume "like_language (t # ts) v"
  then obtain k c where "take k v = [c]" "accepts t c" "like_language ts (drop k v)"
    using assms by (auto simp: like_language_Cons fits_single)
  moreover have "v = take k v @ drop k v" by simp
  ultimately show "\<exists>c w. v = c # w \<and> accepts t c \<and> like_language ts w" by (metis append_Cons append_Nil)
next
  assume "\<exists>c w. v = c # w \<and> accepts t c \<and> like_language ts w"
  then obtain c w where "v = c # w" "accepts t c" "like_language ts w" by blast
  then show "like_language (t # ts) v"
    unfolding like_language_Cons by (intro exI [of _ 1]) (simp add: fits_single assms)
qed

text \<open>A run of tokens without \<open>%\<close> matches exactly as many characters.\<close>

abbreviation run_accepts :: "like_token list \<Rightarrow> u8 list list \<Rightarrow> bool" where
  "run_accepts run w \<equiv> list_all2 accepts run w"

lemma accepts_not_Many: "accepts t c \<Longrightarrow> t \<noteq> Many"
  by (auto simp: accepts_def)

lemma run_not_Many: "run_accepts run w \<Longrightarrow> Many \<notin> set run"
  by (induction run w rule: list_all2_induct) (auto dest: accepts_not_Many)

lemma like_language_run:
  "Many \<notin> set run \<Longrightarrow>
   like_language (run @ ts) v \<longleftrightarrow> (\<exists>w z. v = w @ z \<and> run_accepts run w \<and> like_language ts z)"
proof (induction run arbitrary: v)
  case (Cons t run)
  then have t: "t \<noteq> Many" and r: "Many \<notin> set run" by auto
  show ?case
    by (auto simp: like_language_single [OF t] Cons.IH [OF r] list_all2_Cons1) (metis append_Cons)+
qed simp

text \<open>
  The three moves of the loop below a \<open>%\<close> whose run of tokens has matched so far: the next \<open>%\<close>
  replaces it, a mismatch moves it by one character, and the end of the value leaves the rest.
\<close>

lemma star_replaced:
  assumes "run_accepts run w"
  shows "like_language (Many # run @ Many # ts) (w @ z) \<longleftrightarrow> like_language (Many # ts) z"
proof
  assume "like_language (Many # run @ Many # ts) (w @ z)"
  then obtain k w' z' where eq: "drop k (w @ z) = w' @ z'" and a: "run_accepts run w'" and l: "like_language (Many # ts) z'"
    using like_language_run [OF run_not_Many [OF assms]] by (auto simp: like_language_Many [of "run @ Many # ts"])
  from a assms have len: "length w' = length w" by (metis list_all2_lengthD)
  have "z' = drop (length w') (drop k (w @ z))" unfolding eq by simp
  also have "\<dots> = drop (k + length w) (w @ z)" by (simp only: drop_drop len add.commute)
  finally have z': "z' = drop k z" by simp
  from l obtain j where "like_language ts (drop j z')" by (auto simp: like_language_Many)
  then show "like_language (Many # ts) z"
    unfolding like_language_Many z' by (intro exI [of _ "min (length z) (j + k)"]) (auto simp: min_def)
next
  assume "like_language (Many # ts) z"
  then have "like_language (run @ Many # ts) (w @ z)"
    using assms by (auto simp: like_language_run [OF run_not_Many [OF assms]])
  then show "like_language (Many # run @ Many # ts) (w @ z)"
    unfolding like_language_Many [of "run @ Many # ts"] by (intro exI [of _ 0]) simp
qed

lemma star_moved:
  assumes "\<not> like_language ts (c # z)"
  shows "like_language (Many # ts) (c # z) \<longleftrightarrow> like_language (Many # ts) z"
proof
  assume "like_language (Many # ts) (c # z)"
  then obtain k where k: "k \<le> Suc (length z)" "like_language ts (drop k (c # z))" by (auto simp: like_language_Many)
  with assms obtain j where "k = Suc j" by (cases k) auto
  with k show "like_language (Many # ts) z" by (auto simp: like_language_Many)
next
  assume "like_language (Many # ts) z"
  then show "like_language (Many # ts) (c # z)" by (auto simp: like_language_Many intro: exI [of _ "Suc _"])
qed

lemma star_at_end:
  assumes "run_accepts run w"
  shows "like_language (Many # run @ ts) w \<longleftrightarrow> like_language ts []"
proof
  assume "like_language (Many # run @ ts) w"
  then obtain k w' z' where k: "drop k w = w' @ z'" and a: "run_accepts run w'" and l: "like_language ts z'"
    by (auto simp: like_language_Many like_language_run [OF run_not_Many [OF assms]])
  from a assms have "length w' = length w" by (metis list_all2_lengthD)
  moreover have "length w - k = length w' + length z'" using arg_cong [OF k, of length] by simp
  ultimately have "length z' = 0" by arith
  then have "z' = []" by simp
  with l show "like_language ts []" by simp
next
  assume "like_language ts []"
  with assms have "like_language (run @ ts) w"
    unfolding like_language_run [OF run_not_Many [OF assms]] by (intro exI [of _ w] exI [of _ "[]"]) simp
  then show "like_language (Many # run @ ts) w"
    unfolding like_language_Many by (intro exI [of _ 0]) simp
qed

subsection \<open>Correctness of the matcher\<close>

text \<open>
  The state of the loop against the language: before the first \<open>%\<close> the rest of the tokens decides
  the rest of the value; after it, the tokens since the last \<open>%\<close> have matched since the retry position.
\<close>

definition like_inv :: "like_token list \<Rightarrow> u8 list list \<Rightarrow> like_state \<Rightarrow> bool" where
  "like_inv ts v s \<longleftrightarrow>
     lk_token s \<le> length ts \<and>
     (if lk_failed s then \<not> like_language ts v
      else case lk_star s of
          None \<Rightarrow> lk_character s \<le> length v \<and> (like_language ts v \<longleftrightarrow> like_language (drop (lk_token s) ts) (drop (lk_character s) v))
        | Some star \<Rightarrow>
            (\<exists>run w. drop star ts = Many # run @ drop (lk_token s) ts \<and> lk_token s = Suc star + length run \<and>
               drop (lk_retry s) v = w @ drop (lk_character s) v \<and> lk_character s = lk_retry s + length w \<and>
               lk_character s \<le> length v \<and> run_accepts run w \<and>
               (like_language ts v \<longleftrightarrow> like_language (drop star ts) (drop (lk_retry s) v))))"

lemma like_inv_start: "like_inv ts v like_start"
  by (simp add: like_inv_def like_start_def)

text \<open>One token accepts one character.\<close>

lemma like_inv_advance:
  assumes i: "like_inv ts v s" and n: "\<not> lk_failed s" "lk_character s < length v"
    and t: "lk_token s < length ts" "accepts (ts ! lk_token s) (v ! lk_character s)"
  shows "like_inv ts v (s\<lparr>lk_token := lk_token s + 1, lk_character := lk_character s + 1\<rparr>)"
proof -
  have dt: "drop (lk_token s) ts = ts ! lk_token s # drop (Suc (lk_token s)) ts" using t(1) by (simp add: Cons_nth_drop_Suc)
  have dv: "drop (lk_character s) v = v ! lk_character s # drop (Suc (lk_character s)) v"
    using n(2) by (simp add: Cons_nth_drop_Suc)
  show ?thesis
  proof (cases "lk_star s")
    case None
    with i n t show ?thesis
      by (simp add: like_inv_def dt dv like_language_single [OF accepts_not_Many [OF t(2)]])
  next
    case (Some star)
    with i n obtain run w where r: "drop star ts = Many # run @ drop (lk_token s) ts" "lk_token s = Suc star + length run"
      "drop (lk_retry s) v = w @ drop (lk_character s) v" "lk_character s = lk_retry s + length w"
      "run_accepts run w" "like_language ts v \<longleftrightarrow> like_language (drop star ts) (drop (lk_retry s) v)"
      by (auto simp: like_inv_def)
    have "run_accepts (run @ [ts ! lk_token s]) (w @ [v ! lk_character s])" using r(5) t(2) by (simp add: list_all2_appendI)
    with r Some n t dt dv show ?thesis
      unfolding like_inv_def by (auto intro!: exI [of _ "run @ [ts ! lk_token s]"] exI [of _ "w @ [v ! lk_character s]"])
  qed
qed

lemma like_inv_Many:
  assumes i: "like_inv ts v s" and n: "\<not> lk_failed s" "lk_character s < length v"
    and t: "lk_token s < length ts" "ts ! lk_token s = Many"
  shows "like_inv ts v (s\<lparr>lk_star := Some (lk_token s), lk_token := lk_token s + 1, lk_retry := lk_character s\<rparr>)"
proof -
  have dt: "drop (lk_token s) ts = Many # drop (Suc (lk_token s)) ts" using t by (metis Cons_nth_drop_Suc)
  have "like_language ts v \<longleftrightarrow> like_language (drop (lk_token s) ts) (drop (lk_character s) v)"
  proof (cases "lk_star s")
    case None
    with i n show ?thesis by (simp add: like_inv_def)
  next
    case (Some star)
    with i n obtain run w where "drop star ts = Many # run @ drop (lk_token s) ts"
      "drop (lk_retry s) v = w @ drop (lk_character s) v" "run_accepts run w"
      "like_language ts v \<longleftrightarrow> like_language (drop star ts) (drop (lk_retry s) v)"
      by (auto simp: like_inv_def)
    then show ?thesis by (simp add: dt star_replaced)
  qed
  with n t dt show ?thesis by (simp add: like_inv_def)
qed

lemma like_inv_mismatch:
  assumes i: "like_inv ts v s" and n: "\<not> lk_failed s" "lk_character s < length v"
    and m: "\<not> like_language (drop (lk_token s) ts) (drop (lk_character s) v)"
  shows "like_inv ts v (like_retry s)"
proof (cases "lk_star s")
  case None
  with i n m show ?thesis by (simp add: like_inv_def like_retry_def)
next
  case (Some star)
  with i n obtain run w where r: "drop star ts = Many # run @ drop (lk_token s) ts" "lk_token s = Suc star + length run"
    "drop (lk_retry s) v = w @ drop (lk_character s) v" "lk_character s = lk_retry s + length w"
    "run_accepts run w" "like_language ts v \<longleftrightarrow> like_language (drop star ts) (drop (lk_retry s) v)"
    by (auto simp: like_inv_def)
  have tl: "run @ drop (lk_token s) ts = drop (Suc star) ts" using r(1) by (metis drop_Suc list.sel(3) tl_drop)
  have dr: "drop (lk_retry s) v = v ! lk_retry s # drop (Suc (lk_retry s)) v"
    using n(2) r(4) by (simp add: Cons_nth_drop_Suc)
  have "\<not> like_language (run @ drop (lk_token s) ts) (drop (lk_retry s) v)"
  proof
    assume "like_language (run @ drop (lk_token s) ts) (drop (lk_retry s) v)"
    then obtain w' z where eq: "w @ drop (lk_character s) v = w' @ z" and a: "run_accepts run w'"
      and l: "like_language (drop (lk_token s) ts) z"
      by (auto simp: r(3) like_language_run [OF run_not_Many [OF r(5)]])
    from a r(5) have "length w' = length w" by (metis list_all2_lengthD)
    with eq l m show False by simp
  qed
  with r(6) have "like_language ts v \<longleftrightarrow> like_language (drop star ts) (drop (Suc (lk_retry s)) v)"
    by (simp add: r(1) dr star_moved)
  with Some i n r tl show ?thesis
    by (simp add: like_inv_def like_retry_def)
qed

lemma like_inv_step:
  assumes i: "like_inv ts v s" and n: "\<not> lk_failed s" "lk_character s < length v"
  shows "like_inv ts v (like_step ts v s)"
proof (cases "lk_token s < length ts")
  case False
  then have "\<not> like_language (drop (lk_token s) ts) (drop (lk_character s) v)" using n by simp
  from like_inv_mismatch [OF i n this] False show ?thesis by (simp add: like_step_def get_token_def)
next
  case True
  have dt: "drop (lk_token s) ts = ts ! lk_token s # drop (Suc (lk_token s)) ts" using True by (simp add: Cons_nth_drop_Suc)
  have dv: "drop (lk_character s) v = v ! lk_character s # drop (Suc (lk_character s)) v"
    using n(2) by (simp add: Cons_nth_drop_Suc)
  consider "ts ! lk_token s = Many" | "accepts (ts ! lk_token s) (v ! lk_character s)"
    | c where "ts ! lk_token s = Literal c" "c \<noteq> v ! lk_character s"
    by (cases "ts ! lk_token s") (auto simp: accepts_def)
  then show ?thesis
  proof cases
    case 1
    with like_inv_Many [OF i n True 1] True show ?thesis by (simp add: like_step_def get_token_def)
  next
    case 2
    with like_inv_advance [OF i n True 2] True show ?thesis by (auto simp: like_step_def get_token_def accepts_def)
  next
    case 3
    then have "\<not> like_language (drop (lk_token s) ts) (drop (lk_character s) v)"
      by (simp add: dt dv like_language_single accepts_def)
    from like_inv_mismatch [OF i n this] True 3 show ?thesis by (simp add: like_step_def get_token_def)
  qed
qed

lemma like_inv_loop:
  "like_inv ts v s \<Longrightarrow>
   like_inv ts v (like_loop ts v s) \<and> (lk_failed (like_loop ts v s) \<or> length v \<le> lk_character (like_loop ts v s))"
proof (induction ts v s rule: like_loop.induct)
  case (1 ts v s)
  show ?case
  proof (cases "lk_failed s \<or> length v \<le> lk_character s")
    case True
    with 1(2) show ?thesis by (simp add: like_loop.simps [of ts v s])
  next
    case False
    with 1 like_inv_step [of ts v s] show ?thesis by (simp add: like_loop.simps [of ts v s])
  qed
qed

lemma like_language_empty: "like_language ts [] \<longleftrightarrow> (\<forall>t \<in> set ts. t = Many)"
proof (induction ts)
  case (Cons t ts)
  then show ?case by (cases "t = Many") (auto simp: like_language_Many like_language_single)
qed simp

lemma like_rest_language: "i \<le> length ts \<Longrightarrow> like_rest ts i \<longleftrightarrow> like_language (drop i ts) []"
proof -
  assume i: "i \<le> length ts"
  have "length (takeWhile P xs) = length xs \<longleftrightarrow> (\<forall>x \<in> set xs. P x)" for P and xs :: "like_token list"
    by (metis takeWhile_eq_all_conv takeWhile_eq_take take_all_iff order.refl)
  from this [of "\<lambda>t. t = Many" "drop i ts"] i show ?thesis
    unfolding like_rest_def like_language_empty by auto
qed

lemma like_loop_decides:
  "(\<not> lk_failed (like_loop ts v like_start) \<and> like_rest ts (lk_token (like_loop ts v like_start))) = like_language ts v"
proof -
  define s where "s = like_loop ts v like_start"
  have i: "like_inv ts v s" and e: "lk_failed s \<or> length v \<le> lk_character s"
    using like_inv_loop [OF like_inv_start] by (auto simp: s_def)
  show ?thesis
  proof (cases "lk_failed s")
    case True
    with i show ?thesis by (simp add: s_def [symmetric] like_inv_def)
  next
    case False
    with e i have c: "lk_character s = length v" by (auto simp: like_inv_def split: option.splits)
    have "like_language ts v \<longleftrightarrow> like_language (drop (lk_token s) ts) []"
    proof (cases "lk_star s")
      case None
      with i False c show ?thesis by (simp add: like_inv_def)
    next
      case (Some star)
      with i False c show ?thesis by (auto simp: like_inv_def star_at_end)
    qed
    moreover have "lk_token s \<le> length ts" using i by (simp add: like_inv_def)
    ultimately show ?thesis using False by (simp add: s_def [symmetric] like_rest_language)
  qed
qed

text \<open>
  How a token is spelled in a pattern: the three special characters are escaped when they stand for
  themselves. A pattern is valid when it spells some tokens, and these are the tokens read from it.
\<close>

fun spell :: "like_token \<Rightarrow> u8 list list" where
  "spell Many = [percent]"
| "spell One = [underscore]"
| "spell (Literal c) = (if c = percent \<or> c = underscore \<or> c = backslash then [backslash, c] else [c])"

lemma spelled_valid: "validate_chars (concat (map spell ts)) = Ok ()"
proof (induction ts)
  case (Cons t ts)
  then show ?case by (cases t) auto
qed simp

lemma spelled_tokens: "like_tokens (concat (map spell ts)) = Ok ts"
proof (induction ts)
  case (Cons t ts)
  then show ?case by (cases t) auto
qed simp

lemma valid_spelled: "(validate_chars cs :: (unit, metadata_error) result) = Ok u \<Longrightarrow> \<exists>ts. cs = concat (map spell ts)"
proof (induction cs rule: validate_chars.induct)
  case 1
  show ?case by (rule exI [of _ "[]"]) simp
next
  case (2 c cs)
  show ?case
  proof (cases "c = backslash")
    case True
    with 2(3) obtain d ds where cs: "cs = d # ds" by (cases cs) auto
    with True 2(3) have d: "d = percent \<or> d = underscore \<or> d = backslash" "(validate_chars ds :: (unit, metadata_error) result) = Ok u"
      by (auto split: if_splits)
    with 2(2) True cs obtain ts where "ds = concat (map spell ts)" by auto
    with d cs True show ?thesis by (intro exI [of _ "Literal d # ts"]) auto
  next
    case False
    with 2(1,3) obtain ts where ts: "cs = concat (map spell ts)" by auto
    define t where "t = (if c = percent then Many else if c = underscore then One else Literal c)"
    have "spell t = [c]" using False by (auto simp: t_def)
    with ts show ?thesis by (intro exI [of _ "t # ts"]) simp
  qed
qed

lemma validate_not_Panic [no_panic]: "validate_chars cs \<noteq> Panic"
  by (induction cs rule: validate_chars.induct) (auto split: list.splits)

text \<open>
  C33 (LIKE patterns). When a pattern spells a list of tokens, matching it against a value answers
  whether the value can be cut into one piece per token, with any piece for \<open>%\<close>, one character for
  \<open>_\<close> and the character itself for a literal. Every other pattern is an error. Neither case panics,
  and the loop that backtracks to the last \<open>%\<close> only ends on every input.
\<close>

theorem like_pattern_matches_language:
  "(\<forall>ts. char_chunks p = concat (map spell ts) \<longrightarrow>
      like_pattern_matches p v = Ok (like_language ts (char_chunks v))) \<and>
   ((\<nexists>ts. char_chunks p = concat (map spell ts)) \<longrightarrow> (\<exists>e. like_pattern_matches p v = Err e))"
proof (intro conjI allI impI)
  fix ts assume "char_chunks p = concat (map spell ts)"
  then show "like_pattern_matches p v = Ok (like_language ts (char_chunks v))"
    by (simp add: like_pattern_matches_def validate_like_pattern_def spelled_valid spelled_tokens Let_def
        like_loop_decides)
next
  assume "\<nexists>ts. char_chunks p = concat (map spell ts)"
  then obtain e where "validate_chars (char_chunks p) = Err e"
    using valid_spelled validate_not_Panic by (metis result.exhaust)
  then show "\<exists>e. like_pattern_matches p v = Err e"
    by (simp add: like_pattern_matches_def validate_like_pattern_def)
qed

theorem like_pattern_matches_language_witness:
  "char_chunks (ascii ''s_%l'') = concat (map spell [Literal [0x73], One, Many, Literal [0x6C]]) \<and>
   like_pattern_matches (ascii ''s_%l'') (ascii ''several'') =
     Ok (like_language [Literal [0x73], One, Many, Literal [0x6C]] (char_chunks (ascii ''several''))) \<and>
   (\<exists>e. like_pattern_matches [0x61, 0x5C] (ascii ''a'') = Err e)"
proof -
  have p: "char_chunks (ascii ''s_%l'') = concat (map spell [Literal [0x73], One, Many, Literal [0x6C]])" by code_simp
  have "validate_chars (char_chunks [0x61, 0x5C]) \<noteq> Ok ()" by code_simp
  then have "\<nexists>ts. char_chunks [0x61, 0x5C] = concat (map spell ts)" using spelled_valid by metis
  with p like_pattern_matches_language [of "ascii ''s_%l''" "ascii ''several''"]
    like_pattern_matches_language [of "[0x61, 0x5C]" "ascii ''a''"] show ?thesis
    by blast
qed

end
