(* ===== verification/Sql_Literal.thy ===== *)
theory Sql_Literal
  imports Sql_Template Encode
begin

text \<open>
  SQL literals of \<open>parameters.rs\<close>: the text of a bound Arrow value, with a cast where the server would otherwise derive
  the type from the value, and the rendering of a bound row. A dictionary array holds its keys and a values array.
  The date types (crate \<open>chrono\<close>) and the half floats (crate \<open>half\<close>) are parameters.
\<close>

subsection \<open>Bound values\<close>

datatype parameter_array = Flat arrow_array | Dictionary_Array data_type "nat option list" parameter_array

fun p_type :: "parameter_array \<Rightarrow> data_type" where
  "p_type (Flat a) = a_type a"
| "p_type (Dictionary_Array key keys vals) = DT_Dictionary key (p_type vals)"

fun p_len :: "parameter_array \<Rightarrow> nat" where
  "p_len (Flat a) = array_len a"
| "p_len (Dictionary_Array key keys vals) = length keys"

fun data_is_null :: "array_data \<Rightarrow> nat \<Rightarrow> bool" where
  "data_is_null (NullData n) row = False"
| "data_is_null (BoolData p) row = is_null p row"
| "data_is_null (IntData p) row = is_null p row"
| "data_is_null (FloatData p) row = is_null p row"
| "data_is_null (TextData xs) row = (xs ! row = None)"
| "data_is_null (BytesData xs) row = (xs ! row = None)"
| "data_is_null (DictData keys vals) row = (keys ! row = None)"

fun p_is_null :: "parameter_array \<Rightarrow> nat \<Rightarrow> bool" where
  "p_is_null (Flat a) row = data_is_null (a_data a) row"
| "p_is_null (Dictionary_Array key keys vals) row = (keys ! row = None)"

record parameter_batch =
  pb_fields :: "arrow_field list"
  pb_columns :: "parameter_array list"
  pb_num_rows :: nat

text \<open>The date of an instant in microseconds, the display of a date, and the widening of a half float.\<close>

record 'd literal_env =
  le_chrono :: "'d chrono"
  le_timestamp_date :: "int \<Rightarrow> 'd option"
  le_show_date :: "'d \<Rightarrow> u8 list"
  le_half :: "nat \<Rightarrow> nat"

subsection \<open>Errors\<close>

datatype literal_error =
    L_Plain adbc_error
  | L_Unsupported data_type
  | L_Downcast data_type data_type
  | L_Time32_Unit time_unit
  | L_Time64_Unit time_unit
  | L_Key_Type data_type
  | L_Key_Bounds nat nat
  | L_Sql_Type encode_error

definition l_invalid :: "string \<Rightarrow> literal_error" where
  "l_invalid msg = L_Plain (Adbc_Error msg InvalidData)"
definition l_row_bounds :: literal_error where
  "l_row_bounds = L_Plain (Adbc_Error ''parameter row is out of bounds'' InvalidArguments)"
definition l_negative_scale :: literal_error where
  "l_negative_scale = L_Plain (Adbc_Error ''negative-scale decimal parameters are not supported'' NotImplemented)"

subsection \<open>Numbers\<close>

text \<open>\<open>{:0w}\<close>.\<close>

definition pad_nat :: "nat \<Rightarrow> nat \<Rightarrow> u8 list" where
  "pad_nat w n = replicate (w - length (print_nat n)) 0x30 @ print_nat n"

definition decimal_literal :: "int \<Rightarrow> int \<Rightarrow> (u8 list, literal_error) result" where
  "decimal_literal v scale =
     (if scale < 0 then Err l_negative_scale
      else
        let scale = nat scale;
            digits = print_nat (nat \<bar>v\<bar>);
            digits = (if 0 < scale
                      then let digits = (if length digits \<le> scale then replicate (scale + 1 - length digits) 0x30 @ digits else digits);
                               k = length digits - scale
                           in take k digits @ 0x2E # drop k digits
                      else digits)
        in Ok (if v < 0 then 0x2D # digits else digits))"

text \<open>
  The scientific notation \<open>{:e}\<close> of a 64-bit float: the shortest digits inside the rounding interval of the value,
  found digit by digit; \<open>k\<close> is the decimal exponent, \<open>mant / scale\<close> the value and \<open>minus\<close>, \<open>plus\<close> the distances to the
  ends of the interval, over the same scale. A buffer of seventeen digits is written.
\<close>

record decoded =
  d_mant :: nat
  d_minus :: nat
  d_plus :: nat
  d_exp :: int
  d_inclusive :: bool

datatype full_decoded = D_Nan | D_Infinite | D_Zero | D_Finite decoded

definition f64_negative :: "nat \<Rightarrow> bool" where
  "f64_negative bits \<longleftrightarrow> 2 ^ 63 \<le> bits"

definition f64_decode :: "nat \<Rightarrow> full_decoded" where
  "f64_decode bits =
     (let e = bits div 2 ^ 52 mod 2048; f = bits mod 2 ^ 52 in
      if e = 2047 then if f = 0 then D_Infinite else D_Nan
      else if e = 0 then
        if f = 0 then D_Zero else D_Finite \<lparr>d_mant = 2 * f, d_minus = 1, d_plus = 1, d_exp = -1075, d_inclusive = True\<rparr>
      else if f = 0 then
        D_Finite \<lparr>d_mant = 4 * 2 ^ 52, d_minus = 1, d_plus = 2, d_exp = int e - 1077, d_inclusive = True\<rparr>
      else D_Finite \<lparr>d_mant = 2 * (2 ^ 52 + f), d_minus = 1, d_plus = 1, d_exp = int e - 1076, d_inclusive = even f\<rparr>)"

definition f64_is_finite :: "nat \<Rightarrow> bool" where
  "f64_is_finite bits \<longleftrightarrow> bits div 2 ^ 52 mod 2048 \<noteq> 2047"

function bit_len :: "nat \<Rightarrow> nat" where
  "bit_len n = (if n = 0 then 0 else Suc (bit_len (n div 2)))"
  by pat_completeness auto
termination
  by (relation "measure id") auto

declare bit_len.simps [simp del]

text \<open>\<open>f64::from\<close> on the bits of a 32-bit float.\<close>

definition f64_of_f32 :: "nat \<Rightarrow> nat" where
  "f64_of_f32 bits =
     (let sign = bits div 2 ^ 31; e = bits div 2 ^ 23 mod 256; f = bits mod 2 ^ 23 in
      sign * 2 ^ 63 +
      (if e = 255 then 2047 * 2 ^ 52 + f * 2 ^ 29
       else if e = 0 then
         if f = 0 then 0 else let n = bit_len f in (n + 873) * 2 ^ 52 + (f * 2 ^ (53 - n) - 2 ^ 52)
       else (e + 896) * 2 ^ 52 + f * 2 ^ 29))"

definition scaled :: "int \<Rightarrow> int \<Rightarrow> nat \<Rightarrow> nat" where
  "scaled e k n = n * 2 ^ nat e * 10 ^ nat (- k)"

definition scale_of :: "int \<Rightarrow> int \<Rightarrow> nat" where
  "scale_of e k = 2 ^ nat (- e) * 10 ^ nat k"

definition reaches :: "bool \<Rightarrow> nat \<Rightarrow> nat \<Rightarrow> bool" where
  "reaches inclusive a b \<longleftrightarrow> (if inclusive then a \<le> b else a < b)"

definition decimal_exponent :: "decoded \<Rightarrow> int option" where
  "decimal_exponent d =
     find (\<lambda>k. \<not> reaches (d_inclusive d) (scale_of (d_exp d) k) (scaled (d_exp d) k (d_mant d + d_plus d))) [-330..330]"

text \<open>Digits until the rest is within the interval; then whether to round up.\<close>

fun digit_loop :: "nat \<Rightarrow> bool \<Rightarrow> nat \<Rightarrow> nat \<Rightarrow> nat \<Rightarrow> nat \<Rightarrow> (nat list \<times> bool) option" where
  "digit_loop 0 inclusive scale mant lo hi = None"
| "digit_loop (Suc slots) inclusive scale mant lo hi =
     (let digit = mant div scale; rest = mant mod scale;
          down = reaches inclusive rest lo; up = reaches inclusive scale (rest + hi) in
      if down \<or> up then Some ([digit], up \<and> (\<not> down \<or> scale \<le> 2 * rest))
      else case digit_loop slots inclusive scale (10 * rest) (10 * lo) (10 * hi) of
             None \<Rightarrow> None
           | Some (digits, u) \<Rightarrow> Some (digit # digits, u))"

text \<open>Adds one to the last digit; nines become zeros, and all nines a one with one more digit before the point.\<close>

definition round_up :: "nat list \<Rightarrow> nat list \<times> bool" where
  "round_up digits =
     (let nines = length (takeWhile (\<lambda>d. d = 9) (rev digits)); k = length digits - nines in
      if k = 0 then (1 # replicate (length digits) 0, True)
      else (take (k - 1) digits @ (digits ! (k - 1) + 1) # replicate nines 0, False))"

definition format_shortest :: "decoded \<Rightarrow> (nat list \<times> int) option" where
  "format_shortest d =
     (case decimal_exponent d of
        None \<Rightarrow> None
      | Some k \<Rightarrow>
          let e = d_exp d; ten = (\<lambda>n. 10 * scaled e k n) in
          case digit_loop 17 (d_inclusive d) (scale_of e k) (ten (d_mant d)) (ten (d_minus d)) (ten (d_plus d)) of
            None \<Rightarrow> None
          | Some (digits, up) \<Rightarrow>
              if up then case round_up digits of (digits, carry) \<Rightarrow> Some (digits, if carry then k + 1 else k)
              else Some (digits, k))"

definition exp_text :: "nat list \<Rightarrow> int \<Rightarrow> u8 list" where
  "exp_text digits k =
     (let ds = map digit_byte digits in
      take 1 ds @ (if 1 < length ds then 0x2E # drop 1 ds else []) @ 0x65 # print_int (k - 1))"

definition format_e :: "nat \<Rightarrow> (u8 list, 'e) result" where
  "format_e bits =
     (let sign = (if f64_negative bits then [0x2D] else []) in
      case f64_decode bits of
        D_Nan \<Rightarrow> Ok (ascii ''NaN'')
      | D_Infinite \<Rightarrow> Ok (sign @ ascii ''inf'')
      | D_Zero \<Rightarrow> Ok (sign @ ascii ''0e0'')
      | D_Finite d \<Rightarrow> (case format_shortest d of None \<Rightarrow> Panic | Some (digits, k) \<Rightarrow> Ok (sign @ exp_text digits k)))"

definition float_literal :: "nat \<Rightarrow> (u8 list, literal_error) result" where
  "float_literal bits =
     (if f64_is_finite bits then format_e bits
      else Err (l_invalid ''non-finite float parameters are not supported by MonetDB''))"

subsection \<open>Strings and bytes\<close>

text \<open>\<open>R'...'\<close> with every quote doubled.\<close>

definition double_quotes :: "u8 list \<Rightarrow> u8 list" where
  "double_quotes v = concat (map (\<lambda>b. if b = 0x27 then [0x27, 0x27] else [b]) v)"

definition quote_raw_string :: "u8 list \<Rightarrow> u8 list" where
  "quote_raw_string v = [0x52, 0x27] @ double_quotes v @ [0x27]"

definition quote_string :: "u8 list \<Rightarrow> (u8 list, literal_error) result" where
  "quote_string v = (if 0 \<in> set v then Err (l_invalid ''string parameter contains a NUL byte'') else Ok (quote_raw_string v))"

definition quoted :: "string \<Rightarrow> u8 list \<Rightarrow> u8 list" where
  "quoted keyword body = ascii keyword @ 0x20 # 0x27 # body @ [0x27]"

definition hex_pair :: "u8 \<Rightarrow> u8 list" where
  "hex_pair byte = [hex_digit (unat byte div 16), hex_digit (unat byte mod 16)]"

definition blob_literal :: "u8 list \<Rightarrow> u8 list" where
  "blob_literal v = quoted ''BLOB'' (concat (map hex_pair v))"

definition uuid_literal :: "u8 list \<Rightarrow> u8 list" where
  "uuid_literal v =
     quoted ''UUID'' (concat (map (\<lambda>(index, byte). (if index \<in> {4, 6, 8, 10} then [0x2D] else []) @ hex_pair byte)
       (zip [0..<length v] v)))"

subsection \<open>Dates, times and intervals\<close>

definition date_literal :: "'d literal_env \<Rightarrow> int \<Rightarrow> (u8 list, literal_error) result" where
  "date_literal env days =
     rbind (ok_or (date_from_unix_days (le_chrono env) days) (l_invalid ''date parameter is out of range''))
       (\<lambda>date. Ok (quoted ''DATE'' (le_show_date env date)))"

definition format_time :: "int \<Rightarrow> (u8 list, literal_error) result" where
  "format_time micros =
     (if \<not> (0 \<le> micros \<and> micros < 86400000000) then Err (l_invalid ''time parameter is outside one day'')
      else
        let seconds = trunc_div micros 1000000 in
        Ok (pad_nat 2 (nat (trunc_div seconds 3600)) @ 0x3A # pad_nat 2 (nat (trunc_rem (trunc_div seconds 60) 60)) @
            0x3A # pad_nat 2 (nat (trunc_rem seconds 60)) @ 0x2E # pad_nat 6 (nat (trunc_rem micros 1000000))))"

definition time32_literal :: "time_unit \<Rightarrow> int \<Rightarrow> (u8 list, literal_error) result" where
  "time32_literal unit v =
     rbind (case unit of Second \<Rightarrow> Ok (v * 1000000) | Millisecond \<Rightarrow> Ok (v * 1000) | _ \<Rightarrow> Err (L_Time32_Unit unit)) (\<lambda>micros.
     rbind (format_time micros) (\<lambda>time. Ok (quoted ''TIME'' time)))"

definition time64_literal :: "time_unit \<Rightarrow> bool \<Rightarrow> int \<Rightarrow> (u8 list, literal_error) result" where
  "time64_literal unit timezone v =
     rbind (case unit of
              Microsecond \<Rightarrow> Ok v
            | Nanosecond \<Rightarrow>
                if trunc_rem v 1000 \<noteq> 0 then Err (l_invalid ''time parameter is not microsecond-aligned'')
                else Ok (trunc_div v 1000)
            | _ \<Rightarrow> Err (L_Time64_Unit unit)) (\<lambda>micros.
     rbind (format_time micros) (\<lambda>time.
       Ok (if timezone then quoted ''TIMETZ'' (time @ ascii ''+00:00'') else quoted ''TIME'' time)))"

definition timestamp_literal :: "'d literal_env \<Rightarrow> time_unit \<Rightarrow> bool \<Rightarrow> int \<Rightarrow> (u8 list, literal_error) result" where
  "timestamp_literal env unit timezone v =
     (let checked = (\<lambda>factor. ok_or (int_try_from 8 (v * factor)) (l_invalid ''timestamp parameter overflows'')) in
      rbind (case unit of
               Second \<Rightarrow> checked 1000000
             | Millisecond \<Rightarrow> checked 1000
             | Microsecond \<Rightarrow> checked 1
             | Nanosecond \<Rightarrow>
                 if trunc_rem v 1000 \<noteq> 0 then Err (l_invalid ''timestamp parameter is not microsecond-aligned'')
                 else Ok (trunc_div v 1000)) (\<lambda>micros.
      rbind (ok_or (le_timestamp_date env micros) (l_invalid ''timestamp parameter is out of range'')) (\<lambda>date.
      rbind (format_time (micros mod 86400000000)) (\<lambda>time.
        Ok (quoted (if timezone then ''TIMESTAMPTZ'' else ''TIMESTAMP'')
              (le_show_date env date @ 0x20 # time @ (if timezone then ascii ''+00:00'' else [])))))))"

definition interval_fraction :: "nat \<Rightarrow> u8 list" where
  "interval_fraction millis = (if millis = 0 then [] else 0x2E # pad_nat 3 millis)"

definition duration_millis :: "time_unit \<Rightarrow> int \<Rightarrow> (int, literal_error) result" where
  "duration_millis unit v =
     (let aligned = (\<lambda>d. if trunc_rem v d \<noteq> 0 then Err (l_invalid ''duration parameter is not millisecond-aligned'') else Ok (trunc_div v d)) in
      case unit of
        Second \<Rightarrow> ok_or (int_try_from 8 (v * 1000)) (l_invalid ''duration parameter overflows'')
      | Millisecond \<Rightarrow> Ok v
      | Microsecond \<Rightarrow> aligned 1000
      | Nanosecond \<Rightarrow> aligned 1000000)"

definition duration_literal :: "time_unit \<Rightarrow> int \<Rightarrow> (u8 list, literal_error) result" where
  "duration_literal unit v =
     rbind (duration_millis unit v) (\<lambda>millis.
       let absolute = nat \<bar>millis\<bar>;
           seconds = absolute div 1000;
           fraction = interval_fraction (absolute mod 1000)
       in Ok (quoted ''INTERVAL'' ((if millis < 0 then [0x2D] else []) @ print_nat seconds @ fraction) @ ascii '' SECOND''))"

definition day_interval_literal :: "time_unit \<Rightarrow> int \<Rightarrow> (u8 list, literal_error) result" where
  "day_interval_literal unit v =
     rbind (duration_millis unit v) (\<lambda>millis.
       let absolute = nat \<bar>millis\<bar>;
           total_seconds = absolute div 1000;
           days = total_seconds div 86400;
           hours = total_seconds div 3600 mod 24;
           minutes = total_seconds div 60 mod 60;
           seconds = total_seconds mod 60;
           fraction = interval_fraction (absolute mod 1000)
       in Ok (quoted ''INTERVAL''
                ((if millis < 0 then [0x2D] else []) @ print_nat days @ 0x20 # pad_nat 2 hours @ 0x3A # pad_nat 2 minutes @
                 0x3A # pad_nat 2 seconds @ fraction) @ ascii '' DAY TO SECOND''))"

subsection \<open>The literal of a value\<close>

definition extension_name :: "arrow_field \<Rightarrow> string option" where
  "extension_name field = f_metadata field extension_key"

text \<open>Reads of a value; a downcast fails when the data is of another kind.\<close>

definition int_at :: "arrow_array \<Rightarrow> nat \<Rightarrow> (int, literal_error) result" where
  "int_at a row = (case a_data a of IntData p \<Rightarrow> Ok (pvalues p ! row) | _ \<Rightarrow> Err (L_Downcast (a_type a) (a_type a)))"
definition float_at :: "arrow_array \<Rightarrow> nat \<Rightarrow> (nat, literal_error) result" where
  "float_at a row = (case a_data a of FloatData p \<Rightarrow> Ok (pvalues p ! row) | _ \<Rightarrow> Err (L_Downcast (a_type a) (a_type a)))"
definition bool_at :: "arrow_array \<Rightarrow> nat \<Rightarrow> (bool, literal_error) result" where
  "bool_at a row = (case a_data a of BoolData p \<Rightarrow> Ok (pvalues p ! row) | _ \<Rightarrow> Err (L_Downcast (a_type a) (a_type a)))"
definition text_at :: "arrow_array \<Rightarrow> nat \<Rightarrow> (u8 list, literal_error) result" where
  "text_at a row = (case a_data a of TextData xs \<Rightarrow> Ok (case xs ! row of None \<Rightarrow> [] | Some v \<Rightarrow> v) | _ \<Rightarrow> Err (L_Downcast (a_type a) (a_type a)))"
definition bytes_at :: "arrow_array \<Rightarrow> nat \<Rightarrow> (u8 list, literal_error) result" where
  "bytes_at a row = (case a_data a of BytesData xs \<Rightarrow> Ok (case xs ! row of None \<Rightarrow> [] | Some v \<Rightarrow> v) | _ \<Rightarrow> Err (L_Downcast (a_type a) (a_type a)))"

definition flat_literal :: "'d literal_env \<Rightarrow> string option \<Rightarrow> arrow_array \<Rightarrow> nat \<Rightarrow> (u8 list, literal_error) result" where
  "flat_literal env extension a row =
     (case a_type a of
        DT_Null \<Rightarrow> Ok (ascii ''NULL'')
      | DT_Boolean \<Rightarrow> rbind (bool_at a row) (\<lambda>b. Ok (if b then ascii ''TRUE'' else ascii ''FALSE''))
      | DT_Int32 \<Rightarrow>
          rbind (int_at a row) (\<lambda>v.
            if extension = Some ''monetdb.interval_month'' then Ok (quoted ''INTERVAL'' (print_int v) @ ascii '' MONTH'')
            else Ok (print_int v))
      | DT_UInt64 \<Rightarrow>
          rbind (int_at a row) (\<lambda>v.
            if extension = Some ''monetdb.oid'' \<and> 2 ^ 63 \<le> v then Err (l_invalid ''OID parameter must be less than 2^63'')
            else Ok (print_int v))
      | DT_Int8 \<Rightarrow> rbind (int_at a row) (\<lambda>v. Ok (print_int v))
      | DT_Int16 \<Rightarrow> rbind (int_at a row) (\<lambda>v. Ok (print_int v))
      | DT_Int64 \<Rightarrow> rbind (int_at a row) (\<lambda>v. Ok (print_int v))
      | DT_UInt8 \<Rightarrow> rbind (int_at a row) (\<lambda>v. Ok (print_int v))
      | DT_UInt16 \<Rightarrow> rbind (int_at a row) (\<lambda>v. Ok (print_int v))
      | DT_UInt32 \<Rightarrow> rbind (int_at a row) (\<lambda>v. Ok (print_int v))
      | DT_Float16 \<Rightarrow> rbind (float_at a row) (\<lambda>v. float_literal (le_half env v))
      | DT_Float32 \<Rightarrow> rbind (float_at a row) (\<lambda>v. float_literal (f64_of_f32 v))
      | DT_Float64 \<Rightarrow> rbind (float_at a row) float_literal
      | DT_Decimal128 precision scale \<Rightarrow> rbind (int_at a row) (\<lambda>v. decimal_literal v scale)
      | DT_Utf8 \<Rightarrow> rbind (text_at a row) quote_string
      | DT_LargeUtf8 \<Rightarrow> rbind (text_at a row) quote_string
      | DT_Utf8View \<Rightarrow> rbind (text_at a row) quote_string
      | DT_Binary \<Rightarrow> rbind (bytes_at a row) (\<lambda>v. Ok (blob_literal v))
      | DT_LargeBinary \<Rightarrow> rbind (bytes_at a row) (\<lambda>v. Ok (blob_literal v))
      | DT_BinaryView \<Rightarrow> rbind (bytes_at a row) (\<lambda>v. Ok (blob_literal v))
      | DT_FixedSizeBinary n \<Rightarrow>
          rbind (bytes_at a row) (\<lambda>v.
            Ok (if n = 16 \<and> extension = Some ''arrow.uuid'' then uuid_literal v else blob_literal v))
      | DT_Date32 \<Rightarrow> rbind (int_at a row) (date_literal env)
      | DT_Date64 \<Rightarrow>
          rbind (int_at a row) (\<lambda>millis.
            if trunc_rem millis 86400000 \<noteq> 0 then Err (l_invalid ''Date64 parameter is not a whole day'')
            else date_literal env (trunc_div millis 86400000))
      | DT_Time32 unit \<Rightarrow> rbind (int_at a row) (time32_literal unit)
      | DT_Time64 unit \<Rightarrow> rbind (int_at a row) (time64_literal unit (extension = Some ''monetdb.timetz''))
      | DT_Timestamp unit timezone \<Rightarrow> rbind (int_at a row) (timestamp_literal env unit (timezone \<noteq> None))
      | DT_Duration unit \<Rightarrow>
          rbind (int_at a row)
            (if extension = Some ''monetdb.interval_day'' then day_interval_literal unit else duration_literal unit)
      | data_type \<Rightarrow> Err (L_Unsupported data_type))"

text \<open>A row past the end of an array panics in the Arrow library.\<close>

fun literal :: "'d literal_env \<Rightarrow> string option \<Rightarrow> parameter_array \<Rightarrow> nat \<Rightarrow> (u8 list, literal_error) result" where
  "literal env extension (Flat a) row =
     (if array_len a \<le> row then Panic
      else if data_is_null (a_data a) row then Ok (ascii ''NULL'')
      else flat_literal env extension a row)"
| "literal env extension (Dictionary_Array key keys vals) row =
     (if length keys \<le> row then Panic
      else if \<not> integer_key key \<and> keys ! row \<noteq> None then Err (L_Key_Type key)
      else case keys ! row of
        None \<Rightarrow> Ok (ascii ''NULL'')
      | Some k \<Rightarrow> if p_len vals \<le> k then Err (L_Key_Bounds k (p_len vals)) else literal env extension vals k)"

definition value_dependent_literal_type :: "arrow_field \<Rightarrow> bool" where
  "value_dependent_literal_type field =
     (case f_data_type field of
        DT_Int32 \<Rightarrow> extension_name field \<noteq> Some ''monetdb.interval_month''
      | DT_Int8 \<Rightarrow> True | DT_Int16 \<Rightarrow> True | DT_Int64 \<Rightarrow> True | DT_UInt8 \<Rightarrow> True | DT_UInt16 \<Rightarrow> True | DT_UInt32 \<Rightarrow> True
      | DT_UInt64 \<Rightarrow> True | DT_Float16 \<Rightarrow> True | DT_Float32 \<Rightarrow> True | DT_Decimal128 _ _ \<Rightarrow> True
      | _ \<Rightarrow> False)"

definition typed_template_literal ::
  "arrow_field \<Rightarrow> parameter_array \<Rightarrow> nat \<Rightarrow> u8 list \<Rightarrow> (u8 list, literal_error) result" where
  "typed_template_literal field a row v =
     (if f_data_type field = DT_Null then Ok v
      else if \<not> (p_is_null a row \<or> value_dependent_literal_type field) then Ok v
      else rbind (map_err L_Sql_Type (sql_type_for_field field)) (\<lambda>data_type.
        Ok (ascii ''CAST('' @ v @ ascii '' AS '' @ ascii data_type @ ascii '')'')))"

definition render_template_arguments ::
  "'d literal_env \<Rightarrow> parameter_batch \<Rightarrow> nat \<Rightarrow> (template_argument list, literal_error) result" where
  "render_template_arguments env batch row =
     (if pb_num_rows batch \<le> row then Err l_row_bounds
      else try_map (\<lambda>(a, field).
        rbind (literal env (extension_name field) a row) (\<lambda>lit.
        rbind (typed_template_literal field a row lit) (\<lambda>typed. Ok \<lparr>ta_literal = lit, ta_typed = typed\<rparr>)))
        (zip (pb_columns batch) (pb_fields batch)))"

definition render_arguments :: "'d literal_env \<Rightarrow> parameter_batch \<Rightarrow> nat \<Rightarrow> (u8 list list, literal_error) result" where
  "render_arguments env batch row =
     (if pb_num_rows batch \<le> row then Err l_row_bounds
      else try_map (\<lambda>(a, field). literal env (extension_name field) a row) (zip (pb_columns batch) (pb_fields batch)))"

datatype row_error = Literal_Error literal_error | Template_Error template_error

definition render_row ::
  "'d literal_env \<Rightarrow> (u8 list list \<Rightarrow> u8 list) \<Rightarrow> query_template \<Rightarrow> parameter_batch \<Rightarrow> nat \<Rightarrow> bool \<Rightarrow> (u8 list, row_error) result" where
  "render_row env pick t batch row bind_by_name =
     rbind (map_err Literal_Error (render_template_arguments env batch row)) (\<lambda>arguments.
       map_err Template_Error
         (render_bound pick t (map (\<lambda>field. ascii (f_name field)) (pb_fields batch)) arguments bind_by_name))"

end
