(* ===== verification/Sql_Inert.thy ===== *)
theory Sql_Inert
  imports Sql_Literal
begin

text \<open>
  Rendered queries lex like their templates. The scan of a template and the scan of the rendered text are run in
  lockstep: between the markers they see the same bytes, and the text put in place of a marker is read as complete
  tokens, none of which is a marker, a semicolon, an open quote or a comment.
\<close>

subsection \<open>Tokens\<close>

text \<open>One step of the scan outside quotes and comments, as a token read and its effect on the state.\<close>

datatype token =
    T_Semicolon
  | T_Space nat
  | T_Comment nat lex_state
  | T_Marker nat bool
  | T_Quote nat lex_state
  | T_Word "u8 list"
  | T_Other nat

fun token_len :: "token \<Rightarrow> nat" where
  "token_len T_Semicolon = 1"
| "token_len (T_Space n) = n"
| "token_len (T_Comment n l) = n"
| "token_len (T_Marker n named) = n"
| "token_len (T_Quote n l) = n"
| "token_len (T_Word w) = length w"
| "token_len (T_Other n) = n"

fun apply_token :: "nat \<Rightarrow> token \<Rightarrow> scan_state \<Rightarrow> scan_state" where
  "apply_token index T_Semicolon st = scan_semicolon index st"
| "apply_token index (T_Space n) st = st"
| "apply_token index (T_Comment n l) st = st\<lparr>ss_lex := l\<rparr>"
| "apply_token index (T_Marker n named) st =
     push_slot index (index + n) (if named then Some (index + 1, index + n) else None) st"
| "apply_token index (T_Quote n l) st = code_token l st"
| "apply_token index (T_Word w) st = scan_word index w st"
| "apply_token index (T_Other n) st = code_token Normal st"

definition named_token :: "(u8 list \<Rightarrow> bool) \<Rightarrow> u8 list \<Rightarrow> (token, adbc_error) result" where
  "named_token alnum rest =
     (let n = identifier_run 2 rest in
      case drop n rest of
        [] \<Rightarrow> Ok (T_Marker n True)
      | b # _ \<Rightarrow>
          if continuation b then Panic
          else if \<not> b < 0x80 \<and> alnum (take (char_len b) (drop n rest)) then Err e_named_ascii
          else Ok (T_Marker n True))"

definition read_token :: "(u8 list \<Rightarrow> bool) \<Rightarrow> bool \<Rightarrow> u8 list \<Rightarrow> (token, adbc_error) result" where
  "read_token alnum colon rest =
     (let current = hd rest; next = get rest 1; third = get rest 2 in
      if current = 0x3B then Ok T_Semicolon
      else if ascii_whitespace current then rbind (next_char rest) (\<lambda>n. Ok (T_Space n))
      else if current = 0x2D \<and> next = Some 0x2D then Ok (T_Comment 2 LineComment)
      else if current = 0x23 then Ok (T_Comment 1 LineComment)
      else if current = 0x2F \<and> next = Some 0x2A then Ok (T_Comment 2 BlockComment)
      else if current = 0x3F then Ok (T_Marker 1 False)
      else if current = 0x3A \<and> (case next of None \<Rightarrow> False | Some b \<Rightarrow> is_identifier_start b) \<and> \<not> colon
        then named_token alnum rest
      else if current \<in> {0x72, 0x52, 0x78, 0x58} \<and> next = Some 0x27 then Ok (T_Quote 2 RawSingleQuote)
      else if current \<in> {0x65, 0x45} \<and> next = Some 0x27 then Ok (T_Quote 2 EscapedSingleQuote)
      else if current \<in> {0x75, 0x55} \<and> next = Some 0x26 \<and> third = Some 0x27 then Ok (T_Quote 3 RawSingleQuote)
      else if current \<in> {0x75, 0x55} \<and> next = Some 0x26 \<and> third = Some 0x22 then Ok (T_Quote 3 DoubleQuote)
      else if current = 0x27 then Ok (T_Quote 1 SingleQuote)
      else if current = 0x22 then Ok (T_Quote 1 DoubleQuote)
      else if is_identifier_start current then Ok (T_Word (take (identifier_run 1 rest) rest))
      else rbind (next_char rest) (\<lambda>n. Ok (T_Other n)))"

lemma identifier_run_le: "k \<le> length rest \<Longrightarrow> identifier_run k rest \<le> length rest"
  using length_takeWhile_le [of is_identifier_continue "drop k rest"] by (simp add: identifier_run_def)

lemma named_token_scan:
  "scan_named alnum rest index st = rbind (named_token alnum rest) (\<lambda>t. Ok (token_len t, apply_token index t st))"
  by (simp add: scan_named_def named_token_def Let_def split: list.split)

lemma scan_normal_token:
  assumes "rest \<noteq> []"
  shows "scan_normal alnum prev rest index st =
    rbind (read_token alnum (prev = Some 0x3A) rest) (\<lambda>t. Ok (token_len t, apply_token index t st))"
proof -
  have "identifier_run 1 rest \<le> length rest" using assms by (intro identifier_run_le) (simp add: Suc_leI)
  then have "length (take (identifier_run 1 rest) rest) = identifier_run 1 rest" by simp
  then show ?thesis
    unfolding scan_normal_def read_token_def Let_def rbind_if rbind_assoc
    by (simp add: named_token_scan del: One_nat_def length_take cong: if_cong)
qed

subsection \<open>What a token depends on\<close>

text \<open>
  \<open>seam x\<close>: the text \<open>x\<close> does not end inside a word, with a minus or with a colon. \<open>calm y\<close>: the text \<open>y\<close> starts with an
  ASCII character that neither closes nor opens a quote or comment after such a text, and not with a line end.
\<close>

definition seam :: "u8 list \<Rightarrow> bool" where
  "seam x \<longleftrightarrow> x = [] \<or> \<not> is_identifier_continue (last x) \<and> last x \<noteq> 0x2D \<and> last x \<noteq> 0x3A"

definition calm :: "u8 list \<Rightarrow> bool" where
  "calm y \<longleftrightarrow> y \<noteq> [] \<and> hd y < 0x80 \<and> hd y \<notin> {0x0A, 0x22, 0x27, 0x2A, 0x2F}"

lemma takeWhile_seam:
  assumes "x \<noteq> []" "\<not> P (last x)"
  shows "takeWhile P (x @ y) = takeWhile P x" "length (takeWhile P x) < length x"
proof -
  have l: "last x \<in> set x" using assms(1) by simp
  with assms(2) show "takeWhile P (x @ y) = takeWhile P x" by (metis takeWhile_append1)
  show "length (takeWhile P x) < length x"
    by (metis assms(2) l length_takeWhile_le nat_less_le set_takeWhileD takeWhile_eq_take take_all_iff)
qed

lemma identifier_run_seam:
  assumes "seam x" "k < length x"
  shows "identifier_run k (x @ y) = identifier_run k x" "identifier_run k x < length x"
proof -
  have d: "drop k x \<noteq> []" "\<not> is_identifier_continue (last (drop k x))"
    using assms by (auto simp: seam_def last_drop)
  show "identifier_run k (x @ y) = identifier_run k x"
    using assms(2) takeWhile_seam(1) [where P = is_identifier_continue, OF d] by (simp add: identifier_run_def)
  show "identifier_run k x < length x" using takeWhile_seam(2) [where P = is_identifier_continue, OF d] by (simp add: identifier_run_def)
qed

lemma get_append: "get (x @ y) k = (if k < length x then get x k else get y (k - length x))"
  by (auto simp: get_def nth_append)

lemma calm_get: "calm y \<Longrightarrow> get y 0 = Some (hd y)"
  by (simp add: calm_def get_def hd_conv_nth)

lemma utf8_step_high:
  assumes "utf8_step bs = (True, n)" "0 < i" "i < n"
  shows "\<not> safe_get bs i < 0x80"
proof -
  have c: "continuation b \<Longrightarrow> \<not> b < 0x80" "second_of_three a b \<Longrightarrow> \<not> b < 0x80" "second_of_four a b \<Longrightarrow> \<not> b < 0x80" for a b
    by (auto simp: continuation_def second_of_three_def second_of_four_def word_le_nat_alt word_less_nat_alt split: if_splits)
  have "n \<le> 4" using assms(1) by (auto simp: utf8_step_def Let_def split: if_splits)
  then have "i = 1 \<or> i = 2 \<or> i = 3" using assms(2,3) by linarith
  then show ?thesis using assms(1,3) by (auto simp: utf8_step_def Let_def dest: c split: if_splits)
qed

lemma utf8_valid_step:
  assumes "utf8_valid bs" "bs \<noteq> []"
  obtains n where "utf8_step bs = (True, n)" "n = char_len (hd bs)" "n \<le> length bs" "\<not> continuation (hd bs)" "utf8_valid (drop n bs)"
proof -
  obtain v n where s: "utf8_step bs = (v, n)" by fastforce
  with assms have "v" "utf8_valid (drop n bs)" by (auto simp: utf8_valid.simps [of bs] split: if_splits)
  with s utf8_step_char_len [OF assms(2)] that show thesis by simp
qed

lemma char_within:
  assumes "utf8_valid (z @ y)" "z \<noteq> []" "calm y"
  shows "char_len (hd z) \<le> length z"
proof (rule ccontr)
  assume n: "\<not> ?thesis"
  obtain n where s: "utf8_step (z @ y) = (True, n)" "n = char_len (hd z)"
    using utf8_valid_step [OF assms(1)] assms(2) by auto
  have "safe_get (z @ y) (length z) = hd y"
    using assms(3) by (simp add: safe_get_def calm_def nth_append hd_conv_nth)
  with utf8_step_high [OF s(1), of "length z"] s(2) n assms(2,3) show False by (simp add: calm_def)
qed

lemma not_continue: "\<not> is_identifier_continue c \<Longrightarrow>
   \<not> is_identifier_start c \<and> c \<notin> {0x72, 0x52, 0x78, 0x58, 0x65, 0x45, 0x75, 0x55}"
  by (auto simp: is_identifier_continue_def is_identifier_start_def)

lemma next_char_append: "x \<noteq> [] \<Longrightarrow> next_char (x @ y) = next_char x"
  by (cases x) (simp_all add: next_char_def)

lemma named_token_seam:
  assumes x: "seam x" "2 < length x" and v: "utf8_valid (x @ y)" "calm y" and c: "hd x = 0x3A" "get x 1 = Some b" "is_identifier_start b"
  shows "named_token alnum (x @ y) = named_token alnum (x @ y')"
proof -
  let ?n = "identifier_run 2 x"
  have n: "identifier_run 2 (x @ z) = ?n" "?n < length x" for z using identifier_run_seam [OF x] by auto
  obtain a d where xs: "x = 0x3A # b # d" using x(2) c by (cases x rule: remdups_adj.cases) (auto simp: get_def)
  have "consumable (x @ y) (identifier_run 2 (x @ y))"
    using v x(2) xs is_identifier_start_ascii [OF c(3)] by (intro identifier_run_consumable) simp_all
  then have "utf8_valid (drop ?n x @ y)" using n by (simp add: consumable_def)
  then have l: "char_len (hd (drop ?n x)) \<le> length (drop ?n x)" using n(2) v(2) by (intro char_within) simp_all
  obtain e es where e: "drop ?n x = e # es" using n(2) by (cases "drop ?n x") auto
  have "char_len e \<le> length (drop ?n x)" using l by (simp add: e)
  then have "take (char_len e) (drop ?n x @ z) = take (char_len e) (drop ?n x)" for z by simp
  then show ?thesis using n e by (simp add: named_token_def Let_def)
qed

lemma read_token_seam:
  assumes x: "x \<noteq> []" "seam x" and y: "utf8_valid (x @ y)" "calm y" "calm y'"
  shows "read_token alnum colon (x @ y) = read_token alnum colon (x @ y')"
proof -
  have h: "hd (x @ z) = hd x" "next_char (x @ z) = next_char x" for z using x(1) by (simp_all add: next_char_append)
  have l: "\<not> is_identifier_continue (last x)" "last x \<noteq> 0x2D" "last x \<noteq> 0x3A" using x by (simp_all add: seam_def)
  consider (one) "length x = 1" | (two) "length x = 2" | (more) "2 < length x"
    using x(1) by (metis One_nat_def Suc_lessI length_greater_0_conv numeral_2_eq_2)
  then show ?thesis
  proof cases
    case one
    then obtain c where c: "x = [c]" by (cases x) auto
    have g: "get (x @ z) 1 = get z 0" for z by (simp add: c get_def)
    have n: "is_identifier_start (hd x) = False" "(hd x = 0x2D \<and> P) = False" "(hd x = 0x3A \<and> P) = False"
      "(hd x \<in> {0x72, 0x52, 0x78, 0x58} \<and> P) = False" "(hd x \<in> {0x65, 0x45} \<and> P) = False" "(hd x \<in> {0x75, 0x55} \<and> P) = False" for P
      using l not_continue [of c] c by simp_all
    have "(get z 0 = Some 0x2A) = False" if "calm z" for z using that by (simp add: calm_get) (simp add: calm_def)
    then have m: "(get y 0 = Some 0x2A) = False" "(get y' 0 = Some 0x2A) = False" using y by simp_all
    show ?thesis unfolding read_token_def Let_def h g n m if_False by (rule refl)
  next
    case two
    then obtain c d where cd: "x = [c, d]" by (cases x rule: remdups_adj.cases) auto
    have g: "get (x @ z) 1 = Some d" "get (x @ z) 2 = get z 0" for z by (simp_all add: cd get_def)
    have "identifier_run 1 (x @ z) = identifier_run 1 x" "identifier_run 1 x < length x" for z
      using identifier_run_seam [OF x(2), of 1] two by auto
    then have w: "take (identifier_run 1 (x @ z)) (x @ z) = take (identifier_run 1 x) x" for z by simp
    have d: "(hd x = 0x3A \<and> (case Some d of None \<Rightarrow> False | Some b \<Rightarrow> is_identifier_start b) \<and> P) = False" for P
      using l not_continue [of d] cd by simp
    have "(get z 0 = Some 0x27) = False" "(get z 0 = Some 0x22) = False" if "calm z" for z
      using that by (simp_all add: calm_get) (simp_all add: calm_def)
    then have m: "(get y 0 = Some 0x27) = False" "(get y' 0 = Some 0x27) = False" "(get y 0 = Some 0x22) = False" "(get y' 0 = Some 0x22) = False"
      using y by simp_all
    show ?thesis unfolding read_token_def Let_def h g w d m if_False by (rule refl)
  next
    case more
    have g: "get (x @ z) 1 = get x 1" "get (x @ z) 2 = get x 2" for z using more by (simp_all add: get_append)
    have "identifier_run 1 (x @ z) = identifier_run 1 x" "identifier_run 1 x < length x" for z
      using identifier_run_seam [OF x(2), of 1] more by auto
    then have w: "take (identifier_run 1 (x @ z)) (x @ z) = take (identifier_run 1 x) x" for z by simp
    show ?thesis
    proof (cases "hd x = 0x3A \<and> (case get x 1 of None \<Rightarrow> False | Some b \<Rightarrow> is_identifier_start b)")
      case True
      then obtain b where "hd x = 0x3A" "get x 1 = Some b" "is_identifier_start b" by (auto split: option.splits)
      from named_token_seam [OF x(2) more y(1,2) this]
      have n: "named_token alnum (x @ y) = named_token alnum (x @ y')" .
      show ?thesis unfolding read_token_def Let_def h g w n by (rule refl)
    next
      case False
      then have n: "(hd x = 0x3A \<and> (case get x 1 of None \<Rightarrow> False | Some b \<Rightarrow> is_identifier_start b) \<and> \<not> colon) = False" by auto
      show ?thesis unfolding read_token_def Let_def h g w n if_False by (rule refl)
    qed
  qed
qed

subsection \<open>States of the same shape\<close>

text \<open>A statement that does not start with \<open>CREATE\<close> has no procedural body.\<close>

definition plain :: "scan_state \<Rightarrow> bool" where
  "plain st \<longleftrightarrow> ps_prefix (ss_procedural st) \<in> {CP_Start, CP_Other} \<and> \<not> ps_active (ss_procedural st)"

definition shape :: "scan_state \<Rightarrow> scan_state \<Rightarrow> bool" where
  "shape st st' \<longleftrightarrow>
     ss_lex st' = ss_lex st \<and> ss_has_code st' = ss_has_code st \<and>
     length (qs_statements (ss_scan st')) = length (qs_statements (ss_scan st)) \<and> qs_slots (ss_scan st') = [] \<and>
     qs_has_data_change (ss_scan st') = qs_has_data_change (ss_scan st) \<and> plain st \<and> plain st' \<and>
     (ps_prefix (ss_procedural st') = CP_Start \<longrightarrow> ps_prefix (ss_procedural st) = CP_Start)"

lemma shape_lex: "shape st st' \<Longrightarrow> shape (st\<lparr>ss_lex := l\<rparr>) (st'\<lparr>ss_lex := l\<rparr>)"
  by (simp add: shape_def plain_def)

lemma shape_code_token: "shape st st' \<Longrightarrow> shape (code_token l st) (code_token l st')"
  by (simp add: shape_def plain_def code_token_def)

lemma plain_semicolon: "plain st \<Longrightarrow> semicolon_is_internal (ss_procedural st) = (False, ss_procedural st)"
  by (simp add: plain_def semicolon_is_internal_def)

lemma shape_semicolon: "shape st st' \<Longrightarrow> shape (scan_semicolon i st) (scan_semicolon i' st')"
proof -
  assume s: "shape st st'"
  then have "plain st" "plain st'" by (simp_all add: shape_def)
  with s show ?thesis by (simp add: scan_semicolon_def plain_semicolon Let_def shape_def) (simp add: plain_def procedural_new_def)
qed

definition create_word :: "u8 list \<Rightarrow> bool" where
  "create_word w \<longleftrightarrow> eq_ignore_ascii_case w ''create''"

lemma next_prefix_plain:
  "next_prefix CP_Start w = (if create_word w then CP_Create else CP_Other)" "next_prefix CP_Other w = CP_Other"
  unfolding next_prefix_def create_word_def create_prefix.case by (rule refl)+

lemma procedural_scan_word:
  assumes "plain st"
  shows "ss_procedural (scan_word i w st) = (ss_procedural st)\<lparr>ps_prefix := next_prefix (ps_prefix (ss_procedural st)) w\<rparr>"
proof -
  have "next_prefix (ps_prefix (ss_procedural st)) w \<noteq> CP_Procedural" "\<not> ps_active (ss_procedural st)"
    using assms by (auto simp: plain_def next_prefix_plain split: if_splits)
  then show ?thesis by (simp add: scan_word_def Let_def observe_word_def)
qed

lemma plain_word:
  "plain st \<Longrightarrow> plain (scan_word i w st) \<longleftrightarrow> ps_prefix (ss_procedural st) = CP_Other \<or> \<not> create_word w"
  by (simp add: plain_def [of "scan_word i w st"] procedural_scan_word) (auto simp: plain_def next_prefix_plain split: if_splits)

lemma plain_word_prefix:
  assumes "plain st" "plain (scan_word i w st)"
  shows "ps_prefix (ss_procedural (scan_word i w st)) = CP_Other"
  using assms(1) assms(2) [unfolded plain_word [OF assms(1)]]
  by (auto simp: procedural_scan_word next_prefix_plain plain_def split: if_splits)

lemma shape_word:
  assumes s: "shape st st'" and p: "plain (scan_word i w st)"
  shows "shape (scan_word i w st) (scan_word i' w st')"
proof -
  have pl: "plain st" "plain st'" using s by (simp_all add: shape_def)
  have "ps_prefix (ss_procedural st') = CP_Other \<or> \<not> create_word w"
    using s p plain_word [OF pl(1)] pl(2) by (force simp: shape_def plain_def)
  then have p': "plain (scan_word i' w st')" using pl by (simp add: plain_word)
  have "ps_prefix (ss_procedural (scan_word i' w st')) = CP_Other" using plain_word_prefix [OF pl(2) p'] .
  with s p p' show ?thesis by (simp add: shape_def) (simp add: scan_word_def Let_def)
qed

lemma shape_token:
  assumes "shape st st'" "plain (apply_token i t st)" "qs_slots (ss_scan (apply_token i t st)) = qs_slots (ss_scan st)"
  shows "shape (apply_token i t st) (apply_token i' t st')"
  using assms
  by (cases t) (simp_all add: shape_lex shape_code_token shape_semicolon shape_word push_slot_def Let_def)

lemma close_quote_seam:
  assumes "x \<noteq> []" "calm y" "calm y'" "d \<in> {0x22, 0x27}" "shape st st'"
  shows "fst (close_quote d (x @ y') n st') = fst (close_quote d (x @ y) n st) \<and>
    shape (snd (close_quote d (x @ y) n st)) (snd (close_quote d (x @ y') n st'))"
proof -
  have "get (x @ y) 1 = Some d \<longleftrightarrow> get (x @ y') 1 = Some d"
  proof (cases "length x = 1")
    case True
    then show ?thesis using assms(2-4) by (simp add: get_append calm_get) (auto simp: calm_def)
  next
    case False
    with assms(1) have "1 < length x" by (metis One_nat_def length_greater_0_conv nat_neq_iff less_one)
    then show ?thesis by (simp add: get_append)
  qed
  with assms(1,5) show ?thesis by (simp add: close_quote_def shape_lex)
qed

lemma scan_step_seam:
  assumes x: "x \<noteq> []" "seam x" and y: "utf8_valid (x @ y)" "calm y" "calm y'" and s: "shape st st'"
    and c: "prev = Some 0x3A \<longleftrightarrow> prev' = Some 0x3A"
    and r: "scan_step alnum prev (x @ y) i st = Ok (n, st2)" and n: "n \<le> length x"
    and p: "plain st2" "qs_slots (ss_scan st2) = qs_slots (ss_scan st)"
  shows "\<exists>st2'. scan_step alnum prev' (x @ y') i' st' = Ok (n, st2') \<and> shape st2 st2'"
proof -
  have h: "hd (x @ z) = hd x" "next_char (x @ z) = next_char x" "x @ z \<noteq> []" for z using x(1) by (simp_all add: next_char_append)
  have l: "ss_lex st' = ss_lex st" using s by (simp add: shape_def)
  have g: "get (x @ y) 1 = Some b \<longleftrightarrow> get (x @ y') 1 = Some b" if "b \<in> {0x22, 0x27, 0x2A, 0x2F}" for b
  proof (cases "length x = 1")
    case True
    then show ?thesis using y(2,3) that by (simp add: get_append calm_get) (auto simp: calm_def)
  next
    case False
    with x(1) have "1 < length x" by (metis One_nat_def length_greater_0_conv nat_neq_iff less_one)
    then show ?thesis by (simp add: get_append)
  qed
  show ?thesis
  proof (cases "ss_lex st")
    case Normal
    with r obtain t where t: "read_token alnum (prev = Some 0x3A) (x @ y) = Ok t" "n = token_len t" "st2 = apply_token i t st"
      by (auto simp: scan_step_def scan_normal_token x(1) rbind_Ok_iff)
    then have "read_token alnum (prev' = Some 0x3A) (x @ y') = Ok t" using read_token_seam [OF x y] c by simp
    with t Normal l p shape_token [OF s] show ?thesis by (simp add: scan_step_def scan_normal_token x(1))
  next
    case SingleQuote
    with r close_quote_seam [where d = "0x27", OF x(1) y(2,3) _ s] l g [of "0x27"] show ?thesis
      by (auto simp: scan_step_def h rbind_Ok_iff prod_eq_iff split: if_splits)
  next
    case EscapedSingleQuote
    from r EscapedSingleQuote obtain a where a: "next_char x = Ok a" by (auto simp: scan_step_def h rbind_Ok_iff)
    show ?thesis
    proof (cases "hd x = 0x5C")
      case True
      with a have a1: "a = 1" by (simp add: next_char_Ok char_len_def)
      have lt: "1 < length (x @ y)" "1 < length (x @ y')" using x(1) y(2,3) by (cases x; auto simp: calm_def neq_Nil_conv)+
      with r True EscapedSingleQuote a a1 obtain m where m: "next_char (drop 1 (x @ y)) = Ok m" "n = 1 + m" "st2 = st"
        by (auto simp: scan_step_def h rbind_Ok_iff)
      with n have "1 < length x" using next_char_pos [OF m(1)] by simp
      then have "next_char (drop 1 (x @ y')) = next_char (drop 1 (x @ y))" by (simp add: next_char_append)
      with m lt True EscapedSingleQuote l a a1 s show ?thesis by (simp add: scan_step_def h)
    next
      case False
      with r EscapedSingleQuote l a close_quote_seam [where d = "0x27", OF x(1) y(2,3) _ s] show ?thesis
        by (auto simp: scan_step_def h prod_eq_iff)
    qed
  next
    case RawSingleQuote
    with r close_quote_seam [where d = "0x27", OF x(1) y(2,3) _ s] l show ?thesis
      by (auto simp: scan_step_def h rbind_Ok_iff prod_eq_iff)
  next
    case DoubleQuote
    with r close_quote_seam [where d = "0x22", OF x(1) y(2,3) _ s] l show ?thesis
      by (auto simp: scan_step_def h rbind_Ok_iff prod_eq_iff)
  next
    case LineComment
    with r l s shape_lex [OF s] show ?thesis by (auto simp: scan_step_def h rbind_Ok_iff split: if_splits)
  next
    case BlockComment
    with r l s shape_lex [OF s] g [of "0x2F"] show ?thesis by (auto simp: scan_step_def h rbind_Ok_iff split: if_splits)
  qed
qed

subsection \<open>Texts of complete tokens\<close>

datatype atom = A_Word "u8 list" | A_Plain u8 | A_Quoted "u8 list" | A_Raw "u8 list" | A_Ident "u8 list"

fun atom_text :: "atom \<Rightarrow> u8 list" where
  "atom_text (A_Word w) = w"
| "atom_text (A_Plain c) = [c]"
| "atom_text (A_Quoted b) = 0x27 # b @ [0x27]"
| "atom_text (A_Raw b) = quote_raw_string b"
| "atom_text (A_Ident b) = 0x22 # b @ [0x22]"

fun atom_ok :: "atom \<Rightarrow> bool" where
  "atom_ok (A_Word w) = (w \<noteq> [] \<and> is_identifier_start (hd w) \<and> list_all is_identifier_continue w \<and> \<not> create_word w \<and> \<not> is_data_change w)"
| "atom_ok (A_Plain c) = (is_digit c \<or> c \<in> {0x0A, 0x20, 0x28, 0x29, 0x2A, 0x2B, 0x2C, 0x2D, 0x2E, 0x3D})"
| "atom_ok (A_Quoted b) = list_all (\<lambda>c. c < 0x80 \<and> c \<noteq> 0x27 \<and> c \<noteq> 0x5C) b"
| "atom_ok (A_Raw b) = utf8_valid b"
| "atom_ok (A_Ident b) = list_all is_identifier_continue b"

text \<open>What may come after a token for it to end there.\<close>

fun follow :: "atom \<Rightarrow> u8 list \<Rightarrow> bool" where
  "follow (A_Word w) z = (z = [] \<or> \<not> is_identifier_continue (hd z) \<and> hd z \<noteq> 0x27 \<and> (length w = 1 \<longrightarrow> hd z \<noteq> 0x26))"
| "follow (A_Plain c) z = (c = 0x2D \<longrightarrow> z = [] \<or> hd z \<noteq> 0x2D)"
| "follow (A_Quoted b) z = (z = [] \<or> hd z \<noteq> 0x27)"
| "follow (A_Raw b) z = (z = [] \<or> hd z \<noteq> 0x27)"
| "follow (A_Ident b) z = (z = [] \<or> hd z \<noteq> 0x22)"

definition blank :: "atom \<Rightarrow> bool" where
  "blank a \<longleftrightarrow> a = A_Plain 0x20 \<or> a = A_Plain 0x0A"

definition passes :: "scan_state \<Rightarrow> scan_state \<Rightarrow> bool" where
  "passes st st' \<longleftrightarrow>
     ss_lex st' = Normal \<and> qs_statements (ss_scan st') = qs_statements (ss_scan st) \<and>
     qs_slots (ss_scan st') = qs_slots (ss_scan st) \<and> qs_has_data_change (ss_scan st') = qs_has_data_change (ss_scan st) \<and>
     plain st' \<and> (ps_prefix (ss_procedural st') = CP_Start \<longrightarrow> ps_prefix (ss_procedural st) = CP_Start) \<and>
     (ss_has_code st \<longrightarrow> ss_has_code st')"

lemma passes_trans: "passes a b \<Longrightarrow> passes b c \<Longrightarrow> passes a c"
  by (auto simp: passes_def)

lemma scan_loop_step:
  "rest \<noteq> [] \<Longrightarrow> scan_step alnum prev rest i st = Ok (n, st') \<Longrightarrow>
   scan_loop alnum prev rest i st = scan_loop alnum (get rest (n - 1)) (drop n rest) (i + n) st'"
  by (simp add: scan_loop.simps [of alnum prev rest])

lemma ascii_step: "c < 0x80 \<Longrightarrow> next_char (c # z) = Ok 1"
  by (simp add: next_char_def char_len_def) (simp add: continuation_def word_le_nat_alt word_less_nat_alt)

lemma single_quote_body:
  "ss_lex st = SingleQuote \<Longrightarrow> list_all (\<lambda>c. c < 0x80 \<and> c \<noteq> 0x27 \<and> c \<noteq> 0x5C) b \<Longrightarrow> z = [] \<or> hd z \<noteq> 0x27 \<Longrightarrow>
   scan_loop alnum prev (b @ 0x27 # z) i st = scan_loop alnum (Some 0x27) z (i + length b + 1) (st\<lparr>ss_lex := Normal\<rparr>)"
proof (induction b arbitrary: prev i)
  case Nil
  have "get (0x27 # z) 1 \<noteq> Some 0x27" using Nil.prems(3) by (cases z) (auto simp: get_def)
  then have "scan_step alnum prev (0x27 # z) i st = Ok (1, st\<lparr>ss_lex := Normal\<rparr>)"
    using Nil.prems(1) by (simp add: scan_step_def ascii_step close_quote_def)
  from scan_loop_step [OF _ this] show ?case by (simp add: get_def)
next
  case (Cons c b)
  have "scan_step alnum prev (c # b @ 0x27 # z) i st = Ok (1, st)"
    using Cons.prems by (simp add: scan_step_def ascii_step close_quote_def)
  from scan_loop_step [OF _ this] Cons.IH [of "Some c" "i + 1"] Cons.prems show ?case by (simp add: get_def)
qed

lemma identifier_body:
  "ss_lex st = DoubleQuote \<Longrightarrow> list_all is_identifier_continue b \<Longrightarrow> z = [] \<or> hd z \<noteq> 0x22 \<Longrightarrow>
   scan_loop alnum prev (b @ 0x22 # z) i st = scan_loop alnum (Some 0x22) z (i + length b + 1) (st\<lparr>ss_lex := Normal\<rparr>)"
proof (induction b arbitrary: prev i)
  case Nil
  have "get (0x22 # z) 1 \<noteq> Some 0x22" using Nil.prems(3) by (cases z) (auto simp: get_def)
  then have "scan_step alnum prev (0x22 # z) i st = Ok (1, st\<lparr>ss_lex := Normal\<rparr>)"
    using Nil.prems(1) by (simp add: scan_step_def ascii_step close_quote_def)
  from scan_loop_step [OF _ this] show ?case by (simp add: get_def)
next
  case (Cons c b)
  have c: "c < 0x80" "c \<noteq> 0x22"
    using Cons.prems(2)
    by (auto simp: is_identifier_continue_def is_identifier_start_def is_digit_def word_le_nat_alt word_less_nat_alt)
  have "scan_step alnum prev (c # b @ 0x22 # z) i st = Ok (1, st)"
    using Cons.prems c by (simp add: scan_step_def ascii_step close_quote_def)
  from scan_loop_step [OF _ this] Cons.IH [of "Some c" "i + 1"] Cons.prems show ?case by (simp add: get_def)
qed

lemma double_quotes_append: "double_quotes (a @ b) = double_quotes a @ double_quotes b"
  by (simp add: double_quotes_def)

lemma double_quotes_id: "0x27 \<notin> set a \<Longrightarrow> double_quotes a = a"
  by (induction a) (auto simp: double_quotes_def)

lemma raw_quote_body:
  "ss_lex st = RawSingleQuote \<Longrightarrow> utf8_valid b \<Longrightarrow> z = [] \<or> hd z \<noteq> 0x27 \<Longrightarrow>
   scan_loop alnum prev (double_quotes b @ 0x27 # z) i st =
     scan_loop alnum (Some 0x27) z (i + length (double_quotes b) + 1) (st\<lparr>ss_lex := Normal\<rparr>)"
proof (induction "length b" arbitrary: b prev i rule: less_induct)
  case less
  show ?case
  proof (cases b)
    case Nil
    have "get (0x27 # z) 1 \<noteq> Some 0x27" using less.prems(3) by (cases z) (auto simp: get_def)
    then have "scan_step alnum prev (0x27 # z) i st = Ok (1, st\<lparr>ss_lex := Normal\<rparr>)"
      using less.prems(1) by (simp add: scan_step_def ascii_step close_quote_def)
    from scan_loop_step [OF _ this] Nil show ?thesis by (simp add: get_def double_quotes_def)
  next
    case (Cons c cs)
    obtain n where s: "utf8_step b = (True, n)" "utf8_valid (drop n b)"
      and n: "n = char_len c" "n \<le> length b" "\<not> continuation c" "0 < n"
      using utf8_valid_step [OF less.prems(2)] Cons by auto
    have "length (drop n b) < length b" using n(2,4) by simp
    note IH = less.hyps [OF this less.prems(1) s(2) less.prems(3)]
    show ?thesis
    proof (cases "c = 0x27")
      case True
      then have dr: "drop n b = cs" using n Cons by (simp add: char_len_def)
      have d: "double_quotes b = 0x27 # 0x27 # double_quotes cs" using Cons True by (simp add: double_quotes_def)
      have "scan_step alnum prev (double_quotes b @ 0x27 # z) i st = Ok (2, st)"
        using less.prems(1) by (simp add: d scan_step_def ascii_step close_quote_def get_def)
      from scan_loop_step [OF _ this] IH [unfolded dr] show ?thesis by (simp add: d get_def)
    next
      case False
      have "0x27 \<notin> set (take n b)"
      proof
        assume "0x27 \<in> set (take n b)"
        then obtain k where k: "k < n" "b ! k = 0x27" using n(2) by (auto simp: in_set_conv_nth)
        then show False using False Cons n(2) utf8_step_high [OF s(1), of k] by (cases k) (auto simp: safe_get_def)
      qed
      then have d: "double_quotes b = take n b @ double_quotes (drop n b)"
        by (metis append_take_drop_id double_quotes_append double_quotes_id)
      have h: "take n b = c # take (n - 1) cs" using Cons n(4) by (cases n) auto
      have "scan_step alnum prev (double_quotes b @ 0x27 # z) i st = Ok (n, st)"
        unfolding d h using less.prems(1) False n(1,3) by (simp add: scan_step_def close_quote_def next_char_def)
      from scan_loop_step [OF _ this] IH n(2) show ?thesis by (simp add: d add.assoc)
    qed
  qed
qed

lemma word_token:
  assumes "atom_ok (A_Word w)" "follow (A_Word w) z"
  shows "read_token alnum colon (w @ z) = Ok (T_Word w)"
proof -
  obtain c cs where w: "w = c # cs" using assms(1) by (cases w) auto
  have c: "is_identifier_start c" using assms(1) w by simp
  then have n: "(c = 0x3B) = False" "ascii_whitespace c = False" "(c = 0x2D \<and> P) = False" "(c = 0x23) = False" "(c = 0x2F \<and> P) = False"
    "(c = 0x3F) = False" "(c = 0x3A \<and> P) = False" "(c = 0x27) = False" "(c = 0x22) = False" "is_identifier_start c = True" for P
    by (auto simp: is_identifier_start_def ascii_whitespace_def word_le_nat_alt)
  have q: "\<not> is_identifier_continue 0x27" "\<not> is_identifier_continue 0x26"
    by (simp_all add: is_identifier_continue_def is_identifier_start_def is_digit_def)
  have g: "(get (w @ z) 1 = Some 0x27) = False" "(get (w @ z) 1 = Some 0x26) = False"
    using assms w q by (cases cs; cases z; simp add: get_def; blast)+
  have "takeWhile is_identifier_continue (cs @ z) = cs"
    using assms w by (cases z) (auto simp: list_all_iff takeWhile_append)
  then have r: "take (identifier_run 1 (w @ z)) (w @ z) = w" by (simp add: identifier_run_def w)
  have h: "hd (w @ z) = c" by (simp add: w)
  show ?thesis unfolding read_token_def Let_def h n g r by simp
qed

lemma plain_token:
  assumes "atom_ok (A_Plain c)" "follow (A_Plain c) z"
  shows "read_token alnum colon (c # z) = Ok (if ascii_whitespace c then T_Space 1 else T_Other 1)"
proof (cases "is_digit c")
  case True
  then have "c \<notin> {0x3B, 0x2D, 0x23, 0x2F, 0x3F, 0x3A, 0x72, 0x52, 0x78, 0x58, 0x65, 0x45, 0x75, 0x55, 0x27, 0x22, 0x20}"
    "\<not> ascii_whitespace c" "\<not> is_identifier_start c" "c < 0x80"
    by (auto simp: is_digit_def is_identifier_start_def ascii_whitespace_def word_le_nat_alt word_less_nat_alt)
  then show ?thesis by (simp add: read_token_def Let_def ascii_step)
next
  case False
  with assms consider "c = 0x20" | "c = 0x28" | "c = 0x29" | "c = 0x2B" | "c = 0x2C" | "c = 0x2D" "z = [] \<or> hd z \<noteq> 0x2D" | "c = 0x2E"
      | "c = 0x2A" | "c = 0x3D" | "c = 0x0A"
    by auto
  then show ?thesis
  proof cases
    case 6
    then have "get (c # z) 1 \<noteq> Some 0x2D" by (cases z) (auto simp: get_def)
    with 6 show ?thesis by (simp add: read_token_def Let_def ascii_step is_identifier_start_def ascii_whitespace_def)
  qed (simp_all add: read_token_def Let_def ascii_step is_identifier_start_def ascii_whitespace_def)
qed

lemma scan_loop_token:
  "ss_lex st = Normal \<Longrightarrow> rest \<noteq> [] \<Longrightarrow> read_token alnum (prev = Some 0x3A) rest = Ok t \<Longrightarrow>
   scan_loop alnum prev rest i st =
     scan_loop alnum (get rest (token_len t - 1)) (drop (token_len t) rest) (i + token_len t) (apply_token i t st)"
  by (rule scan_loop_step) (simp_all add: scan_step_def scan_normal_token)

lemma passes_refl: "ss_lex st = Normal \<Longrightarrow> plain st \<Longrightarrow> passes st st"
  by (simp add: passes_def)

lemma passes_code: "plain st \<Longrightarrow> passes st ((code_token l st)\<lparr>ss_lex := Normal\<rparr>)"
  by (simp add: passes_def code_token_def plain_def)

lemma passes_word:
  assumes "ss_lex st = Normal" "plain st" "\<not> create_word w" "\<not> is_data_change w"
  shows "passes st (scan_word i w st)"
proof -
  have p: "plain (scan_word i w st)" using assms by (simp add: plain_word)
  have "ps_prefix (ss_procedural (scan_word i w st)) = CP_Other" using plain_word_prefix [OF assms(2) p] .
  with p assms show ?thesis by (simp add: passes_def) (simp add: scan_word_def Let_def)
qed

lemma atom_scan:
  assumes "atom_ok a" "follow a z" "ss_lex st = Normal" "plain st"
  shows "\<exists>st'. scan_loop alnum prev (atom_text a @ z) i st =
      scan_loop alnum (Some (last (atom_text a))) z (i + length (atom_text a)) st' \<and>
    passes st st' \<and> (\<not> blank a \<longrightarrow> ss_has_code st')"
proof (cases a)
  case (A_Word w)
  then have w: "w \<noteq> []" "\<not> create_word w" "\<not> is_data_change w" using assms(1) by auto
  have "get (w @ z) (length w - 1) = Some (last w)" using w(1) by (cases w rule: rev_cases) (simp_all add: get_def nth_append)
  with scan_loop_token [OF assms(3) _ word_token [of w z alnum "prev = Some 0x3A"], of i] assms w A_Word
  have "scan_loop alnum prev (atom_text a @ z) i st = scan_loop alnum (Some (last (atom_text a))) z (i + length (atom_text a)) (scan_word i w st)"
    by simp
  moreover have "ss_has_code (scan_word i w st)" by (simp add: scan_word_def Let_def)
  ultimately show ?thesis using passes_word [OF assms(3,4) w(2,3)] by blast
next
  case (A_Plain c)
  have "scan_loop alnum prev (c # z) i st = scan_loop alnum (Some c) z (i + 1) (if ascii_whitespace c then st else code_token Normal st)"
    using scan_loop_token [OF assms(3) _ plain_token [of c z alnum "prev = Some 0x3A"], of i] assms(1,2) A_Plain
    by (simp add: get_def)
  moreover have "passes st (if ascii_whitespace c then st else code_token Normal st)"
    using passes_refl [OF assms(3,4)] passes_code [OF assms(4), of Normal] by (simp add: code_token_def)
  moreover have "ascii_whitespace c \<Longrightarrow> blank a"
    using assms(1) A_Plain by (auto simp: blank_def ascii_whitespace_def is_digit_def)
  ultimately show ?thesis using A_Plain by (auto simp: code_token_def)
next
  case (A_Quoted b)
  have "read_token alnum (prev = Some 0x3A) (0x27 # b @ 0x27 # z) = Ok (T_Quote 1 SingleQuote)"
    by (simp add: read_token_def ascii_whitespace_def)
  from scan_loop_token [OF assms(3) _ this, of i]
  have "scan_loop alnum prev (0x27 # b @ 0x27 # z) i st = scan_loop alnum (Some 0x27) (b @ 0x27 # z) (i + 1) (code_token SingleQuote st)"
    by (simp add: get_def)
  also have "\<dots> = scan_loop alnum (Some 0x27) z (i + 1 + length b + 1) ((code_token SingleQuote st)\<lparr>ss_lex := Normal\<rparr>)"
    using assms(1,2) A_Quoted by (intro single_quote_body) (simp_all add: code_token_def)
  finally show ?thesis using A_Quoted passes_code [OF assms(4), of SingleQuote] by (auto simp: code_token_def)
next
  case (A_Raw b)
  have "read_token alnum (prev = Some 0x3A) (0x52 # 0x27 # double_quotes b @ 0x27 # z) = Ok (T_Quote 2 RawSingleQuote)"
    by (simp add: read_token_def ascii_whitespace_def get_def)
  from scan_loop_token [OF assms(3) _ this, of i]
  have "scan_loop alnum prev (0x52 # 0x27 # double_quotes b @ 0x27 # z) i st =
      scan_loop alnum (Some 0x27) (double_quotes b @ 0x27 # z) (i + 2) (code_token RawSingleQuote st)"
    by (simp add: get_def)
  also have "\<dots> = scan_loop alnum (Some 0x27) z (i + 2 + length (double_quotes b) + 1) ((code_token RawSingleQuote st)\<lparr>ss_lex := Normal\<rparr>)"
    using assms(1,2) A_Raw by (intro raw_quote_body) (simp_all add: code_token_def)
  finally show ?thesis using A_Raw passes_code [OF assms(4), of RawSingleQuote]
    by (auto simp: code_token_def quote_raw_string_def)
next
  case (A_Ident b)
  have "read_token alnum (prev = Some 0x3A) (0x22 # b @ 0x22 # z) = Ok (T_Quote 1 DoubleQuote)"
    by (simp add: read_token_def ascii_whitespace_def is_identifier_start_def)
  from scan_loop_token [OF assms(3) _ this, of i]
  have "scan_loop alnum prev (0x22 # b @ 0x22 # z) i st = scan_loop alnum (Some 0x22) (b @ 0x22 # z) (i + 1) (code_token DoubleQuote st)"
    by (simp add: get_def)
  also have "\<dots> = scan_loop alnum (Some 0x22) z (i + 1 + length b + 1) ((code_token DoubleQuote st)\<lparr>ss_lex := Normal\<rparr>)"
    using assms(1,2) A_Ident by (intro identifier_body) (simp_all add: code_token_def)
  finally show ?thesis using A_Ident passes_code [OF assms(4), of DoubleQuote] by (auto simp: code_token_def)
qed

text \<open>A text of tokens that end where the next one starts.\<close>

definition atoms_text :: "atom list \<Rightarrow> u8 list" where
  "atoms_text as = concat (map atom_text as)"

fun linked :: "atom list \<Rightarrow> u8 list \<Rightarrow> bool" where
  "linked [] z = True"
| "linked (a # as) z = (atom_ok a \<and> follow a (atoms_text as @ z) \<and> linked as z)"

lemma linked_append: "linked (as @ bs) z \<longleftrightarrow> linked as (atoms_text bs @ z) \<and> linked bs z"
  by (induction as) (auto simp: atoms_text_def)

lemma atom_text_nonempty: "atom_ok a \<Longrightarrow> atom_text a \<noteq> []"
  by (cases a) (auto simp: quote_raw_string_def)

lemma linked_scan:
  assumes "linked as z" "as \<noteq> []" "ss_lex st = Normal" "plain st"
  shows "\<exists>st'. scan_loop alnum prev (atoms_text as @ z) i st =
      scan_loop alnum (Some (last (atoms_text as))) z (i + length (atoms_text as)) st' \<and>
    passes st st' \<and> (\<not> list_all blank as \<longrightarrow> ss_has_code st')"
  using assms
proof (induction as arbitrary: prev i st)
  case (Cons a as)
  then have "atom_ok a" "follow a (atoms_text as @ z)" by simp_all
  from atom_scan [OF this Cons.prems(3,4), of alnum prev i] obtain st1 where
    a: "scan_loop alnum prev (atom_text a @ atoms_text as @ z) i st =
      scan_loop alnum (Some (last (atom_text a))) (atoms_text as @ z) (i + length (atom_text a)) st1"
      "passes st st1" "\<not> blank a \<longrightarrow> ss_has_code st1" by blast
  have t: "atoms_text (a # as) = atom_text a @ atoms_text as" by (simp add: atoms_text_def)
  show ?case
  proof (cases "as = []")
    case True
    with a t show ?thesis by (auto simp: atoms_text_def)
  next
    case False
    from a(2) have "ss_lex st1 = Normal" "plain st1" by (auto simp: passes_def)
    from Cons.IH [OF _ False this, of "Some (last (atom_text a))" "i + length (atom_text a)"] Cons.prems(1) obtain st2 where
      b: "scan_loop alnum (Some (last (atom_text a))) (atoms_text as @ z) (i + length (atom_text a)) st1 =
        scan_loop alnum (Some (last (atoms_text as))) z (i + length (atom_text a) + length (atoms_text as)) st2"
        "passes st1 st2" "\<not> list_all blank as \<longrightarrow> ss_has_code st2" by auto
    have "atoms_text as \<noteq> []"
      using False Cons.prems(1) atom_text_nonempty by (cases as) (auto simp: atoms_text_def)
    moreover have "\<not> list_all blank (a # as) \<longrightarrow> ss_has_code st2"
      using a(3) b(2,3) by (auto simp: passes_def)
    ultimately show ?thesis using a b t passes_trans [OF a(2) b(2)] by (auto simp: add.assoc)
  qed
qed simp

end
