(* ===== verification/Sql_Lockstep.thy ===== *)
theory Sql_Lockstep
  imports Sql_Inert
begin

text \<open>
  The scan of a template and the scan of its rendering in lockstep: between two markers both read the same tokens
  (\<open>segment_lockstep\<close>), at a marker one pushes a slot and the other reads the tokens of the text put there
  (\<open>template_lockstep\<close>). The result is \<open>rendered_scan\<close>.
\<close>

subsection \<open>What the steps keep\<close>

lemma scan_step_token:
  assumes "ss_lex st = Normal" "rest \<noteq> []" "scan_step alnum prev rest i st = Ok (n, st1)"
  obtains t where "read_token alnum (prev = Some 0x3A) rest = Ok t" "n = token_len t" "st1 = apply_token i t st"
  using assms by (auto simp: scan_step_def scan_normal_token rbind_Ok_iff)

lemma scan_step_inside:
  assumes "ss_lex st \<noteq> Normal" "scan_step alnum prev rest i st = Ok (n, st1)"
  shows "st1 = st \<or> st1 = st\<lparr>ss_lex := Normal\<rparr>"
  using assms by (cases "ss_lex st") (auto simp: scan_step_def close_quote_def rbind_Ok_iff split: if_splits)

lemma scan_semicolon_keeps:
  "qs_slots (ss_scan (scan_semicolon i st)) = qs_slots (ss_scan st)"
  "qs_first_keyword (ss_scan (scan_semicolon i st)) = qs_first_keyword (ss_scan st)"
  by (simp_all add: scan_semicolon_def semicolon_is_internal_def Let_def)

lemma scan_word_keeps:
  "qs_slots (ss_scan (scan_word i w st)) = qs_slots (ss_scan st)"
  "qs_statements (ss_scan (scan_word i w st)) = qs_statements (ss_scan st)" "ss_has_code (scan_word i w st)"
  "qs_first_keyword (ss_scan (scan_word i w st)) =
     (case qs_first_keyword (ss_scan st) of None \<Rightarrow> Some (i, i + length w) | Some k \<Rightarrow> Some k)"
  by (simp_all add: scan_word_def Let_def)

lemma token_slots: "qs_slots (ss_scan (apply_token i t st)) = qs_slots (ss_scan st) \<or> (\<exists>n named. t = T_Marker n named)"
  by (cases t) (simp_all add: scan_semicolon_keeps scan_word_keeps code_token_def)

lemma scan_step_slots:
  assumes "rest \<noteq> []" "scan_step alnum prev rest i st = Ok (n, st1)"
  shows "qs_slots (ss_scan st1) = qs_slots (ss_scan st) \<or>
    (\<exists>named. ss_lex st = Normal \<and> read_token alnum (prev = Some 0x3A) rest = Ok (T_Marker n named) \<and>
       st1 = apply_token i (T_Marker n named) st)"
proof (cases "ss_lex st = Normal")
  case True
  from scan_step_token [OF this assms] obtain t where
    t: "read_token alnum (prev = Some 0x3A) rest = Ok t" "n = token_len t" "st1 = apply_token i t st" .
  from token_slots [of i t st] show ?thesis
  proof
    assume "\<exists>n named. t = T_Marker n named"
    with t True show ?thesis by (metis token_len.simps(4))
  qed (use t in blast)
next
  case False
  from scan_step_inside [OF this assms(2)] show ?thesis by (elim disjE) simp_all
qed

lemma scan_loop_Ok:
  assumes "scan_loop alnum prev rest i st = Ok fin" "rest \<noteq> []"
  obtains n st1 where "scan_step alnum prev rest i st = Ok (n, st1)"
    "scan_loop alnum (get rest (n - 1)) (drop n rest) (i + n) st1 = Ok fin" "0 < n"
  using assms scan_step_pos
  by (auto simp: scan_loop.simps [of alnum prev rest] split: result.splits)

lemma scan_loop_slots:
  "scan_loop alnum prev rest i st = Ok fin \<Longrightarrow>
   \<exists>rem. qs_slots (ss_scan fin) = qs_slots (ss_scan st) @ rem \<and> (\<forall>s \<in> set rem. i \<le> slot_start s)"
proof (induction "length rest" arbitrary: prev rest i st rule: less_induct)
  case less
  show ?case
  proof (cases "rest = []")
    case True
    with less.prems show ?thesis by (simp add: scan_loop.simps)
  next
    case False
    from scan_loop_Ok [OF less.prems False] obtain n st1 where
      s: "scan_step alnum prev rest i st = Ok (n, st1)" "scan_loop alnum (get rest (n - 1)) (drop n rest) (i + n) st1 = Ok fin" "0 < n" .
    from less.hyps [OF _ s(2)] s(3) False obtain rem where
      r: "qs_slots (ss_scan fin) = qs_slots (ss_scan st1) @ rem" "\<forall>s \<in> set rem. i \<le> slot_start s" by fastforce
    from scan_step_slots [OF False s(1)] show ?thesis
    proof
      assume "qs_slots (ss_scan st1) = qs_slots (ss_scan st)"
      with r show ?thesis by auto
    next
      assume "\<exists>named. ss_lex st = Normal \<and> read_token alnum (prev = Some 0x3A) rest = Ok (T_Marker n named) \<and>
        st1 = apply_token i (T_Marker n named) st"
      with r show ?thesis by (auto simp: push_slot_def Let_def)
    qed
  qed
qed

text \<open>The number of statements seen so far, the current one included, and the first keyword.\<close>

definition seen :: "scan_state \<Rightarrow> nat" where
  "seen st = length (qs_statements (ss_scan st)) + (if ss_has_code st then 1 else 0)"

definition later :: "scan_state \<Rightarrow> scan_state \<Rightarrow> bool" where
  "later st st1 \<longleftrightarrow> seen st \<le> seen st1 \<and>
     (\<forall>k. qs_first_keyword (ss_scan st) = Some k \<longrightarrow> qs_first_keyword (ss_scan st1) = Some k)"

lemma seen_semicolon: "seen (scan_semicolon i st) = seen st"
  by (simp add: seen_def scan_semicolon_def semicolon_is_internal_def Let_def)

lemma scan_step_later:
  assumes "rest \<noteq> []" "scan_step alnum prev rest i st = Ok (n, st1)"
  shows "later st st1"
proof (cases "ss_lex st = Normal")
  case True
  from scan_step_token [OF this assms] obtain t where "st1 = apply_token i t st" by blast
  then show ?thesis
    by (cases t) (simp_all add: later_def seen_semicolon scan_semicolon_keeps, simp_all add: seen_def scan_word_keeps code_token_def push_slot_def Let_def)
next
  case False
  from scan_step_inside [OF False assms(2)] show ?thesis by (elim disjE) (simp_all add: later_def seen_def)
qed

lemma scan_loop_later: "scan_loop alnum prev rest i st = Ok fin \<Longrightarrow> later st fin"
proof (induction "length rest" arbitrary: prev rest i st rule: less_induct)
  case less
  show ?case
  proof (cases "rest = []")
    case True
    with less.prems show ?thesis by (simp add: scan_loop.simps later_def)
  next
    case False
    from scan_loop_Ok [OF less.prems False] obtain n st1 where
      s: "scan_step alnum prev rest i st = Ok (n, st1)" "scan_loop alnum (get rest (n - 1)) (drop n rest) (i + n) st1 = Ok fin" "0 < n" .
    with less.hyps [OF _ s(2)] scan_step_later [OF False s(1)] False show ?thesis by (fastforce simp: later_def)
  qed
qed

subsection \<open>Ordinary statements\<close>

text \<open>The first keyword is not \<open>CREATE\<close>.\<close>

definition ordinary :: "u8 list \<Rightarrow> query_scan \<Rightarrow> bool" where
  "ordinary q scan \<longleftrightarrow> (case qs_first_keyword scan of None \<Rightarrow> True | Some (a, b) \<Rightarrow> \<not> create_word (slice q a b))"

definition ordinary_inv :: "scan_state \<Rightarrow> bool" where
  "ordinary_inv st \<longleftrightarrow> plain st \<and> (ps_prefix (ss_procedural st) = CP_Other \<longrightarrow> ss_has_code st) \<and>
     (ps_prefix (ss_procedural st) = CP_Start \<longrightarrow>
        qs_first_keyword (ss_scan st) = None \<or> qs_statements (ss_scan st) \<noteq> [] \<and> \<not> ss_has_code st)"

lemma named_token_word: "ensures (\<lambda>t. \<forall>w. t \<noteq> T_Word w) (named_token alnum rest)"
  by (simp add: named_token_def Let_def ensures_def split: list.split)

lemma read_token_word: "read_token alnum colon rest = Ok (T_Word w) \<Longrightarrow> w = take (length w) rest"
proof -
  have "ensures (\<lambda>t. \<forall>w. t = T_Word w \<longrightarrow> w = take (length w) rest) (named_token alnum rest)"
    using named_token_word [of alnum rest] by (cases "named_token alnum rest") (auto simp: ensures_def)
  then have "ensures (\<lambda>t. \<forall>w. t = T_Word w \<longrightarrow> w = take (length w) rest) (read_token alnum colon rest)"
    unfolding read_token_def Let_def by (intro ensures_intros; (assumption)?) (simp_all add: min_def)
  then show "read_token alnum colon rest = Ok (T_Word w) \<Longrightarrow> w = take (length w) rest" by (simp add: ensures_def)
qed

lemma ordinary_code:
  assumes "ordinary_inv st" "seen st1 \<le> 1" "ss_has_code st1" "qs_statements (ss_scan st1) = qs_statements (ss_scan st)"
    "ss_procedural st1 = ss_procedural st" "qs_first_keyword (ss_scan st1) = qs_first_keyword (ss_scan st)"
  shows "ordinary_inv st1"
  using assms by (auto simp: ordinary_inv_def seen_def plain_def)

lemma ordinary_token:
  assumes o: "ordinary_inv st" and f: "later (apply_token i t st) fin" "seen fin \<le> 1" "ordinary q (ss_scan fin)"
    and w: "\<And>w. t = T_Word w \<Longrightarrow> w = take (length w) (drop i q)"
  shows "ordinary_inv (apply_token i t st)"
proof (cases t)
  case T_Semicolon
  have "plain st" using o by (simp add: ordinary_inv_def)
  from plain_semicolon [OF this] o show ?thesis
    by (auto simp: T_Semicolon scan_semicolon_def Let_def ordinary_inv_def plain_def procedural_new_def)
next
  case (T_Word w)
  have p: "plain st" using o by (simp add: ordinary_inv_def)
  have s1: "seen (scan_word i w st) \<le> 1" using f(1,2) T_Word by (simp add: later_def)
  have "ps_prefix (ss_procedural st) = CP_Other \<or> \<not> create_word w"
  proof (cases "ps_prefix (ss_procedural st) = CP_Start")
    case True
    with o s1 have "qs_first_keyword (ss_scan st) = None" by (auto simp: ordinary_inv_def seen_def scan_word_keeps)
    with f(1) T_Word have "qs_first_keyword (ss_scan fin) = Some (i, i + length w)" by (simp add: later_def scan_word_keeps)
    with f(3) w [OF T_Word] show ?thesis by (simp add: ordinary_def slice_def)
  next
    case False
    with p show ?thesis by (auto simp: plain_def)
  qed
  with p have pl: "plain (scan_word i w st)" by (simp add: plain_word)
  with plain_word_prefix [OF p pl] show ?thesis by (simp add: T_Word ordinary_inv_def scan_word_keeps)
next
  case (T_Space n)
  with o show ?thesis by simp
next
  case (T_Comment n l)
  with o show ?thesis by (simp add: ordinary_inv_def plain_def)
next
  case (T_Marker n named)
  with f(1,2) show ?thesis by (intro ordinary_code [OF o]) (simp_all add: later_def, simp_all add: push_slot_def Let_def)
next
  case (T_Quote n l)
  with f(1,2) show ?thesis by (intro ordinary_code [OF o]) (simp_all add: later_def, simp_all add: code_token_def)
next
  case (T_Other n)
  with f(1,2) show ?thesis by (intro ordinary_code [OF o]) (simp_all add: later_def, simp_all add: code_token_def)
qed

lemma ordinary_step:
  assumes o: "ordinary_inv st" and r: "rest = drop i q" "rest \<noteq> []" "scan_step alnum prev rest i st = Ok (n, st1)"
    and f: "later st1 fin" "seen fin \<le> 1" "ordinary q (ss_scan fin)"
  shows "ordinary_inv st1"
proof (cases "ss_lex st = Normal")
  case True
  from scan_step_token [OF this r(2,3)] obtain t where
    t: "read_token alnum (prev = Some 0x3A) rest = Ok t" "st1 = apply_token i t st" by blast
  show ?thesis unfolding t(2)
    by (rule ordinary_token [OF o]) (use t f r(1) read_token_word in auto)
next
  case False
  from scan_step_inside [OF this r(3)] o show ?thesis by (elim disjE) (simp_all add: ordinary_inv_def plain_def)
qed

subsection \<open>Between two markers\<close>

lemma close_quote_same:
  "shape st st' \<Longrightarrow> fst (close_quote d rest n st') = fst (close_quote d rest n st) \<and>
     shape (snd (close_quote d rest n st)) (snd (close_quote d rest n st'))"
  by (simp add: close_quote_def shape_lex)

lemma scan_step_same:
  assumes r: "rest \<noteq> []" "scan_step alnum prev rest i st = Ok (n, st2)" and s: "shape st st'"
    and c: "prev = Some 0x3A \<longleftrightarrow> prev' = Some 0x3A" and p: "plain st2" "qs_slots (ss_scan st2) = qs_slots (ss_scan st)"
  shows "\<exists>st2'. scan_step alnum prev' rest i' st' = Ok (n, st2') \<and> shape st2 st2'"
proof (cases "ss_lex st = Normal")
  case True
  from scan_step_token [OF this r] obtain t where
    t: "read_token alnum (prev = Some 0x3A) rest = Ok t" "n = token_len t" "st2 = apply_token i t st" .
  have "ss_lex st' = Normal" using True s by (simp add: shape_def)
  with t c r(1) p shape_token [OF s] show ?thesis by (simp add: scan_step_def scan_normal_token)
next
  case False
  have l: "ss_lex st' = ss_lex st" using s by (simp add: shape_def)
  show ?thesis
  proof (cases "ss_lex st = EscapedSingleQuote")
    case True
    with r(2) obtain a where a: "next_char rest = Ok a" by (auto simp: scan_step_def rbind_Ok_iff)
    show ?thesis
    proof (cases "hd rest = 0x5C \<and> a < length rest")
      case esc: True
      with r(2) True a s show ?thesis by (auto simp: scan_step_def l rbind_Ok_iff)
    next
      case esc: False
      with r(2) True a close_quote_same [OF s] show ?thesis by (auto simp: scan_step_def l prod_eq_iff)
    qed
  next
    case esc: False
    with r(2) False s close_quote_same [OF s] shape_lex [OF s] show ?thesis
      by (cases "ss_lex st") (auto simp: scan_step_def l rbind_Ok_iff prod_eq_iff split: if_splits)
  qed
qed

lemma seam_drop: "seam x \<Longrightarrow> seam (drop n x)"
  by (auto simp: seam_def last_drop)

text \<open>Where a segment ends: at a marker or at the end of the query.\<close>

definition stops :: "u8 list \<Rightarrow> u8 list \<Rightarrow> u8 list \<Rightarrow> scanned_slot list \<Rightarrow> nat \<Rightarrow> bool" where
  "stops x y y' rem j \<longleftrightarrow>
     y = [] \<and> y' = [] \<or> seam x \<and> calm y \<and> calm y' \<and> (\<exists>s \<in> set rem. slot_start s = j)"

lemma stops_drop: "stops x y y' rem j \<Longrightarrow> stops (drop n x) y y' rem j"
  by (auto simp: stops_def seam_drop)

lemma segment_lockstep:
  assumes "scan_loop alnum prev (x @ y) i st = Ok fin" "x @ y = drop i q" "scan_inv q i st"
    "stops x y y' rem (i + length x)" "qs_slots (ss_scan fin) = qs_slots (ss_scan st) @ rem" "\<forall>s \<in> set rem. i + length x \<le> slot_start s"
    "shape st st'" "ordinary_inv st" "seen fin \<le> 1" "ordinary q (ss_scan fin)"
    "x \<noteq> [] \<longrightarrow> (prev = Some 0x3A \<longleftrightarrow> prev' = Some 0x3A)"
  shows "\<exists>st1 st1' prev1 prev1'. scan_loop alnum prev (x @ y) i st = scan_loop alnum prev1 y (i + length x) st1 \<and>
    scan_loop alnum prev' (x @ y') i' st' = scan_loop alnum prev1' y' (i' + length x) st1' \<and>
    shape st1 st1' \<and> ordinary_inv st1 \<and> scan_inv q (i + length x) st1 \<and> qs_slots (ss_scan st1) = qs_slots (ss_scan st)"
  using assms
proof (induction "length x" arbitrary: x prev prev' i i' st st' rule: less_induct)
  case less
  note prems = less.prems
  show ?case
  proof (cases "x = []")
    case True
    show ?thesis unfolding True
      by (rule exI [of _ st], rule exI [of _ st'], rule exI [of _ prev], rule exI [of _ prev']) (use True prems(3,7,8) in simp)
  next
    case False
    then have ne: "x @ y \<noteq> []" "x @ y' \<noteq> []" by simp_all
    from scan_loop_Ok [OF prems(1) ne(1)] obtain n st1 where
      s: "scan_step alnum prev (x @ y) i st = Ok (n, st1)"
        "scan_loop alnum (get (x @ y) (n - 1)) (drop n (x @ y)) (i + n) st1 = Ok fin" "0 < n" .
    from ensuresD [OF scan_step_good(1) [OF prems(3,2) ne(1)] s(1)] have inv: "scan_inv q (i + n) st1" by (simp add: good_step_def)
    obtain rem' where rem': "qs_slots (ss_scan fin) = qs_slots (ss_scan st1) @ rem'" "\<forall>s \<in> set rem'. i + n \<le> slot_start s"
      using scan_loop_slots [OF s(2)] by blast
    have slots: "qs_slots (ss_scan st1) = qs_slots (ss_scan st)"
    proof (rule ccontr)
      assume "qs_slots (ss_scan st1) \<noteq> qs_slots (ss_scan st)"
      with scan_step_slots [OF ne(1) s(1)] obtain named where "st1 = apply_token i (T_Marker n named) st" by blast
      then obtain sl where "qs_slots (ss_scan st1) = qs_slots (ss_scan st) @ [sl]" "slot_start sl = i"
        by (simp add: push_slot_def Let_def)
      with rem' prems(5,6) False show False by auto
    qed
    with rem' prems(5) have later_slots: "\<forall>s \<in> set rem. i + n \<le> slot_start s" by simp
    have n: "n \<le> length x"
    proof (cases "y = []")
      case True
      have "i + n \<le> length q" using inv by (simp add: scan_inv_def between_def)
      moreover have "length x = length q - i" using True prems(2) by (metis append_Nil2 length_drop)
      ultimately show ?thesis by simp
    next
      case False
      with prems(4) later_slots show ?thesis by (auto simp: stops_def)
    qed
    have ord: "ordinary_inv st1"
      using ordinary_step [OF prems(8,2) ne(1) s(1) scan_loop_later [OF s(2)] prems(9,10)] .
    then have pl: "plain st1" by (simp add: ordinary_inv_def)
    have col: "prev = Some 0x3A \<longleftrightarrow> prev' = Some 0x3A" using prems(11) False by blast
    have "\<exists>st1'. scan_step alnum prev' (x @ y') i' st' = Ok (n, st1') \<and> shape st1 st1'"
    proof (cases "y = []")
      case True
      with prems(4) have "y' = []" by (auto simp: stops_def calm_def)
      with True s(1) False show ?thesis using scan_step_same [OF _ _ prems(7) col pl slots, of x alnum i n i'] by simp
    next
      case y: False
      have "utf8_valid (x @ y)" using scan_inv_rest [OF prems(3)] prems(2) by simp
      with y prems(4) scan_step_seam [OF False _ _ _ _ prems(7) col s(1) n pl slots] show ?thesis by (auto simp: stops_def)
    qed
    then obtain st1' where st1': "scan_step alnum prev' (x @ y') i' st' = Ok (n, st1')" "shape st1 st1'" by blast
    let ?x = "drop n x"
    have d: "drop n (x @ z) = ?x @ z" "get (x @ z) (n - 1) = get x (n - 1)" for z
      using n s(3) less_le_trans [of "n - 1" n "length x"] by (simp_all add: get_append)
    have len: "length ?x < length x" "i + n + length ?x = i + length x" "i' + n + length ?x = i' + length x" using n s(3) False by auto
    have "?x @ y = drop (i + n) q" using prems(2) d(1) [of y] by (metis add.commute drop_drop)
    from less.hyps [OF len(1) s(2) [unfolded d] this inv, where prev' = "get x (n - 1)" and i' = "i' + n" and st' = st1', unfolded len]
      stops_drop [OF prems(4), of n] prems(5,6,9,10) slots st1'(2) ord
    obtain st2 st2' prev2 prev2' where
      r: "scan_loop alnum (get x (n - 1)) (?x @ y) (i + n) st1 = scan_loop alnum prev2 y (i + length x) st2"
        "scan_loop alnum (get x (n - 1)) (?x @ y') (i' + n) st1' = scan_loop alnum prev2' y' (i' + length x) st2'"
        "shape st2 st2'" "ordinary_inv st2" "scan_inv q (i + length x) st2" "qs_slots (ss_scan st2) = qs_slots (ss_scan st1)"
      by auto
    have "scan_loop alnum prev (x @ y) i st = scan_loop alnum prev2 y (i + length x) st2"
      using scan_loop_step [OF ne(1) s(1)] r(1) d by simp
    moreover have "scan_loop alnum prev' (x @ y') i' st' = scan_loop alnum prev2' y' (i' + length x) st2'"
      using scan_loop_step [OF ne(2) st1'(1)] r(2) d by simp
    ultimately show ?thesis using r slots by auto
  qed
qed

subsection \<open>Across a marker\<close>

definition quiet :: "u8 list \<Rightarrow> bool" where
  "quiet z \<longleftrightarrow> z = [] \<or> \<not> is_identifier_continue (hd z) \<and> hd z \<noteq> 0x27"

text \<open>A text that reads as complete tokens wherever it stands after a seam.\<close>

definition inert :: "u8 list \<Rightarrow> bool" where
  "inert v \<longleftrightarrow> calm v \<and> last v \<noteq> 0x3A \<and>
     (\<exists>as. v = atoms_text as \<and> as \<noteq> [] \<and> \<not> list_all blank as \<and> (\<forall>z. quiet z \<longrightarrow> linked as z))"

text \<open>Markers that touch neither a word, a minus, a colon, a quote nor another marker.\<close>

definition separated :: "u8 list \<Rightarrow> scanned_slot list \<Rightarrow> bool" where
  "separated q slots \<longleftrightarrow> sorted_wrt (\<lambda>s s'. slot_end s < slot_start s') slots \<and>
     (\<forall>s \<in> set slots. seam (take (slot_start s) q) \<and> quiet (drop (slot_end s) q))"

lemma named_token_last:
  assumes "get rest 1 = Some b" "is_identifier_start b" "named_token alnum rest = Ok (T_Marker n named)"
  shows "get rest (n - 1) \<noteq> Some 0x3A"
proof -
  have n: "n = identifier_run 2 rest" using assms(3) by (auto simp: named_token_def Let_def split: list.splits if_splits)
  have colon: "\<not> is_identifier_continue 0x3A" by (simp add: is_identifier_continue_def is_identifier_start_def is_digit_def)
  obtain a c where r: "rest = a # b # c" using assms(1) by (cases rest rule: remdups_adj.cases) (auto simp: get_def)
  let ?w = "takeWhile is_identifier_continue c"
  have g: "get (a # (b # w) @ d) (Suc (length w)) = Some (last (b # w))" for w d :: "u8 list"
    by (simp add: get_def nth_append last_conv_nth)
  have "n - 1 = Suc (length ?w)" using n r by (simp add: identifier_run_def)
  then have "get rest (n - 1) = Some (last (b # ?w))" using g [of ?w "dropWhile is_identifier_continue c"] r by simp
  moreover have "\<forall>x \<in> set (b # ?w). is_identifier_continue x"
    using assms(2) by (auto simp: is_identifier_continue_def dest: set_takeWhileD)
  then have "is_identifier_continue (last (b # ?w))" by (metis last_in_set list.distinct(1))
  ultimately show ?thesis using colon by auto
qed

lemma read_token_marker:
  assumes "read_token alnum colon rest = Ok (T_Marker n named)" "rest \<noteq> []"
  shows "get rest (n - 1) \<noteq> Some 0x3A"
proof -
  have n: "ensures (\<lambda>t. \<forall>n named. t = T_Marker n named \<longrightarrow> get rest (n - 1) \<noteq> Some 0x3A) (named_token alnum rest)"
    if "case get rest 1 of None \<Rightarrow> False | Some b \<Rightarrow> is_identifier_start b"
    using that named_token_last [of rest] by (cases "named_token alnum rest") (auto simp: ensures_def split: option.splits)
  have q: "hd rest = 0x3F \<Longrightarrow> get rest 0 \<noteq> Some 0x3A" using assms(2) by (cases rest) (auto simp: get_def)
  have "ensures (\<lambda>t. \<forall>n named. t = T_Marker n named \<longrightarrow> get rest (n - 1) \<noteq> Some 0x3A) (read_token alnum colon rest)"
    unfolding read_token_def Let_def by (intro ensures_intros; (rule n)?) (use q in simp_all)
  then show ?thesis using assms(1) by (simp add: ensures_def)
qed

lemma quiet_segment:
  assumes "slots_from q start slots" "quiet (drop start q)" "\<forall>s \<in> set slots. start < slot_start s" "length vs = length slots"
  shows "quiet (weave (map (range_text q) (segments_from start slots (length q))) vs)"
proof (cases slots)
  case Nil
  with assms(2,4) show ?thesis by (simp add: range_text_def slice_def)
next
  case (Cons s rest)
  with assms(1,3) have b: "start < slot_start s" "slot_start s \<le> length q" by (auto simp: slot_between_def between_def)
  then have "drop start q = q ! start # drop (Suc start) q" by (simp add: Cons_nth_drop_Suc)
  moreover obtain w where "slice q start (slot_start s) = q ! start # w"
    using b by (simp add: slice_def \<open>drop start q = _\<close>) (metis Suc_diff_Suc take_Suc_Cons)
  ultimately show ?thesis using assms(2) Cons by (cases vs) (simp_all add: range_text_def quiet_def)
qed

lemma segment_suffix: "start \<le> stop \<Longrightarrow> stop \<le> length q \<Longrightarrow> seam (take stop q) \<Longrightarrow> seam (slice q start stop)"
proof -
  assume a: "start \<le> stop" "stop \<le> length q" "seam (take stop q)"
  have "slice q start stop = drop start (take stop q)" by (simp add: slice_def drop_take)
  with a show ?thesis by (simp add: seam_drop)
qed

lemma passes_shape:
  assumes s: "shape st st'" and m: "ss_lex st = Normal" and p: "passes st' st2'" "ss_has_code st2'"
  shows "shape (push_slot i j name st) st2'"
  using assms by (auto simp: shape_def passes_def push_slot_def Let_def plain_def)

text \<open>A step at the start of the next marker reads that marker.\<close>

lemma marker_step:
  assumes l: "scan_loop alnum prev (drop (slot_start s) q) (slot_start s) st = Ok fin"
    and inv: "scan_inv q (slot_start s) st" and ne: "slot_start s < length q"
    and fin: "qs_slots (ss_scan fin) = qs_slots (ss_scan st) @ s # slots"
  obtains prev1 where "scan_loop alnum prev1 (drop (slot_end s) q) (slot_end s) (push_slot (slot_start s) (slot_end s) (slot_name s) st) = Ok fin"
    "prev1 \<noteq> Some 0x3A" "ss_lex st = Normal" "scan_inv q (slot_end s) (push_slot (slot_start s) (slot_end s) (slot_name s) st)"
    "qs_slots (ss_scan (push_slot (slot_start s) (slot_end s) (slot_name s) st)) = qs_slots (ss_scan st) @ [s]"
    "ordinary_inv st \<Longrightarrow> seen fin \<le> 1 \<Longrightarrow> ordinary q (ss_scan fin) \<Longrightarrow>
       ordinary_inv (push_slot (slot_start s) (slot_end s) (slot_name s) st)"
proof -
  let ?i = "slot_start s" and ?rest = "drop (slot_start s) q"
  have r: "?rest \<noteq> []" using ne by simp
  from scan_loop_Ok [OF l r] obtain n st1 where
    st1: "scan_step alnum prev ?rest ?i st = Ok (n, st1)"
      "scan_loop alnum (get ?rest (n - 1)) (drop n ?rest) (?i + n) st1 = Ok fin" "0 < n" .
  obtain rem where rem: "qs_slots (ss_scan fin) = qs_slots (ss_scan st1) @ rem" "\<forall>s \<in> set rem. ?i + n \<le> slot_start s"
    using scan_loop_slots [OF st1(2)] by blast
  have "qs_slots (ss_scan st1) \<noteq> qs_slots (ss_scan st)" using rem fin st1(3) by auto
  with scan_step_slots [OF r st1(1)] obtain named where
    m: "ss_lex st = Normal" "read_token alnum (prev = Some 0x3A) ?rest = Ok (T_Marker n named)" "st1 = apply_token ?i (T_Marker n named) st"
    by blast
  have "qs_slots (ss_scan st1) = qs_slots (ss_scan st) @
      [\<lparr>slot_start = ?i, slot_end = ?i + n, slot_name = (if named then Some (?i + 1, ?i + n) else None), slot_bare = ss_bare st\<rparr>]"
    using m(3) by (simp add: push_slot_def Let_def)
  with rem fin have sl: "s = \<lparr>slot_start = ?i, slot_end = ?i + n, slot_name = (if named then Some (?i + 1, ?i + n) else None), slot_bare = ss_bare st\<rparr>"
    by simp
  then have e: "slot_end s = ?i + n" "slot_name s = (if named then Some (?i + 1, ?i + n) else None)" "slot_bare s = ss_bare st"
    by (metis scanned_slot.select_convs)+
  have s1: "st1 = push_slot ?i (slot_end s) (slot_name s) st" using m(3) e by simp
  have d: "drop n ?rest = drop (slot_end s) q" using e(1) by (simp add: add.commute)
  have i1: "scan_inv q (slot_end s) st1"
    using ensuresD [OF scan_step_good(1) [OF inv refl r] st1(1)] e(1) by (simp add: good_step_def)
  have "get ?rest (n - 1) \<noteq> Some 0x3A" using read_token_marker [OF m(2) r] .
  moreover have "scan_loop alnum (get ?rest (n - 1)) (drop (slot_end s) q) (slot_end s) st1 = Ok fin" using st1(2) d e(1) by simp
  moreover have "qs_slots (ss_scan st1) = qs_slots (ss_scan st) @ [s]" using s1 e by (simp add: push_slot_def Let_def)
  ultimately show ?thesis
    using that m(1) i1 s1 ordinary_step [OF _ refl r st1(1) scan_loop_later [OF st1(2)]] by blast
qed

lemma template_lockstep:
  assumes "slots_from q start slots" "separated q slots" "length vs = length slots" "\<forall>v \<in> set vs. inert v"
    "scan_loop alnum prev (drop start q) start st = Ok fin" "scan_inv q start st" "qs_slots (ss_scan fin) = qs_slots (ss_scan st) @ slots"
    "shape st st'" "ordinary_inv st" "seen fin \<le> 1" "ordinary q (ss_scan fin)" "prev \<noteq> Some 0x3A" "prev' \<noteq> Some 0x3A"
  shows "\<exists>fin'. scan_loop alnum prev' (weave (map (range_text q) (segments_from start slots (length q))) vs) i' st' = Ok fin' \<and> shape fin fin'"
  using assms
proof (induction slots arbitrary: start prev prev' st st' i' vs)
  case Nil
  have "scan_loop alnum prev (drop start q @ []) start st = Ok fin" using Nil.prems(5) by simp
  from segment_lockstep [OF this _ Nil.prems(6), where y' = "[]" and rem = "[]" and st' = st' and prev' = prev' and i' = i'] Nil.prems
  obtain st1 st1' prev1 prev1' where
    "scan_loop alnum prev (drop start q) start st = scan_loop alnum prev1 [] (start + length (drop start q)) st1"
    "scan_loop alnum prev' (drop start q) i' st' = scan_loop alnum prev1' [] (i' + length (drop start q)) st1'" "shape st1 st1'"
    by (auto simp: stops_def)
  with Nil.prems(3,5) show ?case by (auto simp: scan_loop.simps [of _ _ "[]"] range_text_def slice_def)
next
  case (Cons s slots)
  note prems = Cons.prems
  obtain v vs' where vs: "vs = v # vs'" "length vs' = length slots" using prems(3) by (cases vs) auto
  have b: "start \<le> slot_start s" "slot_start s < slot_end s" "slot_end s \<le> length q" "slots_from q (slot_end s) slots"
    using prems(1) by (auto simp: slot_ok_def slot_between_def between_def)
  have mk: "q ! slot_start s \<in> {0x3F, 0x3A}"
    using prems(1) by (auto simp: slot_between_def get_def split: if_splits)
  have sp: "seam (take (slot_start s) q)" "quiet (drop (slot_end s) q)" "separated q slots" "\<forall>s' \<in> set slots. slot_end s < slot_start s'"
    using prems(2) by (auto simp: separated_def)
  have v: "inert v" using prems(4) vs(1) by simp
  let ?x = "slice q start (slot_start s)" and ?y = "drop (slot_start s) q"
  let ?R = "weave (map (range_text q) (segments_from (slot_end s) slots (length q))) vs'"
  have W: "weave (map (range_text q) (segments_from start (s # slots) (length q))) vs = ?x @ v @ ?R"
    using vs by (simp add: range_text_def)
  have x: "length ?x = slot_start s - start" "start + length ?x = slot_start s" "?x @ ?y = drop start q"
    using b slice_append_slice [of start "slot_start s" "length q" q] by (simp_all add: slice_def)
  have hd: "hd ?y = q ! slot_start s" using b by (simp add: hd_drop_conv_nth)
  have "calm ?y" using b mk hd by (auto simp: calm_def)
  moreover have "calm (v @ ?R)" using v by (auto simp: inert_def calm_def)
  moreover have "seam ?x" using segment_suffix [OF b(1) _ sp(1)] b by simp
  ultimately have st: "stops ?x ?y (v @ ?R) (s # slots) (start + length ?x)" using x(2) by (simp add: stops_def)
  have ge: "\<forall>s' \<in> set (s # slots). start + length ?x \<le> slot_start s'" using sp(4) b x(2) by fastforce
  have "scan_loop alnum prev (?x @ ?y) start st = Ok fin" using prems(5) x(3) by simp
  from segment_lockstep [OF this x(3) prems(6) st prems(7) ge prems(8-11), where prev' = prev' and i' = i'] prems(12,13) x(2)
  obtain st1 st1' prev1 prev1' where
    s1: "scan_loop alnum prev (?x @ ?y) start st = scan_loop alnum prev1 ?y (slot_start s) st1"
      "scan_loop alnum prev' (?x @ v @ ?R) i' st' = scan_loop alnum prev1' (v @ ?R) (i' + length ?x) st1'"
      "shape st1 st1'" "ordinary_inv st1" "scan_inv q (slot_start s) st1" "qs_slots (ss_scan st1) = qs_slots (ss_scan st)"
    by auto
  let ?st2 = "push_slot (slot_start s) (slot_end s) (slot_name s) st1"
  have "scan_loop alnum prev1 ?y (slot_start s) st1 = Ok fin" "slot_start s < length q" "qs_slots (ss_scan fin) = qs_slots (ss_scan st1) @ s # slots"
    using s1(1,6) prems(5,7) x(3) b by simp_all
  from marker_step [OF this(1) s1(5) this(2,3)] s1(4) prems(10,11) obtain prev2 where
    s2: "scan_loop alnum prev2 (drop (slot_end s) q) (slot_end s) ?st2 = Ok fin" "prev2 \<noteq> Some 0x3A" "ss_lex st1 = Normal"
      "scan_inv q (slot_end s) ?st2" "qs_slots (ss_scan ?st2) = qs_slots (ss_scan st1) @ [s]" "ordinary_inv ?st2"
    by metis
  obtain as where as: "v = atoms_text as" "as \<noteq> []" "\<not> list_all blank as" "\<forall>z. quiet z \<longrightarrow> linked as z"
    and lv: "last v \<noteq> 0x3A" using v by (auto simp: inert_def)
  have "quiet ?R" using quiet_segment [OF b(4) sp(2,4) vs(2)] .
  then have "linked as ?R" using as(4) by blast
  moreover have "ss_lex st1' = Normal" "plain st1'" using s1(3) s2(3) by (simp_all add: shape_def)
  ultimately obtain st2' where s2': "scan_loop alnum prev1' (v @ ?R) (i' + length ?x) st1' = scan_loop alnum (Some (last v)) ?R (i' + length ?x + length v) st2'"
    "passes st1' st2'" "ss_has_code st2'"
    using linked_scan [OF _ as(2), of ?R st1' alnum prev1' "i' + length ?x"] as(1,3) by auto
  have "shape ?st2 st2'" by (rule passes_shape [OF s1(3) s2(3) s2'(2,3)])
  from Cons.IH [OF b(4) sp(3) vs(2) _ s2(1,4) _ this s2(6) prems(10,11) s2(2), of "Some (last v)"] prems(4,7) vs(1) s1(6) s2(5) lv
  obtain fin' where "scan_loop alnum (Some (last v)) ?R (i' + length ?x + length v) st2' = Ok fin'" "shape fin fin'" by auto
  with s1(2) s2'(1) W show ?case by auto
qed

text \<open>Rendering with inert texts gives a query with no markers and the statements of the template.\<close>

lemma rendered_scan:
  assumes v: "utf8_valid q" and c: "scan_query alnum q = Ok scan" "length (qs_statements scan) \<le> 1"
    and o: "ordinary q scan" "separated q (qs_slots scan)" and vs: "length vs = length (qs_slots scan)" "\<forall>v \<in> set vs. inert v"
  shows "\<exists>scan'. scan_query alnum (weave (map (range_text q) (segments_from 0 (qs_slots scan) (length q))) vs) = Ok scan' \<and>
    qs_slots scan' = [] \<and> length (qs_statements scan') = length (qs_statements scan) \<and> qs_has_data_change scan' = qs_has_data_change scan"
proof -
  from c(1) obtain fin where fin: "scan_loop alnum None q 0 scan_start = Ok fin" "scan_finish (length q) fin = Ok scan"
    by (auto simp: scan_query_def rbind_Ok_iff)
  have l: "ss_lex fin = Normal \<or> ss_lex fin = LineComment"
    and sc: "scan = (let scan = ss_scan fin in if ss_has_code fin then scan\<lparr>qs_statements := qs_statements scan @ [(ss_statement_start fin, length q)]\<rparr> else scan)"
    using fin(2) by (auto simp: scan_finish_def Let_def split: if_splits)
  have f: "qs_slots scan = qs_slots (ss_scan fin)" "qs_first_keyword scan = qs_first_keyword (ss_scan fin)"
    "qs_has_data_change scan = qs_has_data_change (ss_scan fin)" "length (qs_statements scan) = seen fin"
    using sc by (simp_all add: Let_def seen_def)
  have r: "ranges_ok q scan" using ensuresD [OF scan_query_good(2) [OF v] c(1)] by simp
  have sf: "slots_from q 0 (qs_slots scan)" using r v by (intro slots_from_ranges) (auto simp: ranges_ok_def between_def)
  have st: "scan_inv q 0 scan_start" using v by (simp add: scan_inv_def scan_start_def ranges_ok_def between_def)
  have sh: "shape scan_start scan_start" "ordinary_inv scan_start"
    by (simp_all add: shape_def ordinary_inv_def scan_start_def plain_def procedural_new_def)
  have sl: "qs_slots (ss_scan fin) = qs_slots (ss_scan scan_start) @ qs_slots scan" using f(1) by (simp add: scan_start_def)
  have lp: "scan_loop alnum None (drop 0 q) 0 scan_start = Ok fin" using fin(1) by simp
  have sn: "seen fin \<le> 1" using c(2) f(4) by simp
  have od: "ordinary q (ss_scan fin)" using o(1) f(2) by (simp add: ordinary_def)
  have nc: "(None :: u8 option) \<noteq> Some 0x3A" by simp
  from template_lockstep [OF sf o(2) vs lp st sl sh sn od nc nc, of 0] obtain fin' where
    fin': "scan_loop alnum None (weave (map (range_text q) (segments_from 0 (qs_slots scan) (length q))) vs) 0 scan_start = Ok fin'" "shape fin fin'"
    by blast
  have "ss_lex fin' = Normal \<or> ss_lex fin' = LineComment" using l fin'(2) by (simp add: shape_def)
  then have "scan_finish n fin' = Ok (if ss_has_code fin'
      then (ss_scan fin')\<lparr>qs_statements := qs_statements (ss_scan fin') @ [(ss_statement_start fin', n)]\<rparr> else ss_scan fin')" for n
    by (auto simp: scan_finish_def Let_def)
  with fin'(1) have q: "scan_query alnum (weave (map (range_text q) (segments_from 0 (qs_slots scan) (length q))) vs) = Ok (if ss_has_code fin'
      then (ss_scan fin')\<lparr>qs_statements := qs_statements (ss_scan fin') @
        [(ss_statement_start fin', length (weave (map (range_text q) (segments_from 0 (qs_slots scan) (length q))) vs))]\<rparr> else ss_scan fin')"
    by (simp add: scan_query_def)
  have "seen fin' = seen fin" "qs_slots (ss_scan fin') = []" "qs_has_data_change (ss_scan fin') = qs_has_data_change (ss_scan fin)"
    using fin'(2) by (simp_all add: shape_def seen_def)
  then show ?thesis unfolding q using f by (cases "ss_has_code fin'") (simp_all add: seen_def)
qed

end
