(* ===== verification/Sql_Safe.thy ===== *)
theory Sql_Safe
  imports Sql_Lockstep
begin

text \<open>
  Rendered literals are inert: every text \<open>literal\<close> and \<open>typed_template_literal\<close> return reads as complete tokens, so that
  a bound value can neither end the statement, open a quote or a comment nor add a marker.
\<close>

subsection \<open>Texts built from tokens\<close>

definition linkable :: "u8 list \<Rightarrow> bool" where
  "linkable v \<longleftrightarrow> (\<exists>as. v = atoms_text as \<and> (\<forall>z. quiet z \<longrightarrow> linked as z))"

text \<open>A text that may be followed by anything.\<close>

definition closed_text :: "u8 list \<Rightarrow> bool" where
  "closed_text v \<longleftrightarrow> (\<exists>as. v = atoms_text as \<and> (\<forall>z. linked as z))"

lemma atoms_text_simps: "atoms_text [] = []" "atoms_text (a # as) = atom_text a @ atoms_text as"
  "atoms_text (as @ bs) = atoms_text as @ atoms_text bs"
  by (simp_all add: atoms_text_def)

lemma linkable_closed: "closed_text v \<Longrightarrow> linkable v"
  by (auto simp: closed_text_def linkable_def)

lemma closed_Nil [simp]: "closed_text []"
  unfolding closed_text_def by (rule exI [of _ "[]"]) (auto simp: atoms_text_simps)

lemma closed_append:
  assumes "closed_text a" "closed_text b"
  shows "closed_text (a @ b)"
proof -
  obtain as bs where "a = atoms_text as" "b = atoms_text bs" "\<forall>z. linked as z" "\<forall>z. linked bs z"
    using assms unfolding closed_text_def by blast
  then have "a @ b = atoms_text (as @ bs)" "\<forall>z. linked (as @ bs) z" by (simp add: atoms_text_simps, unfold linked_append, blast)
  then show ?thesis unfolding closed_text_def by blast
qed

lemma closed_linkable:
  assumes "closed_text a" "linkable b"
  shows "linkable (a @ b)"
proof -
  obtain as bs where "a = atoms_text as" "b = atoms_text bs" "\<forall>z. linked as z" "\<forall>z. quiet z \<longrightarrow> linked bs z"
    using assms unfolding closed_text_def linkable_def by blast
  then have "a @ b = atoms_text (as @ bs)" "\<forall>z. quiet z \<longrightarrow> linked (as @ bs) z"
    by (simp add: atoms_text_simps, unfold linked_append, blast)
  then show ?thesis unfolding linkable_def by blast
qed

lemma quiet_append: "quiet b \<Longrightarrow> quiet z \<Longrightarrow> quiet (b @ z)"
  by (cases b) (auto simp: quiet_def)

lemma linkable_append:
  assumes "linkable a" "linkable b" "quiet b"
  shows "linkable (a @ b)"
proof -
  obtain as bs where ab: "a = atoms_text as" "b = atoms_text bs" "\<forall>z. quiet z \<longrightarrow> linked as z" "\<forall>z. quiet z \<longrightarrow> linked bs z"
    using assms unfolding linkable_def by blast
  have "linked (as @ bs) z" if "quiet z" for z
    using ab quiet_append [OF assms(3) that] that by (simp add: linked_append)
  moreover have "a @ b = atoms_text (as @ bs)" using ab by (simp add: atoms_text_simps)
  ultimately show ?thesis unfolding linkable_def by blast
qed

lemma closed_after:
  assumes "linkable a" "closed_text b" "quiet b" "b \<noteq> []"
  shows "closed_text (a @ b)"
proof -
  obtain as bs where ab: "a = atoms_text as" "b = atoms_text bs" "\<forall>z. quiet z \<longrightarrow> linked as z" "\<forall>z. linked bs z"
    using assms(1,2) unfolding linkable_def closed_text_def by blast
  have "quiet (b @ z)" for z using assms(3,4) by (auto simp: quiet_def)
  then have "linked (as @ bs) z" for z using ab by (simp add: linked_append)
  moreover have "a @ b = atoms_text (as @ bs)" using ab by (simp add: atoms_text_simps)
  ultimately show ?thesis unfolding closed_text_def by blast
qed

lemma closed_char: "atom_ok (A_Plain c) \<Longrightarrow> c \<noteq> 0x2D \<Longrightarrow> closed_text [c]"
  unfolding closed_text_def by (intro exI [of _ "[A_Plain c]"] conjI allI) (simp_all add: atoms_text_simps)

lemma closed_chars: "list_all (\<lambda>c. atom_ok (A_Plain c) \<and> c \<noteq> 0x2D) v \<Longrightarrow> closed_text v"
proof (induction v)
  case (Cons c v)
  then have "closed_text [c]" "closed_text v" using closed_char by (simp_all del: atom_ok.simps)
  then show ?case using closed_append [of "[c]" v] by simp
qed simp

lemma closed_minus:
  assumes "closed_text v" "v \<noteq> []" "hd v \<noteq> 0x2D"
  shows "closed_text (0x2D # v)"
proof -
  obtain as where as: "v = atoms_text as" "\<forall>z. linked as z" using assms(1) by (auto simp: closed_text_def)
  have "linked (A_Plain 0x2D # as) z" for z using as assms(2,3) by auto
  moreover have "0x2D # v = atoms_text (A_Plain 0x2D # as)" using as by (simp add: atoms_text_simps)
  ultimately show ?thesis unfolding closed_text_def by blast
qed

lemma linkable_quote: "list_all (\<lambda>c. c < 0x80 \<and> c \<noteq> 0x27 \<and> c \<noteq> 0x5C) b \<Longrightarrow> linkable (0x27 # b @ [0x27])"
  unfolding linkable_def by (rule exI [of _ "[A_Quoted b]"]) (auto simp: atoms_text_simps quiet_def)

lemma linkable_raw: "utf8_valid b \<Longrightarrow> linkable (quote_raw_string b)"
  unfolding linkable_def by (rule exI [of _ "[A_Raw b]"]) (auto simp: atoms_text_simps quiet_def)

lemma linkable_word:
  assumes "atom_ok (A_Word w)" "1 < length w"
  shows "linkable w"
  unfolding linkable_def using assms by (intro exI [of _ "[A_Word w]"]) (auto simp: atoms_text_simps quiet_def)

text \<open>Constant texts of words, digits and punctuation.\<close>

function words_of :: "u8 list \<Rightarrow> atom list" where
  "words_of [] = []"
| "words_of (b # bs) =
     (if is_identifier_start b
      then A_Word (takeWhile is_identifier_continue (b # bs)) # words_of (dropWhile is_identifier_continue bs)
      else A_Plain b # words_of bs)"
  by pat_completeness auto
termination
  by (relation "measure length") (auto simp: le_imp_less_Suc length_dropWhile_le)

fun const_atom :: "atom \<Rightarrow> bool" where
  "const_atom (A_Word w) = (atom_ok (A_Word w) \<and> 1 < length w)"
| "const_atom (A_Plain c) = (atom_ok (A_Plain c) \<and> c \<noteq> 0x2D)"
| "const_atom _ = False"

lemma linkable_const: "list_all const_atom (words_of v) \<Longrightarrow> linkable v"
proof (induction v rule: words_of.induct)
  case (2 b bs)
  show ?case
  proof (cases "is_identifier_start b")
    case True
    let ?w = "takeWhile is_identifier_continue (b # bs)" and ?r = "dropWhile is_identifier_continue bs"
    have c: "is_identifier_continue b" using True by (simp add: is_identifier_continue_def)
    have ok: "atom_ok (A_Word ?w)" "1 < length ?w" "list_all const_atom (words_of ?r)" using 2(3) True by simp_all
    have r: "linkable ?r" using 2(1) [OF True ok(3)] .
    have "quiet ?r"
    proof (cases ?r)
      case (Cons d ds)
      then have "\<not> is_identifier_continue d" using hd_dropWhile [of is_identifier_continue bs] by simp
      moreover from this have "d \<noteq> 0x27" using ok(3) Cons by (auto simp: is_identifier_continue_def is_digit_def)
      ultimately show ?thesis using Cons by (simp add: quiet_def)
    qed (simp add: quiet_def)
    moreover have "b # bs = ?w @ ?r" using c by simp
    ultimately show ?thesis using linkable_append [OF linkable_word [OF ok(1,2)] r] by metis
  next
    case False
    with 2(3) have ok: "atom_ok (A_Plain b)" "b \<noteq> 0x2D" "list_all const_atom (words_of bs)" by (simp_all del: atom_ok.simps)
    from closed_char [OF ok(1,2)] 2(2) [OF False ok(3)] show ?thesis using closed_linkable [of "[b]" bs] by simp
  qed
qed (simp add: linkable_closed)

lemma inertI:
  assumes "linkable v" "calm v" "hd v \<noteq> 0x20" "last v \<noteq> 0x3A"
  shows "inert v"
proof -
  obtain as where as: "v = atoms_text as" "\<forall>z. quiet z \<longrightarrow> linked as z" using assms(1) by (auto simp: linkable_def)
  have ne: "as \<noteq> []" using as assms(2) by (auto simp: calm_def atoms_text_simps)
  have "\<not> list_all blank as"
    using ne as(1) assms(2,3) by (cases as) (auto simp: blank_def atoms_text_simps calm_def)
  with as ne assms show ?thesis unfolding inert_def by blast
qed

subsection \<open>Literals\<close>

definition body_ok :: "u8 list \<Rightarrow> bool" where
  "body_ok b \<longleftrightarrow> (\<forall>c \<in> set b. c < 0x80 \<and> c \<noteq> 0x27 \<and> c \<noteq> 0x5C)"

lemma body_ok_append [simp]: "body_ok (a @ b) \<longleftrightarrow> body_ok a \<and> body_ok b"
  and body_ok_Cons [simp]: "body_ok (c # b) \<longleftrightarrow> c < 0x80 \<and> c \<noteq> 0x27 \<and> c \<noteq> 0x5C \<and> body_ok b"
  and body_ok_Nil [simp]: "body_ok []"
  by (auto simp: body_ok_def)

lemma digit_range: "is_digit c \<Longrightarrow> c < 0x80 \<and> c \<notin> {0x0A, 0x20, 0x22, 0x26, 0x27, 0x2A, 0x2D, 0x2E, 0x2F, 0x3A, 0x5C}"
  by (auto simp: is_digit_def word_le_nat_alt word_less_nat_alt)

lemma body_ok_print_nat [simp]: "body_ok (print_nat n)"
  using print_nat_digits [of n] digit_range by (auto simp: body_ok_def)

lemma body_ok_print_int [simp]: "body_ok (print_int n)"
  by (simp add: print_int_def)

lemma body_ok_pad_nat [simp]: "body_ok (pad_nat w n)"
  by (auto simp: pad_nat_def) (simp add: body_ok_def)

lemma calm_start: "v \<noteq> [] \<Longrightarrow> is_identifier_start (hd v) \<Longrightarrow> calm v \<and> hd v \<noteq> 0x20"
  by (auto simp: calm_def is_identifier_start_def word_le_nat_alt word_less_nat_alt)

lemma calm_digit: "v \<noteq> [] \<Longrightarrow> is_digit (hd v) \<or> hd v = 0x2D \<Longrightarrow> calm v \<and> hd v \<noteq> 0x20"
  using digit_range [of "hd v"] by (auto simp: calm_def)

definition const_text :: "u8 list \<Rightarrow> bool" where
  "const_text v \<longleftrightarrow> list_all const_atom (words_of v)"

lemma inert_const: "const_text v \<Longrightarrow> v \<noteq> [] \<Longrightarrow> is_identifier_start (hd v) \<Longrightarrow> last v \<noteq> 0x3A \<Longrightarrow> inert v"
  using calm_start by (auto intro: inertI linkable_const simp: const_text_def)

lemma closed_space [simp]: "closed_text [0x20]" "quiet (0x20 # z)"
  by (simp_all add: closed_char quiet_def is_identifier_continue_def is_identifier_start_def is_digit_def)

lemma linkable_quoted:
  assumes "const_text (ascii kw)" "body_ok b"
  shows "linkable (quoted kw b)"
proof -
  have "linkable (0x27 # b @ [0x27])" using assms(2) by (intro linkable_quote) (auto simp: body_ok_def list_all_iff)
  moreover have "closed_text (ascii kw @ [0x20])"
    using assms(1) by (intro closed_after linkable_const) (simp_all add: const_text_def)
  ultimately show ?thesis using closed_linkable by (fastforce simp: quoted_def)
qed

lemma inert_quoted:
  assumes "const_text (ascii kw)" "kw \<noteq> []" "is_identifier_start (hd (ascii kw))" "body_ok b"
  shows "inert (quoted kw b)"
proof (rule inertI)
  show "linkable (quoted kw b)" using assms(1,4) by (rule linkable_quoted)
  have "ascii kw \<noteq> []" using assms(2) by (simp add: ascii_def)
  then have "quoted kw b \<noteq> []" "hd (quoted kw b) = hd (ascii kw)" by (simp_all add: quoted_def)
  with calm_start [of "quoted kw b"] assms(3) show "calm (quoted kw b)" "hd (quoted kw b) \<noteq> 0x20" by auto
  show "last (quoted kw b) \<noteq> 0x3A" by (simp add: quoted_def)
qed

lemma inert_suffix:
  assumes "inert v" "linkable v" "const_text w" "w \<noteq> []" "quiet w" "last w \<noteq> 0x3A" "hd v \<noteq> 0x20"
  shows "inert (v @ w)"
proof (rule inertI)
  have "linkable w" using assms(3) by (intro linkable_const) (simp add: const_text_def)
  with assms show "linkable (v @ w)" by (intro linkable_append)
qed (use assms in \<open>auto simp: inert_def calm_def\<close>)

lemma quoted_hd: "kw \<noteq> [] \<Longrightarrow> hd (quoted kw b) = hd (ascii kw)"
  by (simp add: quoted_def ascii_def hd_append)

lemma inert_interval:
  assumes "body_ok b" "const_text w" "w \<noteq> []" "quiet w" "last w \<noteq> 0x3A"
  shows "inert (quoted ''INTERVAL'' b @ w)"
proof -
  have "const_text (ascii ''INTERVAL'')" "is_identifier_start (hd (ascii ''INTERVAL''))" "hd (ascii ''INTERVAL'') \<noteq> 0x20"
    by code_simp+
  then show ?thesis using assms by (intro inert_suffix inert_quoted linkable_quoted) (simp_all add: quoted_hd)
qed

lemma closed_digits: "\<forall>c \<in> set v. is_digit c \<or> c = 0x2E \<Longrightarrow> closed_text v"
  by (intro closed_chars) (use digit_range [of "0x2D"] in \<open>auto simp: list_all_iff\<close>)

lemma closed_print_int: "closed_text (print_int n)"
proof -
  have c: "closed_text (print_nat k)" for k using print_nat_digits [of k] by (intro closed_digits) blast
  have "hd (print_nat k) \<noteq> 0x2D" for k
    using print_nat_digits [of k] digit_range [of "hd (print_nat k)"] by (auto simp: print_nat_not_Nil)
  with c show ?thesis by (simp add: print_int_def closed_minus)
qed

lemma inert_number:
  assumes "linkable v" "v \<noteq> []" "is_digit (hd v) \<or> hd v = 0x2D" "is_digit (last v)"
  shows "inert v"
  using assms calm_digit [OF assms(2,3)] digit_range [OF assms(4)] by (intro inertI) auto

lemma print_nat_ends: "is_digit (hd (print_nat n)) \<and> is_digit (last (print_nat n))"
  using print_nat_digits [of n] by simp

lemma inert_print_int: "inert (print_int n)"
  using print_nat_ends by (intro inert_number linkable_closed closed_print_int) (auto simp: print_int_def)

lemma inert_signed:
  assumes "\<forall>c \<in> set v. is_digit c \<or> c = 0x2E" "v \<noteq> []" "is_digit (hd v)" "is_digit (last v)"
  shows "inert (if neg then 0x2D # v else v)"
proof -
  have c: "closed_text v" using assms(1) by (rule closed_digits)
  moreover have "hd v \<noteq> 0x2D" using digit_range [OF assms(3)] by auto
  ultimately have "closed_text (0x2D # v)" using assms(2) by (intro closed_minus)
  with c assms show ?thesis by (auto intro!: inert_number linkable_closed)
qed

lemma pointed_digits:
  assumes "\<forall>c \<in> set p. is_digit c" "0 < n" "n < length p"
  shows "(\<forall>c \<in> set (take n p @ 0x2E # drop n p). is_digit c \<or> c = 0x2E) \<and> is_digit (hd (take n p @ 0x2E # drop n p)) \<and>
    is_digit (last (take n p @ 0x2E # drop n p))"
proof -
  have t: "take n p \<noteq> []" "hd (take n p) \<in> set p" using assms(2,3) by (cases p; auto)+
  have d: "drop n p \<noteq> []" "last (drop n p) \<in> set p" using assms(3) by (simp, metis drop_eq_Nil in_set_dropD last_in_set not_less)
  from t d assms(1) show ?thesis by (auto dest: in_set_takeD in_set_dropD)
qed

lemma decimal_literal_inert: "ensures inert (decimal_literal v scale)"
proof (cases "scale < 0")
  case False
  define d where "d = print_nat (nat \<bar>v\<bar>)"
  define k where "k = nat scale"
  define p where "p = (if length d \<le> k then replicate (k + 1 - length d) 0x30 @ d else d)"
  define r where "r = (if 0 < k then take (length p - k) p @ 0x2E # drop (length p - k) p else d)"
  have dd: "\<forall>c \<in> set d. is_digit c" "d \<noteq> []" "is_digit (hd d)" "is_digit (last d)"
    using print_nat_digits print_nat_ends by (simp_all add: d_def)
  have "is_digit 0x30" by (simp add: is_digit_def)
  then have dp: "\<forall>c \<in> set p. is_digit c" using dd(1) by (auto simp: p_def)
  have "k < length p" by (simp add: p_def)
  then have "0 < length p - k" "0 < k \<Longrightarrow> length p - k < length p" by simp_all
  with pointed_digits [OF dp, of "length p - k"] dd
  have "\<forall>c \<in> set r. is_digit c \<or> c = 0x2E" "r \<noteq> []" "is_digit (hd r)" "is_digit (last r)"
    unfolding r_def by (cases "0 < k"; simp)+
  then have "inert (if v < 0 then 0x2D # r else r)" by (rule inert_signed)
  moreover have "decimal_literal v scale = Ok (if v < 0 then 0x2D # r else r)"
    using False unfolding decimal_literal_def r_def p_def d_def k_def Let_def by simp
  ultimately show ?thesis by (simp add: ensures_def)
qed (simp add: decimal_literal_def ensures_def)

subsection \<open>Floats\<close>

lemma digit_loop_digits:
  "digit_loop slots inclusive scale mant lo hi = Some (ds, up) \<Longrightarrow> mant < 10 * scale \<Longrightarrow> ds \<noteq> [] \<and> (\<forall>d \<in> set ds. d < 10)"
proof (induction slots arbitrary: mant lo hi ds up)
  case (Suc slots)
  have s: "0 < scale" using Suc.prems(2) by simp
  have d: "mant div scale < 10" using Suc.prems(2) s by (simp add: less_mult_imp_div_less)
  have r: "10 * (mant mod scale) < 10 * scale" using s by simp
  show ?case
    using Suc.prems(1) d Suc.IH [OF _ r] by (auto simp: Let_def split: if_splits option.splits)
qed simp

lemma round_up_digits:
  assumes "ds \<noteq> []" "\<forall>d \<in> set ds. d < 10" "round_up ds = (es, carry)"
  shows "es \<noteq> [] \<and> (\<forall>d \<in> set es. d < 10)"
proof -
  define nines where "nines = length (takeWhile (\<lambda>d. d = 9) (rev ds))"
  define k where "k = length ds - nines"
  have le: "nines \<le> length ds" unfolding nines_def by (metis length_rev length_takeWhile_le)
  have ru: "round_up ds = (if k = 0 then (1 # replicate (length ds) 0, True)
      else (take (k - 1) ds @ (ds ! (k - 1) + 1) # replicate nines 0, False))"
    unfolding round_up_def Let_def k_def nines_def by (rule refl)
  show ?thesis
  proof (cases "k = 0")
    case True
    with assms(3) ru show ?thesis by auto
  next
    case False
    have lt: "nines < length ds" using False le by (simp add: k_def)
    then have "rev ds ! nines \<noteq> 9" using nth_length_takeWhile [of "\<lambda>d. d = 9" "rev ds"] by (simp add: nines_def)
    moreover have "rev ds ! nines = ds ! (k - 1)" using lt by (simp add: rev_nth k_def)
    moreover have "ds ! (k - 1) \<in> set ds" using lt False by (simp add: k_def)
    ultimately have "ds ! (k - 1) \<noteq> 9" "ds ! (k - 1) < 10" using assms(2) by simp_all
    then have "ds ! (k - 1) + 1 < 10" by simp
    moreover have "es = take (k - 1) ds @ (ds ! (k - 1) + 1) # replicate nines 0"
      using assms(3) False ru by simp
    ultimately show ?thesis using assms(2) by (auto dest: in_set_takeD)
  qed
qed

lemma format_shortest_digits:
  assumes "format_shortest d = Some (ds, k)" "0 < d_plus d"
  shows "ds \<noteq> [] \<and> (\<forall>x \<in> set ds. x < 10)"
proof -
  from assms(1) obtain e ds1 up where e: "decimal_exponent d = Some e"
    and l: "digit_loop 17 (d_inclusive d) (scale_of (d_exp d) e) (10 * scaled (d_exp d) e (d_mant d))
      (10 * scaled (d_exp d) e (d_minus d)) (10 * scaled (d_exp d) e (d_plus d)) = Some (ds1, up)"
    and u: "if up then ds = fst (round_up ds1) else ds = ds1"
    by (auto simp: format_shortest_def Let_def split: option.splits if_splits prod.splits)
  have "\<not> reaches (d_inclusive d) (scale_of (d_exp d) e) (scaled (d_exp d) e (d_mant d + d_plus d))"
    using e unfolding decimal_exponent_def find_Some_iff by blast
  moreover have "scaled (d_exp d) e (d_mant d) < scaled (d_exp d) e (d_mant d + d_plus d)" using assms(2) by (simp add: scaled_def)
  ultimately have "10 * scaled (d_exp d) e (d_mant d) < 10 * scale_of (d_exp d) e" by (auto simp: reaches_def split: if_splits)
  from digit_loop_digits [OF l this] u round_up_digits [of ds1 "fst (round_up ds1)"] show ?thesis
    by (cases "round_up ds1") (auto split: if_splits)
qed

lemma exp_text_linkable:
  assumes "ds \<noteq> []" "\<forall>x \<in> set ds. x < 10"
  shows "linkable (exp_text ds k)" "exp_text ds k \<noteq> []" "is_digit (hd (exp_text ds k))" "is_digit (last (exp_text ds k))"
proof -
  let ?b = "map digit_byte ds"
  let ?m = "take 1 ?b @ (if 1 < length ?b then 0x2E # drop 1 ?b else [])" and ?e = "0x65 # print_int (k - 1)"
  have t: "exp_text ds k = ?m @ ?e" by (simp add: exp_text_def Let_def)
  have b: "\<forall>c \<in> set ?b. is_digit c" "?b \<noteq> []" using assms by (auto simp: is_digit_digit_byte)
  have m: "\<forall>c \<in> set ?m. is_digit c \<or> c = 0x2E" using b(1) by (cases ds) auto
  have e: "linkable ?e"
  proof (cases "k - 1 < 0")
    case True
    have w: "linkable ([0x65] @ z)" if z: "linkable z" "quiet z" "z \<noteq> []" "hd z \<noteq> 0x26" for z
    proof -
      obtain as where as: "z = atoms_text as" "\<forall>y. quiet y \<longrightarrow> linked as y" using z(1) by (auto simp: linkable_def)
      have ok: "atom_ok (A_Word [0x65])" by code_simp
      have "linked (A_Word [0x65] # as) y" if "quiet y" for y
        using as z(2-4) that ok by (auto simp: quiet_def)
      moreover have "[0x65] @ z = atoms_text (A_Word [0x65] # as)" using as(1) by (simp add: atoms_text_simps)
      ultimately show ?thesis unfolding linkable_def by blast
    qed
    have h: "hd (print_int (k - 1)) = 0x2D" "print_int (k - 1) \<noteq> []" using True by (simp_all add: print_int_def)
    then have "quiet (print_int (k - 1))" by (simp add: quiet_def is_identifier_continue_def is_identifier_start_def is_digit_def)
    with w [OF linkable_closed [OF closed_print_int]] h show ?thesis by simp
  next
    case False
    let ?w = "0x65 # print_nat (nat (k - 1))"
    have "list_all is_identifier_continue ?w"
      using print_nat_digits by (simp add: list_all_iff is_identifier_continue_def is_identifier_start_def)
    moreover have "\<not> create_word ?w" "\<not> is_data_change ?w"
      using print_nat_ends [of "nat (k - 1)"] by (auto simp: create_word_def is_data_change_def eq_ignore_ascii_case_def ascii_def to_ascii_lowercase_def to_ascii_uppercase_def)
    ultimately have "atom_ok (A_Word ?w)" by (simp add: is_identifier_start_def)
    moreover have "1 < length ?w" using print_nat_not_Nil [of "nat (k - 1)"] by (cases "print_nat (nat (k - 1))") simp_all
    ultimately show ?thesis using False by (simp add: print_int_def linkable_word)
  qed
  show "linkable (exp_text ds k)" unfolding t using closed_digits [OF m] e by (rule closed_linkable)
  show "exp_text ds k \<noteq> []" by (simp add: t)
  show "is_digit (hd (exp_text ds k))" unfolding t using b by (cases ds) simp_all
  show "is_digit (last (exp_text ds k))" using print_nat_ends by (simp add: t print_int_def)
qed

lemma linkable_minus: "linkable v \<Longrightarrow> v \<noteq> [] \<Longrightarrow> hd v \<noteq> 0x2D \<Longrightarrow> linkable (0x2D # v)"
proof -
  assume v: "linkable v" "v \<noteq> []" "hd v \<noteq> 0x2D"
  obtain as where as: "v = atoms_text as" "\<forall>y. quiet y \<longrightarrow> linked as y" using v(1) by (auto simp: linkable_def)
  have "linked (A_Plain 0x2D # as) y" if "quiet y" for y using as v that by auto
  moreover have "0x2D # v = atoms_text (A_Plain 0x2D # as)" using as(1) by (simp add: atoms_text_simps)
  ultimately show ?thesis unfolding linkable_def by blast
qed

lemma inert_float:
  assumes "linkable v" "v \<noteq> []" "is_digit (hd v)" "is_digit (last v)"
  shows "inert ((if neg then [0x2D] else []) @ v)"
proof -
  have "hd v \<noteq> 0x2D" using digit_range [OF assms(3)] by auto
  with assms linkable_minus [OF assms(1,2)] show ?thesis by (auto intro!: inert_number)
qed

lemma decode_plus: "f64_decode bits = D_Finite d \<Longrightarrow> 0 < d_plus d"
  by (auto simp: f64_decode_def Let_def split: if_splits)

lemma float_literal_inert: "ensures inert (float_literal bits)"
proof (cases "f64_is_finite bits")
  case True
  then have f: "f64_decode bits \<noteq> D_Nan" "f64_decode bits \<noteq> D_Infinite"
    by (auto simp: f64_is_finite_def f64_decode_def Let_def split: if_splits)
  have z: "exp_text [0] 1 = ascii ''0e0''" by code_simp
  have "ensures inert (format_e bits :: (u8 list, literal_error) result)"
  proof (cases "f64_decode bits")
    case D_Zero
    with exp_text_linkable [of "[0]" 1] show ?thesis
      by (simp add: format_e_def Let_def ensures_def z inert_float)
  next
    case (D_Finite d)
    have e: "inert ((if neg then [0x2D] else []) @ exp_text ds k)" if "format_shortest d = Some (ds, k)" for ds k neg
      using format_shortest_digits [OF that decode_plus [OF D_Finite]] by (intro inert_float exp_text_linkable) auto
    show ?thesis
    proof (cases "format_shortest d")
      case (Some p)
      then obtain ds k where "format_shortest d = Some (ds, k)" by (cases p) simp
      with e [OF this, of "f64_negative bits"] D_Finite show ?thesis by (simp add: format_e_def Let_def ensures_def)
    qed (simp add: format_e_def Let_def ensures_def D_Finite)
  qed (use f in simp_all)
  with True show ?thesis by (simp add: float_literal_def)
qed (simp add: float_literal_def ensures_def)

subsection \<open>Every literal\<close>

definition dates_plain :: "'d literal_env \<Rightarrow> bool" where
  "dates_plain env \<longleftrightarrow> (\<forall>d. body_ok (le_show_date env d))"

fun texts_ok :: "parameter_array \<Rightarrow> bool" where
  "texts_ok (Flat a) = (case a_data a of TextData xs \<Rightarrow> (\<forall>v. Some v \<in> set xs \<longrightarrow> utf8_valid v) | _ \<Rightarrow> True)"
| "texts_ok (Dictionary_Array key keys vals) = texts_ok vals"

lemma hex_digit_body: "d < 16 \<Longrightarrow> hex_digit d < 0x80 \<and> hex_digit d \<noteq> 0x27 \<and> hex_digit d \<noteq> 0x5C"
proof -
  assume "d < 16"
  then have "d \<in> set [0..<16]" by simp
  moreover have "\<forall>d \<in> set [0..<16]. hex_digit d < 0x80 \<and> hex_digit d \<noteq> 0x27 \<and> hex_digit d \<noteq> 0x5C" by code_simp
  ultimately show ?thesis by blast
qed

lemma hex_pair_body: "body_ok (hex_pair b)"
proof -
  have "unat b < 256" using unsigned_less [of b] by simp
  then have "unat b div 16 < 16" "unat b mod 16 < 16" by simp_all
  then show ?thesis using hex_digit_body by (simp add: hex_pair_def)
qed

lemma body_ok_concat: "(\<And>v. v \<in> set vs \<Longrightarrow> body_ok v) \<Longrightarrow> body_ok (concat vs)"
  by (induction vs) auto

lemmas text_simps =
  const_text_def ascii_def is_identifier_continue_def is_identifier_start_def is_digit_def create_word_def
  eq_ignore_ascii_case_def is_data_change_def to_ascii_lowercase_def to_ascii_uppercase_def quiet_def

lemma keywords_const:
  "const_text (ascii ''NULL'')" "const_text (ascii ''TRUE'')" "const_text (ascii ''FALSE'')" "const_text (ascii ''BLOB'')"
  "const_text (ascii ''UUID'')" "const_text (ascii ''DATE'')" "const_text (ascii ''TIME'')" "const_text (ascii ''TIMETZ'')"
  "const_text (ascii ''TIMESTAMP'')" "const_text (ascii ''TIMESTAMPTZ'')" "const_text (ascii '' SECOND'')"
  "const_text (ascii '' DAY TO SECOND'')" "const_text (ascii '' MONTH'')"
  by (simp_all add: text_simps)

lemma inert_words:
  "inert (ascii ''NULL'')" "inert (ascii ''TRUE'')" "inert (ascii ''FALSE'')"
  by (rule inert_const [OF keywords_const(1)] inert_const [OF keywords_const(2)] inert_const [OF keywords_const(3)];
      simp add: ascii_def is_identifier_start_def)+

lemma quoted_inert:
  assumes "body_ok b"
  shows "inert (quoted ''BLOB'' b)" "inert (quoted ''UUID'' b)" "inert (quoted ''DATE'' b)" "inert (quoted ''TIME'' b)"
    "inert (quoted ''TIMETZ'' b)" "inert (quoted ''TIMESTAMP'' b)" "inert (quoted ''TIMESTAMPTZ'' b)"
  using assms by (auto intro!: inert_quoted keywords_const) (simp_all add: ascii_def is_identifier_start_def)

lemma interval_inert:
  assumes "body_ok b"
  shows "inert (quoted ''INTERVAL'' b @ ascii '' SECOND'')" "inert (quoted ''INTERVAL'' b @ ascii '' DAY TO SECOND'')"
    "inert (quoted ''INTERVAL'' b @ ascii '' MONTH'')"
  using assms by (auto intro!: inert_interval keywords_const)
    (simp_all add: ascii_def is_identifier_start_def is_identifier_continue_def is_digit_def quiet_def)

lemma format_time_body: "ensures body_ok (format_time micros)"
  by (simp add: format_time_def ensures_def Let_def)

lemma interval_fraction_body [simp]: "body_ok (interval_fraction millis)"
  by (simp add: interval_fraction_def)

lemma offset_body [simp]: "body_ok (ascii ''+00:00'')"
  by (simp add: ascii_def)

lemma ensures_rbind2: "ensures P r \<Longrightarrow> (\<And>x. P x \<Longrightarrow> ensures Q (f x)) \<Longrightarrow> ensures Q (rbind r f)"
  by (cases r) (simp_all add: ensures_def)

lemma blob_inert: "inert (blob_literal v)"
  unfolding blob_literal_def by (intro quoted_inert body_ok_concat) (auto simp: hex_pair_body)

lemma uuid_inert: "inert (uuid_literal v)"
  unfolding uuid_literal_def by (intro quoted_inert body_ok_concat) (auto simp: hex_pair_body)

lemma quote_string_inert: "utf8_valid v \<Longrightarrow> ensures inert (quote_string v)"
proof -
  assume "utf8_valid v"
  then have "linkable (quote_raw_string v)" by (rule linkable_raw)
  then have "inert (quote_raw_string v)" by (rule inertI) (simp_all add: quote_raw_string_def calm_def)
  then show ?thesis by (simp add: quote_string_def ensures_def)
qed

lemma date_inert: "dates_plain env \<Longrightarrow> ensures inert (date_literal env days)"
  unfolding date_literal_def by (intro ensures_intros quoted_inert) (simp add: dates_plain_def)

lemma time32_inert: "ensures inert (time32_literal unit v)"
  unfolding time32_literal_def
  by (intro ensures_rbind ensures_rbind2 [OF format_time_body] ensures_Ok quoted_inert)

lemma time64_inert: "ensures inert (time64_literal unit tz v)"
  unfolding time64_literal_def
  by (intro ensures_rbind ensures_rbind2 [OF format_time_body] ensures_Ok) (auto intro: quoted_inert)

lemma timestamp_inert: "dates_plain env \<Longrightarrow> ensures inert (timestamp_literal env unit tz v)"
  unfolding timestamp_literal_def Let_def
  by (intro ensures_rbind ensures_rbind2 [OF format_time_body] ensures_Ok) (auto intro!: quoted_inert simp: dates_plain_def)

lemma duration_inert: "ensures inert (duration_literal unit v)" "ensures inert (day_interval_literal unit v)"
  unfolding duration_literal_def day_interval_literal_def Let_def by (intro ensures_rbind ensures_Ok interval_inert; simp)+

lemma flat_literal_inert:
  assumes "dates_plain env" "texts_ok (Flat a)" "row < array_len a" "\<not> data_is_null (a_data a) row"
  shows "ensures inert (flat_literal env extension a row)"
proof -
  have t: "ensures utf8_valid (text_at a row)"
  proof (cases "a_data a")
    case (TextData xs)
    then have "xs ! row \<in> set xs" "xs ! row \<noteq> None" using assms(3,4) by (simp_all add: array_len_def)
    then show ?thesis using assms(2) TextData by (cases "xs ! row") (auto simp: text_at_def ensures_def)
  qed (simp_all add: text_at_def ensures_def)
  have q: "ensures inert (rbind (text_at a row) quote_string)" using t quote_string_inert by (rule ensures_rbind2)
  note facts = inert_words inert_print_int interval_inert float_literal_inert decimal_literal_inert blob_inert uuid_inert
    date_inert [OF assms(1)] time32_inert time64_inert timestamp_inert [OF assms(1)] duration_inert
  show ?thesis
    by (cases "a_type a") (auto simp: flat_literal_def intro!: ensures_intros facts q)
qed

lemma literal_inert:
  "dates_plain env \<Longrightarrow> texts_ok a \<Longrightarrow> ensures inert (literal env extension a row)"
proof (induction env extension a row rule: literal.induct)
  case (1 env extension a row)
  then show ?case using flat_literal_inert [of env a row extension] inert_words(1) by (auto intro!: ensures_intros)
next
  case (2 env extension key keys vals row)
  show ?case
  proof (cases "row < length keys \<and> (integer_key key \<or> keys ! row = None)")
    case True
    with 2 show ?thesis by (cases "keys ! row") (auto simp: inert_words intro!: ensures_intros)
  qed (auto intro!: ensures_intros)
qed

subsection \<open>Casts\<close>

lemma ascii_append: "ascii (a @ b) = ascii a @ ascii b"
  by (simp add: ascii_def)

lemma ascii_show_nat: "ascii (show_nat n) = print_nat n"
proof -
  have "(word_of_nat (of_char (char_of (unat b) :: char)) :: u8) = b" for b :: u8
    using unsigned_less [of b, where 'a = nat] by (simp add: of_char_of)
  then show ?thesis by (simp add: ascii_def show_nat_def comp_def)
qed

lemma linkable_ascii: "const_text (ascii s) \<Longrightarrow> linkable (ascii s)"
  by (simp add: const_text_def linkable_const)

lemma closed_print_nat: "closed_text (print_nat n)"
  using print_nat_digits [of n] by (intro closed_digits) blast

lemma closed_open:
  assumes "const_text (ascii kw)"
  shows "closed_text (ascii kw @ [0x28])"
  using assms by (intro closed_after linkable_ascii closed_char)
    (simp_all add: quiet_def is_identifier_continue_def is_identifier_start_def is_digit_def)

lemma type_names_const:
  "const_text (ascii ''BOOLEAN'')" "const_text (ascii ''TINYINT'')" "const_text (ascii ''SMALLINT'')" "const_text (ascii ''INT'')"
  "const_text (ascii ''BIGINT'')" "const_text (ascii ''HUGEINT'')" "const_text (ascii ''OID'')" "const_text (ascii ''STRING'')"
  "const_text (ascii ''REAL'')" "const_text (ascii ''DOUBLE'')" "const_text (ascii ''INTERVAL SECOND'')"
  "const_text (ascii ''INTERVAL MONTH'')" "const_text (ascii ''INTERVAL DAY'')" "const_text (ascii ''TIME(6)'')"
  "const_text (ascii ''TIME(6) WITH TIME ZONE'')" "const_text (ascii ''TIMESTAMP(6)'')"
  "const_text (ascii ''TIMESTAMP(6) WITH TIME ZONE'')" "const_text (ascii ''URL'')" "const_text (ascii ''INET'')"
  "const_text (ascii ''INET4'')" "const_text (ascii ''INET6'')" "const_text (ascii ''JSON'')" "const_text (ascii ''GEOMETRY'')"
  "const_text (ascii ''XML'')" "const_text (ascii ''DECIMAL'')" "const_text (ascii ''VARCHAR'')" "const_text (ascii ''CAST'')"
  "const_text (ascii ''AS'')"
  by (simp_all add: text_simps)

lemma type_name_linkable: "linkable (ascii (sql_type_name t))"
proof -
  have p: "closed_text [0x29]" "closed_text [0x2C, 0x20]" by (rule closed_chars; simp)+
  have d: "closed_text ((ascii ''DECIMAL'' @ [0x28]) @ print_nat a @ [0x2C, 0x20] @ print_nat b @ [0x29])" for a b
    by (intro closed_append closed_open type_names_const closed_print_nat p)
  have v: "closed_text ((ascii ''VARCHAR'' @ [0x28]) @ print_nat a @ [0x29])" for a
    by (intro closed_append closed_open type_names_const closed_print_nat p)
  have e: "ascii ''DECIMAL('' = ascii ''DECIMAL'' @ [0x28]" "ascii ''VARCHAR('' = ascii ''VARCHAR'' @ [0x28]"
    "ascii '')'' = [0x29]" "ascii '', '' = [0x2C, 0x20]" by (simp_all add: ascii_def)
  have c: "linkable (ascii (''DECIMAL('' @ show_nat a @ '', '' @ show_nat b @ '')''))" "linkable (ascii (''VARCHAR('' @ show_nat a @ '')''))" for a b
    using linkable_closed [OF d [of a b]] linkable_closed [OF v [of a]] unfolding ascii_append ascii_show_nat e by simp_all
  show ?thesis
    by (cases t) (simp_all only: sql_type_name.simps c linkable_ascii type_names_const keywords_const split: if_split, simp)
qed

lemma cast_inert:
  assumes "linkable v" "linkable ty"
  shows "inert (ascii ''CAST('' @ v @ ascii '' AS '' @ ty @ ascii '')'')"
proof -
  have e: "ascii ''CAST('' = ascii ''CAST'' @ [0x28]" "ascii '' AS '' = [0x20] @ ascii ''AS'' @ [0x20]" "ascii '')'' = [0x29]"
    by (simp_all add: ascii_def)
  have as: "closed_text ([0x20] @ ascii ''AS'' @ [0x20])"
    by (intro closed_append closed_after closed_space linkable_ascii type_names_const) simp_all
  have "closed_text (v @ [0x20] @ ascii ''AS'' @ [0x20])"
    using closed_after [OF assms(1) as] by simp
  moreover have "closed_text (ty @ [0x29])"
    using assms(2) by (intro closed_after closed_char) (simp_all add: quiet_def is_identifier_continue_def is_identifier_start_def is_digit_def)
  ultimately have "closed_text ((ascii ''CAST'' @ [0x28]) @ (v @ [0x20] @ ascii ''AS'' @ [0x20]) @ ty @ [0x29])"
    using closed_append closed_open type_names_const(27) by metis
  then have "linkable (ascii ''CAST('' @ v @ ascii '' AS '' @ ty @ ascii '')'')" unfolding e by (simp add: linkable_closed)
  moreover have "is_identifier_start (hd (ascii ''CAST('' @ w))" "ascii ''CAST('' @ w \<noteq> []" for w by (simp_all add: ascii_def is_identifier_start_def)
  ultimately show ?thesis using calm_start by (intro inertI) (simp_all add: e(3))
qed

lemma inert_linkable: "inert v \<Longrightarrow> linkable v"
  by (auto simp: inert_def linkable_def)

lemma typed_literal_inert: "inert v \<Longrightarrow> ensures inert (typed_template_literal field a row v)"
  unfolding typed_template_literal_def sql_type_for_field_def
  by (intro ensures_intros cast_inert; (assumption)?) (auto simp: inert_linkable type_name_linkable map_err_Ok_iff rbind_Ok_iff)

subsection \<open>A bound row\<close>

definition batch_ok :: "parameter_batch \<Rightarrow> bool" where
  "batch_ok batch \<longleftrightarrow> length (pb_columns batch) = length (pb_fields batch) \<and> (\<forall>a \<in> set (pb_columns batch). texts_ok a)"

lemma arguments_inert:
  assumes "dates_plain env" "batch_ok batch" "render_template_arguments env batch row = Ok args"
  shows "length args = length (pb_fields batch)" "\<forall>a \<in> set args. inert (ta_literal a) \<and> inert (ta_typed a)"
proof -
  let ?f = "\<lambda>(a, field). rbind (literal env (extension_name field) a row) (\<lambda>lit.
    rbind (typed_template_literal field a row lit) (\<lambda>typed. Ok \<lparr>ta_literal = lit, ta_typed = typed\<rparr>))"
  have m: "try_map ?f (zip (pb_columns batch) (pb_fields batch)) = Ok args"
    using assms(3) by (auto simp: render_template_arguments_def split: if_splits)
  have l: "length (zip (pb_columns batch) (pb_fields batch)) = length (pb_fields batch)" using assms(2) by (simp add: batch_ok_def)
  show "length args = length (pb_fields batch)" using try_map_length [OF m] l by simp
  have each: "ensures (\<lambda>a. inert (ta_literal a) \<and> inert (ta_typed a)) (?f (a, field))" if "texts_ok a" for a field
    using literal_inert [OF assms(1) that, of "extension_name field" row] typed_literal_inert [of _ field a row]
    by (auto intro!: ensures_rbind2 [where P = inert] ensures_Ok)
  show "\<forall>a \<in> set args. inert (ta_literal a) \<and> inert (ta_typed a)"
  proof
    fix x assume "x \<in> set args"
    then obtain i where i: "i < length args" "x = args ! i" by (auto simp: in_set_conv_nth)
    then have "?f (zip (pb_columns batch) (pb_fields batch) ! i) = Ok x" using try_map_nth [OF m] try_map_length [OF m] by simp
    moreover have "fst (zip (pb_columns batch) (pb_fields batch) ! i) \<in> set (pb_columns batch)"
      using i try_map_length [OF m] by (simp)
    then have "texts_ok (fst (zip (pb_columns batch) (pb_fields batch) ! i))" using assms(2) by (simp add: batch_ok_def)
    ultimately show "inert (ta_literal x) \<and> inert (ta_typed x)"
      using each [of "fst (zip (pb_columns batch) (pb_fields batch) ! i)" "snd (zip (pb_columns batch) (pb_fields batch) ! i)"]
      by (simp add: ensures_def)
  qed
qed

lemma slot_argument_bound:
  assumes t: "slots_agree t" and b: "bindable (qt_layout t) names by_name" "length names = length args" and s: "s \<in> set (qt_slots t)"
  shows "slot_argument (qt_layout t) names args s \<in> set args"
proof (cases "qt_layout t")
  case (Positional n)
  then have "map ts_parameter (qt_slots t) = map Positional_Slot [0..<n]" using t by (simp add: slots_agree_def)
  then have "ts_parameter s \<in> Positional_Slot ` {..<n}" using s by (metis atLeast0LessThan image_set imageI set_upt)
  then show ?thesis using b Positional by (auto simp: slot_argument_def bindable_def)
next
  case (Named ns)
  then obtain k where k: "k < length ns" "ts_parameter s = Named_Slot k" using t s by (auto simp: slots_agree_def)
  then have "ns ! k \<in> set names" using b Named by (auto simp: bindable_def)
  then obtain v where "map_of (zip names args) (ns ! k) = Some v" using map_of_zip_bound [OF b(2)] by fastforce
  moreover from this have "v \<in> set args" by (meson map_of_SomeD set_zip_rightD)
  ultimately show ?thesis using k Named by (simp add: slot_argument_def)
qed

text \<open>
  C3 (bound values cannot change the statement). Take a UTF-8 query that compiles to a template, does not start with
  \<open>CREATE\<close>, and whose markers touch neither a word, a minus, a colon, a quote nor another marker. For every bound batch
  with valid UTF-8 texts, if a row renders, the rendered text scans without error, has no markers, has as many statements as
  the template, and contains a data-changing keyword exactly when the template does, whatever the bound values are.
\<close>

theorem rendered_row_is_inert:
  assumes "utf8_valid q" "compile_query alnum q = Ok t" "scan_query alnum q = Ok scan"
    and "ordinary q scan" "separated q (qs_slots scan)"
    and "dates_plain env" "batch_ok batch" "render_row env pick t batch row by_name = Ok query"
  shows "\<exists>scan'. scan_query alnum query = Ok scan' \<and> qs_slots scan' = [] \<and>
    length (qs_statements scan') = length (qs_statements scan) \<and> qs_has_data_change scan' = qs_has_data_change scan"
proof -
  let ?names = "map (\<lambda>field. ascii (f_name field)) (pb_fields batch)"
  obtain scan1 where "scan_query alnum q = Ok scan1" "length (qs_statements scan1) \<le> 1" "template_of q scan1 t"
    using compile_query_OkE [OF assms(1,2)] .
  with assms(3) have t: "length (qs_statements scan) \<le> 1" "template_of q scan t" by simp_all
  obtain args where a: "render_template_arguments env batch row = Ok args"
    "render_bound pick t ?names args by_name = Ok query"
    using assms(8) by (auto simp: render_row_def rbind_Ok_iff map_err_Ok_iff)
  note args = arguments_inert [OF assms(6,7) a(1)]
  let ?v = "\<lambda>s. argument_render (slot_argument (qt_layout t) ?names args s) (ts_bare s)"
  have len: "length ?names = length args" using args(1) by simp
  have b: "bindable (qt_layout t) ?names by_name" and q: "query = weave (template_segments t) (map ?v (qt_slots t))"
    using a(2) render_bound_cases [OF t(2) len, of by_name pick] by (auto split: if_splits)
  have "\<forall>v \<in> set (map ?v (qt_slots t)). inert v"
    using slot_argument_bound [OF template_slots_agree [OF t(2)] b len] args(2) by (auto simp: argument_render_def)
  moreover have "length (map ?v (qt_slots t)) = length (qs_slots scan)" using t(2) by (simp add: template_of_def)
  moreover have "template_segments t = map (range_text q) (segments_from 0 (qs_slots scan) (length q))"
    using t(2) by (simp add: template_of_def template_segments_def)
  ultimately show ?thesis using rendered_scan [OF assms(1,3) t(1) assms(4,5)] q by simp
qed

definition sample_env :: "ymd literal_env" where
  "sample_env = \<lparr>le_chrono = stepping_calendar, le_timestamp_date = (\<lambda>_. None), le_show_date = (\<lambda>_. []), le_half = (\<lambda>n. n)\<rparr>"

text \<open>The text \<open>';#\<close> bound to the marker \<open>:a\<close>.\<close>

definition sample_batch :: parameter_batch where
  "sample_batch =
     \<lparr>pb_fields = [\<lparr>f_name = ''a'', f_data_type = DT_Utf8, f_nullable = True, f_metadata = Map.empty\<rparr>],
      pb_columns = [Flat \<lparr>a_type = DT_Utf8, a_data = TextData [Some [0x27, 0x3B, 0x23]]\<rparr>], pb_num_rows = 1\<rparr>"

lemma sample_row_renders:
  "render_row sample_env hd \<lparr>qt_query = sample_query, qt_segments = [(0, 2), (4, 9)],
         qt_slots = [\<lparr>ts_parameter = Named_Slot 0, ts_bare = False\<rparr>], qt_layout = Named [ascii ''a'']\<rparr> sample_batch 0 True =
   Ok (ascii ''v R'' @ [0x27, 0x27, 0x27, 0x3B, 0x23, 0x27] @ ascii '' -- ?'')"
  by code_simp

theorem rendered_row_is_inert_witness:
  "\<exists>scan'. scan_query (\<lambda>_. False) (ascii ''v R'' @ [0x27, 0x27, 0x27, 0x3B, 0x23, 0x27] @ ascii '' -- ?'') = Ok scan' \<and>
     qs_slots scan' = [] \<and> length (qs_statements scan') = 1 \<and> \<not> qs_has_data_change scan'"
proof -
  let ?scan = "\<lparr>qs_statements = [(0, 9)], qs_slots = [\<lparr>slot_start = 2, slot_end = 4, slot_name = Some (3, 4), slot_bare = False\<rparr>],
         qs_first_keyword = Some (0, 1), qs_has_data_change = False\<rparr>"
  have u: "utf8_valid sample_query" "ordinary sample_query ?scan" "separated sample_query (qs_slots ?scan)" by code_simp+
  have d: "dates_plain sample_env" by (simp add: dates_plain_def sample_env_def)
  have b: "batch_ok sample_batch" by (simp add: batch_ok_def sample_batch_def utf8_valid_ascii_Cons)
  from rendered_row_is_inert [OF u(1) sample_query_compile sample_query_scan u(2,3) d b sample_row_renders] show ?thesis by simp
qed

text \<open>
  A minus before a marker is excluded for a reason: the text of a negative double, which is not cast, then starts a
  comment. In the template the keyword \<open>DELETE\<close> is read, in the rendered text it is not.
\<close>

lemma minus_marker_opens_comment:
  "map_option qs_has_data_change (case scan_query (\<lambda>_. False) (ascii ''-? DELETE'') of Ok s \<Rightarrow> Some s | _ \<Rightarrow> None) = Some True"
  "rbind (compile_query (\<lambda>_. False) (ascii ''-? DELETE'')) (\<lambda>t.
     map_err (\<lambda>_. e_mixed) (render t (\<lambda>_. Ok (ascii ''-1e0'') :: (u8 list, unit) result))) = Ok (ascii ''--1e0 DELETE'')"
  "map_option qs_has_data_change (case scan_query (\<lambda>_. False) (ascii ''--1e0 DELETE'') of Ok s \<Rightarrow> Some s | _ \<Rightarrow> None) = Some False"
  by code_simp+

end
