(* ===== verification/Metadata.thy ===== *)
theory Metadata
  imports Like_Pattern Sql_Safe Decode
begin

text \<open>
  The catalog queries of \<open>crates/adbc-monetdb/src/driver/metadata.rs\<close>: the predicates and the texts of
  the queries, the loops that turn the rows of their results into schemas, tables, columns and
  constraints, the schema of a table, and the nested lists handed out by \<open>get_objects\<close>.

  The reader of a query is the argument \<open>run\<close>: it gives an error, or the items of the reader. The
  codes of the \<open>monetdb\<close> crate are the argument \<open>from_mapi_code\<close>. Arrays of a batch have as many
  values as the batch has rows, which \<open>RecordBatch\<close> guarantees.
\<close>

type_synonym run = "u8 list \<Rightarrow> ((batch, adbc_error) result list, adbc_error) result"

subsection \<open>Predicates\<close>

definition raw_string_literal :: "u8 list \<Rightarrow> (u8 list, metadata_error) result" where
  "raw_string_literal v = (if 0 \<in> set v then Err e_filter_nul else Ok (quote_raw_string v))"

definition like_predicate :: "string \<Rightarrow> u8 list option \<Rightarrow> (u8 list option, metadata_error) result" where
  "like_predicate column pattern =
     (case pattern of
        None \<Rightarrow> Ok None
      | Some pattern \<Rightarrow>
          rbind (validate_like_pattern pattern) (\<lambda>_.
          rbind (raw_string_literal pattern) (\<lambda>lit.
            Ok (Some (ascii column @ ascii '' LIKE '' @ lit @ ascii '' ESCAPE R'' @ [0x27, 0x5C, 0x27])))))"

fun join :: "u8 list \<Rightarrow> u8 list list \<Rightarrow> u8 list" where
  "join sep [] = []"
| "join sep [x] = x"
| "join sep (x # xs) = x @ sep @ join sep xs"

definition in_predicate :: "string \<Rightarrow> u8 list list option \<Rightarrow> (u8 list option, metadata_error) result" where
  "in_predicate column vals =
     (case vals of
        None \<Rightarrow> Ok None
      | Some vs \<Rightarrow>
          if vs = [] then Ok (Some (ascii ''FALSE''))
          else rbind (try_map raw_string_literal vs) (\<lambda>lits.
            Ok (Some (ascii column @ ascii '' IN ('' @ join (ascii '', '') lits @ ascii '')''))))"

text \<open>\<open>format!("WHERE {predicate}")\<close> and \<open>format!(" AND {predicate}")\<close>, empty without a predicate.\<close>

definition prefixed :: "string \<Rightarrow> u8 list option \<Rightarrow> u8 list" where
  "prefixed word predicate = (case predicate of None \<Rightarrow> [] | Some p \<Rightarrow> ascii word @ p)"

subsection \<open>Texts of the queries\<close>

definition schemas_query :: "u8 list option \<Rightarrow> (u8 list, metadata_error) result" where
  "schemas_query schema_filter =
     rbind (like_predicate ''name'' schema_filter) (\<lambda>predicate.
       Ok (ascii ''SELECT name FROM sys.schemas '' @ prefixed ''WHERE '' predicate @ ascii '' ORDER BY name''))"

definition tables_query ::
  "u8 list option \<Rightarrow> u8 list option \<Rightarrow> u8 list list option \<Rightarrow> (u8 list, metadata_error) result" where
  "tables_query schema_filter table_filter table_types =
     rbind (like_predicate ''s.name'' schema_filter) (\<lambda>schema_predicate.
     rbind (like_predicate ''t.name'' table_filter) (\<lambda>table_predicate.
     rbind (in_predicate ''tt.table_type_name'' table_types) (\<lambda>type_predicate.
       Ok (ascii ''SELECT s.name, t.name, t.table_type_name FROM sys.schemas AS s LEFT OUTER JOIN ('' @
           ascii ''SELECT t.*, tt.table_type_name FROM sys.tables AS t '' @
           ascii ''JOIN sys.table_types AS tt ON tt.table_type_id = t.type WHERE TRUE '' @
           prefixed '' AND '' table_predicate @ prefixed '' AND '' type_predicate @
           ascii '') AS t ON t.schema_id = s.id '' @ prefixed ''WHERE '' schema_predicate @
           ascii '' ORDER BY s.name, t.name''))))"

definition lines_text :: "string list \<Rightarrow> u8 list" where
  "lines_text ls = join [0x0A] (map ascii ls)"

definition objects_query ::
  "u8 list option \<Rightarrow> u8 list option \<Rightarrow> u8 list list option \<Rightarrow> u8 list option \<Rightarrow> (u8 list, metadata_error) result" where
  "objects_query schema_filter table_filter table_types column_filter =
     rbind (like_predicate ''s.name'' schema_filter) (\<lambda>schema_predicate.
     rbind (like_predicate ''t.name'' table_filter) (\<lambda>table_predicate.
     rbind (like_predicate ''c.name'' column_filter) (\<lambda>column_predicate.
     rbind (in_predicate ''tt.table_type_name'' table_types) (\<lambda>type_predicate.
       Ok (lines_text
            ['''',
             ''        SELECT s.name AS schema_name,'',
             ''               t.name AS table_name,'',
             ''               tt.table_type_name AS table_type,'',
             ''               c.name AS column_name,'',
             ''               c.number AS ordinal_position,'',
             ''               c.type AS type_name,'',
             ''               c.type_digits,'',
             ''               c.type_scale,'',
             ''               c.\"null\" AS is_nullable,'',
             ''               c.\"default\" AS column_default,'',
             ''               cm.remark'',
             ''          FROM sys.schemas AS s'',
             ''          LEFT OUTER JOIN ('',
             ''              SELECT t.*, tt.table_type_name'',
             ''                FROM sys.tables AS t'',
             ''                JOIN sys.table_types AS tt ON tt.table_type_id = t.type'',
             ''               WHERE TRUE ''] @
           prefixed '' AND '' table_predicate @ prefixed '' AND '' type_predicate @
           lines_text
            ['''',
             ''          ) AS t ON t.schema_id = s.id'',
             ''          LEFT OUTER JOIN sys.table_types AS tt ON tt.table_type_id = t.type'',
             ''          LEFT OUTER JOIN sys.columns AS c ON c.table_id = t.id''] @
           prefixed '' AND '' column_predicate @
           lines_text
            ['''',
             ''          LEFT OUTER JOIN sys.comments AS cm ON cm.id = c.id'',
             ''         ''] @
           prefixed ''WHERE '' schema_predicate @
           lines_text
            ['''',
             ''         ORDER BY s.name, t.name, c.number'',
             ''    ''])))))"

definition constraints_query ::
  "u8 list option \<Rightarrow> u8 list option \<Rightarrow> u8 list list option \<Rightarrow> (u8 list, metadata_error) result" where
  "constraints_query schema_filter table_filter table_types =
     rbind (like_predicate ''s.name'' schema_filter) (\<lambda>schema_predicate.
     rbind (like_predicate ''t.name'' table_filter) (\<lambda>table_predicate.
     rbind (in_predicate ''tt.table_type_name'' table_types) (\<lambda>type_predicate.
       let predicates = List.map_filter (\<lambda>p. p) [schema_predicate, table_predicate, type_predicate];
           where_clause = (if predicates = [] then [] else ascii ''WHERE '' @ join (ascii '' AND '') predicates)
       in Ok (lines_text
            ['''',
             ''        SELECT s.name AS schema_name,'',
             ''               t.name AS table_name,'',
             ''               k.name AS constraint_name,'',
             ''               k.type AS constraint_type,'',
             ''               kc.name AS column_name,'',
             ''               kc.nr AS column_number,'',
             ''               ps.name AS usage_schema,'',
             ''               pt.name AS usage_table,'',
             ''               pc.name AS usage_column'',
             ''          FROM sys.keys AS k'',
             ''          JOIN sys.tables AS t ON t.id = k.table_id'',
             ''          JOIN sys.schemas AS s ON s.id = t.schema_id'',
             ''          JOIN sys.table_types AS tt ON tt.table_type_id = t.type'',
             ''          LEFT OUTER JOIN sys.objects AS kc ON kc.id = k.id'',
             ''          LEFT OUTER JOIN sys.keys AS pk ON pk.id = k.rkey'',
             ''          LEFT OUTER JOIN sys.tables AS pt ON pt.id = pk.table_id'',
             ''          LEFT OUTER JOIN sys.schemas AS ps ON ps.id = pt.schema_id'',
             ''          LEFT OUTER JOIN sys.objects AS pc ON pc.id = pk.id AND pc.nr = kc.nr'',
             ''         ''] @ where_clause @
           lines_text
            ['''',
             ''         ORDER BY s.name, t.name, k.name, kc.nr'',
             ''    '']))))"

definition table_schema_query :: "u8 list \<Rightarrow> u8 list \<Rightarrow> (u8 list, metadata_error) result" where
  "table_schema_query schema_name table_name =
     rbind (raw_string_literal schema_name) (\<lambda>schema_text.
     rbind (raw_string_literal table_name) (\<lambda>table_text.
       Ok (lines_text
            ['''',
             ''        SELECT c.name, c.type, c.type_digits, c.type_scale, c.\"null\"'',
             ''          FROM sys.columns AS c'',
             ''          JOIN sys.tables AS t ON t.id = c.table_id'',
             ''          JOIN sys.schemas AS s ON s.id = t.schema_id'',
             ''         WHERE s.name = ''] @ schema_text @ ascii '' AND t.name = '' @ table_text @
           lines_text
            ['''',
             ''         ORDER BY c.number'',
             ''        ''])))"

subsection \<open>Columns of a result\<close>

text \<open>\<open>array_as\<close>: the column must be there, and of the type the loop reads.\<close>

definition column_at :: "batch \<Rightarrow> nat \<Rightarrow> (arrow_array, metadata_error) result" where
  "column_at b i = (if i < length (b_arrays b) then Ok (b_arrays b ! i) else Panic)"

definition texts_as :: "batch \<Rightarrow> nat \<Rightarrow> (u8 list option list, metadata_error) result" where
  "texts_as b i =
     rbind (column_at b i) (\<lambda>a.
       case (a_type a, a_data a) of (DT_Utf8, TextData xs) \<Rightarrow> Ok xs | _ \<Rightarrow> Err (Column_Type i))"

definition ints_as :: "batch \<Rightarrow> nat \<Rightarrow> (int list, metadata_error) result" where
  "ints_as b i =
     rbind (column_at b i) (\<lambda>a.
       case (a_type a, a_data a) of (DT_Int32, IntData p) \<Rightarrow> Ok (pvalues p) | _ \<Rightarrow> Err (Column_Type i))"

definition bools_as :: "batch \<Rightarrow> nat \<Rightarrow> (bool list, metadata_error) result" where
  "bools_as b i =
     rbind (column_at b i) (\<lambda>a.
       case (a_type a, a_data a) of (DT_Boolean, BoolData p) \<Rightarrow> Ok (pvalues p) | _ \<Rightarrow> Err (Column_Type i))"

text \<open>\<open>StringArray::value\<close>, which is empty where the value is NULL.\<close>

definition text_value :: "u8 list option \<Rightarrow> u8 list" where
  "text_value v = (case v of None \<Rightarrow> [] | Some t \<Rightarrow> t)"

subsection \<open>Schemas, tables and columns\<close>

record object_column =
  oc_name :: "u8 list"
  oc_ordinal :: int
  oc_remarks :: "u8 list option"
  oc_type_name :: "u8 list"
  oc_digits :: int
  oc_scale :: int
  oc_nullable :: bool
  oc_default_value :: "u8 list option"

record constraint_usage =
  cu_schema :: "u8 list"
  cu_table :: "u8 list"
  cu_column :: "u8 list"

record object_constraint =
  cn_name :: "u8 list option"
  cn_type :: string
  cn_columns :: "u8 list list"
  cn_usage :: "constraint_usage list option"

record object_table =
  ot_name :: "u8 list"
  ot_type :: "u8 list"
  ot_columns :: "object_column list"
  ot_constraints :: "object_constraint list"

record object_schema =
  os_name :: "u8 list"
  os_tables :: "object_table list"

text \<open>\<open>last_mut().expect(...)\<close> and a change of that element.\<close>

definition with_last :: "'a list \<Rightarrow> ('a \<Rightarrow> ('a, 'e) result) \<Rightarrow> ('a list, 'e) result" where
  "with_last xs f = (if xs = [] then Panic else rbind (f (last xs)) (\<lambda>x. Ok (butlast xs @ [x])))"

definition push_schema :: "u8 list \<Rightarrow> object_schema list \<Rightarrow> object_schema list" where
  "push_schema name schemas =
     (if schemas = [] \<or> os_name (last schemas) \<noteq> name then schemas @ [\<lparr>os_name = name, os_tables = []\<rparr>] else schemas)"

definition push_table :: "u8 list \<Rightarrow> u8 list \<Rightarrow> object_table list \<Rightarrow> object_table list" where
  "push_table name type_name tables =
     (if tables = [] \<or> ot_name (last tables) \<noteq> name
      then tables @ [\<lparr>ot_name = name, ot_type = type_name, ot_columns = [], ot_constraints = []\<rparr>]
      else tables)"

text \<open>One row of the result of \<open>objects_query\<close>.\<close>

record object_row =
  or_schema :: "u8 list"
  or_table :: "u8 list option"
  or_table_type :: "u8 list"
  or_column :: "u8 list option"
  or_ordinal :: int
  or_type_name :: "u8 list"
  or_digits :: int
  or_scale :: int
  or_nullable :: bool
  or_default :: "u8 list option"
  or_remark :: "u8 list option"

definition object_rows :: "batch \<Rightarrow> (object_row list, metadata_error) result" where
  "object_rows b =
     rbind (texts_as b 0) (\<lambda>schema_names.
     rbind (texts_as b 1) (\<lambda>table_names.
     rbind (texts_as b 2) (\<lambda>table_type_names.
     rbind (texts_as b 3) (\<lambda>column_names.
     rbind (ints_as b 4) (\<lambda>ordinals.
     rbind (texts_as b 5) (\<lambda>type_names.
     rbind (ints_as b 6) (\<lambda>digits.
     rbind (ints_as b 7) (\<lambda>scales.
     rbind (bools_as b 8) (\<lambda>nullable.
     rbind (texts_as b 9) (\<lambda>defaults.
     rbind (texts_as b 10) (\<lambda>remarks.
       Ok (map (\<lambda>row.
         \<lparr>or_schema = text_value (schema_names ! row), or_table = table_names ! row,
          or_table_type = text_value (table_type_names ! row), or_column = column_names ! row,
          or_ordinal = ordinals ! row, or_type_name = text_value (type_names ! row), or_digits = digits ! row,
          or_scale = scales ! row, or_nullable = nullable ! row, or_default = defaults ! row,
          or_remark = remarks ! row\<rparr>) [0..<b_rows b]))))))))))))"

definition column_of_row :: "object_row \<Rightarrow> u8 list \<Rightarrow> (object_column, metadata_error) result" where
  "column_of_row row name =
     (if in_signed 4 (or_ordinal row + 1)
      then Ok \<lparr>oc_name = name, oc_ordinal = or_ordinal row + 1, oc_remarks = or_remark row,
               oc_type_name = or_type_name row, oc_digits = or_digits row, oc_scale = or_scale row,
               oc_nullable = or_nullable row, oc_default_value = or_default row\<rparr>
      else Err Ordinal_Overflow)"

definition type_selected :: "u8 list list option \<Rightarrow> u8 list \<Rightarrow> bool" where
  "type_selected table_types t \<longleftrightarrow> (case table_types of None \<Rightarrow> True | Some ts \<Rightarrow> t \<in> set ts)"

definition add_column ::
  "u8 list option \<Rightarrow> object_row \<Rightarrow> object_table list \<Rightarrow> (object_table list, metadata_error) result" where
  "add_column column_filter row tables =
     (case or_column row of
        None \<Rightarrow> Ok tables
      | Some name \<Rightarrow>
          rbind (matches_filter column_filter name) (\<lambda>selected.
            if \<not> selected then Ok tables
            else with_last tables (\<lambda>table.
              rbind (column_of_row row name) (\<lambda>column. Ok (table\<lparr>ot_columns := ot_columns table @ [column]\<rparr>)))))"

definition add_object_row ::
  "u8 list option \<Rightarrow> u8 list option \<Rightarrow> u8 list list option \<Rightarrow> u8 list option \<Rightarrow>
   object_schema list \<Rightarrow> object_row \<Rightarrow> (object_schema list, metadata_error) result" where
  "add_object_row schema_filter table_filter table_types column_filter schemas row =
     rbind (matches_filter schema_filter (or_schema row)) (\<lambda>selected.
       if \<not> selected then Ok schemas
       else
         let schemas = push_schema (or_schema row) schemas
         in case or_table row of
              None \<Rightarrow> Ok schemas
            | Some table_name \<Rightarrow>
                rbind (matches_filter table_filter table_name) (\<lambda>selected.
                  if \<not> selected \<or> \<not> type_selected table_types (or_table_type row) then Ok schemas
                  else with_last schemas (\<lambda>schema.
                    rbind (add_column column_filter row (push_table table_name (or_table_type row) (os_tables schema))) (\<lambda>tables.
                      Ok (schema\<lparr>os_tables := tables\<rparr>)))))"

text \<open>\<open>for batch in &mut reader\<close>, with the loop over the rows of a batch as \<open>f\<close>.\<close>

definition each_batch ::
  "('s \<Rightarrow> batch \<Rightarrow> ('s, metadata_error) result) \<Rightarrow> 's \<Rightarrow> (batch, adbc_error) result list \<Rightarrow> ('s, metadata_error) result" where
  "each_batch f = try_fold (\<lambda>s item. rbind (map_err Reader_Error item) (f s))"

definition read_all ::
  "run \<Rightarrow> u8 list \<Rightarrow> ('s \<Rightarrow> batch \<Rightarrow> ('s, metadata_error) result) \<Rightarrow> 's \<Rightarrow> ('s, metadata_error) result" where
  "read_all run query f s = rbind (map_err Reader_Error (run query)) (each_batch f s)"

definition load_schemas :: "run \<Rightarrow> u8 list option \<Rightarrow> (object_schema list, metadata_error) result" where
  "load_schemas run schema_filter =
     rbind (schemas_query schema_filter) (\<lambda>query.
       read_all run query (\<lambda>schemas b.
         rbind (texts_as b 0) (\<lambda>names.
           Ok (schemas @ map (\<lambda>row. \<lparr>os_name = text_value (names ! row), os_tables = []\<rparr>) [0..<b_rows b]))) [])"

definition add_table_row ::
  "object_schema list \<Rightarrow> u8 list \<times> u8 list option \<times> u8 list \<Rightarrow> (object_schema list, metadata_error) result" where
  "add_table_row schemas row =
     (case row of (schema_name, table_name, table_type) \<Rightarrow>
        let schemas = push_schema schema_name schemas
        in case table_name of
             None \<Rightarrow> Ok schemas
           | Some name \<Rightarrow>
               with_last schemas (\<lambda>schema.
                 Ok (schema\<lparr>os_tables := os_tables schema @
                   [\<lparr>ot_name = name, ot_type = table_type, ot_columns = [], ot_constraints = []\<rparr>]\<rparr>)))"

definition load_tables ::
  "run \<Rightarrow> u8 list option \<Rightarrow> u8 list option \<Rightarrow> u8 list list option \<Rightarrow> (object_schema list, metadata_error) result" where
  "load_tables run schema_filter table_filter table_types =
     rbind (tables_query schema_filter table_filter table_types) (\<lambda>query.
       read_all run query (\<lambda>schemas b.
         rbind (texts_as b 0) (\<lambda>schema_names.
         rbind (texts_as b 1) (\<lambda>table_names.
         rbind (texts_as b 2) (\<lambda>table_type_names.
           try_fold add_table_row schemas
             (map (\<lambda>row. (text_value (schema_names ! row), table_names ! row, text_value (table_type_names ! row)))
                [0..<b_rows b]))))) [])"

subsection \<open>Constraints\<close>

definition constraint_type_name :: "int \<Rightarrow> string" where
  "constraint_type_name v =
     (if v = 0 then ''PRIMARY KEY'' else if v = 1 \<or> v = 3 then ''UNIQUE'' else if v = 2 then ''FOREIGN KEY''
      else if v = 4 then ''CHECK'' else ''UNKNOWN'')"

record constraint_row =
  cr_schema :: "u8 list"
  cr_table :: "u8 list"
  cr_name :: "u8 list option"
  cr_type :: int
  cr_column :: "u8 list option"
  cr_usage_schema :: "u8 list option"
  cr_usage_table :: "u8 list option"
  cr_usage_column :: "u8 list option"

definition constraint_rows :: "batch \<Rightarrow> (constraint_row list, metadata_error) result" where
  "constraint_rows b =
     rbind (texts_as b 0) (\<lambda>schema_names.
     rbind (texts_as b 1) (\<lambda>table_names.
     rbind (texts_as b 2) (\<lambda>constraint_names.
     rbind (ints_as b 3) (\<lambda>constraint_types.
     rbind (texts_as b 4) (\<lambda>column_names.
     rbind (texts_as b 6) (\<lambda>usage_schemas.
     rbind (texts_as b 7) (\<lambda>usage_tables.
     rbind (texts_as b 8) (\<lambda>usage_columns.
       Ok (map (\<lambda>row.
         \<lparr>cr_schema = text_value (schema_names ! row), cr_table = text_value (table_names ! row),
          cr_name = constraint_names ! row, cr_type = constraint_types ! row, cr_column = column_names ! row,
          cr_usage_schema = usage_schemas ! row, cr_usage_table = usage_tables ! row,
          cr_usage_column = usage_columns ! row\<rparr>) [0..<b_rows b])))))))))"

text \<open>The hash map from names to positions; a later entry replaces an earlier one.\<close>

definition table_positions :: "object_schema list \<Rightarrow> ((u8 list \<times> u8 list) \<times> nat \<times> nat) list" where
  "table_positions schemas =
     concat (map (\<lambda>(i, schema). map (\<lambda>(j, table). ((os_name schema, ot_name table), (i, j))) (List.enumerate 0 (os_tables schema)))
       (List.enumerate 0 schemas))"

definition table_indices :: "object_schema list \<Rightarrow> u8 list \<times> u8 list \<Rightarrow> (nat \<times> nat) option" where
  "table_indices schemas = map_of (rev (table_positions schemas))"

definition push_constraint :: "constraint_row \<Rightarrow> object_constraint list \<Rightarrow> object_constraint list" where
  "push_constraint row constraints =
     (let constraint_type = constraint_type_name (cr_type row)
      in if constraints = [] \<or> (cn_name (last constraints), cn_type (last constraints)) \<noteq> (cr_name row, constraint_type)
         then constraints @ [\<lparr>cn_name = cr_name row, cn_type = constraint_type, cn_columns = [],
                cn_usage = (if constraint_type = ''FOREIGN KEY'' then Some [] else None)\<rparr>]
         else constraints)"

definition fill_constraint :: "constraint_row \<Rightarrow> object_constraint \<Rightarrow> object_constraint" where
  "fill_constraint row c =
     c\<lparr>cn_columns := cn_columns c @ (case cr_column row of None \<Rightarrow> [] | Some name \<Rightarrow> [name]),
       cn_usage :=
         (case (cn_usage c, cr_usage_schema row, cr_usage_table row, cr_usage_column row) of
            (Some usage, Some us, Some ut, Some uc) \<Rightarrow> Some (usage @ [\<lparr>cu_schema = us, cu_table = ut, cu_column = uc\<rparr>])
          | (usage, _) \<Rightarrow> usage)\<rparr>"

definition add_constraint_row ::
  "(u8 list \<times> u8 list \<Rightarrow> (nat \<times> nat) option) \<Rightarrow> object_schema list \<Rightarrow> constraint_row \<Rightarrow>
   (object_schema list, metadata_error) result" where
  "add_constraint_row indices schemas row =
     (case indices (cr_schema row, cr_table row) of
        None \<Rightarrow> Ok schemas
      | Some (i, j) \<Rightarrow>
          if i < length schemas \<and> j < length (os_tables (schemas ! i))
          then
            let tables = os_tables (schemas ! i); table = tables ! j
            in rbind (with_last (push_constraint row (ot_constraints table)) (\<lambda>c. Ok (fill_constraint row c))) (\<lambda>constraints.
              Ok (schemas[i := (schemas ! i)\<lparr>os_tables := tables[j := table\<lparr>ot_constraints := constraints\<rparr>]\<rparr>]))
          else Panic)"

definition load_constraints ::
  "run \<Rightarrow> object_schema list \<Rightarrow> u8 list option \<Rightarrow> u8 list option \<Rightarrow> u8 list list option \<Rightarrow>
   (object_schema list, metadata_error) result" where
  "load_constraints run schemas schema_filter table_filter table_types =
     (let indices = table_indices schemas
      in rbind (constraints_query schema_filter table_filter table_types) (\<lambda>query.
           read_all run query (\<lambda>schemas b.
             rbind (constraint_rows b) (try_fold (add_constraint_row indices) schemas)) schemas))"

subsection \<open>Objects\<close>

datatype object_depth = All_Depth | Catalogs | Schemas | Tables | Columns

definition load_objects ::
  "run \<Rightarrow> object_depth \<Rightarrow> u8 list option \<Rightarrow> u8 list option \<Rightarrow> u8 list list option \<Rightarrow> u8 list option \<Rightarrow>
   (object_schema list, metadata_error) result" where
  "load_objects run depth schema_filter table_filter table_types column_filter =
     (if depth = Schemas then load_schemas run schema_filter
      else if depth = Tables then load_tables run schema_filter table_filter table_types
      else
        rbind (objects_query schema_filter table_filter table_types column_filter) (\<lambda>query.
        rbind (read_all run query (\<lambda>schemas b.
                 rbind (object_rows b)
                   (try_fold (add_object_row schema_filter table_filter table_types column_filter) schemas)) []) (\<lambda>schemas.
          load_constraints run schemas schema_filter table_filter table_types)))"

subsection \<open>The schema of a table\<close>

definition name_string :: "u8 list \<Rightarrow> string" where
  "name_string bs = map (\<lambda>b. char_of (unat b)) bs"

definition prepared_monet_type ::
  "(u8 list \<Rightarrow> monet_type option) \<Rightarrow> u8 list \<Rightarrow> int \<Rightarrow> int \<Rightarrow> (monet_type, metadata_error) result" where
  "prepared_monet_type from_mapi_code code digits scale =
     rbind (if eq_ignore_ascii_case code ''clob'' then Ok (MT_Varchar 0) else ok_or (from_mapi_code code) (Type_Error code)) (\<lambda>t.
       case t of
         MT_Decimal _ _ \<Rightarrow>
           (if \<not> (0 \<le> digits \<and> digits < 2 ^ 8) then Err (Metadata_Error ''prepared decimal precision is invalid'' InvalidData)
            else if \<not> (0 \<le> scale \<and> scale < 2 ^ 8) then Err (Metadata_Error ''prepared decimal scale is invalid'' InvalidData)
            else Ok (MT_Decimal (nat digits) (nat scale)))
       | MT_Varchar _ \<Rightarrow>
           (if 0 \<le> digits \<and> digits < 2 ^ 32 then Ok (MT_Varchar (nat digits))
            else Err (Metadata_Error ''prepared string width is invalid'' InvalidData))
       | _ \<Rightarrow> Ok t)"

definition prepared_arrow_field :: "u8 list \<Rightarrow> monet_type \<Rightarrow> (arrow_field, metadata_error) result" where
  "prepared_arrow_field name t = map_err (\<lambda>e. Field_Error e) (field_for_monet_type (name_string name) t)"

definition table_schema ::
  "run \<Rightarrow> (u8 list \<Rightarrow> monet_type option) \<Rightarrow> u8 list \<Rightarrow> u8 list \<Rightarrow> (arrow_field list, metadata_error) result" where
  "table_schema run from_mapi_code schema_name table_name =
     rbind (table_schema_query schema_name table_name) (\<lambda>query.
     rbind (read_all run query (\<lambda>fields b.
        rbind (texts_as b 0) (\<lambda>names.
        rbind (texts_as b 1) (\<lambda>type_names.
        rbind (ints_as b 2) (\<lambda>digits.
        rbind (ints_as b 3) (\<lambda>scales.
        rbind (bools_as b 4) (\<lambda>nullable.
        rbind (try_map (\<lambda>row.
            rbind (prepared_monet_type from_mapi_code (text_value (type_names ! row)) (digits ! row) (scales ! row)) (\<lambda>t.
            rbind (prepared_arrow_field (text_value (names ! row)) t) (\<lambda>field.
              Ok (field\<lparr>f_nullable := nullable ! row\<rparr>)))) [0..<b_rows b]) (\<lambda>new.
          Ok (fields @ new)))))))) []) (\<lambda>fields.
       if fields = [] then Err (Table_Missing schema_name table_name) else Ok fields))"

subsection \<open>Types of columns\<close>

record xdbc =
  x_data_type :: "int option"
  x_sql_data_type :: "int option"
  x_datetime_sub :: "int option"
  x_size :: "int option"
  x_decimal_digits :: "int option"
  x_radix :: "int option"
  x_char_length :: "int option"

definition one_of :: "u8 list \<Rightarrow> string list \<Rightarrow> bool" where
  "one_of name names \<longleftrightarrow> name \<in> set (map ascii names)"

definition month_interval_codes :: "int \<Rightarrow> int option \<times> int option \<times> int option" where
  "month_interval_codes digits =
     (if digits = 1 then (Some 101, Some 10, Some 1) else if digits = 2 then (Some 107, Some 10, Some 7)
      else if digits = 3 then (Some 102, Some 10, Some 2) else (None, Some 10, None))"

definition sec_interval_codes :: "int \<Rightarrow> int option \<times> int option \<times> int option" where
  "sec_interval_codes digits =
     (if digits = 4 then (Some 103, Some 10, Some 3) else if digits = 5 then (Some 108, Some 10, Some 8)
      else if digits = 6 then (Some 109, Some 10, Some 9) else if digits = 7 then (Some 110, Some 10, Some 10)
      else if digits = 8 then (Some 104, Some 10, Some 4) else if digits = 9 then (Some 111, Some 10, Some 11)
      else if digits = 10 then (Some 112, Some 10, Some 12) else if digits = 11 then (Some 105, Some 10, Some 5)
      else if digits = 12 then (Some 113, Some 10, Some 13) else if digits = 13 then (Some 106, Some 10, Some 6)
      else (None, Some 10, None))"

definition xdbc_codes :: "u8 list \<Rightarrow> int \<Rightarrow> int option \<times> int option \<times> int option" where
  "xdbc_codes name digits =
     (if one_of name [''boolean''] then (Some (- 7), Some (- 7), None)
      else if one_of name [''tinyint''] then (Some (- 6), Some (- 6), None)
      else if one_of name [''smallint''] then (Some 5, Some 5, None)
      else if one_of name [''int'', ''integer''] then (Some 4, Some 4, None)
      else if one_of name [''bigint''] then (Some (- 5), Some (- 5), None)
      else if one_of name [''hugeint''] then (Some 16384, Some 16384, None)
      else if one_of name [''decimal''] then (Some 3, Some 3, None)
      else if one_of name [''real''] then (Some 7, Some 7, None)
      else if one_of name [''double''] then (Some 8, Some 8, None)
      else if one_of name [''date''] then (Some 91, Some 9, Some 1)
      else if one_of name [''time'', ''timetz''] then (Some 92, Some 9, Some 2)
      else if one_of name [''timestamp'', ''timestamptz''] then (Some 93, Some 9, Some 3)
      else if one_of name [''blob''] then (Some (- 4), Some (- 4), None)
      else if one_of name [''char''] then (Some (- 8), Some (- 8), None)
      else if one_of name [''clob''] then (Some (- 10), Some (- 10), None)
      else if one_of name [''varchar''] then (Some (- 9), Some (- 9), None)
      else if one_of name [''uuid''] then (None, Some (- 11), None)
      else if one_of name [''day_interval''] then (None, Some 10, Some 3)
      else if one_of name [''month_interval''] then month_interval_codes digits
      else if one_of name [''sec_interval''] then sec_interval_codes digits
      else (None, None, None))"

definition xdbc_size :: "u8 list \<Rightarrow> int \<Rightarrow> int option" where
  "xdbc_size name digits =
     (if one_of name [''date''] then Some 10
      else if one_of name [''day_interval''] then Some 25
      else if one_of name [''month_interval''] then map_of [(1, 26), (2, 38), (3, 27)] digits
      else if one_of name [''sec_interval'']
      then map_of [(4, 25), (5, 36), (6, 41), (7, 47), (8, 26), (9, 39), (10, 45), (11, 28), (12, 44), (13, 30)] digits
      else if one_of name [''time'', ''timetz''] then Some 12
      else if one_of name [''timestamp'', ''timestamptz''] then Some 23
      else if one_of name [''uuid''] then Some 36
      else if 0 < digits then Some digits else None)"

definition xdbc_decimal_digits :: "u8 list \<Rightarrow> int \<Rightarrow> int \<Rightarrow> int option" where
  "xdbc_decimal_digits name digits scale =
     (if one_of name [''tinyint'', ''smallint'', ''int'', ''integer'', ''bigint'', ''hugeint'', ''day_interval'',
           ''month_interval'', ''sec_interval''] then Some 0
      else if one_of name [''decimal''] then int_try_from 2 scale
      else if one_of name [''real''] \<and> digits = 24 \<and> scale = 0 then Some 7
      else if one_of name [''double''] \<and> digits = 53 \<and> scale = 0 then Some 15
      else if one_of name [''real'', ''double''] then int_try_from 2 digits
      else if one_of name [''time'', ''timetz'', ''timestamp'', ''timestamptz'']
      then Option.bind (int_try_from 4 (digits - 1)) (int_try_from 2)
      else None)"

definition xdbc_radix :: "u8 list \<Rightarrow> int \<Rightarrow> int \<Rightarrow> int option" where
  "xdbc_radix name digits scale =
     (if one_of name [''tinyint'', ''smallint'', ''int'', ''integer'', ''bigint'', ''hugeint''] then Some 2
      else if one_of name [''decimal''] then Some 10
      else if one_of name [''real''] \<and> digits = 24 \<and> scale = 0 then Some 2
      else if one_of name [''double''] \<and> digits = 53 \<and> scale = 0 then Some 2
      else if one_of name [''real'', ''double''] then Some 10
      else None)"

definition xdbc_char_length :: "u8 list \<Rightarrow> int \<Rightarrow> int option" where
  "xdbc_char_length name digits =
     (let len = (if one_of name [''char'', ''varchar'', ''clob'', ''json'', ''url'', ''xml''] then int_try_from 4 (digits * 4)
                 else if one_of name [''blob''] then Some digits else None)
      in case len of Some n \<Rightarrow> (if 0 < n then Some n else None) | None \<Rightarrow> None)"

definition xdbc_type :: "object_column \<Rightarrow> xdbc" where
  "xdbc_type column =
     (let name = map to_ascii_lowercase (oc_type_name column); digits = oc_digits column; scale = oc_scale column
      in case xdbc_codes name digits of (data_type, sql_data_type, datetime_sub) \<Rightarrow>
           \<lparr>x_data_type = data_type, x_sql_data_type = sql_data_type, x_datetime_sub = datetime_sub,
            x_size = xdbc_size name digits, x_decimal_digits = xdbc_decimal_digits name digits scale,
            x_radix = xdbc_radix name digits scale, x_char_length = xdbc_char_length name digits\<rparr>)"

subsection \<open>The batch of objects\<close>

text \<open>
  The values of the nested builders: a list is NULL at the level where the depth ends. Fields 14 to
  18 of a column are always NULL and are one field here.
\<close>

record column_item =
  ci_name :: "u8 list"
  ci_ordinal :: int
  ci_remarks :: "u8 list option"
  ci_data_type :: "int option"
  ci_type_name :: "u8 list"
  ci_size :: "int option"
  ci_decimal_digits :: "int option"
  ci_radix :: "int option"
  ci_nullable :: int
  ci_default :: "u8 list option"
  ci_sql_data_type :: "int option"
  ci_datetime_sub :: "int option"
  ci_char_length :: "int option"
  ci_nullable_text :: string
  ci_scope :: "unit option list"

record usage_item =
  ui_catalog :: "u8 list"
  ui_usage :: constraint_usage

record constraint_item =
  ki_name :: "u8 list option"
  ki_type :: string
  ki_columns :: "u8 list list"
  ki_usage :: "usage_item list option"

record table_item =
  ti_name :: "u8 list"
  ti_type :: "u8 list"
  ti_columns :: "column_item list option"
  ti_constraints :: "constraint_item list option"

record schema_item =
  si_name :: "u8 list"
  si_tables :: "table_item list option"

definition append_object_column :: "object_column \<Rightarrow> column_item" where
  "append_object_column column =
     (let xdbc = xdbc_type column
      in \<lparr>ci_name = oc_name column, ci_ordinal = oc_ordinal column, ci_remarks = oc_remarks column,
          ci_data_type = x_data_type xdbc, ci_type_name = map to_ascii_uppercase (oc_type_name column),
          ci_size = x_size xdbc, ci_decimal_digits = x_decimal_digits xdbc, ci_radix = x_radix xdbc,
          ci_nullable = (if oc_nullable column then 1 else 0), ci_default = oc_default_value column,
          ci_sql_data_type = x_sql_data_type xdbc, ci_datetime_sub = x_datetime_sub xdbc,
          ci_char_length = x_char_length xdbc, ci_nullable_text = (if oc_nullable column then ''YES'' else ''NO''),
          ci_scope = replicate 5 None\<rparr>)"

definition append_object_constraint :: "u8 list \<Rightarrow> object_constraint \<Rightarrow> constraint_item" where
  "append_object_constraint catalog constraint =
     \<lparr>ki_name = cn_name constraint, ki_type = cn_type constraint, ki_columns = cn_columns constraint,
      ki_usage = map_option (map (\<lambda>usage. \<lparr>ui_catalog = catalog, ui_usage = usage\<rparr>)) (cn_usage constraint)\<rparr>"

definition append_object_table :: "u8 list \<Rightarrow> object_depth \<Rightarrow> object_table \<Rightarrow> table_item" where
  "append_object_table catalog depth table =
     \<lparr>ti_name = ot_name table, ti_type = ot_type table,
      ti_columns = (if depth = Tables then None else Some (map append_object_column (ot_columns table))),
      ti_constraints =
        (if depth = Tables then None else Some (map (append_object_constraint catalog) (ot_constraints table)))\<rparr>"

definition append_object_schema :: "u8 list \<Rightarrow> object_depth \<Rightarrow> object_schema \<Rightarrow> schema_item" where
  "append_object_schema catalog depth schema =
     \<lparr>si_name = os_name schema,
      si_tables = (if depth = Schemas then None else Some (map (append_object_table catalog depth) (os_tables schema)))\<rparr>"

definition objects_batch ::
  "u8 list \<Rightarrow> bool \<Rightarrow> object_depth \<Rightarrow> object_schema list \<Rightarrow> (u8 list \<times> schema_item list option) list" where
  "objects_batch catalog include_catalog depth schemas =
     (if include_catalog
      then [(catalog, if depth = Catalogs then None else Some (map (append_object_schema catalog depth) schemas))]
      else [])"

definition get_objects ::
  "run \<Rightarrow> u8 list \<Rightarrow> object_depth \<Rightarrow> u8 list option \<Rightarrow> u8 list option \<Rightarrow> u8 list option \<Rightarrow> u8 list list option \<Rightarrow>
   u8 list option \<Rightarrow> ((u8 list \<times> schema_item list option) list, metadata_error) result" where
  "get_objects run own_catalog depth catalog db_schema table_name table_type column_name =
     rbind (matches_filter catalog own_catalog) (\<lambda>include_catalog.
     rbind (if include_catalog \<and> depth \<noteq> Catalogs
            then load_objects run depth db_schema table_name table_type column_name else Ok []) (\<lambda>schemas.
       Ok (objects_batch own_catalog include_catalog depth schemas)))"

end
