(* ===== verification/Metadata_Objects.thy ===== *)
theory Metadata_Objects
  imports Metadata
begin

text \<open>
  What \<open>load_objects\<close> makes of the rows of its queries: the schemas, tables and columns it returns are
  the selected rows, grouped, whatever the batches the rows arrive in; the constraints change none of them.
\<close>

subsection \<open>Runs of equal elements\<close>

lemma remdups_adj_snoc:
  "remdups_adj (xs @ [x]) = (if xs = [] \<or> last xs \<noteq> x then remdups_adj xs @ [x] else remdups_adj xs)"
proof (cases xs rule: rev_cases)
  case (snoc ys y)
  then show ?thesis using remdups_adj_append_two [of ys y x] by simp
qed simp

lemma distinct_remdups_adj_prefix: "distinct (remdups_adj (xs @ ys)) \<Longrightarrow> distinct (remdups_adj xs)"
proof (induction ys rule: rev_induct)
  case (snoc y ys)
  then show ?case using remdups_adj_snoc [of "xs @ ys" y] by (auto split: if_splits)
qed simp

lemma last_filter_last: "xs \<noteq> [] \<Longrightarrow> P (last xs) \<Longrightarrow> filter P xs \<noteq> [] \<and> last (filter P xs) = last xs"
  by (cases xs rule: rev_cases) auto

lemma distinct_remdups_adj_filter: "distinct (remdups_adj xs) \<Longrightarrow> distinct (remdups_adj (filter P xs))"
proof (induction xs rule: rev_induct)
  case (snoc x xs)
  have d: "distinct (remdups_adj (filter P xs))" using snoc distinct_remdups_adj_prefix by blast
  show ?case
  proof (cases "P x")
    case True
    show ?thesis
    proof (cases "xs = [] \<or> last xs \<noteq> x")
      case new: True
      with snoc.prems have "x \<notin> set xs" by (auto simp: remdups_adj_snoc)
      with d True show ?thesis by (auto simp: remdups_adj_snoc)
    next
      case False
      with True have "filter P xs \<noteq> [] \<and> last (filter P xs) = x" using last_filter_last [of xs P] by auto
      with d True show ?thesis by (simp add: remdups_adj_snoc)
    qed
  qed (simp add: d)
qed simp

subsection \<open>What a catalog lists\<close>

definition table_keys :: "object_schema list \<Rightarrow> (u8 list \<times> u8 list) list" where
  "table_keys schemas = concat (map (\<lambda>s. map (\<lambda>t. (os_name s, ot_name t)) (os_tables s)) schemas)"

definition table_listing :: "u8 list \<Rightarrow> object_table list \<Rightarrow> ((u8 list \<times> u8 list) \<times> object_column) list" where
  "table_listing s tables = concat (map (\<lambda>t. map (Pair (s, ot_name t)) (ot_columns t)) tables)"

definition listing :: "object_schema list \<Rightarrow> ((u8 list \<times> u8 list) \<times> object_column) list" where
  "listing schemas = concat (map (\<lambda>s. table_listing (os_name s) (os_tables s)) schemas)"

lemma listing_simps [simp]:
  "table_listing s [] = []" "table_listing s (ts @ us) = table_listing s ts @ table_listing s us"
  "table_listing s [t] = map (Pair (s, ot_name t)) (ot_columns t)"
  "listing [] = []" "listing (xs @ ys) = listing xs @ listing ys" "listing [x] = table_listing (os_name x) (os_tables x)"
  "table_keys [] = []" "table_keys (xs @ ys) = table_keys xs @ table_keys ys"
  "table_keys [x] = map (\<lambda>t. (os_name x, ot_name t)) (os_tables x)"
  by (simp_all add: listing_def table_listing_def table_keys_def)

text \<open>The rows that pass the filters, and the column of such a row.\<close>

definition schema_selected :: "u8 list option \<Rightarrow> object_row \<Rightarrow> bool" where
  "schema_selected schema_filter row \<longleftrightarrow> matches_filter schema_filter (or_schema row) = Ok True"

definition table_selected :: "u8 list option \<Rightarrow> u8 list option \<Rightarrow> u8 list list option \<Rightarrow> object_row \<Rightarrow> bool" where
  "table_selected schema_filter table_filter table_types row \<longleftrightarrow>
     schema_selected schema_filter row \<and>
     (case or_table row of
        None \<Rightarrow> False
      | Some t \<Rightarrow> matches_filter table_filter t = Ok True \<and> type_selected table_types (or_table_type row))"

definition row_key :: "object_row \<Rightarrow> u8 list \<times> u8 list" where
  "row_key row = (or_schema row, text_value (or_table row))"

definition row_columns :: "u8 list option \<Rightarrow> object_row \<Rightarrow> ((u8 list \<times> u8 list) \<times> object_column) list" where
  "row_columns column_filter row =
     (case or_column row of
        None \<Rightarrow> []
      | Some name \<Rightarrow>
          if matches_filter column_filter name = Ok True
          then (case column_of_row row name of Ok column \<Rightarrow> [(row_key row, column)] | _ \<Rightarrow> []) else [])"

subsection \<open>One row\<close>

lemma with_last_Ok:
  "with_last xs f = Ok ys \<longleftrightarrow> xs \<noteq> [] \<and> (\<exists>y. f (last xs) = Ok y \<and> ys = butlast xs @ [y])"
  by (auto simp: with_last_def result_simps)

lemma push_schema_facts:
  "push_schema name schemas \<noteq> []" "os_name (last (push_schema name schemas)) = name"
  "listing (push_schema name schemas) = listing schemas" "table_keys (push_schema name schemas) = table_keys schemas"
  "map os_name (push_schema name schemas) =
     (if schemas = [] \<or> last (map os_name schemas) \<noteq> name then map os_name schemas @ [name] else map os_name schemas)"
  by (auto simp: push_schema_def last_map)

lemma push_table_facts:
  "push_table name tn tables \<noteq> []" "ot_name (last (push_table name tn tables)) = name"
  "table_listing s (push_table name tn tables) = table_listing s tables"
  "map ot_name (push_table name tn tables) =
     (if tables = [] \<or> last (map ot_name tables) \<noteq> name then map ot_name tables @ [name] else map ot_name tables)"
  by (auto simp: push_table_def last_map)

lemma add_column_listing:
  assumes "add_column cf row tables = Ok tables'" "tables \<noteq> []" "row_key row = (s, ot_name (last tables))"
  shows "table_listing s tables' = table_listing s tables @ row_columns cf row \<and> map ot_name tables' = map ot_name tables"
proof (cases "\<exists>name. or_column row = Some name \<and> matches_filter cf name = Ok True")
  case False
  with assms show ?thesis by (auto simp: add_column_def row_columns_def result_simps split: option.splits)
next
  case True
  then obtain name where n: "or_column row = Some name" "matches_filter cf name = Ok True" by blast
  with assms(1,2) obtain column where c: "column_of_row row name = Ok column"
    and t: "tables' = butlast tables @ [(last tables)\<lparr>ot_columns := ot_columns (last tables) @ [column]\<rparr>]"
    by (auto simp: add_column_def result_simps with_last_Ok)
  obtain ts u where "tables = ts @ [u]" using assms(2) by (cases tables rule: rev_cases) auto
  with n c t assms(3) show ?thesis by (simp add: row_columns_def)
qed

text \<open>A row whose table is selected, with the schema it belongs to.\<close>

lemma add_object_row_cases:
  assumes "add_object_row sf tf ty cf schemas row = Ok schemas'"
  obtains "\<not> schema_selected sf row" "schemas' = schemas"
  | "schema_selected sf row" "\<not> table_selected sf tf ty row" "schemas' = push_schema (or_schema row) schemas"
  | xs x tables where "table_selected sf tf ty row" "push_schema (or_schema row) schemas = xs @ [x]" "os_name x = or_schema row"
      "add_column cf row (push_table (text_value (or_table row)) (or_table_type row) (os_tables x)) = Ok tables"
      "schemas' = xs @ [x\<lparr>os_tables := tables\<rparr>]"
proof -
  from assms obtain m where m: "matches_filter sf (or_schema row) = Ok m" by (auto simp: add_object_row_def result_simps)
  show thesis
  proof (cases m)
    case False
    with assms m show thesis using that(1) by (simp add: add_object_row_def schema_selected_def)
  next
    case True
    have s: "schema_selected sf row" using m True by (simp add: schema_selected_def)
    show thesis
    proof (cases "table_selected sf tf ty row")
      case False
      with assms m True s show thesis using that(2) [OF s False]
        by (auto simp: add_object_row_def Let_def table_selected_def result_simps split: option.splits if_splits)
    next
      case t: True
      then obtain name where n: "or_table row = Some name" "matches_filter tf name = Ok True" "type_selected ty (or_table_type row)"
        by (auto simp: table_selected_def split: option.splits)
      obtain xs x where x: "push_schema (or_schema row) schemas = xs @ [x]"
        using push_schema_facts(1) by (metis rev_exhaust)
      have "os_name x = or_schema row" using push_schema_facts(2) [of "or_schema row" schemas] x by simp
      moreover from assms m True n x obtain tables where
        "add_column cf row (push_table name (or_table_type row) (os_tables x)) = Ok tables" "schemas' = xs @ [x\<lparr>os_tables := tables\<rparr>]"
        by (auto simp: add_object_row_def Let_def result_simps with_last_Ok)
      ultimately show thesis using that(3) [OF t x] n(1) by (simp add: text_value_def)
    qed
  qed
qed

lemma add_object_row_listing:
  assumes "add_object_row sf tf ty cf schemas row = Ok schemas'"
  shows "listing schemas' = listing schemas @ (if table_selected sf tf ty row then row_columns cf row else []) \<and>
    map os_name schemas' = (if schema_selected sf row \<and> (schemas = [] \<or> last (map os_name schemas) \<noteq> or_schema row)
       then map os_name schemas @ [or_schema row] else map os_name schemas)"
  using assms
proof (cases rule: add_object_row_cases)
  case 1
  then have "\<not> table_selected sf tf ty row" by (simp add: table_selected_def)
  with 1 show ?thesis by simp
next
  case 2
  then show ?thesis by (simp add: push_schema_facts)
next
  case (3 xs x tables)
  have l: "table_listing (or_schema row) tables = table_listing (or_schema row) (os_tables x) @ row_columns cf row"
    using add_column_listing [OF 3(4) push_table_facts(1)] by (simp add: push_table_facts row_key_def)
  have "listing schemas = listing xs @ table_listing (or_schema row) (os_tables x)"
    using push_schema_facts(3) [of "or_schema row" schemas] 3(2,3) by simp
  with l 3 have "listing schemas' = listing schemas @ (if table_selected sf tf ty row then row_columns cf row else [])" by simp
  moreover have "map os_name schemas' = map os_name (push_schema (or_schema row) schemas)" using 3(2,5) by simp
  moreover have "schema_selected sf row" using 3(1) by (simp add: table_selected_def)
  ultimately show ?thesis by (simp add: push_schema_facts)
qed

text \<open>
  When no schema name comes back, a table is new exactly when it is not the table of the selected row before.
\<close>

lemma add_object_row_keys:
  assumes "add_object_row sf tf ty cf schemas row = Ok schemas'" "distinct (map os_name schemas')"
  shows "table_keys schemas' =
    (if table_selected sf tf ty row \<and> (table_keys schemas = [] \<or> last (table_keys schemas) \<noteq> row_key row)
     then table_keys schemas @ [row_key row] else table_keys schemas)"
  using assms(1)
proof (cases rule: add_object_row_cases)
  case (3 xs x tables)
  let ?n = "text_value (or_table row)" and ?tag = "\<lambda>t. (or_schema row, t)"
  have k: "table_keys schemas = table_keys xs @ map ?tag (map ot_name (os_tables x))"
    using push_schema_facts(4) [of "or_schema row" schemas] 3(2,3) by (simp add: comp_def)
  have "map ot_name tables = map ot_name (push_table ?n (or_table_type row) (os_tables x))"
    using add_column_listing [OF 3(4) push_table_facts(1)] by (simp add: push_table_facts row_key_def)
  then have n: "map ot_name tables = (if os_tables x = [] \<or> last (map ot_name (os_tables x)) \<noteq> ?n
      then map ot_name (os_tables x) @ [?n] else map ot_name (os_tables x))" by (simp add: push_table_facts)
  have k': "table_keys schemas' = table_keys xs @ map ?tag (map ot_name tables)" using 3(3,5) by (simp add: comp_def)
  have "or_schema row \<notin> set (map os_name xs)" using assms(2) 3(3,5) by simp
  then have out: "row_key row \<notin> set (table_keys xs)" by (auto simp: table_keys_def row_key_def)
  show ?thesis
  proof (cases "os_tables x = []")
    case True
    then have "table_keys schemas = table_keys xs" using k by simp
    moreover have "table_keys xs = [] \<or> last (table_keys xs) \<noteq> row_key row" using out last_in_set by fastforce
    ultimately show ?thesis using True n k' 3(1) by (simp add: row_key_def)
  next
    case False
    then have "last (table_keys schemas) = (or_schema row, last (map ot_name (os_tables x)))" "table_keys schemas \<noteq> []"
      using k by (simp_all add: last_map)
    with False n k k' 3(1) show ?thesis by (simp add: row_key_def)
  qed
qed (simp_all add: table_selected_def push_schema_facts)

subsection \<open>All rows\<close>

lemma try_fold_append: "try_fold f s (xs @ ys) = rbind (try_fold f s xs) (\<lambda>s. try_fold f s ys)"
  by (induction xs arbitrary: s) (simp_all add: rbind_assoc)

lemma each_batch_rows:
  assumes "try_map rows_of batches = Ok rowss"
  shows "each_batch (\<lambda>s b. rbind (rows_of b) (try_fold g s)) s (map Ok batches) = try_fold g s (concat rowss)"
  using assms
proof (induction batches arbitrary: s rowss)
  case (Cons b batches)
  then obtain rows rowss' where "rows_of b = Ok rows" "try_map rows_of batches = Ok rowss'" "rowss = rows # rowss'"
    by (auto simp: result_simps)
  with Cons.IH show ?case by (simp add: each_batch_def try_fold_append)
qed (simp add: each_batch_def)

lemma schema_groups_filter:
  "distinct (remdups_adj (map or_schema rows)) \<Longrightarrow> distinct (remdups_adj (map or_schema (filter (schema_selected sf) rows)))"
proof -
  have "map or_schema (filter (schema_selected sf) rows) = filter (\<lambda>n. matches_filter sf n = Ok True) (map or_schema rows)"
    by (induction rows) (simp_all add: schema_selected_def)
  then show "distinct (remdups_adj (map or_schema rows)) \<Longrightarrow> ?thesis"
    using distinct_remdups_adj_filter by metis
qed

lemma object_rows_grouped:
  assumes "try_fold (add_object_row sf tf ty cf) [] rows = Ok schemas" "distinct (remdups_adj (map or_schema rows))"
  shows "map os_name schemas = remdups_adj (map or_schema (filter (schema_selected sf) rows)) \<and>
    table_keys schemas = remdups_adj (map row_key (filter (table_selected sf tf ty) rows)) \<and>
    listing schemas = concat (map (row_columns cf) (filter (table_selected sf tf ty) rows))"
  using assms
proof (induction rows arbitrary: schemas rule: rev_induct)
  case (snoc row rows)
  from snoc.prems(1) obtain mid where mid: "try_fold (add_object_row sf tf ty cf) [] rows = Ok mid"
    and step: "add_object_row sf tf ty cf mid row = Ok schemas"
    by (auto simp: try_fold_append result_simps)
  have "distinct (remdups_adj (map or_schema rows))"
    using snoc.prems(2) distinct_remdups_adj_prefix [of "map or_schema rows"] by simp
  note IH = snoc.IH [OF mid this]
  let ?names = "map or_schema (filter (schema_selected sf) rows)" and ?keys = "map row_key (filter (table_selected sf tf ty) rows)"
  have ln: "mid = [] \<longleftrightarrow> ?names = []" "mid \<noteq> [] \<Longrightarrow> last (map os_name mid) = last ?names"
    using IH by (metis map_is_Nil_conv remdups_adj_Nil_iff, metis last_remdups_adj)
  have names: "map os_name schemas = remdups_adj (map or_schema (filter (schema_selected sf) (rows @ [row])))"
    using add_object_row_listing [OF step] IH ln by (auto simp: remdups_adj_snoc)
  then have "distinct (map os_name schemas)" using schema_groups_filter [OF snoc.prems(2), of sf] by simp
  note keys = add_object_row_keys [OF step this]
  have lk: "table_keys mid = [] \<longleftrightarrow> ?keys = []" "table_keys mid \<noteq> [] \<Longrightarrow> last (table_keys mid) = last ?keys"
    using IH by (metis remdups_adj_Nil_iff, metis last_remdups_adj)
  have "table_keys schemas = remdups_adj (map row_key (filter (table_selected sf tf ty) (rows @ [row])))"
    using keys IH lk by (auto simp: remdups_adj_snoc)
  moreover have "listing schemas = concat (map (row_columns cf) (filter (table_selected sf tf ty) (rows @ [row])))"
    using add_object_row_listing [OF step] IH by simp
  ultimately show ?case using names by blast
qed simp

text \<open>With validated filters and ordinals below the largest, every row is added.\<close>

lemma validated_matches:
  assumes "validate_like_pattern p = Ok ()"
  shows "\<exists>b. like_pattern_matches p v = Ok b"
proof -
  obtain ts where "char_chunks p = concat (map spell ts)"
    using assms valid_spelled [of "char_chunks p"] by (auto simp: validate_like_pattern_def)
  then show ?thesis
    by (simp add: like_pattern_matches_def validate_like_pattern_def spelled_valid spelled_tokens Let_def)
qed

lemma like_predicate_valid: "like_predicate c f = Ok p \<Longrightarrow> \<exists>b. matches_filter f v = Ok b"
  using validated_matches by (auto simp: like_predicate_def matches_filter_def result_simps split: option.splits)

lemma objects_query_valid:
  assumes "objects_query sf tf ty cf = Ok query"
  shows "\<exists>b. matches_filter sf v = Ok b" "\<exists>b. matches_filter tf v = Ok b" "\<exists>b. matches_filter cf v = Ok b"
  using assms unfolding objects_query_def by (elim rbind_OkE, blast intro: like_predicate_valid)+

lemma add_object_row_total:
  assumes q: "objects_query sf tf ty cf = Ok query" and o: "in_signed 4 (or_ordinal row + 1)"
  shows "\<exists>schemas'. add_object_row sf tf ty cf schemas row = Ok schemas'"
proof -
  have col: "\<exists>tables'. add_column cf row tables = Ok tables'" if t: "tables \<noteq> []" for tables
  proof (cases "or_column row")
    case (Some name)
    obtain m where "matches_filter cf name = Ok m" using objects_query_valid(3) [OF q] by blast
    with Some t o show ?thesis by (cases m) (simp_all add: add_column_def with_last_def column_of_row_def)
  qed (simp add: add_column_def)
  obtain m where m: "matches_filter sf (or_schema row) = Ok m" using objects_query_valid(1) [OF q] by blast
  show ?thesis
  proof (cases "m \<and> or_table row \<noteq> None")
    case False
    with m show ?thesis by (cases m) (simp_all add: add_object_row_def Let_def)
  next
    case True
    then obtain name where n: "or_table row = Some name" by blast
    obtain t where t: "matches_filter tf name = Ok t" using objects_query_valid(2) [OF q] by blast
    obtain tables where "add_column cf row (push_table name (or_table_type row) (os_tables (last (push_schema (or_schema row) schemas)))) = Ok tables"
      using col push_table_facts(1) by blast
    with m n t True show ?thesis
      by (cases "t \<and> type_selected ty (or_table_type row)") (simp_all add: add_object_row_def Let_def with_last_def push_schema_facts(1))
  qed
qed

lemma object_rows_total:
  assumes "objects_query sf tf ty cf = Ok query" "\<forall>row \<in> set rows. in_signed 4 (or_ordinal row + 1)"
  shows "\<exists>schemas'. try_fold (add_object_row sf tf ty cf) schemas rows = Ok schemas'"
  using assms(2)
proof (induction rows arbitrary: schemas)
  case (Cons row rows)
  then obtain s' where "add_object_row sf tf ty cf schemas row = Ok s'"
    using add_object_row_total [OF assms(1)] by (meson list.set_intros(1))
  with Cons show ?case by simp
qed simp

subsection \<open>Constraints\<close>

text \<open>A schema without its constraints; the listings read nothing else.\<close>

definition bare :: "object_schema \<Rightarrow> u8 list \<times> (u8 list \<times> object_column list) list" where
  "bare s = (os_name s, map (\<lambda>t. (ot_name t, ot_columns t)) (os_tables s))"

lemma bare_listing:
  "map os_name schemas = map fst (map bare schemas)"
  "table_keys schemas = concat (map (\<lambda>(s, ts). map (\<lambda>(t, _). (s, t)) ts) (map bare schemas))"
  "listing schemas = concat (map (\<lambda>(s, ts). concat (map (\<lambda>(t, cs). map (Pair (s, t)) cs) ts)) (map bare schemas))"
  by (simp_all add: bare_def table_keys_def listing_def table_listing_def comp_def split_beta)

lemma push_constraint_nonempty: "push_constraint row cs \<noteq> []"
  by (auto simp: push_constraint_def Let_def)

definition in_range :: "(u8 list \<times> u8 list \<Rightarrow> (nat \<times> nat) option) \<Rightarrow> object_schema list \<Rightarrow> bool" where
  "in_range indices schemas \<longleftrightarrow>
     (\<forall>k i j. indices k = Some (i, j) \<longrightarrow> i < length schemas \<and> j < length (os_tables (schemas ! i)))"

lemma table_indices_range: "in_range (table_indices schemas) schemas"
proof -
  have "i < length schemas \<and> j < length (os_tables (schemas ! i))" if "table_indices schemas k = Some (i, j)" for k i j
  proof -
    from that have "(k, i, j) \<in> set (table_positions schemas)" by (auto simp: table_indices_def dest: map_of_SomeD)
    then show ?thesis by (auto simp: table_positions_def in_set_enumerate_eq)
  qed
  then show ?thesis by (simp add: in_range_def)
qed

lemma in_range_bare:
  assumes "map bare schemas' = map bare schemas" "in_range indices schemas"
  shows "in_range indices schemas'"
proof -
  have l: "length schemas' = length schemas" using assms(1) by (metis length_map)
  have "length (os_tables (schemas' ! i)) = length (os_tables (schemas ! i))" if "i < length schemas" for i
  proof -
    have "bare (schemas' ! i) = bare (schemas ! i)" using assms(1) that l by (metis nth_map)
    then have "map (\<lambda>t. (ot_name t, ot_columns t)) (os_tables (schemas' ! i)) = map (\<lambda>t. (ot_name t, ot_columns t)) (os_tables (schemas ! i))"
      by (simp add: bare_def)
    then show ?thesis by (rule map_eq_imp_length_eq)
  qed
  with assms(2) l show ?thesis by (simp add: in_range_def)
qed

lemma add_constraint_row_bare:
  assumes "in_range indices schemas"
  shows "\<exists>schemas'. add_constraint_row indices schemas row = Ok schemas' \<and> map bare schemas' = map bare schemas"
proof (cases "indices (cr_schema row, cr_table row)")
  case None
  then show ?thesis by (simp add: add_constraint_row_def)
next
  case (Some p)
  obtain i j where p: "p = (i, j)" by fastforce
  have ij: "i < length schemas" "j < length (os_tables (schemas ! i))" using assms Some p by (auto simp: in_range_def)
  let ?tables = "os_tables (schemas ! i)"
  obtain cs where cs: "with_last (push_constraint row (ot_constraints (?tables ! j))) (\<lambda>c. Ok (fill_constraint row c)) = (Ok cs :: (_, metadata_error) result)"
    by (simp add: with_last_def push_constraint_nonempty)
  let ?s = "(schemas ! i)\<lparr>os_tables := ?tables[j := (?tables ! j)\<lparr>ot_constraints := cs\<rparr>]\<rparr>"
  have "map (\<lambda>t. (ot_name t, ot_columns t)) (?tables[j := (?tables ! j)\<lparr>ot_constraints := cs\<rparr>]) = map (\<lambda>t. (ot_name t, ot_columns t)) ?tables"
    using ij(2) by (simp add: map_update list_update_same_conv)
  then have b: "bare ?s = bare (schemas ! i)" by (simp add: bare_def)
  then have "map bare (schemas[i := ?s]) = map bare schemas"
    using ij(1) by (simp add: map_update list_update_same_conv)
  moreover have "add_constraint_row indices schemas row = Ok (schemas[i := ?s])"
    using Some p ij cs by (simp add: add_constraint_row_def Let_def)
  ultimately show ?thesis by blast
qed

lemma constraint_rows_bare:
  "in_range indices schemas \<Longrightarrow>
   \<exists>schemas'. try_fold (add_constraint_row indices) schemas rows = Ok schemas' \<and> map bare schemas' = map bare schemas"
proof (induction rows arbitrary: schemas)
  case (Cons row rows)
  obtain mid where m: "add_constraint_row indices schemas row = Ok mid" "map bare mid = map bare schemas"
    using add_constraint_row_bare [OF Cons.prems] by blast
  with Cons.IH [OF in_range_bare [OF m(2) Cons.prems]] show ?case by auto
qed simp

text \<open>
  C34 (catalog listing). Let the filters be accepted, the server answer both queries, and the rows of
  the objects query keep the rows of a schema together. Then \<open>load_objects\<close> succeeds, whatever the
  batches: it returns every schema of the selected rows once, in their order; under it every table of
  the selected rows, one for each run of rows; and the columns of the selected rows, each in its table
  and in order. Reading the constraints fails at no row and changes none of these.
\<close>

theorem load_objects_lists_rows:
  assumes depth: "depth = Columns \<or> depth = All_Depth"
    and query: "objects_query sf tf ty cf = Ok query" "run query = Ok (map Ok batches)" "try_map object_rows batches = Ok rowss"
    and keys: "constraints_query sf tf ty = Ok key_query" "run key_query = Ok (map Ok key_batches)"
      "try_map constraint_rows key_batches = Ok key_rowss"
    and rows: "\<forall>row \<in> set (concat rowss). in_signed 4 (or_ordinal row + 1)"
      "distinct (remdups_adj (map or_schema (concat rowss)))"
  shows "\<exists>schemas. load_objects run depth sf tf ty cf = Ok schemas \<and>
    map os_name schemas = remdups_adj (map or_schema (filter (schema_selected sf) (concat rowss))) \<and>
    distinct (map os_name schemas) \<and>
    table_keys schemas = remdups_adj (map row_key (filter (table_selected sf tf ty) (concat rowss))) \<and>
    listing schemas = concat (map (row_columns cf) (filter (table_selected sf tf ty) (concat rowss)))"
proof -
  obtain mid where mid: "try_fold (add_object_row sf tf ty cf) [] (concat rowss) = Ok mid"
    using object_rows_total [OF query(1) rows(1)] by blast
  note grouped = object_rows_grouped [OF mid rows(2)]
  obtain schemas where s: "try_fold (add_constraint_row (table_indices mid)) mid (concat key_rowss) = Ok schemas"
    and b: "map bare schemas = map bare mid"
    using constraint_rows_bare [OF table_indices_range] by blast
  have "read_all run query (\<lambda>schemas b. rbind (object_rows b) (try_fold (add_object_row sf tf ty cf) schemas)) [] = Ok mid"
    using query(2) mid by (simp add: read_all_def each_batch_rows [OF query(3)])
  moreover have "load_constraints run mid sf tf ty = Ok schemas"
    using keys(1,2) s by (simp add: load_constraints_def Let_def read_all_def each_batch_rows [OF keys(3)])
  ultimately have "load_objects run depth sf tf ty cf = Ok schemas"
    using depth query(1) by (auto simp: load_objects_def)
  moreover have "map os_name schemas = map os_name mid" "table_keys schemas = table_keys mid" "listing schemas = listing mid"
    unfolding bare_listing b by simp_all
  ultimately show ?thesis using grouped schema_groups_filter [OF rows(2), of sf] by auto
qed

definition text_column :: "u8 list option list \<Rightarrow> arrow_array" where
  "text_column xs = \<lparr>a_type = DT_Utf8, a_data = TextData xs\<rparr>"

definition int_column :: "int list \<Rightarrow> arrow_array" where
  "int_column xs = \<lparr>a_type = DT_Int32, a_data = IntData \<lparr>pvalues = xs, pvalidity = None\<rparr>\<rparr>"

text \<open>A schema with one table of two columns.\<close>

definition sample_objects :: batch where
  "sample_objects =
     \<lparr>b_schema = [],
      b_arrays =
        [text_column (replicate 2 (Some (ascii ''sys''))), text_column (replicate 2 (Some (ascii ''t''))),
         text_column (replicate 2 (Some (ascii ''TABLE''))), text_column [Some (ascii ''a''), Some (ascii ''b'')],
         int_column [0, 1], text_column (replicate 2 (Some (ascii ''int''))), int_column [31, 31], int_column [0, 0],
         \<lparr>a_type = DT_Boolean, a_data = BoolData \<lparr>pvalues = [True, False], pvalidity = None\<rparr>\<rparr>,
         text_column [None, None], text_column [None, None]],
      b_rows = 2\<rparr>"

definition sample_run :: run where
  "sample_run q = Ok (if Ok q = objects_query (Some (ascii ''s%'')) None None None then [Ok sample_objects] else [])"

lemma sample_queries_differ:
  "objects_query (Some (ascii ''s%'')) None None None \<noteq> constraints_query (Some (ascii ''s%'')) None None"
  by code_simp

lemma sample_objects_rows:
  "case object_rows sample_objects of
     Ok rows \<Rightarrow> (\<forall>row \<in> set rows. in_signed 4 (or_ordinal row + 1)) \<and> distinct (remdups_adj (map or_schema rows)) \<and>
       remdups_adj (map or_schema (filter (schema_selected (Some (ascii ''s%''))) rows)) = [ascii ''sys'']
   | _ \<Rightarrow> False"
  by code_simp

theorem load_objects_lists_rows_witness:
  "\<exists>schemas. load_objects sample_run Columns (Some (ascii ''s%'')) None None None = Ok schemas \<and>
     map os_name schemas = [ascii ''sys'']"
proof -
  let ?sf = "Some (ascii ''s%'')"
  have v: "validate_like_pattern (ascii ''s%'') = Ok ()" "0 \<notin> set (ascii ''s%'')" by code_simp+
  obtain query where q: "objects_query ?sf None None None = Ok query"
    using v by (simp add: objects_query_def like_predicate_def raw_string_literal_def in_predicate_def)
  obtain key_query where k: "constraints_query ?sf None None = Ok key_query"
    using v by (simp add: constraints_query_def like_predicate_def raw_string_literal_def in_predicate_def Let_def)
  have run: "sample_run query = Ok (map Ok [sample_objects])" "sample_run key_query = Ok (map Ok [])"
    using q k sample_queries_differ by (auto simp: sample_run_def)
  obtain rows where rows: "object_rows sample_objects = Ok rows" and r: "\<forall>row \<in> set rows. in_signed 4 (or_ordinal row + 1)"
      "distinct (remdups_adj (map or_schema rows))" "remdups_adj (map or_schema (filter (schema_selected ?sf) rows)) = [ascii ''sys'']"
    using sample_objects_rows by (auto split: result.splits)
  have t: "try_map object_rows [sample_objects] = Ok [rows]" "try_map constraint_rows [] = Ok []" using rows by simp_all
  have c: "concat [rows] = rows" by simp
  show ?thesis
    using load_objects_lists_rows [OF _ q run(1) t(1) k run(2) t(2), unfolded c, OF _ r(1,2), of Columns] r(3) by auto
qed

end
