(* ===== verification/Metadata_Safe.thy ===== *)
theory Metadata_Safe
  imports Metadata
begin

text \<open>
  The catalog queries read the same whatever the filters: each one is a single statement without
  markers that changes no data. The texts of the queries are read as tokens once and for all, line by
  line; the filters only ever stand inside raw strings between such tokens.
\<close>

subsection \<open>Constant texts\<close>

function sql_atoms :: "u8 list \<Rightarrow> atom list" where
  "sql_atoms [] = []"
| "sql_atoms (b # bs) =
     (if is_identifier_start b
      then A_Word (takeWhile is_identifier_continue (b # bs)) # sql_atoms (dropWhile is_identifier_continue bs)
      else if b = 0x22 \<and> dropWhile is_identifier_continue bs \<noteq> [] \<and> hd (dropWhile is_identifier_continue bs) = 0x22
      then A_Ident (takeWhile is_identifier_continue bs) # sql_atoms (tl (dropWhile is_identifier_continue bs))
      else A_Plain b # sql_atoms bs)"
  by pat_completeness auto
termination
  by (relation "measure length")
    (auto simp: le_imp_less_Suc length_dropWhile_le intro: le_less_trans [OF diff_le_self] )

lemma sql_atoms_text: "atoms_text (sql_atoms v) = v"
proof (induction v rule: sql_atoms.induct)
  case (2 b bs)
  consider "is_identifier_start b"
    | "\<not> is_identifier_start b" "b = 0x22" "dropWhile is_identifier_continue bs \<noteq> []" "hd (dropWhile is_identifier_continue bs) = 0x22"
    | "\<not> is_identifier_start b" "\<not> (b = 0x22 \<and> dropWhile is_identifier_continue bs \<noteq> [] \<and> hd (dropWhile is_identifier_continue bs) = 0x22)"
    by blast
  then show ?case
  proof cases
    case 1
    then have "is_identifier_continue b" by (simp add: is_identifier_continue_def)
    with 1 2(1) show ?thesis by (simp add: atoms_text_simps)
  next
    case c: 2
    have "takeWhile is_identifier_continue bs @ 0x22 # tl (dropWhile is_identifier_continue bs) = bs"
      using c(3,4) by (metis list.collapse takeWhile_dropWhile_id)
    with c 2(2) show ?thesis by (simp add: atoms_text_simps)
  next
    case 3
    with 2(3) show ?thesis by (auto simp: atoms_text_simps)
  qed
qed (simp add: atoms_text_simps)

text \<open>Tokens that end where the next one starts, and a last one that anything may follow.\<close>

fun chained :: "atom list \<Rightarrow> bool" where
  "chained [] = True"
| "chained [a] = (atom_ok a \<and> (case a of A_Plain c \<Rightarrow> c \<noteq> 0x2D | _ \<Rightarrow> False))"
| "chained (a # b # as) = (atom_ok a \<and> follow a (atom_text b) \<and> chained (b # as))"

lemma chained_ok: "chained (a # as) \<Longrightarrow> atom_ok a"
  by (cases as) auto

lemma follow_hd: "follow a t \<Longrightarrow> t \<noteq> [] \<Longrightarrow> follow a (t @ z)"
  by (cases a) auto

lemma chained_linked: "chained as \<Longrightarrow> linked as z"
proof (induction as rule: chained.induct)
  case (3 a b as)
  then have "atom_text b \<noteq> []" using chained_ok atom_text_nonempty by auto
  with 3 follow_hd [of a "atom_text b" "atoms_text as @ z"] show ?case by (simp add: atoms_text_simps del: atom_ok.simps follow.simps)
qed (auto simp: atoms_text_simps split: atom.splits)

lemma closed_const: "chained (sql_atoms v) \<Longrightarrow> closed_text v"
  unfolding closed_text_def using sql_atoms_text chained_linked by metis

definition closed_line :: "string \<Rightarrow> bool" where
  "closed_line l \<longleftrightarrow> chained (sql_atoms (ascii l @ [0x0A]))"

lemma closed_lines:
  assumes "list_all closed_line ls" "closed_text (ascii l)"
  shows "closed_text (lines_text (ls @ [l]))"
  using assms(1)
proof (induction ls)
  case (Cons k ls)
  have "lines_text ((k # ls) @ [l]) = (ascii k @ [0x0A]) @ lines_text (ls @ [l])"
    by (cases ls) (simp_all add: lines_text_def)
  with Cons show ?case by (simp add: closed_append [OF closed_const] closed_line_def del: append_assoc)
qed (simp add: lines_text_def assms(2))

text \<open>The characters that occur, each classified once.\<close>

lemma char_codes:
  "word_of_nat (of_char (CHR '' '')) = (0x20 :: u8)" "word_of_nat (of_char (CHR 0x22)) = (0x22 :: u8)"
  "word_of_nat (of_char (CHR ''('')) = (0x28 :: u8)" "word_of_nat (of_char (CHR '')'')) = (0x29 :: u8)"
  "word_of_nat (of_char (CHR ''*'')) = (0x2A :: u8)" "word_of_nat (of_char (CHR '','')) = (0x2C :: u8)"
  "word_of_nat (of_char (CHR ''.'')) = (0x2E :: u8)" "word_of_nat (of_char (CHR ''='')) = (0x3D :: u8)"
  "word_of_nat (of_char (CHR ''A'')) = (0x41 :: u8)" "word_of_nat (of_char (CHR ''B'')) = (0x42 :: u8)"
  "word_of_nat (of_char (CHR ''C'')) = (0x43 :: u8)" "word_of_nat (of_char (CHR ''D'')) = (0x44 :: u8)"
  "word_of_nat (of_char (CHR ''E'')) = (0x45 :: u8)" "word_of_nat (of_char (CHR ''F'')) = (0x46 :: u8)"
  "word_of_nat (of_char (CHR ''G'')) = (0x47 :: u8)" "word_of_nat (of_char (CHR ''H'')) = (0x48 :: u8)"
  "word_of_nat (of_char (CHR ''I'')) = (0x49 :: u8)" "word_of_nat (of_char (CHR ''J'')) = (0x4A :: u8)"
  "word_of_nat (of_char (CHR ''K'')) = (0x4B :: u8)" "word_of_nat (of_char (CHR ''L'')) = (0x4C :: u8)"
  "word_of_nat (of_char (CHR ''M'')) = (0x4D :: u8)" "word_of_nat (of_char (CHR ''N'')) = (0x4E :: u8)"
  "word_of_nat (of_char (CHR ''O'')) = (0x4F :: u8)" "word_of_nat (of_char (CHR ''P'')) = (0x50 :: u8)"
  "word_of_nat (of_char (CHR ''Q'')) = (0x51 :: u8)" "word_of_nat (of_char (CHR ''R'')) = (0x52 :: u8)"
  "word_of_nat (of_char (CHR ''S'')) = (0x53 :: u8)" "word_of_nat (of_char (CHR ''T'')) = (0x54 :: u8)"
  "word_of_nat (of_char (CHR ''U'')) = (0x55 :: u8)" "word_of_nat (of_char (CHR ''V'')) = (0x56 :: u8)"
  "word_of_nat (of_char (CHR ''W'')) = (0x57 :: u8)" "word_of_nat (of_char (CHR ''X'')) = (0x58 :: u8)"
  "word_of_nat (of_char (CHR ''Y'')) = (0x59 :: u8)" "word_of_nat (of_char (CHR ''Z'')) = (0x5A :: u8)"
  "word_of_nat (of_char (CHR ''_'')) = (0x5F :: u8)" "word_of_nat (of_char (CHR ''a'')) = (0x61 :: u8)"
  "word_of_nat (of_char (CHR ''b'')) = (0x62 :: u8)" "word_of_nat (of_char (CHR ''c'')) = (0x63 :: u8)"
  "word_of_nat (of_char (CHR ''d'')) = (0x64 :: u8)" "word_of_nat (of_char (CHR ''e'')) = (0x65 :: u8)"
  "word_of_nat (of_char (CHR ''f'')) = (0x66 :: u8)" "word_of_nat (of_char (CHR ''g'')) = (0x67 :: u8)"
  "word_of_nat (of_char (CHR ''h'')) = (0x68 :: u8)" "word_of_nat (of_char (CHR ''i'')) = (0x69 :: u8)"
  "word_of_nat (of_char (CHR ''j'')) = (0x6A :: u8)" "word_of_nat (of_char (CHR ''k'')) = (0x6B :: u8)"
  "word_of_nat (of_char (CHR ''l'')) = (0x6C :: u8)" "word_of_nat (of_char (CHR ''m'')) = (0x6D :: u8)"
  "word_of_nat (of_char (CHR ''n'')) = (0x6E :: u8)" "word_of_nat (of_char (CHR ''o'')) = (0x6F :: u8)"
  "word_of_nat (of_char (CHR ''p'')) = (0x70 :: u8)" "word_of_nat (of_char (CHR ''q'')) = (0x71 :: u8)"
  "word_of_nat (of_char (CHR ''r'')) = (0x72 :: u8)" "word_of_nat (of_char (CHR ''s'')) = (0x73 :: u8)"
  "word_of_nat (of_char (CHR ''t'')) = (0x74 :: u8)" "word_of_nat (of_char (CHR ''u'')) = (0x75 :: u8)"
  "word_of_nat (of_char (CHR ''v'')) = (0x76 :: u8)" "word_of_nat (of_char (CHR ''w'')) = (0x77 :: u8)"
  "word_of_nat (of_char (CHR ''x'')) = (0x78 :: u8)" "word_of_nat (of_char (CHR ''y'')) = (0x79 :: u8)"
  "word_of_nat (of_char (CHR ''z'')) = (0x7A :: u8)"
  by simp_all

lemma identifier_chars:
  "is_identifier_start 0x41 = True" "is_identifier_start 0x42 = True" "is_identifier_start 0x43 = True" "is_identifier_start 0x44 = True"
  "is_identifier_start 0x45 = True" "is_identifier_start 0x46 = True" "is_identifier_start 0x47 = True" "is_identifier_start 0x48 = True"
  "is_identifier_start 0x49 = True" "is_identifier_start 0x4A = True" "is_identifier_start 0x4B = True" "is_identifier_start 0x4C = True"
  "is_identifier_start 0x4D = True" "is_identifier_start 0x4E = True" "is_identifier_start 0x4F = True" "is_identifier_start 0x50 = True"
  "is_identifier_start 0x51 = True" "is_identifier_start 0x52 = True" "is_identifier_start 0x53 = True" "is_identifier_start 0x54 = True"
  "is_identifier_start 0x55 = True" "is_identifier_start 0x56 = True" "is_identifier_start 0x57 = True" "is_identifier_start 0x58 = True"
  "is_identifier_start 0x59 = True" "is_identifier_start 0x5A = True" "is_identifier_start 0x5F = True" "is_identifier_start 0x61 = True"
  "is_identifier_start 0x62 = True" "is_identifier_start 0x63 = True" "is_identifier_start 0x64 = True" "is_identifier_start 0x65 = True"
  "is_identifier_start 0x66 = True" "is_identifier_start 0x67 = True" "is_identifier_start 0x68 = True" "is_identifier_start 0x69 = True"
  "is_identifier_start 0x6A = True" "is_identifier_start 0x6B = True" "is_identifier_start 0x6C = True" "is_identifier_start 0x6D = True"
  "is_identifier_start 0x6E = True" "is_identifier_start 0x6F = True" "is_identifier_start 0x70 = True" "is_identifier_start 0x71 = True"
  "is_identifier_start 0x72 = True" "is_identifier_start 0x73 = True" "is_identifier_start 0x74 = True" "is_identifier_start 0x75 = True"
  "is_identifier_start 0x76 = True" "is_identifier_start 0x77 = True" "is_identifier_start 0x78 = True" "is_identifier_start 0x79 = True"
  "is_identifier_start 0x7A = True"
  "is_identifier_continue 0x41 = True" "is_identifier_continue 0x42 = True" "is_identifier_continue 0x43 = True" "is_identifier_continue 0x44 = True"
  "is_identifier_continue 0x45 = True" "is_identifier_continue 0x46 = True" "is_identifier_continue 0x47 = True" "is_identifier_continue 0x48 = True"
  "is_identifier_continue 0x49 = True" "is_identifier_continue 0x4A = True" "is_identifier_continue 0x4B = True" "is_identifier_continue 0x4C = True"
  "is_identifier_continue 0x4D = True" "is_identifier_continue 0x4E = True" "is_identifier_continue 0x4F = True" "is_identifier_continue 0x50 = True"
  "is_identifier_continue 0x51 = True" "is_identifier_continue 0x52 = True" "is_identifier_continue 0x53 = True" "is_identifier_continue 0x54 = True"
  "is_identifier_continue 0x55 = True" "is_identifier_continue 0x56 = True" "is_identifier_continue 0x57 = True" "is_identifier_continue 0x58 = True"
  "is_identifier_continue 0x59 = True" "is_identifier_continue 0x5A = True" "is_identifier_continue 0x5F = True" "is_identifier_continue 0x61 = True"
  "is_identifier_continue 0x62 = True" "is_identifier_continue 0x63 = True" "is_identifier_continue 0x64 = True" "is_identifier_continue 0x65 = True"
  "is_identifier_continue 0x66 = True" "is_identifier_continue 0x67 = True" "is_identifier_continue 0x68 = True" "is_identifier_continue 0x69 = True"
  "is_identifier_continue 0x6A = True" "is_identifier_continue 0x6B = True" "is_identifier_continue 0x6C = True" "is_identifier_continue 0x6D = True"
  "is_identifier_continue 0x6E = True" "is_identifier_continue 0x6F = True" "is_identifier_continue 0x70 = True" "is_identifier_continue 0x71 = True"
  "is_identifier_continue 0x72 = True" "is_identifier_continue 0x73 = True" "is_identifier_continue 0x74 = True" "is_identifier_continue 0x75 = True"
  "is_identifier_continue 0x76 = True" "is_identifier_continue 0x77 = True" "is_identifier_continue 0x78 = True" "is_identifier_continue 0x79 = True"
  "is_identifier_continue 0x7A = True"
  by (simp_all add: is_identifier_continue_def is_identifier_start_def)

lemma other_chars:
  "is_identifier_start 0x20 = False" "is_identifier_start 0x22 = False" "is_identifier_start 0x28 = False" "is_identifier_start 0x29 = False"
  "is_identifier_start 0x2A = False" "is_identifier_start 0x2C = False" "is_identifier_start 0x2E = False" "is_identifier_start 0x3D = False"
  "is_identifier_start 0x0A = False"
  "is_identifier_continue 0x20 = False" "is_identifier_continue 0x22 = False" "is_identifier_continue 0x28 = False" "is_identifier_continue 0x29 = False"
  "is_identifier_continue 0x2A = False" "is_identifier_continue 0x2C = False" "is_identifier_continue 0x2E = False" "is_identifier_continue 0x3D = False"
  "is_identifier_continue 0x0A = False"
  by (simp_all add: is_identifier_continue_def is_identifier_start_def is_digit_def)

text \<open>Words that neither create nor change anything, told by their length and their ends.\<close>

definition harmless :: "u8 list \<Rightarrow> bool" where
  "harmless w \<longleftrightarrow> length w \<notin> {5, 6, 8} \<or>
     hd w \<notin> {0x43, 0x44, 0x49, 0x4D, 0x54, 0x55, 0x63, 0x64, 0x69, 0x6D, 0x74, 0x75} \<or> last w \<notin> {0x45, 0x54, 0x65, 0x74}"

lemma letter_cases:
  "to_ascii_lowercase b = c \<Longrightarrow> b = c \<or> b = c - 0x20" "to_ascii_uppercase b = c \<Longrightarrow> b = c \<or> b = c + 0x20"
  by (auto simp: to_ascii_lowercase_def to_ascii_uppercase_def split: if_splits)

lemma lowercase_ends:
  assumes "map to_ascii_lowercase w = k" "k \<noteq> []"
  shows "length w = length k \<and> (hd w = hd k \<or> hd w = hd k - 0x20) \<and> (last w = last k \<or> last w = last k - 0x20)"
proof -
  have "w \<noteq> []" using assms by auto
  then have "to_ascii_lowercase (hd w) = hd k" "to_ascii_lowercase (last w) = last k" using assms(1) by (auto simp: hd_map last_map)
  from letter_cases(1) [OF this(1)] letter_cases(1) [OF this(2)] show ?thesis using assms(1) length_map by metis
qed

lemma uppercase_ends:
  assumes "map to_ascii_uppercase w = k" "k \<noteq> []"
  shows "length w = length k \<and> (hd w = hd k \<or> hd w = hd k + 0x20) \<and> (last w = last k \<or> last w = last k + 0x20)"
proof -
  have "w \<noteq> []" using assms by auto
  then have "to_ascii_uppercase (hd w) = hd k" "to_ascii_uppercase (last w) = last k" using assms(1) by (auto simp: hd_map last_map)
  from letter_cases(2) [OF this(1)] letter_cases(2) [OF this(2)] show ?thesis using assms(1) length_map by metis
qed

lemma harmless_word:
  assumes "harmless w"
  shows "\<not> create_word w \<and> \<not> is_data_change w"
proof
  have "map to_ascii_lowercase (ascii ''create'') = ascii ''create''" by (simp add: ascii_def to_ascii_lowercase_def)
  then show "\<not> create_word w"
    using assms lowercase_ends [of w "ascii ''create''"] by (auto simp: create_word_def eq_ignore_ascii_case_def ascii_def harmless_def)
  have "map to_ascii_uppercase w \<noteq> ascii k" if "k \<in> {''INSERT'', ''UPDATE'', ''DELETE'', ''MERGE'', ''TRUNCATE''}" for k
  proof
    assume "map to_ascii_uppercase w = ascii k"
    moreover have "ascii k \<noteq> []" using that by (auto simp: ascii_def)
    ultimately show False using assms uppercase_ends [of w "ascii k"] that by (auto simp: ascii_def harmless_def)
  qed
  then show "\<not> is_data_change w" by (simp add: is_data_change_def)
qed

lemma harmless_atom: "w \<noteq> [] \<Longrightarrow> is_identifier_start (hd w) \<Longrightarrow> list_all is_identifier_continue w \<Longrightarrow> harmless w \<Longrightarrow> atom_ok (A_Word w)"
  using harmless_word by simp

lemma other_not_quote:
  "((0x20 :: u8) = 0x22) = False" "((0x28 :: u8) = 0x22) = False" "((0x29 :: u8) = 0x22) = False" "((0x2A :: u8) = 0x22) = False"
  "((0x2C :: u8) = 0x22) = False" "((0x2E :: u8) = 0x22) = False" "((0x3D :: u8) = 0x22) = False" "((0x0A :: u8) = 0x22) = False"
  by simp_all

lemmas atoms_eval =
  ascii_def list.map char_codes append.simps sql_atoms.simps takeWhile.simps dropWhile.simps
  identifier_chars other_chars other_not_quote if_True if_False simp_thms list.sel list.distinct

lemmas chained_eval = harmless_atom harmless_def identifier_chars other_chars

subsection \<open>Predicates\<close>

definition filter_columns :: "string list" where
  "filter_columns = [''name'', ''s.name'', ''t.name'', ''c.name'', ''tt.table_type_name'']"

lemma column_constants:
  "list_all (\<lambda>c. chained (sql_atoms (ascii (c @ '' LIKE ''))) \<and> chained (sql_atoms (ascii (c @ '' IN (''))))
     [''name'', ''s.name'', ''t.name'', ''c.name'', ''tt.table_type_name'']"
  by (simp only: list.pred_inject atoms_eval cong: if_weak_cong conj_cong) (simp add: chained_eval del: atom_ok.simps(1))

lemma column_texts:
  assumes "c \<in> set filter_columns"
  shows "closed_text (ascii (c @ '' LIKE ''))" "closed_text (ascii (c @ '' IN (''))"
  using assms column_constants closed_const unfolding filter_columns_def [symmetric] list_all_iff by blast+

lemma separators:
  "closed_text (ascii '' ESCAPE '')" "closed_text (ascii '', '')" "closed_text (ascii '')'')"
  "closed_text (ascii '' AND '')" "closed_text (ascii ''WHERE '')" "closed_text (ascii '' '')"
  by (rule closed_const; simp only: atoms_eval cong: if_weak_cong conj_cong; simp add: chained_eval del: atom_ok.simps(1))+

lemma quiet_space: "quiet (ascii (CHR '' '' # s) @ z)" "quiet (ascii (CHR '','' # s) @ z)" "quiet (ascii (CHR '')'' # s) @ z)"
  by (simp_all add: quiet_def ascii_def other_chars)

lemma raw_literal_linkable: "utf8_valid v \<Longrightarrow> ensures linkable (raw_string_literal v)"
  by (auto simp: raw_string_literal_def intro!: ensures_intros linkable_raw)

lemma like_predicate_linkable:
  assumes "c \<in> set filter_columns" "\<forall>p. pattern = Some p \<longrightarrow> utf8_valid p"
    "like_predicate c pattern = Ok (Some text)"
  shows "linkable text"
proof -
  from assms(3) obtain p where p: "pattern = Some p" "text = ascii c @ ascii '' LIKE '' @ quote_raw_string p @ ascii '' ESCAPE R'' @ [0x27, 0x5C, 0x27]"
    by (auto simp: like_predicate_def raw_string_literal_def result_simps split: option.splits if_splits)
  have t: "text = ascii (c @ '' LIKE '') @ quote_raw_string p @ ascii '' ESCAPE '' @ quote_raw_string [0x5C]"
    using p(2) by (simp add: ascii_append quote_raw_string_def double_quotes_def ascii_def)
  have "utf8_valid [0x5C]" by (simp add: utf8_valid_ascii)
  then have "linkable (ascii '' ESCAPE '' @ quote_raw_string [0x5C])" using separators(1) linkable_raw closed_linkable by blast
  moreover have "linkable (quote_raw_string p)" using p(1) assms(2) linkable_raw by blast
  ultimately have "linkable (quote_raw_string p @ ascii '' ESCAPE '' @ quote_raw_string [0x5C])"
    using quiet_space(1) linkable_append by blast
  with column_texts(1) [OF assms(1)] show ?thesis unfolding t using closed_linkable by blast
qed

lemma join_linkable: "vs \<noteq> [] \<Longrightarrow> \<forall>v \<in> set vs. utf8_valid v \<Longrightarrow> linkable (join (ascii '', '') (map quote_raw_string vs))"
proof (induction vs rule: induct_list012)
  case (2 v)
  then show ?case using linkable_raw by auto
next
  case (3 v w ws)
  then have "linkable (join (ascii '', '') (map quote_raw_string (w # ws)))" by simp
  then have "linkable (ascii '', '' @ join (ascii '', '') (map quote_raw_string (w # ws)))" using separators(2) closed_linkable by blast
  moreover have "linkable (quote_raw_string v)" using 3 linkable_raw by auto
  ultimately have "linkable (quote_raw_string v @ ascii '', '' @ join (ascii '', '') (map quote_raw_string (w # ws)))"
    using quiet_space(2) linkable_append by blast
  then show ?case by simp
qed simp

lemma in_predicate_linkable:
  assumes "c \<in> set filter_columns"
    "\<forall>vs. vals = Some vs \<longrightarrow> (\<forall>v \<in> set vs. utf8_valid v)" "in_predicate c vals = Ok (Some text)"
  shows "linkable text"
proof (cases "vals = Some []")
  case True
  with assms(3) have "text = ascii ''FALSE''" by (simp add: in_predicate_def)
  then show ?thesis using linkable_ascii keywords_const(3) by blast
next
  case False
  with assms(3) obtain vs lits where vs: "vals = Some vs" "vs \<noteq> []" "try_map raw_string_literal vs = Ok lits"
    and t: "text = ascii c @ ascii '' IN ('' @ join (ascii '', '') lits @ ascii '')''"
    by (auto simp: in_predicate_def result_simps split: option.splits if_splits)
  have "raw_string_literal v = Ok l \<Longrightarrow> l = quote_raw_string v" for v l by (auto simp: raw_string_literal_def split: if_splits)
  with vs(3) have l: "lits = map quote_raw_string vs"
    by (intro nth_equalityI) (auto simp: try_map_length dest: try_map_nth)
  have "linkable (join (ascii '', '') lits)" using join_linkable vs(1,2) assms(2) l by blast
  moreover have "quiet (ascii '')'')" using quiet_space(3) [of "[]" "[]"] by simp
  ultimately have "linkable (join (ascii '', '') lits @ ascii '')'')"
    using separators(3) linkable_append linkable_closed by blast
  with column_texts(2) [OF assms(1)] have "linkable (ascii (c @ '' IN ('') @ join (ascii '', '') lits @ ascii '')'')"
    using closed_linkable by blast
  with t show ?thesis by (simp add: ascii_append)
qed

subsection \<open>Queries\<close>

lemma linkable_lines:
  assumes "list_all closed_line ls" "linkable (ascii l)"
  shows "linkable (lines_text (ls @ [l]))"
  using assms(1)
proof (induction ls)
  case (Cons k ls)
  have "lines_text ((k # ls) @ [l]) = (ascii k @ [0x0A]) @ lines_text (ls @ [l])"
    by (cases ls) (simp_all add: lines_text_def)
  with Cons show ?case by (simp add: closed_linkable [OF closed_const] closed_line_def del: append_assoc)
qed (simp add: lines_text_def assms(2))

lemma linkable_ends_in_word:
  assumes "chained (sql_atoms (ascii s))" "harmless (ascii w)" "list_all is_identifier_continue (ascii w)"
    "is_identifier_start (hd (ascii w))" "1 < length (ascii w)"
  shows "linkable (ascii (s @ w))"
proof -
  have "ascii w \<noteq> []" using assms(5) by auto
  from linkable_word [OF harmless_atom [OF this assms(4,3,2)] assms(5)] have "linkable (ascii w)" .
  then show ?thesis unfolding ascii_append using closed_linkable closed_const assms(1) by blast
qed

lemma objects_text1: "closed_text (lines_text
  ['''',
   ''        SELECT s.name AS schema_name,'',
   ''               t.name AS table_name,'',
   ''               tt.table_type_name AS table_type,'',
   ''               c.name AS column_name,'',
   ''               c.number AS ordinal_position,'',
   ''               c.type AS type_name,'',
   ''               c.type_digits,'',
   ''               c.type_scale,'',
   ''               c.\"null\" AS is_nullable,'',
   ''               c.\"default\" AS column_default,'',
   ''               cm.remark'',
   ''          FROM sys.schemas AS s'',
   ''          LEFT OUTER JOIN ('',
   ''              SELECT t.*, tt.table_type_name'',
   ''                FROM sys.tables AS t'',
   ''                JOIN sys.table_types AS tt ON tt.table_type_id = t.type'',
   ''               WHERE TRUE ''])"
proof -
  have "list_all closed_line
    ['''',
     ''        SELECT s.name AS schema_name,'',
     ''               t.name AS table_name,'',
     ''               tt.table_type_name AS table_type,'',
     ''               c.name AS column_name,'',
     ''               c.number AS ordinal_position,'',
     ''               c.type AS type_name,'',
     ''               c.type_digits,'',
     ''               c.type_scale,'',
     ''               c.\"null\" AS is_nullable,'',
     ''               c.\"default\" AS column_default,'',
     ''               cm.remark'',
     ''          FROM sys.schemas AS s'',
     ''          LEFT OUTER JOIN ('',
     ''              SELECT t.*, tt.table_type_name'',
     ''                FROM sys.tables AS t'',
     ''                JOIN sys.table_types AS tt ON tt.table_type_id = t.type'']"
    by (simp only: list.pred_inject closed_line_def atoms_eval cong: if_weak_cong conj_cong) (simp add: chained_eval del: atom_ok.simps(1))
  moreover have "closed_text (ascii ''               WHERE TRUE '')"
    by (rule closed_const, simp only: atoms_eval cong: if_weak_cong conj_cong) (simp add: chained_eval del: atom_ok.simps(1))
  ultimately show ?thesis using closed_lines by fastforce
qed

lemma objects_text2: "linkable (lines_text
  ['''',
   ''          ) AS t ON t.schema_id = s.id'',
   ''          LEFT OUTER JOIN sys.table_types AS tt ON tt.table_type_id = t.type'',
   ''          LEFT OUTER JOIN sys.columns AS c ON c.table_id = t.id''])"
proof -
  have "list_all closed_line
    ['''',
     ''          ) AS t ON t.schema_id = s.id'',
     ''          LEFT OUTER JOIN sys.table_types AS tt ON tt.table_type_id = t.type'']"
    by (simp only: list.pred_inject closed_line_def atoms_eval cong: if_weak_cong conj_cong) (simp add: chained_eval del: atom_ok.simps(1))
  moreover have "linkable (ascii (''          LEFT OUTER JOIN sys.columns AS c ON c.table_id = t.'' @ ''id''))"
    by (rule linkable_ends_in_word; simp only: atoms_eval list.pred_inject list.size cong: if_weak_cong conj_cong; simp add: chained_eval del: atom_ok.simps(1))
  ultimately show ?thesis using linkable_lines by fastforce
qed

lemma objects_text3: "closed_text (lines_text
  ['''',
   ''          LEFT OUTER JOIN sys.comments AS cm ON cm.id = c.id'',
   ''         ''])"
proof -
  have "list_all closed_line
    ['''',
     ''          LEFT OUTER JOIN sys.comments AS cm ON cm.id = c.id'']"
    by (simp only: list.pred_inject closed_line_def atoms_eval cong: if_weak_cong conj_cong) (simp add: chained_eval del: atom_ok.simps(1))
  moreover have "closed_text (ascii ''         '')"
    by (rule closed_const, simp only: atoms_eval cong: if_weak_cong conj_cong) (simp add: chained_eval del: atom_ok.simps(1))
  ultimately show ?thesis using closed_lines by fastforce
qed

lemma objects_text4: "closed_text (lines_text
  ['''',
   ''         ORDER BY s.name, t.name, c.number'',
   ''    ''])"
proof -
  have "list_all closed_line
    ['''',
     ''         ORDER BY s.name, t.name, c.number'']"
    by (simp only: list.pred_inject closed_line_def atoms_eval cong: if_weak_cong conj_cong) (simp add: chained_eval del: atom_ok.simps(1))
  moreover have "closed_text (ascii ''    '')"
    by (rule closed_const, simp only: atoms_eval cong: if_weak_cong conj_cong) (simp add: chained_eval del: atom_ok.simps(1))
  ultimately show ?thesis using closed_lines by fastforce
qed

lemma constraints_text1: "closed_text (lines_text
  ['''',
   ''        SELECT s.name AS schema_name,'',
   ''               t.name AS table_name,'',
   ''               k.name AS constraint_name,'',
   ''               k.type AS constraint_type,'',
   ''               kc.name AS column_name,'',
   ''               kc.nr AS column_number,'',
   ''               ps.name AS usage_schema,'',
   ''               pt.name AS usage_table,'',
   ''               pc.name AS usage_column'',
   ''          FROM sys.keys AS k'',
   ''          JOIN sys.tables AS t ON t.id = k.table_id'',
   ''          JOIN sys.schemas AS s ON s.id = t.schema_id'',
   ''          JOIN sys.table_types AS tt ON tt.table_type_id = t.type'',
   ''          LEFT OUTER JOIN sys.objects AS kc ON kc.id = k.id'',
   ''          LEFT OUTER JOIN sys.keys AS pk ON pk.id = k.rkey'',
   ''          LEFT OUTER JOIN sys.tables AS pt ON pt.id = pk.table_id'',
   ''          LEFT OUTER JOIN sys.schemas AS ps ON ps.id = pt.schema_id'',
   ''          LEFT OUTER JOIN sys.objects AS pc ON pc.id = pk.id AND pc.nr = kc.nr'',
   ''         ''])"
proof -
  have "list_all closed_line
    ['''',
     ''        SELECT s.name AS schema_name,'',
     ''               t.name AS table_name,'',
     ''               k.name AS constraint_name,'',
     ''               k.type AS constraint_type,'',
     ''               kc.name AS column_name,'',
     ''               kc.nr AS column_number,'',
     ''               ps.name AS usage_schema,'',
     ''               pt.name AS usage_table,'',
     ''               pc.name AS usage_column'',
     ''          FROM sys.keys AS k'',
     ''          JOIN sys.tables AS t ON t.id = k.table_id'',
     ''          JOIN sys.schemas AS s ON s.id = t.schema_id'',
     ''          JOIN sys.table_types AS tt ON tt.table_type_id = t.type'',
     ''          LEFT OUTER JOIN sys.objects AS kc ON kc.id = k.id'',
     ''          LEFT OUTER JOIN sys.keys AS pk ON pk.id = k.rkey'',
     ''          LEFT OUTER JOIN sys.tables AS pt ON pt.id = pk.table_id'',
     ''          LEFT OUTER JOIN sys.schemas AS ps ON ps.id = pt.schema_id'',
     ''          LEFT OUTER JOIN sys.objects AS pc ON pc.id = pk.id AND pc.nr = kc.nr'']"
    by (simp only: list.pred_inject closed_line_def atoms_eval cong: if_weak_cong conj_cong) (simp add: chained_eval del: atom_ok.simps(1))
  moreover have "closed_text (ascii ''         '')"
    by (rule closed_const, simp only: atoms_eval cong: if_weak_cong conj_cong) (simp add: chained_eval del: atom_ok.simps(1))
  ultimately show ?thesis using closed_lines by fastforce
qed

lemma constraints_text2: "closed_text (lines_text
  ['''',
   ''         ORDER BY s.name, t.name, k.name, kc.nr'',
   ''    ''])"
proof -
  have "list_all closed_line
    ['''',
     ''         ORDER BY s.name, t.name, k.name, kc.nr'']"
    by (simp only: list.pred_inject closed_line_def atoms_eval cong: if_weak_cong conj_cong) (simp add: chained_eval del: atom_ok.simps(1))
  moreover have "closed_text (ascii ''    '')"
    by (rule closed_const, simp only: atoms_eval cong: if_weak_cong conj_cong) (simp add: chained_eval del: atom_ok.simps(1))
  ultimately show ?thesis using closed_lines by fastforce
qed

lemma table_schema_text1: "closed_text (lines_text
  ['''',
   ''        SELECT c.name, c.type, c.type_digits, c.type_scale, c.\"null\"'',
   ''          FROM sys.columns AS c'',
   ''          JOIN sys.tables AS t ON t.id = c.table_id'',
   ''          JOIN sys.schemas AS s ON s.id = t.schema_id'',
   ''         WHERE s.name = ''])"
proof -
  have "list_all closed_line
    ['''',
     ''        SELECT c.name, c.type, c.type_digits, c.type_scale, c.\"null\"'',
     ''          FROM sys.columns AS c'',
     ''          JOIN sys.tables AS t ON t.id = c.table_id'',
     ''          JOIN sys.schemas AS s ON s.id = t.schema_id'']"
    by (simp only: list.pred_inject closed_line_def atoms_eval cong: if_weak_cong conj_cong) (simp add: chained_eval del: atom_ok.simps(1))
  moreover have "closed_text (ascii ''         WHERE s.name = '')"
    by (rule closed_const, simp only: atoms_eval cong: if_weak_cong conj_cong) (simp add: chained_eval del: atom_ok.simps(1))
  ultimately show ?thesis using closed_lines by fastforce
qed

lemma table_schema_text2: "closed_text (lines_text
  ['''',
   ''         ORDER BY c.number'',
   ''        ''])"
proof -
  have "list_all closed_line
    ['''',
     ''         ORDER BY c.number'']"
    by (simp only: list.pred_inject closed_line_def atoms_eval cong: if_weak_cong conj_cong) (simp add: chained_eval del: atom_ok.simps(1))
  moreover have "closed_text (ascii ''        '')"
    by (rule closed_const, simp only: atoms_eval cong: if_weak_cong conj_cong) (simp add: chained_eval del: atom_ok.simps(1))
  ultimately show ?thesis using closed_lines by fastforce
qed

lemma short_texts:
  "closed_text (ascii ''SELECT name FROM sys.schemas '')"
  "closed_text (ascii ''SELECT s.name, t.name, t.table_type_name FROM sys.schemas AS s LEFT OUTER JOIN ('')"
  "closed_text (ascii ''SELECT t.*, tt.table_type_name FROM sys.tables AS t '')"
  "closed_text (ascii ''JOIN sys.table_types AS tt ON tt.table_type_id = t.type WHERE TRUE '')"
  "closed_text (ascii '') AS t ON t.schema_id = s.id '')" "closed_text (ascii '' AND t.name = '')"
  by (rule closed_const; simp only: atoms_eval cong: if_weak_cong conj_cong; simp add: chained_eval del: atom_ok.simps(1))+

lemma order_texts: "linkable (ascii ('' ORDER BY '' @ ''name''))" "linkable (ascii ('' ORDER BY s.name, t.'' @ ''name''))"
  by (rule linkable_ends_in_word; simp only: atoms_eval list.pred_inject list.size cong: if_weak_cong conj_cong;
      simp add: chained_eval del: atom_ok.simps(1))+

lemma prefixed_linkable: "closed_text (ascii w) \<Longrightarrow> \<forall>p. predicate = Some p \<longrightarrow> linkable p \<Longrightarrow> linkable (prefixed w predicate)"
  by (auto simp: prefixed_def linkable_closed closed_linkable split: option.splits)

lemma prefixed_quiet: "quiet z \<Longrightarrow> quiet (prefixed '' AND '' predicate @ z)"
  by (simp add: prefixed_def quiet_space split: option.splits)

lemma lines_quiet: "quiet (lines_text ('''' # l # ls) @ z)"
  by (simp add: lines_text_def ascii_def quiet_def other_chars)

text \<open>A text of tokens, not all of them blank, is one statement.\<close>

definition one_statement :: "(u8 list \<Rightarrow> bool) \<Rightarrow> u8 list \<Rightarrow> bool" where
  "one_statement alnum q \<longleftrightarrow>
     (\<exists>scan. scan_query alnum q = Ok scan \<and> length (qs_statements scan) = 1 \<and> qs_slots scan = [] \<and> \<not> qs_has_data_change scan)"

lemma linkable_one_statement:
  assumes "linkable v" "0x4E \<in> set v \<or> 0x53 \<in> set v"
  shows "one_statement alnum v"
proof -
  obtain as where as: "v = atoms_text as" "linked as []" using assms(1) by (auto simp: linkable_def quiet_def)
  have ne: "as \<noteq> []" using as(1) assms(2) by (auto simp: atoms_text_simps)
  have code: "\<not> list_all blank as"
  proof
    assume "list_all blank as"
    then have "set (atoms_text as) \<subseteq> {0x20, 0x0A}" by (induction as) (auto simp: atoms_text_simps blank_def)
    with as(1) assms(2) show False by auto
  qed
  have start: "ss_lex scan_start = Normal" "plain scan_start" by (simp_all add: scan_start_def plain_def procedural_new_def)
  from linked_scan [OF as(2) ne start, of alnum None 0] code obtain st where
    st: "scan_loop alnum None v 0 scan_start = Ok st" "passes scan_start st" "ss_has_code st"
    unfolding as(1) by (auto simp: scan_loop.simps [of alnum _ "[]"])
  then have "scan_query alnum v = Ok ((ss_scan st)\<lparr>qs_statements := qs_statements (ss_scan st) @ [(ss_statement_start st, length v)]\<rparr>)"
    by (simp add: scan_query_def scan_finish_def passes_def Let_def)
  moreover have "qs_statements (ss_scan st) = []" "qs_slots (ss_scan st) = []" "\<not> qs_has_data_change (ss_scan st)"
    using st(2) by (simp_all add: passes_def scan_start_def)
  ultimately show ?thesis by (simp add: one_statement_def)
qed

lemma select_in: "0x53 \<in> set (ascii (CHR ''S'' # s))" "0x53 \<in> set (ascii m) \<Longrightarrow> 0x53 \<in> set (lines_text (l # m # ls) @ z)"
  by (simp add: ascii_def, cases ls) (auto simp: lines_text_def)

definition filters_ok :: "u8 list option \<Rightarrow> bool" where
  "filters_ok f \<longleftrightarrow> (\<forall>p. f = Some p \<longrightarrow> utf8_valid p)"

lemma like_linkable:
  "filters_ok f \<Longrightarrow> like_predicate c f = Ok predicate \<Longrightarrow> c \<in> set filter_columns \<Longrightarrow> \<forall>p. predicate = Some p \<longrightarrow> linkable p"
  using like_predicate_linkable by (auto simp: filters_ok_def)

lemma in_linkable:
  "\<forall>vs. vals = Some vs \<longrightarrow> list_all utf8_valid vs \<Longrightarrow> in_predicate c vals = Ok predicate \<Longrightarrow> c \<in> set filter_columns \<Longrightarrow>
   \<forall>p. predicate = Some p \<longrightarrow> linkable p"
  using in_predicate_linkable by (auto simp: list_all_iff)

lemma filter_column_names: "''name'' \<in> set filter_columns" "''s.name'' \<in> set filter_columns" "''t.name'' \<in> set filter_columns"
  "''c.name'' \<in> set filter_columns" "''tt.table_type_name'' \<in> set filter_columns"
  by (simp_all add: filter_columns_def)

lemma schemas_query_linkable: "filters_ok sf \<Longrightarrow> schemas_query sf = Ok q \<Longrightarrow> linkable q \<and> 0x53 \<in> set q"
proof -
  assume f: "filters_ok sf" and q: "schemas_query sf = Ok q"
  then obtain predicate where p: "like_predicate ''name'' sf = Ok predicate"
    and t: "q = ascii ''SELECT name FROM sys.schemas '' @ prefixed ''WHERE '' predicate @ ascii '' ORDER BY name''"
    by (auto simp: schemas_query_def result_simps)
  have o: "linkable (ascii '' ORDER BY name'')" using order_texts(1) by simp
  have "linkable (prefixed ''WHERE '' predicate @ ascii '' ORDER BY name'')"
    using prefixed_linkable [OF separators(5) like_linkable [OF f p filter_column_names(1)]] o quiet_space(1) [of "''ORDER BY name''" "[]"]
    by (intro linkable_append) simp_all
  then show ?thesis unfolding t using closed_linkable [OF short_texts(1)] select_in(1) by simp
qed

text \<open>The end of a query: tokens that may follow a word or a string.\<close>

definition ending :: "u8 list \<Rightarrow> bool" where
  "ending r \<longleftrightarrow> linkable r \<and> quiet r"

lemma ending_and: "\<forall>p. predicate = Some p \<longrightarrow> linkable p \<Longrightarrow> ending r \<Longrightarrow> ending (prefixed '' AND '' predicate @ r)"
  using prefixed_linkable [OF separators(4)] prefixed_quiet linkable_append by (simp add: ending_def)

lemma where_linkable: "\<forall>p. predicate = Some p \<longrightarrow> linkable p \<Longrightarrow> ending r \<Longrightarrow> linkable (prefixed ''WHERE '' predicate @ r)"
  using prefixed_linkable [OF separators(5)] linkable_append by (simp add: ending_def)

lemma ending_lines:
  "closed_text (lines_text ('''' # l # ls)) \<Longrightarrow> linkable r \<Longrightarrow> ending (lines_text ('''' # l # ls) @ r)"
  "linkable (lines_text ('''' # l # ls)) \<Longrightarrow> ending r \<Longrightarrow> ending (lines_text ('''' # l # ls) @ r)"
  "closed_text (lines_text ('''' # l # ls)) \<Longrightarrow> ending (lines_text ('''' # l # ls))"
  using lines_quiet closed_linkable linkable_append linkable_closed lines_quiet [of l ls "[]"] by (auto simp: ending_def)

lemma ending_text:
  "closed_text (ascii (c # s)) \<Longrightarrow> c \<in> {CHR '' '', CHR '')''} \<Longrightarrow> linkable r \<Longrightarrow> ending (ascii (c # s) @ r)"
  "linkable (ascii (CHR '' '' # s)) \<Longrightarrow> ending (ascii (CHR '' '' # s))"
  using closed_linkable quiet_space quiet_space(1) [of s "[]"] by (auto simp: ending_def)

lemma join_predicates: "\<forall>p \<in> set ps. linkable p \<Longrightarrow> linkable (join (ascii '' AND '') ps)"
proof (induction ps rule: induct_list012)
  case (3 p q ps)
  then have "ending (ascii '' AND '' @ join (ascii '' AND '') (q # ps))" using ending_text(1) [OF separators(4)] by simp
  then show ?case using 3 linkable_append by (simp add: ending_def)
qed (simp_all add: linkable_closed)

lemma tables_query_linkable:
  assumes "filters_ok sf" "filters_ok tf" "\<forall>vs. ty = Some vs \<longrightarrow> list_all utf8_valid vs" "tables_query sf tf ty = Ok q"
  shows "linkable q \<and> 0x53 \<in> set q"
proof -
  from assms(4) obtain sp tp yp where p: "like_predicate ''s.name'' sf = Ok sp" "like_predicate ''t.name'' tf = Ok tp"
      "in_predicate ''tt.table_type_name'' ty = Ok yp"
    and t: "q = ascii ''SELECT s.name, t.name, t.table_type_name FROM sys.schemas AS s LEFT OUTER JOIN ('' @
           ascii ''SELECT t.*, tt.table_type_name FROM sys.tables AS t '' @
           ascii ''JOIN sys.table_types AS tt ON tt.table_type_id = t.type WHERE TRUE '' @
           prefixed '' AND '' tp @ prefixed '' AND '' yp @
           ascii '') AS t ON t.schema_id = s.id '' @ prefixed ''WHERE '' sp @
           ascii '' ORDER BY s.name, t.name''"
    by (auto simp: tables_query_def result_simps)
  note ps = like_linkable [OF assms(1) p(1) filter_column_names(2)] like_linkable [OF assms(2) p(2) filter_column_names(3)]
    in_linkable [OF assms(3) p(3) filter_column_names(5)]
  have o: "ending (ascii '' ORDER BY s.name, t.name'')" using order_texts(2) ending_text(2) by simp
  have "ending (ascii '') AS t ON t.schema_id = s.id '' @ prefixed ''WHERE '' sp @ ascii '' ORDER BY s.name, t.name'')"
    by (rule ending_text(1) [OF short_texts(5) _ where_linkable [OF ps(1) o]]) simp
  from ending_and [OF ps(2) ending_and [OF ps(3) this]] have "linkable q"
    unfolding t ending_def by (intro closed_linkable [OF short_texts(2)] closed_linkable [OF short_texts(3)] closed_linkable [OF short_texts(4)]) simp
  moreover have "0x53 \<in> set q" unfolding t using select_in(1) by simp
  ultimately show ?thesis by simp
qed

lemma objects_query_linkable:
  assumes "filters_ok sf" "filters_ok tf" "filters_ok cf" "\<forall>vs. ty = Some vs \<longrightarrow> list_all utf8_valid vs"
    "objects_query sf tf ty cf = Ok q"
  shows "linkable q \<and> 0x53 \<in> set q"
proof -
  obtain sp tp cp yp where p: "like_predicate ''s.name'' sf = Ok sp" "like_predicate ''t.name'' tf = Ok tp"
      "like_predicate ''c.name'' cf = Ok cp" "in_predicate ''tt.table_type_name'' ty = Ok yp"
    using assms(5) unfolding objects_query_def by (elim rbind_OkE) blast
  note ps = like_linkable [OF assms(1) p(1) filter_column_names(2)] like_linkable [OF assms(2) p(2) filter_column_names(3)]
    like_linkable [OF assms(3) p(3) filter_column_names(4)] in_linkable [OF assms(4) p(4) filter_column_names(5)]
  note e = where_linkable [OF ps(1) ending_lines(3) [OF objects_text4]]
  note e = ending_and [OF ps(3) ending_lines(1) [OF objects_text3 e]]
  note e = ending_and [OF ps(2) ending_and [OF ps(4) ending_lines(2) [OF objects_text2 e]]]
  note e = closed_linkable [OF objects_text1 e [unfolded ending_def, THEN conjunct1]]
  note t = assms(5) [unfolded objects_query_def p rbind.simps result.inject]
  have "0x53 \<in> set q" unfolding t [symmetric] by (rule select_in(2)) (simp add: ascii_def)
  with e show ?thesis unfolding t by simp
qed

lemma predicates_linkable:
  assumes "\<forall>p. sp = Some p \<longrightarrow> linkable p" "\<forall>p. tp = Some p \<longrightarrow> linkable p" "\<forall>p. yp = Some p \<longrightarrow> linkable p"
  shows "\<forall>p \<in> set (List.map_filter (\<lambda>p. p) [sp, tp, yp]). linkable p"
  using assms by (auto simp: List.map_filter_def split: if_splits)

lemma constraints_query_linkable:
  assumes "filters_ok sf" "filters_ok tf" "\<forall>vs. ty = Some vs \<longrightarrow> list_all utf8_valid vs" "constraints_query sf tf ty = Ok q"
  shows "linkable q \<and> 0x53 \<in> set q"
proof -
  obtain sp tp yp where p: "like_predicate ''s.name'' sf = Ok sp" "like_predicate ''t.name'' tf = Ok tp"
      "in_predicate ''tt.table_type_name'' ty = Ok yp"
    using assms(4) unfolding constraints_query_def by (elim rbind_OkE) blast
  note ps = predicates_linkable [OF like_linkable [OF assms(1) p(1) filter_column_names(2)]
    like_linkable [OF assms(2) p(2) filter_column_names(3)] in_linkable [OF assms(3) p(3) filter_column_names(5)]]
  let ?ps = "List.map_filter (\<lambda>p. p) [sp, tp, yp]"
  have w: "linkable (if ?ps = [] then [] else ascii ''WHERE '' @ join (ascii '' AND '') ?ps)"
    using closed_linkable [OF separators(5) join_predicates [OF ps]] by (simp add: linkable_closed)
  note e = closed_linkable [OF constraints_text1 linkable_append [OF w ending_lines(3) [OF constraints_text2, unfolded ending_def, THEN conjunct1]
    ending_lines(3) [OF constraints_text2, unfolded ending_def, THEN conjunct2]]]
  note t = assms(4) [unfolded constraints_query_def p rbind.simps Let_def result.inject]
  have "0x53 \<in> set q" unfolding t [symmetric] by (rule select_in(2)) (simp add: ascii_def)
  with e show ?thesis unfolding t by simp
qed

lemma table_schema_query_linkable:
  assumes "utf8_valid schema_name" "utf8_valid table_name" "table_schema_query schema_name table_name = Ok q"
  shows "linkable q \<and> 0x53 \<in> set q"
proof -
  have raw: "l = quote_raw_string v" if "raw_string_literal v = Ok l" for v l
    using that by (auto simp: raw_string_literal_def split: if_splits)
  obtain l m where p: "raw_string_literal schema_name = Ok l" "raw_string_literal table_name = Ok m"
    using assms(3) unfolding table_schema_query_def by (elim rbind_OkE) blast
  have lm: "linkable l" "linkable m" using raw p assms(1,2) linkable_raw by auto
  note e = ending_lines(3) [OF table_schema_text2, unfolded ending_def]
  note e = linkable_append [OF lm(2) e [THEN conjunct1] e [THEN conjunct2]]
  note e = ending_text(1) [OF short_texts(6) _ e, simplified, unfolded ending_def]
  note e = closed_linkable [OF table_schema_text1 linkable_append [OF lm(1) e [THEN conjunct1] e [THEN conjunct2]]]
  note t = assms(3) [unfolded table_schema_query_def p rbind.simps result.inject]
  have "0x53 \<in> set q" unfolding t [symmetric] by (rule select_in(2)) (simp add: ascii_def)
  with e show ?thesis unfolding t by simp
qed

text \<open>
  C35 (catalog queries). Whatever the filters, as long as they are UTF-8 text: each of the five
  catalog queries, when it is built, is read by the scanner as one statement without markers that
  changes no data. No filter can end its string, add a statement or open a comment.
\<close>

theorem catalog_queries_one_statement:
  assumes "filters_ok sf" "filters_ok tf" "filters_ok cf" "\<forall>vs. ty = Some vs \<longrightarrow> list_all utf8_valid vs"
    "utf8_valid schema_name" "utf8_valid table_name"
  shows "ensures (one_statement alnum) (schemas_query sf) \<and> ensures (one_statement alnum) (tables_query sf tf ty) \<and>
    ensures (one_statement alnum) (objects_query sf tf ty cf) \<and> ensures (one_statement alnum) (constraints_query sf tf ty) \<and>
    ensures (one_statement alnum) (table_schema_query schema_name table_name)"
proof -
  have e: "ensures (one_statement alnum) r" if "\<And>q. r = Ok q \<Longrightarrow> linkable q \<and> 0x53 \<in> set q" for r :: "(u8 list, metadata_error) result"
    using that linkable_one_statement by (cases r) (auto simp: ensures_def)
  show ?thesis
    using e [OF schemas_query_linkable [OF assms(1)]] e [OF tables_query_linkable [OF assms(1,2,4)]]
      e [OF objects_query_linkable [OF assms(1-4)]] e [OF constraints_query_linkable [OF assms(1,2,4)]]
      e [OF table_schema_query_linkable [OF assms(5,6)]]
    by blast
qed

text \<open>The filter \<open>';\<close> for schemas.\<close>

theorem catalog_queries_one_statement_witness:
  "\<exists>q. schemas_query (Some [0x27, 0x3B]) = Ok q \<and> one_statement (\<lambda>_. False) q"
proof -
  have v: "utf8_valid [0x27, 0x3B]" "utf8_valid []" by (simp_all add: utf8_valid_ascii)
  then have "filters_ok (Some [0x27, 0x3B])" "filters_ok None" "\<forall>vs. None = Some vs \<longrightarrow> list_all utf8_valid vs"
    by (simp_all add: filters_ok_def)
  from catalog_queries_one_statement [OF this(1,2,2,3) v(2,2), of "\<lambda>_. False"]
  have "ensures (one_statement (\<lambda>_. False)) (schemas_query (Some [0x27, 0x3B]))" by blast
  moreover have "validate_like_pattern [0x27, 0x3B] = Ok ()" by code_simp
  then have "\<exists>q. schemas_query (Some [0x27, 0x3B]) = Ok q"
    by (simp add: schemas_query_def like_predicate_def raw_string_literal_def)
  ultimately show ?thesis by (auto simp: ensures_def)
qed

end
