(* ===== verification/Ingest_Store.thy ===== *)
theory Ingest_Store
  imports Bytes "HOL-Library.Sublist"
begin

text \<open>
  How bulk ingest keeps the encoded bytes of a window in memory until they are uploaded
  (\<open>driver.rs\<close>): \<open>CompressedArena\<close>, \<open>EncodedColumn\<close> with its byte shuffling and compression, and the
  upload of a stored column. An anonymous memory map is the bytes written to it so far and its
  capacity; the rest of it is zero.

  The \<open>lz4_flex\<close> crate and the success of an allocation are the parameter record \<open>store_env\<close>;
  \<open>lz4_documented\<close> is what the crate promises: decompressing what was compressed gives it back. The
  lemmas show that a stored column is uploaded as exactly the bytes that were pushed, whatever was
  compressed and whatever else went into the arena.
\<close>

subsection \<open>Data\<close>

definition encode_chunk_bytes :: nat where "encode_chunk_bytes = 1024 * 1024"
definition min_encode_buffer_bytes :: nat where "min_encode_buffer_bytes = 64 * 1024"
definition compressed_arena_slab_bytes :: nat where "compressed_arena_slab_bytes = 16 * 1024 * 1024"
definition compression_probe_bytes :: nat where "compression_probe_bytes = 256 * 1024"

datatype wire_compression = Wire_None | Wire_Auto | Wire_Lz4
datatype compression_transform = Tr_Plain | Tr_Shuffle nat
datatype compression_format = Cf_Block | Cf_Frame
datatype compression_mode = Cm_Unknown | Cm_Enabled compression_transform | Cm_Disabled

record compressed_data =
  cd_slab :: nat
  cd_offset :: nat

datatype encoded_chunk =
    Ch_Raw "u8 list"
  | Ch_Lz4 compressed_data nat nat compression_transform compression_format

record compressed_slab =
  sl_capacity :: nat
  sl_data :: "u8 list"

type_synonym arena = "compressed_slab list"

record pending_chunk =
  pe_capacity :: nat
  pe_data :: "u8 list"

record encoded_column =
  ec_chunks :: "encoded_chunk list"
  ec_pending :: "pending_chunk option"
  ec_compression :: compression_mode
  ec_fixed_width :: "nat option"
  ec_wire :: wire_compression
  ec_bytes :: nat

datatype store_error =
    Arena_Allocation | Buffer_Allocation | Decode_Allocation | Unshuffle_Allocation
  | Compression_Failed | Decompression_Failed | Exceeds_Declared | Decompressed_Length nat nat
  | Client_Transform

text \<open>
  The crate: compressing as a block or a frame (\<open>None\<close> is an error), decompressing a block into a
  buffer of some size, and the contents of a frame.
\<close>

record store_env =
  se_alloc :: "nat \<Rightarrow> bool"
  se_block :: "u8 list \<Rightarrow> u8 list option"
  se_frame :: "u8 list \<Rightarrow> u8 list option"
  se_unblock :: "u8 list \<Rightarrow> nat \<Rightarrow> u8 list option"
  se_unframe :: "u8 list \<Rightarrow> u8 list option"

definition lz4_documented :: "store_env \<Rightarrow> bool" where
  "lz4_documented env \<longleftrightarrow>
     (\<forall>x c. se_block env x = Some c \<longrightarrow> se_unblock env c (length x) = Some x) \<and>
     (\<forall>x c. se_frame env x = Some c \<longrightarrow> se_unframe env c = Some x)"

definition map_anon :: "store_env \<Rightarrow> nat \<Rightarrow> store_error \<Rightarrow> (unit, store_error) result" where
  "map_anon env n e = (if se_alloc env n then Ok () else Err e)"

subsection \<open>The arena\<close>

definition arena_store :: "store_env \<Rightarrow> arena \<Rightarrow> u8 list \<Rightarrow> (arena \<times> compressed_data, store_error) result" where
  "arena_store env arena bytes =
     rbind (if arena \<noteq> [] \<and> sl_capacity (last arena) < length (sl_data (last arena)) then Panic
            else if arena \<noteq> [] \<and> length bytes \<le> sl_capacity (last arena) - length (sl_data (last arena)) then Ok arena
            else
              let capacity = max compressed_arena_slab_bytes (length bytes)
              in rbind (map_anon env capacity Arena_Allocation) (\<lambda>_. Ok (arena @ [\<lparr>sl_capacity = capacity, sl_data = []\<rparr>]))) (\<lambda>arena.
       let slab = length arena - 1; storage = arena ! slab; offset = length (sl_data storage)
       in if offset + length bytes \<le> sl_capacity storage
          then Ok (arena[slab := storage\<lparr>sl_data := sl_data storage @ bytes\<rparr>], \<lparr>cd_slab = slab, cd_offset = offset\<rparr>)
          else Panic)"

definition slab_bytes :: "compressed_slab \<Rightarrow> u8 list" where
  "slab_bytes s = sl_data s @ replicate (sl_capacity s - length (sl_data s)) 0"

definition arena_slice :: "arena \<Rightarrow> compressed_data \<Rightarrow> nat \<Rightarrow> (u8 list, store_error) result" where
  "arena_slice arena data len =
     (if cd_slab data < length arena
      then slice_at (slab_bytes (arena ! cd_slab data)) (cd_offset data) (cd_offset data + len) else Panic)"

subsection \<open>Byte shuffling\<close>

definition aligned_len :: "nat \<Rightarrow> 'a list \<Rightarrow> nat" where
  "aligned_len width input = length input - length input mod width"

definition shuffle_bytes_into :: "u8 list \<Rightarrow> nat \<Rightarrow> (u8 list, store_error) result" where
  "shuffle_bytes_into input width =
     (if width = 0 then Panic
      else
        let rows = aligned_len width input div width
        in Ok (concat (map (\<lambda>byte. map (\<lambda>row. input ! (row * width + byte)) [0..<rows]) [0..<width]) @
               drop (aligned_len width input) input))"

definition unshuffle_bytes :: "u8 list \<Rightarrow> nat \<Rightarrow> u8 list \<Rightarrow> (u8 list, store_error) result" where
  "unshuffle_bytes input width output =
     (if width = 0 \<or> length input \<noteq> length output then Panic
      else
        let rows = aligned_len width input div width;
            output = fold (\<lambda>byte output. fold (\<lambda>row output. output[row * width + byte := input ! (byte * rows + row)]) [0..<rows] output)
              [0..<width] output
        in Ok (take (aligned_len width input) output @ drop (aligned_len width input) input))"

subsection \<open>Compression\<close>

definition compressed_size :: "store_env \<Rightarrow> u8 list \<Rightarrow> compression_format \<Rightarrow> (u8 list, store_error) result" where
  "compressed_size env input format =
     ok_or (case format of Cf_Block \<Rightarrow> se_block env input | Cf_Frame \<Rightarrow> se_frame env input) Compression_Failed"

definition compress_bytes ::
  "store_env \<Rightarrow> u8 list \<Rightarrow> compression_transform \<Rightarrow> compression_format \<Rightarrow> (u8 list, store_error) result" where
  "compress_bytes env input transform format =
     (case transform of
        Tr_Plain \<Rightarrow> compressed_size env input format
      | Tr_Shuffle width \<Rightarrow> rbind (shuffle_bytes_into input width) (\<lambda>transformed. compressed_size env transformed format))"

definition worthwhile :: "nat \<Rightarrow> nat \<Rightarrow> bool" where
  "worthwhile compressed original \<longleftrightarrow> saturating_mul compressed 8 \<le> saturating_mul original 7"

definition select_compression_transform ::
  "store_env \<Rightarrow> u8 list \<Rightarrow> nat option \<Rightarrow> bool \<Rightarrow> compression_format \<Rightarrow> (compression_transform option, store_error) result" where
  "select_compression_transform env input fixed_width allow_shuffle format =
     (let plain = take (min compression_probe_bytes (length input)) input
      in rbind (compressed_size env plain format) (\<lambda>compressed.
         rbind (case fixed_width of
                  Some width \<Rightarrow>
                    if allow_shuffle \<and> 1 < width \<and> 0 < aligned_len width plain
                    then
                      rbind (shuffle_bytes_into plain width) (\<lambda>transformed.
                      rbind (compressed_size env transformed format) (\<lambda>shuffled.
                        Ok (if length shuffled < length compressed then (Tr_Shuffle width, length shuffled)
                            else (Tr_Plain, length compressed))))
                    else Ok (Tr_Plain, length compressed)
                | None \<Rightarrow> Ok (Tr_Plain, length compressed)) (\<lambda>(transform, len).
           Ok (if worthwhile len (length plain) then Some transform else None))))"

subsection \<open>Columns\<close>

definition encoded_column_new :: "nat option \<Rightarrow> wire_compression \<Rightarrow> encoded_column" where
  "encoded_column_new fixed_width wire =
     \<lparr>ec_chunks = [], ec_pending = None, ec_compression = Cm_Unknown, ec_fixed_width = fixed_width, ec_wire = wire, ec_bytes = 0\<rparr>"

definition store_raw :: "store_env \<Rightarrow> u8 list \<Rightarrow> encoded_column \<Rightarrow> (encoded_column, store_error) result" where
  "store_raw env input col =
     rbind (map_anon env (length input) Buffer_Allocation) (\<lambda>_. Ok (col\<lparr>ec_chunks := ec_chunks col @ [Ch_Raw input]\<rparr>))"

text \<open>The compressed chunk of an input, or \<open>None\<close> when compressing is not worthwhile.\<close>

definition compress_pending ::
  "store_env \<Rightarrow> encoded_column \<Rightarrow> u8 list \<Rightarrow> arena \<Rightarrow>
   ((arena \<times> compressed_data \<times> nat \<times> compression_transform \<times> compression_format) option, store_error) result" where
  "compress_pending env col input arena =
     (let force_compression = (ec_wire col = Wire_Lz4);
          probe_format = (if ec_wire col = Wire_Lz4 then Cf_Frame else Cf_Block)
      in rbind (case ec_compression col of
                  Cm_Unknown \<Rightarrow>
                    if force_compression then Ok (Some Tr_Plain)
                    else select_compression_transform env input (ec_fixed_width col) (ec_wire col \<noteq> Wire_Lz4) probe_format
                | Cm_Enabled transform \<Rightarrow> Ok (Some transform)
                | Cm_Disabled \<Rightarrow> Panic) (\<lambda>choice.
           case choice of
             None \<Rightarrow> Ok None
           | Some transform \<Rightarrow>
               let format = (if ec_wire col \<noteq> Wire_None \<and> transform = Tr_Plain then Cf_Frame else Cf_Block)
               in rbind (compress_bytes env input transform format) (\<lambda>compressed.
                    if \<not> force_compression \<and> \<not> worthwhile (length compressed) (length input) then Ok None
                    else rbind (arena_store env arena compressed) (\<lambda>(arena, data).
                      Ok (Some (arena, data, length compressed, transform, format))))))"

definition finish_pending ::
  "store_env \<Rightarrow> encoded_column \<times> arena \<Rightarrow> (encoded_column \<times> arena, store_error) result" where
  "finish_pending env s =
     (case s of (col, arena) \<Rightarrow>
        case ec_pending col of
          None \<Rightarrow> Ok (col, arena)
        | Some pending \<Rightarrow>
            let input = pe_data pending; col = col\<lparr>ec_pending := None\<rparr>
            in if ec_compression col = Cm_Disabled then rbind (store_raw env input col) (\<lambda>col. Ok (col, arena))
               else rbind (compress_pending env col input arena) (\<lambda>compressed.
                 case compressed of
                   Some (arena, data, len, transform, format) \<Rightarrow>
                     Ok (col\<lparr>ec_compression := Cm_Enabled transform,
                           ec_chunks := ec_chunks col @ [Ch_Lz4 data len (length input) transform format]\<rparr>, arena)
                 | None \<Rightarrow> rbind (store_raw env input (col\<lparr>ec_compression := Cm_Disabled\<rparr>)) (\<lambda>col. Ok (col, arena))))"

definition pending_for :: "store_env \<Rightarrow> u8 list \<Rightarrow> encoded_column \<Rightarrow> (pending_chunk, store_error) result" where
  "pending_for env bytes col =
     (case ec_pending col of
        Some pending \<Rightarrow> Ok pending
      | None \<Rightarrow>
          let capacity = max min_encode_buffer_bytes (min (length bytes) encode_chunk_bytes)
          in rbind (map_anon env capacity Buffer_Allocation) (\<lambda>_. Ok \<lparr>pe_capacity = capacity, pe_data = []\<rparr>))"

text \<open>One iteration of the loop of \<open>push\<close>: the bytes left and the new state.\<close>

definition push_step ::
  "store_env \<Rightarrow> u8 list \<Rightarrow> encoded_column \<times> arena \<Rightarrow> (u8 list \<times> encoded_column \<times> arena, store_error) result" where
  "push_step env bytes s =
     (case s of (col, arena) \<Rightarrow>
        rbind (pending_for env bytes col) (\<lambda>pending.
          if pe_capacity pending < length (pe_data pending) then Panic
          else let copied = min (length bytes) (pe_capacity pending - length (pe_data pending));
              pending = pending\<lparr>pe_data := pe_data pending @ take copied bytes\<rparr>;
              s = (col\<lparr>ec_pending := Some pending\<rparr>, arena)
          in rbind (if length (pe_data pending) = pe_capacity pending then finish_pending env s else Ok s) (\<lambda>s.
               Ok (drop copied bytes, s))))"

lemma finish_pending_None: "finish_pending env s = Ok (col, arena) \<Longrightarrow> ec_pending col = None"
  by (auto simp: finish_pending_def store_raw_def Let_def result_simps split: prod.splits option.splits if_splits)

definition pending_full :: "encoded_column \<Rightarrow> nat" where
  "pending_full col =
     (case ec_pending col of Some p \<Rightarrow> if pe_capacity p \<le> length (pe_data p) then 1 else 0 | None \<Rightarrow> 0)"

lemma push_step_decreases:
  assumes "push_step env bytes (col, arena) = Ok (rest, col', arena')" "bytes \<noteq> []"
  shows "length rest < length bytes \<or> length rest = length bytes \<and> pending_full col' < pending_full col"
  using assms finish_pending_None
  by (fastforce simp: push_step_def pending_for_def Let_def map_anon_def pending_full_def min_encode_buffer_bytes_def result_simps
      split: option.splits if_splits)

function push ::
  "store_env \<Rightarrow> u8 list \<Rightarrow> encoded_column \<times> arena \<Rightarrow> (encoded_column \<times> arena, store_error) result" where
  "push env bytes s =
     (if bytes = [] then Ok s
      else case push_step env bytes s of Ok (bytes, s) \<Rightarrow> push env bytes s | Err e \<Rightarrow> Err e | Panic \<Rightarrow> Panic)"
  by pat_completeness auto
termination
  by (relation "measures [\<lambda>(env, bytes, s). length bytes, \<lambda>(env, bytes, s). pending_full (fst s)]")
    (auto dest: push_step_decreases)

declare push.simps [simp del]

definition finish_column :: "store_env \<Rightarrow> encoded_column \<times> arena \<Rightarrow> (encoded_column \<times> arena, store_error) result" where
  "finish_column env s = finish_pending env s"

fun stored_len :: "encoded_chunk \<Rightarrow> nat" where
  "stored_len (Ch_Raw data) = length data"
| "stored_len (Ch_Lz4 _ len _ _ _) = len"

definition column_stored_bytes :: "encoded_column \<Rightarrow> nat" where
  "column_stored_bytes col = sum_list (map stored_len (ec_chunks col))"

fun decoded_chunk_len :: "encoded_chunk \<Rightarrow> nat" where
  "decoded_chunk_len (Ch_Raw data) = length data"
| "decoded_chunk_len (Ch_Lz4 _ _ decoded_len _ _) = decoded_len"

definition column_largest_chunk :: "encoded_column \<Rightarrow> nat" where
  "column_largest_chunk col = fold max (map decoded_chunk_len (ec_chunks col)) 0"

subsection \<open>Upload of a stored column\<close>

definition decompress_frame_into :: "store_env \<Rightarrow> u8 list \<Rightarrow> nat \<Rightarrow> (u8 list, store_error) result" where
  "decompress_frame_into env input output_len =
     rbind (ok_or (se_unframe env input) Decompression_Failed) (\<lambda>contents.
       if length contents < output_len then Err Decompression_Failed
       else if output_len < length contents then Err Exceeds_Declared
       else Ok contents)"

text \<open>The two scratch buffers that the chunks of a column share: a size, and the bytes left over.\<close>

record upload_scratch =
  us_decoded :: "nat option"
  us_unshuffled :: "u8 list option"

definition no_scratch :: upload_scratch where
  "no_scratch = \<lparr>us_decoded = None, us_unshuffled = None\<rparr>"

definition unshuffle_chunk ::
  "store_env \<Rightarrow> u8 list \<Rightarrow> nat \<Rightarrow> nat \<Rightarrow> upload_scratch \<Rightarrow> (u8 list \<times> upload_scratch, store_error) result" where
  "unshuffle_chunk env decoded width decoded_len scratch =
     rbind (case us_unshuffled scratch of
              Some buffer \<Rightarrow>
                if length buffer < decoded_len
                then rbind (map_anon env decoded_len Unshuffle_Allocation) (\<lambda>_. Ok (replicate decoded_len 0)) else Ok buffer
            | None \<Rightarrow> rbind (map_anon env decoded_len Unshuffle_Allocation) (\<lambda>_. Ok (replicate decoded_len 0))) (\<lambda>output.
     rbind (slice_at output 0 (length decoded)) (\<lambda>target.
     rbind (unshuffle_bytes decoded width target) (\<lambda>piece.
       Ok (piece, scratch\<lparr>us_unshuffled := Some (piece @ drop (length decoded) output)\<rparr>))))"

fun upload_chunk ::
  "store_env \<Rightarrow> arena \<Rightarrow> bool \<Rightarrow> encoded_chunk \<Rightarrow> upload_scratch \<Rightarrow> (u8 list \<times> upload_scratch, store_error) result" where
  "upload_chunk env arena wire_lz4 (Ch_Raw data) scratch = Ok (data, scratch)"
| "upload_chunk env arena wire_lz4 (Ch_Lz4 data len decoded_len transform format) scratch =
     rbind (arena_slice arena data len) (\<lambda>data.
       if wire_lz4
       then if transform \<noteq> Tr_Plain \<or> format \<noteq> Cf_Frame then Err Client_Transform else Ok (data, scratch)
       else
         rbind (if (case us_decoded scratch of None \<Rightarrow> True | Some n \<Rightarrow> n < decoded_len)
                then rbind (map_anon env decoded_len Decode_Allocation) (\<lambda>_. Ok (scratch\<lparr>us_decoded := Some decoded_len\<rparr>))
                else Ok scratch) (\<lambda>scratch.
         rbind (case format of
                  Cf_Block \<Rightarrow> ok_or (se_unblock env data decoded_len) Decompression_Failed
                | Cf_Frame \<Rightarrow> decompress_frame_into env data decoded_len) (\<lambda>decoded.
           if length decoded \<noteq> decoded_len then Err (Decompressed_Length (length decoded) decoded_len)
           else case transform of
                  Tr_Plain \<Rightarrow> Ok (decoded, scratch)
                | Tr_Shuffle width \<Rightarrow> unshuffle_chunk env decoded width decoded_len scratch)))"

fun upload_chunks ::
  "store_env \<Rightarrow> arena \<Rightarrow> bool \<Rightarrow> encoded_chunk list \<Rightarrow> upload_scratch \<Rightarrow> (u8 list list, store_error) result" where
  "upload_chunks env arena wire_lz4 [] scratch = Ok []"
| "upload_chunks env arena wire_lz4 (chunk # chunks) scratch =
     rbind (upload_chunk env arena wire_lz4 chunk scratch) (\<lambda>(piece, scratch).
     rbind (upload_chunks env arena wire_lz4 chunks scratch) (\<lambda>pieces. Ok (piece # pieces)))"

subsection \<open>Shuffling round trip\<close>

lemma nth_concat_equal:
  "\<forall>x \<in> set xs. length x = n \<Longrightarrow> i < length xs \<Longrightarrow> j < n \<Longrightarrow> concat xs ! (i * n + j) = xs ! i ! j"
proof (induction xs arbitrary: i)
  case (Cons x xs)
  then show ?case by (cases i) (simp_all add: nth_append)
qed simp

lemma length_fold_update [simp]: "length (fold (\<lambda>k out. out[f k := g k]) ks out) = length out"
  by (induction ks arbitrary: out) simp_all

lemma nth_fold_update:
  assumes "\<And>k. k \<in> set ks \<Longrightarrow> f k = i \<Longrightarrow> g k = v" "\<exists>k \<in> set ks. f k = i" "i < length out"
  shows "fold (\<lambda>k out. out[f k := g k]) ks out ! i = v"
  using assms
proof (induction ks rule: rev_induct)
  case (snoc k ks)
  then show ?case by (cases "f k = i") auto
qed simp

lemma fold_product: "fold (\<lambda>x. fold (\<lambda>y. h x y) ys) xs = fold (\<lambda>(x, y). h x y) (List.product xs ys)"
  by (induction xs) (simp_all add: fold_map comp_def)

lemma aligned_len_rows:
  "aligned_len w xs = aligned_len w xs div w * w" "aligned_len w xs \<le> length xs"
  by (simp_all add: aligned_len_def minus_mod_eq_div_mult)

lemma shuffled_length:
  "shuffle_bytes_into xs w = Ok ys \<Longrightarrow> length ys = length xs"
  using aligned_len_rows [of w xs]
  by (auto simp: shuffle_bytes_into_def Let_def length_concat comp_def sum_list_triv mult.commute split: if_splits)

lemma shuffled_nth:
  assumes "shuffle_bytes_into xs w = Ok ys" "byte < w" "row < aligned_len w xs div w"
  shows "ys ! (byte * (aligned_len w xs div w) + row) = xs ! (row * w + byte)"
proof -
  let ?rows = "aligned_len w xs div w"
  let ?blocks = "map (\<lambda>byte. map (\<lambda>row. xs ! (row * w + byte)) [0..<?rows]) [0..<w]"
  have "byte * ?rows + row < w * ?rows"
  proof -
    have "byte * ?rows + row < Suc byte * ?rows" using assms(3) by simp
    also have "\<dots> \<le> w * ?rows" using assms(2) by (intro mult_le_mono1) simp
    finally show ?thesis .
  qed
  then have "byte * ?rows + row < length (concat ?blocks)"
    by (simp add: length_concat comp_def sum_list_triv)
  moreover have "concat ?blocks ! (byte * ?rows + row) = ?blocks ! byte ! row"
    by (rule nth_concat_equal) (use assms(2,3) in auto)
  ultimately show ?thesis
    using assms by (auto simp: shuffle_bytes_into_def Let_def nth_append split: if_splits)
qed

lemma unshuffle_shuffled:
  assumes "shuffle_bytes_into xs w = Ok ys" "length out = length xs"
  shows "unshuffle_bytes ys w out = Ok xs"
proof -
  let ?n = "aligned_len w xs" and ?rows = "aligned_len w xs div w"
  have w: "0 < w" using assms(1) by (auto simp: shuffle_bytes_into_def split: if_splits)
  have l: "length ys = length xs" by (rule shuffled_length [OF assms(1)])
  then have al: "aligned_len w ys = ?n" by (simp add: aligned_len_def)
  have tail: "drop ?n ys = drop ?n xs"
    using assms(1) aligned_len_rows [of w xs]
    by (auto simp: shuffle_bytes_into_def Let_def length_concat comp_def sum_list_triv mult.commute split: if_splits)
  define res where "res = fold (\<lambda>(byte, row) out. out[row * w + byte := ys ! (byte * ?rows + row)]) (List.product [0..<w] [0..<?rows]) out"
  have res: "res = fold (\<lambda>k out. out[snd k * w + fst k := ys ! (fst k * ?rows + snd k)]) (List.product [0..<w] [0..<?rows]) out"
    by (simp add: res_def case_prod_beta')
  have "res ! i = xs ! i" if i: "i < ?n" for i
    unfolding res
  proof (rule nth_fold_update)
    fix k assume "k \<in> set (List.product [0..<w] [0..<?rows])" "snd k * w + fst k = i"
    then show "ys ! (fst k * ?rows + snd k) = xs ! i"
      using shuffled_nth [OF assms(1)] by (auto simp: mem_Times_iff)
  next
    have "i div w < ?rows" using i aligned_len_rows(1) [of w xs] w by (metis less_mult_imp_div_less)
    then show "\<exists>k \<in> set (List.product [0..<w] [0..<?rows]). snd k * w + fst k = i"
      using w by (intro bexI [of _ "(i mod w, i div w)"]) auto
    show "i < length out" using i assms(2) aligned_len_rows(2) [of w xs] by simp
  qed
  moreover have "length res = length xs" by (simp add: res assms(2))
  ultimately have "take ?n res = take ?n xs"
    using aligned_len_rows(2) [of w xs] by (intro nth_equalityI) simp_all
  moreover have "unshuffle_bytes ys w out = Ok (take ?n res @ drop ?n ys)"
    using w l assms(2) by (simp add: unshuffle_bytes_def Let_def al fold_product res_def)
  ultimately show ?thesis by (simp add: tail)
qed

subsection \<open>What the arena holds\<close>

definition arena_wf :: "arena \<Rightarrow> bool" where
  "arena_wf arena \<longleftrightarrow> (\<forall>s \<in> set arena. length (sl_data s) \<le> sl_capacity s)"

definition arena_has :: "arena \<Rightarrow> compressed_data \<Rightarrow> u8 list \<Rightarrow> bool" where
  "arena_has arena data bytes \<longleftrightarrow>
     cd_slab data < length arena \<and> (\<exists>before after. sl_data (arena ! cd_slab data) = before @ bytes @ after \<and> length before = cd_offset data)"

text \<open>Slabs are only added, and bytes are only added to a slab.\<close>

definition arena_grows :: "arena \<Rightarrow> arena \<Rightarrow> bool" where
  "arena_grows a b \<longleftrightarrow> length a \<le> length b \<and> (\<forall>i < length a. prefix (sl_data (a ! i)) (sl_data (b ! i)))"

lemma arena_grows_refl [simp]: "arena_grows a a"
  by (simp add: arena_grows_def)

lemma arena_grows_trans: "arena_grows a b \<Longrightarrow> arena_grows b c \<Longrightarrow> arena_grows a c"
  unfolding arena_grows_def by (meson order_trans less_le_trans prefix_order.trans)

lemma arena_has_grows: "arena_has a data bytes \<Longrightarrow> arena_grows a b \<Longrightarrow> arena_has b data bytes"
  unfolding arena_has_def arena_grows_def prefix_def by (metis append.assoc order_less_le_trans)

lemma arena_slice_has: "arena_has arena data bytes \<Longrightarrow> arena_slice arena data (length bytes) = Ok bytes"
  by (auto simp: arena_has_def arena_slice_def slab_bytes_def slice_at_def slice_def)

lemma arena_room:
  assumes "arena \<noteq> []" "arena_wf arena" "length (sl_data (last arena)) + length bytes \<le> sl_capacity (last arena)"
  defines "new \<equiv> arena[length arena - 1 := last arena\<lparr>sl_data := sl_data (last arena) @ bytes\<rparr>]"
  shows "arena_wf new" "arena_grows arena new"
    "arena_has new \<lparr>cd_slab = length arena - 1, cd_offset = length (sl_data (last arena))\<rparr> bytes"
proof -
  show "arena_wf new"
    using assms set_update_subset_insert [of arena] unfolding arena_wf_def new_def by fastforce
  show "arena_grows arena new"
    using assms(1) by (auto simp: arena_grows_def new_def nth_list_update last_conv_nth)
  show "arena_has new \<lparr>cd_slab = length arena - 1, cd_offset = length (sl_data (last arena))\<rparr> bytes"
    using assms(1) by (simp add: arena_has_def new_def) (metis append.right_neutral)
qed

lemma arena_store_stores:
  assumes "arena_wf arena" "arena_store env arena bytes = Ok (arena', data)"
  shows "arena_wf arena' \<and> arena_grows arena arena' \<and> arena_has arena' data bytes"
proof (cases "arena \<noteq> [] \<and> length bytes \<le> sl_capacity (last arena) - length (sl_data (last arena))")
  case True
  with assms show ?thesis
    using arena_room [of arena bytes] by (auto simp: arena_store_def Let_def last_conv_nth split: if_splits)
next
  case False
  let ?cap = "max compressed_arena_slab_bytes (length bytes)"
  let ?arena = "arena @ [\<lparr>sl_capacity = ?cap, sl_data = []\<rparr>]"
  have wf: "arena_wf ?arena" using assms(1) by (auto simp: arena_wf_def)
  have g: "arena_grows arena ?arena" by (auto simp: arena_grows_def nth_append)
  note room = arena_room [of ?arena bytes, OF _ wf]
  from False assms(2) have "arena' = ?arena[length ?arena - 1 := last ?arena\<lparr>sl_data := sl_data (last ?arena) @ bytes\<rparr>]"
    "data = \<lparr>cd_slab = length ?arena - 1, cd_offset = length (sl_data (last ?arena))\<rparr>"
    by (auto simp: arena_store_def Let_def map_anon_def result_simps split: if_splits)
  with room arena_grows_trans [OF g] show ?thesis by simp
qed

lemma arena_store_no_panic:
  assumes "arena_wf arena"
  shows "arena_store env arena bytes \<noteq> Panic"
proof (cases "arena = []")
  case False
  then have "length (sl_data (last arena)) \<le> sl_capacity (last arena)" using assms by (simp add: arena_wf_def)
  then show ?thesis
    by (auto simp: arena_store_def Let_def map_anon_def result_simps last_conv_nth split: if_splits)
qed (auto simp: arena_store_def Let_def map_anon_def result_simps split: if_splits)

subsection \<open>What a column holds\<close>

fun chunk_holds :: "store_env \<Rightarrow> arena \<Rightarrow> encoded_chunk \<Rightarrow> u8 list \<Rightarrow> bool" where
  "chunk_holds env arena (Ch_Raw data) bytes \<longleftrightarrow> bytes = data"
| "chunk_holds env arena (Ch_Lz4 data len decoded_len transform format) bytes \<longleftrightarrow>
     decoded_len = length bytes \<and>
     (\<exists>compressed. length compressed = len \<and> arena_has arena data compressed \<and> compress_bytes env bytes transform format = Ok compressed)"

definition pending_bytes :: "encoded_column \<Rightarrow> u8 list" where
  "pending_bytes col = (case ec_pending col of None \<Rightarrow> [] | Some p \<Rightarrow> pe_data p)"

definition column_holds :: "store_env \<Rightarrow> arena \<Rightarrow> encoded_column \<Rightarrow> u8 list \<Rightarrow> bool" where
  "column_holds env arena col bytes \<longleftrightarrow>
     (\<exists>parts. list_all2 (chunk_holds env arena) (ec_chunks col) parts \<and> bytes = concat parts @ pending_bytes col)"

fun frame_chunk :: "encoded_chunk \<Rightarrow> bool" where
  "frame_chunk (Ch_Raw _) \<longleftrightarrow> False"
| "frame_chunk (Ch_Lz4 _ _ _ transform format) \<longleftrightarrow> transform = Tr_Plain \<and> format = Cf_Frame"

definition column_ok :: "encoded_column \<Rightarrow> bool" where
  "column_ok col \<longleftrightarrow>
     (\<forall>p. ec_pending col = Some p \<longrightarrow> length (pe_data p) \<le> pe_capacity p) \<and>
     (\<forall>w. ec_compression col = Cm_Enabled (Tr_Shuffle w) \<longrightarrow> 0 < w) \<and>
     (ec_wire col = Wire_Lz4 \<longrightarrow>
        ec_compression col \<in> {Cm_Unknown, Cm_Enabled Tr_Plain} \<and> (\<forall>chunk \<in> set (ec_chunks col). frame_chunk chunk))"

text \<open>The state of a column and its arena, after an arena that others may use: it holds these bytes.\<close>

definition store_holds :: "store_env \<Rightarrow> wire_compression \<Rightarrow> arena \<Rightarrow> encoded_column \<times> arena \<Rightarrow> u8 list \<Rightarrow> bool" where
  "store_holds env wire arena0 s bytes \<longleftrightarrow>
     (case s of (col, arena) \<Rightarrow>
        ec_wire col = wire \<and> arena_wf arena \<and> arena_grows arena0 arena \<and> column_ok col \<and> column_holds env arena col bytes)"

lemma chunk_holds_grows: "chunk_holds env a chunk bytes \<Longrightarrow> arena_grows a b \<Longrightarrow> chunk_holds env b chunk bytes"
  by (cases chunk) (auto intro: arena_has_grows)

lemma column_holds_grows: "column_holds env a col bytes \<Longrightarrow> arena_grows a b \<Longrightarrow> column_holds env b col bytes"
  unfolding column_holds_def by (metis chunk_holds_grows list.rel_mono_strong)

lemma new_column_holds [simp]:
  "column_ok (encoded_column_new fixed_width wire)" "column_holds env arena (encoded_column_new fixed_width wire) []"
  by (auto simp: column_ok_def column_holds_def encoded_column_new_def pending_bytes_def)

lemma column_holds_chunk:
  assumes "column_holds env arena col bytes" "arena_grows arena arena'" "chunk_holds env arena' chunk (pending_bytes col)"
    "ec_chunks col' = ec_chunks col @ [chunk]" "ec_pending col' = None"
  shows "column_holds env arena' col' bytes"
proof -
  from column_holds_grows [OF assms(1,2)] obtain parts
    where "list_all2 (chunk_holds env arena') (ec_chunks col) parts" "bytes = concat parts @ pending_bytes col"
    by (auto simp: column_holds_def)
  with assms(3-) show ?thesis
    unfolding column_holds_def by (intro exI [of _ "parts @ [pending_bytes col]"]) (simp add: list_all2_appendI pending_bytes_def)
qed

lemma selected_transform:
  "select_compression_transform env input fixed_width allow format = Ok (Some (Tr_Shuffle w)) \<Longrightarrow> 0 < w"
  by (auto simp: select_compression_transform_def Let_def result_simps split: option.splits if_splits)

lemma compress_pending_stores:
  assumes "arena_wf arena" "column_ok col" "compress_pending env col input arena = Ok (Some (arena', data, len, transform, format))"
  shows "arena_wf arena' \<and> arena_grows arena arena' \<and> chunk_holds env arena' (Ch_Lz4 data len (length input) transform format) input \<and>
    (\<forall>w. transform = Tr_Shuffle w \<longrightarrow> 0 < w) \<and> (ec_wire col = Wire_Lz4 \<longrightarrow> transform = Tr_Plain \<and> format = Cf_Frame)"
proof -
  from assms(3) obtain compressed where c: "compress_bytes env input transform format = Ok compressed"
    and st: "arena_store env arena compressed = Ok (arena', data)" and len: "len = length compressed"
    and fmt: "format = (if ec_wire col \<noteq> Wire_None \<and> transform = Tr_Plain then Cf_Frame else Cf_Block)"
    by (auto simp: compress_pending_def Let_def result_simps split: option.splits if_splits prod.splits)
  have "0 < w" if "transform = Tr_Shuffle w" for w
    using that c by (auto simp: compress_bytes_def shuffle_bytes_into_def Let_def split: if_splits)
  moreover have "transform = Tr_Plain" if "ec_wire col = Wire_Lz4"
    using that assms(2,3)
    by (auto simp: compress_pending_def column_ok_def Let_def result_simps split: option.splits if_splits prod.splits)
  ultimately show ?thesis
    using arena_store_stores [OF assms(1) st] c len fmt by auto
qed

lemma compress_pending_declines:
  "column_ok col \<Longrightarrow> compress_pending env col input arena = Ok None \<Longrightarrow> ec_wire col \<noteq> Wire_Lz4"
  by (auto simp: compress_pending_def column_ok_def Let_def result_simps split: option.splits if_splits prod.splits)

lemma store_holds_chunk:
  assumes "store_holds env wire arena0 (col, arena) bytes" "arena_wf arena'" "arena_grows arena arena'"
    and "chunk_holds env arena' chunk (pending_bytes col)"
    and "\<And>w. mode = Cm_Enabled (Tr_Shuffle w) \<Longrightarrow> 0 < w"
    and "wire = Wire_Lz4 \<Longrightarrow> mode = Cm_Enabled Tr_Plain \<and> frame_chunk chunk"
  shows "store_holds env wire arena0
    (col\<lparr>ec_pending := None, ec_compression := mode, ec_chunks := ec_chunks col @ [chunk]\<rparr>, arena') bytes"
  using assms column_holds_chunk [of env arena col bytes arena' chunk] arena_grows_trans [of arena0 arena arena']
  by (auto simp: store_holds_def column_ok_def)

lemma finish_pending_cases:
  assumes "finish_pending env (col, arena) = Ok s'" "ec_pending col = Some p"
  obtains (disabled) "ec_compression col = Cm_Disabled"
      "s' = (col\<lparr>ec_pending := None, ec_compression := Cm_Disabled, ec_chunks := ec_chunks col @ [Ch_Raw (pe_data p)]\<rparr>, arena)"
  | (declined) "compress_pending env (col\<lparr>ec_pending := None\<rparr>) (pe_data p) arena = Ok None"
      "s' = (col\<lparr>ec_pending := None, ec_compression := Cm_Disabled, ec_chunks := ec_chunks col @ [Ch_Raw (pe_data p)]\<rparr>, arena)"
  | (compressed) arena' data len transform format
    where "compress_pending env (col\<lparr>ec_pending := None\<rparr>) (pe_data p) arena = Ok (Some (arena', data, len, transform, format))"
      "s' = (col\<lparr>ec_pending := None, ec_compression := Cm_Enabled transform,
               ec_chunks := ec_chunks col @ [Ch_Lz4 data len (length (pe_data p)) transform format]\<rparr>, arena')"
proof (cases "ec_compression col = Cm_Disabled")
  case True
  then have "s' = (col\<lparr>ec_pending := None, ec_compression := Cm_Disabled, ec_chunks := ec_chunks col @ [Ch_Raw (pe_data p)]\<rparr>, arena)"
    using assms by (auto simp: finish_pending_def store_raw_def Let_def result_simps)
  with True show ?thesis by (rule disabled)
next
  case False
  with assms obtain r where r: "compress_pending env (col\<lparr>ec_pending := None\<rparr>) (pe_data p) arena = Ok r"
    by (auto simp: finish_pending_def Let_def result_simps)
  show ?thesis
  proof (cases r)
    case None
    with False assms r show ?thesis
      by (intro declined) (auto simp: finish_pending_def store_raw_def Let_def result_simps)
  next
    case (Some t)
    obtain arena' data len transform format where t: "t = (arena', data, len, transform, format)" by (cases t) auto
    with False assms r Some show ?thesis
      by (intro compressed) (auto simp: finish_pending_def Let_def result_simps)
  qed
qed

lemma finish_pending_holds:
  assumes "store_holds env wire arena0 s bytes" "finish_pending env s = Ok s'"
  shows "store_holds env wire arena0 s' bytes"
proof -
  obtain col arena where s: "s = (col, arena)" by force
  from assms(1) have wf: "arena_wf arena" and ok: "column_ok col" and wire: "ec_wire col = wire"
    by (simp_all add: s store_holds_def)
  then have ok': "column_ok (col\<lparr>ec_pending := None\<rparr>)" by (simp add: column_ok_def)
  note add = store_holds_chunk [OF assms(1) [unfolded s]]
  show ?thesis
  proof (cases "ec_pending col")
    case None
    with assms show ?thesis by (simp add: s finish_pending_def)
  next
    case (Some p)
    then have pb: "pending_bytes col = pe_data p" by (simp add: pending_bytes_def)
    from assms(2) [unfolded s] Some show ?thesis
    proof (cases rule: finish_pending_cases)
      case disabled
      then have "wire \<noteq> Wire_Lz4" using ok wire by (auto simp: column_ok_def)
      then show ?thesis unfolding disabled(2) by (intro add) (simp_all add: wf pb)
    next
      case declined
      then have "wire \<noteq> Wire_Lz4" using compress_pending_declines [OF ok'] wire by auto
      then show ?thesis unfolding declined(2) by (intro add) (simp_all add: wf pb)
    next
      case compressed
      with compress_pending_stores [OF wf ok' compressed(1)] show ?thesis
        unfolding compressed(2) by (intro add) (simp_all add: wire pb)
    qed
  qed
qed

lemma push_step_holds:
  assumes "store_holds env wire arena0 s bytes" "push_step env input s = Ok (rest, s')"
  shows "\<exists>copied. input = copied @ rest \<and> store_holds env wire arena0 s' (bytes @ copied)"
proof -
  obtain col arena where s: "s = (col, arena)" by force
  from assms(2) obtain p where pf: "pending_for env input col = Ok p" and cap: "length (pe_data p) \<le> pe_capacity p"
    by (auto simp: s push_step_def Let_def result_simps split: if_splits)
  then have p: "pe_data p = pending_bytes col"
    by (auto simp: pending_for_def pending_bytes_def Let_def result_simps split: option.splits)
  define copied where "copied = min (length input) (pe_capacity p - length (pe_data p))"
  then have p': "copied \<le> pe_capacity p - length (pe_data p)" by simp
  from assms(2) pf cap have rest: "rest = drop copied input"
    and fin: "(let s = (col\<lparr>ec_pending := Some (p\<lparr>pe_data := pe_data p @ take copied input\<rparr>)\<rparr>, arena)
               in finish_pending env s = Ok s' \<or> s' = s)"
    by (auto simp: s push_step_def copied_def [symmetric] Let_def result_simps split: if_splits)
  let ?s = "(col\<lparr>ec_pending := Some (p\<lparr>pe_data := pe_data p @ take copied input\<rparr>)\<rparr>, arena)"
  have "store_holds env wire arena0 ?s (bytes @ take copied input)"
    using assms(1) p p' cap by (auto simp: s store_holds_def column_ok_def column_holds_def pending_bytes_def)
  then have "store_holds env wire arena0 s' (bytes @ take copied input)"
    using fin finish_pending_holds [of env wire arena0 ?s _ s'] by (auto simp: Let_def simp del: split_paired_All)
  then show ?thesis by (intro exI [of _ "take copied input"]) (simp add: rest)
qed

lemma push_holds:
  "store_holds env wire arena0 s bytes \<Longrightarrow> push env input s = Ok s' \<Longrightarrow> store_holds env wire arena0 s' (bytes @ input)"
proof (induction env input s arbitrary: bytes rule: push.induct)
  case (1 env input s)
  show ?case
  proof (cases "input = []")
    case True
    with 1 show ?thesis by (simp add: push.simps)
  next
    case False
    with 1(3) obtain rest s1 where st: "push_step env input s = Ok (rest, s1)" and r: "push env rest s1 = Ok s'"
      by (auto simp: push.simps [of env input] split: result.splits)
    from push_step_holds [OF 1(2) st] obtain copied where "input = copied @ rest"
      "store_holds env wire arena0 s1 (bytes @ copied)" by blast
    with 1(1) [OF False st refl _ r, of "bytes @ copied"] show ?thesis by simp
  qed
qed

subsection \<open>No panic\<close>

lemma compressed_size_no_panic: "compressed_size env input format \<noteq> Panic"
  by (simp add: compressed_size_def ok_or_def split: option.split)

lemma shuffle_no_panic: "0 < w \<Longrightarrow> shuffle_bytes_into input w \<noteq> Panic"
  by (simp add: shuffle_bytes_into_def Let_def)

lemma select_no_panic: "select_compression_transform env input fixed_width allow format \<noteq> Panic"
  by (auto simp: select_compression_transform_def Let_def result_simps compressed_size_no_panic shuffle_no_panic
      split: option.splits if_splits prod.splits)

lemma compress_bytes_no_panic:
  "(\<And>w. transform = Tr_Shuffle w \<Longrightarrow> 0 < w) \<Longrightarrow> compress_bytes env input transform format \<noteq> Panic"
  by (cases transform) (auto simp: compress_bytes_def result_simps compressed_size_no_panic shuffle_no_panic)

lemma compress_pending_no_panic:
  assumes "arena_wf arena" "column_ok col" "ec_compression col \<noteq> Cm_Disabled"
  shows "compress_pending env col input arena \<noteq> Panic"
proof -
  have "compress_bytes env input (Tr_Shuffle w) format \<noteq> Panic"
    if "ec_compression col = Cm_Enabled (Tr_Shuffle w) \<or>
      select_compression_transform env input fixed_width allow f = Ok (Some (Tr_Shuffle w))" for w fixed_width allow f format
    using that assms(2) selected_transform by (intro compress_bytes_no_panic) (auto simp: column_ok_def)
  moreover have "compress_bytes env input Tr_Plain format \<noteq> Panic" for format by (rule compress_bytes_no_panic) simp
  ultimately have "compress_bytes env input t format \<noteq> Panic"
    if "ec_compression col = Cm_Enabled t \<or>
      select_compression_transform env input fixed_width allow f = Ok (Some t)" for t fixed_width allow f format
    using that by (cases t) blast+
  then show ?thesis
    using assms(3) arena_store_no_panic [OF assms(1)] compress_bytes_no_panic [of Tr_Plain]
    by (auto simp: compress_pending_def Let_def result_simps select_no_panic
        split: option.splits if_splits prod.splits compression_mode.splits)
qed

lemma finish_pending_no_panic:
  assumes "store_holds env wire arena0 s bytes"
  shows "finish_pending env s \<noteq> Panic"
proof -
  obtain col arena where s: "s = (col, arena)" by force
  from assms have "arena_wf arena" "column_ok (col\<lparr>ec_pending := None\<rparr>)"
    by (auto simp: s store_holds_def column_ok_def)
  then show ?thesis
    using compress_pending_no_panic [of arena "col\<lparr>ec_pending := None\<rparr>"]
    by (auto simp: s finish_pending_def store_raw_def map_anon_def Let_def result_simps split: option.splits if_splits)
qed

lemma pending_for_fits:
  "column_ok col \<Longrightarrow> pending_for env input col = Ok p \<Longrightarrow> pe_data p = pending_bytes col \<and> length (pe_data p) \<le> pe_capacity p"
  by (auto simp: pending_for_def pending_bytes_def column_ok_def Let_def result_simps split: option.splits)

lemma push_step_no_panic:
  assumes "store_holds env wire arena0 s bytes"
  shows "push_step env input s \<noteq> Panic"
proof -
  obtain col arena where s: "s = (col, arena)" by force
  have ok: "column_ok col" using assms by (simp add: s store_holds_def)
  have "finish_pending env (col\<lparr>ec_pending := Some (p\<lparr>pe_data := pe_data p @ take n input\<rparr>)\<rparr>, arena) \<noteq> Panic"
    if "pending_for env input col = Ok p" "n \<le> pe_capacity p - length (pe_data p)" for p n
  proof (rule finish_pending_no_panic [of _ wire arena0 _ "bytes @ take n input"])
    show "store_holds env wire arena0 (col\<lparr>ec_pending := Some (p\<lparr>pe_data := pe_data p @ take n input\<rparr>)\<rparr>, arena) (bytes @ take n input)"
      using assms that pending_for_fits [OF ok] by (fastforce simp: s store_holds_def column_ok_def column_holds_def pending_bytes_def)
  qed
  then show ?thesis
    using pending_for_fits [OF ok]
    by (auto simp: s push_step_def pending_for_def map_anon_def Let_def result_simps not_less split: option.splits if_splits)
qed

lemma push_no_panic: "store_holds env wire arena0 s bytes \<Longrightarrow> push env input s \<noteq> Panic"
proof (induction env input s arbitrary: bytes rule: push.induct)
  case (1 env input s)
  show ?case
  proof (cases "input = []")
    case False
    show ?thesis
    proof (cases "push_step env input s")
      case (Ok r)
      obtain rest s1 where r: "r = (rest, s1)" by (rule prod.exhaust)
      from push_step_holds [OF 1(2) Ok [unfolded r]] obtain copied where "store_holds env wire arena0 s1 (bytes @ copied)" by blast
      from 1(1) [OF False Ok [unfolded r] refl this] show ?thesis
        using False by (simp add: push.simps [of env input] Ok r)
    qed (use False push_step_no_panic [OF 1(2)] in \<open>simp_all add: push.simps [of env input]\<close>)
  qed (simp add: push.simps)
qed

subsection \<open>What is uploaded\<close>

lemma decompressed:
  assumes "lz4_documented env" "compressed_size env bytes format = Ok compressed"
  shows "(case format of
      Cf_Block \<Rightarrow> ok_or (se_unblock env compressed (length bytes)) Decompression_Failed
    | Cf_Frame \<Rightarrow> decompress_frame_into env compressed (length bytes)) = Ok bytes"
  using assms
  by (auto simp: lz4_documented_def compressed_size_def decompress_frame_into_def ok_or_def
      split: compression_format.splits option.splits)

definition upload_refused :: "store_env \<Rightarrow> store_error \<Rightarrow> bool" where
  "upload_refused env e \<longleftrightarrow> e \<in> {Decode_Allocation, Unshuffle_Allocation} \<and> (\<exists>n. \<not> se_alloc env n)"

lemma unshuffle_chunk_restores:
  assumes "shuffle_bytes_into bytes w = Ok decoded"
  shows "case unshuffle_chunk env decoded w (length bytes) scratch of
      Ok (piece, _) \<Rightarrow> piece = bytes | Err e \<Rightarrow> upload_refused env e | Panic \<Rightarrow> False"
proof -
  have l: "length decoded = length bytes" by (rule shuffled_length [OF assms])
  have "unshuffle_bytes decoded w (take (length bytes) out) = Ok bytes" if "length bytes \<le> length out" for out
    by (rule unshuffle_shuffled [OF assms]) (simp add: that)
  moreover have "unshuffle_bytes decoded w (replicate (length bytes) 0) = Ok bytes"
    by (rule unshuffle_shuffled [OF assms]) simp
  ultimately show ?thesis
    by (auto simp: unshuffle_chunk_def map_anon_def upload_refused_def slice_at_def slice_def l split: option.split)
qed

lemma upload_chunk_restores:
  assumes "lz4_documented env" "chunk_holds env arena chunk bytes"
  shows "case upload_chunk env arena False chunk scratch of
      Ok (piece, _) \<Rightarrow> piece = bytes | Err e \<Rightarrow> upload_refused env e | Panic \<Rightarrow> False"
proof (cases chunk)
  case (Ch_Lz4 data len decoded_len transform format)
  with assms(2) obtain compressed where c: "arena_has arena data compressed" "len = length compressed"
    and b: "decoded_len = length bytes" "compress_bytes env bytes transform format = Ok compressed" by auto
  note sl = arena_slice_has [OF c(1)]
  show ?thesis
  proof (cases transform)
    case Tr_Plain
    with b have "compressed_size env bytes format = Ok compressed" by (simp add: compress_bytes_def)
    from decompressed [OF assms(1) this] show ?thesis
      by (auto simp: Ch_Lz4 Tr_Plain c(2) b(1) sl map_anon_def upload_refused_def)
  next
    case (Tr_Shuffle w)
    with b obtain decoded where d: "shuffle_bytes_into bytes w = Ok decoded" "compressed_size env decoded format = Ok compressed"
      by (auto simp: compress_bytes_def result_simps)
    note len = shuffled_length [OF d(1)]
    from decompressed [OF assms(1) d(2), unfolded len] len unshuffle_chunk_restores [OF d(1), of env] show ?thesis
      by (auto simp: Ch_Lz4 Tr_Shuffle c(2) b(1) sl map_anon_def upload_refused_def)
  qed
qed (use assms in simp)

lemma upload_chunks_restore:
  assumes "lz4_documented env" "list_all2 (chunk_holds env arena) chunks parts"
  shows "case upload_chunks env arena False chunks scratch of
      Ok pieces \<Rightarrow> concat pieces = concat parts | Err e \<Rightarrow> upload_refused env e | Panic \<Rightarrow> False"
  using assms(2)
proof (induction arbitrary: scratch rule: list_all2_induct)
  case (Cons chunk chunks part parts)
  show ?case
  proof (cases "upload_chunk env arena False chunk scratch")
    case (Ok r)
    with upload_chunk_restores [OF assms(1) Cons(1), of scratch] Cons(3) [of "snd r"] show ?thesis
      by (auto simp: case_prod_beta split: result.splits)
  qed (use upload_chunk_restores [OF assms(1) Cons(1), of scratch] in simp_all)
qed simp

lemma upload_frames:
  assumes "lz4_documented env" "list_all2 (chunk_holds env arena) chunks parts" "\<forall>chunk \<in> set chunks. frame_chunk chunk"
  shows "\<exists>pieces. upload_chunks env arena True chunks scratch = Ok pieces \<and>
    list_all2 (\<lambda>piece part. se_unframe env piece = Some part) pieces parts"
  using assms(2,3)
proof (induction rule: list_all2_induct)
  case (Cons chunk chunks part parts)
  then obtain data compressed where c: "chunk = Ch_Lz4 data (length compressed) (length part) Tr_Plain Cf_Frame"
      "arena_has arena data compressed" "se_frame env part = Some compressed"
    by (cases chunk) (auto simp: compress_bytes_def compressed_size_def ok_or_def split: option.splits)
  with assms(1) have "se_unframe env compressed = Some part" by (simp add: lz4_documented_def)
  with c Cons show ?case by (auto simp: arena_slice_has)
qed simp

subsection \<open>No failure while memory and the compressor last\<close>

definition store_available :: "store_env \<Rightarrow> bool" where
  "store_available env \<longleftrightarrow> (\<forall>n. se_alloc env n) \<and> (\<forall>x. se_block env x \<noteq> None \<and> se_frame env x \<noteq> None)"

lemma available_steps:
  assumes "store_available env"
  shows "map_anon env n e = Ok ()" "compressed_size env input format \<noteq> Err f"
proof -
  show "map_anon env n e = Ok ()" using assms by (simp add: store_available_def map_anon_def)
  from assms have "se_block env input \<noteq> None" "se_frame env input \<noteq> None" unfolding store_available_def by blast+
  then show "compressed_size env input format \<noteq> Err f" by (auto simp: compressed_size_def ok_or_def split: compression_format.splits)
qed

lemma shuffle_no_error: "shuffle_bytes_into input w \<noteq> Err e"
  by (simp add: shuffle_bytes_into_def Let_def)

lemma select_no_error:
  "store_available env \<Longrightarrow> select_compression_transform env input fixed_width allow format \<noteq> Err e"
  by (auto simp: select_compression_transform_def Let_def result_simps available_steps shuffle_no_error
      split: option.splits if_splits prod.splits)

lemma compress_bytes_no_error: "store_available env \<Longrightarrow> compress_bytes env input transform format \<noteq> Err e"
  by (auto simp: compress_bytes_def result_simps available_steps shuffle_no_error split: compression_transform.splits)

lemma arena_store_no_error: "store_available env \<Longrightarrow> arena_store env arena bytes \<noteq> Err e"
  by (auto simp: arena_store_def Let_def result_simps available_steps split: if_splits)

lemma finish_pending_no_error:
  assumes "store_available env"
  shows "finish_pending env s \<noteq> Err e"
proof -
  have "compress_pending env col input arena \<noteq> Err e" for col input arena
    using assms by (auto simp: compress_pending_def Let_def result_simps select_no_error compress_bytes_no_error arena_store_no_error
        split: option.splits if_splits prod.splits compression_mode.splits)
  then show ?thesis
    using assms by (auto simp: finish_pending_def store_raw_def Let_def result_simps available_steps split: prod.splits option.splits if_splits)
qed

lemma push_no_error: "store_available env \<Longrightarrow> push env input s \<noteq> Err e"
proof (induction env input s rule: push.induct)
  case (1 env input s)
  have "push_step env input s \<noteq> Err e"
    using 1(2) by (auto simp: push_step_def pending_for_def Let_def result_simps available_steps finish_pending_no_error
        split: prod.splits option.splits if_splits)
  with 1 show ?case by (subst push.simps) (auto split: result.splits)
qed

subsection \<open>Properties\<close>

text \<open>The calls that fill a column: the pieces of its encoding, then \<open>finish\<close>.\<close>

fun push_all ::
  "store_env \<Rightarrow> u8 list list \<Rightarrow> encoded_column \<times> arena \<Rightarrow> (encoded_column \<times> arena, store_error) result" where
  "push_all env [] s = Ok s"
| "push_all env (input # inputs) s = rbind (push env input s) (push_all env inputs)"

definition fill_column ::
  "store_env \<Rightarrow> u8 list list \<Rightarrow> encoded_column \<times> arena \<Rightarrow> (encoded_column \<times> arena, store_error) result" where
  "fill_column env inputs s = rbind (push_all env inputs s) (finish_column env)"

lemma push_all_holds:
  "store_holds env wire arena0 s bytes \<Longrightarrow>
   push_all env inputs s \<noteq> Panic \<and> (\<forall>s'. push_all env inputs s = Ok s' \<longrightarrow> store_holds env wire arena0 s' (bytes @ concat inputs))"
proof (induction inputs arbitrary: s bytes)
  case (Cons input inputs)
  show ?case
  proof (cases "push env input s")
    case (Ok s1)
    with Cons.IH [OF push_holds [OF Cons.prems Ok]] show ?thesis by simp
  qed (use push_no_panic [OF Cons.prems] in simp_all)
qed simp

lemma push_all_no_error: "store_available env \<Longrightarrow> push_all env inputs s \<noteq> Err e"
  by (induction inputs arbitrary: s) (auto simp: result_simps push_no_error)

lemma fill_column_holds:
  assumes "store_holds env wire arena0 s bytes"
  shows "case fill_column env inputs s of
      Ok (col, arena) \<Rightarrow> store_holds env wire arena0 (col, arena) (bytes @ concat inputs) \<and> ec_pending col = None
    | Err _ \<Rightarrow> \<not> store_available env | Panic \<Rightarrow> False"
proof (cases "push_all env inputs s")
  case (Ok s1)
  with push_all_holds [OF assms, of inputs] have h: "store_holds env wire arena0 s1 (bytes @ concat inputs)" by simp
  show ?thesis
    using finish_pending_holds [OF h] finish_pending_no_panic [OF h] finish_pending_no_error [of env s1]
      finish_pending_None [of env s1]
    by (cases "finish_pending env s1") (auto simp: fill_column_def Ok finish_column_def)
next
  case (Err e)
  then show ?thesis using push_all_no_error [of env inputs s] by (auto simp: fill_column_def)
qed (use push_all_holds [OF assms, of inputs] in simp)

lemma finished_parts:
  assumes "store_holds env wire arena0 (col, arena1) bytes" "ec_pending col = None" "arena_grows arena1 arena"
  shows "\<exists>parts. list_all2 (chunk_holds env arena) (ec_chunks col) parts \<and> concat parts = bytes"
  using assms column_holds_grows [of env arena1 col bytes arena]
  by (auto simp: store_holds_def column_holds_def pending_bytes_def)

text \<open>
  C37 (what is stored is what is uploaded). Filling a new column with any pieces never panics, and fails
  only when memory or the compressor does. Whatever the column compressed, shuffled or kept raw, and
  whatever else was added to the arena since, its upload is exactly the bytes that were pushed, or
  fails because a decode buffer cannot be allocated. When the column consists of frames, the upload
  with wire compression sends frames whose contents are those bytes; a column made for
  wire compression always does.
\<close>

theorem stored_column_uploads:
  assumes "lz4_documented env" "arena_wf arena0"
  shows "case fill_column env inputs (encoded_column_new fixed_width wire, arena0) of
      Ok (col, arena1) \<Rightarrow>
        (wire = Wire_Lz4 \<longrightarrow> (\<forall>chunk \<in> set (ec_chunks col). frame_chunk chunk)) \<and>
        (\<forall>arena. arena_grows arena1 arena \<longrightarrow>
           (case upload_chunks env arena False (ec_chunks col) no_scratch of
              Ok pieces \<Rightarrow> concat pieces = concat inputs | Err e \<Rightarrow> upload_refused env e | Panic \<Rightarrow> False) \<and>
           ((\<forall>chunk \<in> set (ec_chunks col). frame_chunk chunk) \<longrightarrow>
              (\<exists>pieces parts. upload_chunks env arena True (ec_chunks col) no_scratch = Ok pieces \<and>
                 list_all2 (\<lambda>piece part. se_unframe env piece = Some part) pieces parts \<and> concat parts = concat inputs)))
    | Err _ \<Rightarrow> \<not> store_available env
    | Panic \<Rightarrow> False"
proof -
  have "store_holds env wire arena0 (encoded_column_new fixed_width wire, arena0) []"
    using assms(2) by (simp add: store_holds_def) (simp add: encoded_column_new_def)
  note filled = fill_column_holds [OF this, of inputs]
  show ?thesis
  proof (cases "fill_column env inputs (encoded_column_new fixed_width wire, arena0)")
    case (Ok r)
    obtain col arena1 where r: "r = (col, arena1)" by (rule prod.exhaust)
    from filled have h: "store_holds env wire arena0 (col, arena1) (concat inputs)" and n: "ec_pending col = None"
      by (simp_all add: Ok r)
    have w: "wire = Wire_Lz4 \<longrightarrow> (\<forall>chunk \<in> set (ec_chunks col). frame_chunk chunk)"
      using h by (auto simp: store_holds_def column_ok_def)
    have "(case upload_chunks env arena False (ec_chunks col) no_scratch of
              Ok pieces \<Rightarrow> concat pieces = concat inputs | Err e \<Rightarrow> upload_refused env e | Panic \<Rightarrow> False) \<and>
           ((\<forall>chunk \<in> set (ec_chunks col). frame_chunk chunk) \<longrightarrow>
              (\<exists>pieces parts. upload_chunks env arena True (ec_chunks col) no_scratch = Ok pieces \<and>
                 list_all2 (\<lambda>piece part. se_unframe env piece = Some part) pieces parts \<and> concat parts = concat inputs))"
      if "arena_grows arena1 arena" for arena
    proof -
      from finished_parts [OF h n that] obtain parts
        where p: "list_all2 (chunk_holds env arena) (ec_chunks col) parts" "concat parts = concat inputs" by blast
      show ?thesis
        using upload_chunks_restore [OF assms(1) p(1), of no_scratch] upload_frames [OF assms(1) p(1), of no_scratch]
        unfolding p(2) by (metis p(2))
    qed
    with w show ?thesis by (simp add: Ok r)
  qed (use filled in simp_all)
qed

text \<open>
  C38 (shuffling is undone). Grouping the bytes of fixed-width values by their position and undoing it into any
  buffer of the same length gives the input back, for every width and also when the input ends
  inside a value.
\<close>

theorem shuffle_round_trip:
  assumes "0 < width" "length output = length input"
  shows "rbind (shuffle_bytes_into input width) (\<lambda>shuffled. unshuffle_bytes shuffled width output) = Ok input"
proof (cases "shuffle_bytes_into input width")
  case (Ok shuffled)
  with unshuffle_shuffled [OF Ok assms(2)] show ?thesis by simp
qed (use assms shuffle_no_panic shuffle_no_error in auto)

theorem shuffle_round_trip_witness:
  "rbind (shuffle_bytes_into [1, 2, 3, 4, 5, 6, 7] 3) (\<lambda>shuffled. unshuffle_bytes shuffled 3 [0, 0, 0, 0, 0, 0, 0]) =
     Ok [1, 2, 3, 4, 5, 6, 7] \<and> shuffle_bytes_into [1, 2, 3, 4, 5, 6, 7] 3 = Ok [1, 4, 2, 5, 3, 6, 7]"
proof
  show "rbind (shuffle_bytes_into [1, 2, 3, 4, 5, 6, 7] 3) (\<lambda>shuffled. unshuffle_bytes shuffled 3 [0, 0, 0, 0, 0, 0, 0]) =
     Ok [1, 2, 3, 4, 5, 6, 7]" by (rule shuffle_round_trip) simp_all
qed code_simp

text \<open>A compressor that knows one run of bytes and copies everything else behind a marker.\<close>

definition run_env :: store_env where
  "run_env =
     (let pack = (\<lambda>x. if x = replicate 8 7 then Some [1] else Some (0 # x));
          unpack = (\<lambda>c. if c = [1] then Some (replicate 8 7) else Some (tl c))
      in \<lparr>se_alloc = (\<lambda>_. True), se_block = pack, se_frame = pack, se_unblock = (\<lambda>c _. unpack c), se_unframe = unpack\<rparr>)"

lemma run_env_documented: "lz4_documented run_env"
  by (auto simp: lz4_documented_def run_env_def Let_def split: if_splits)

lemma run_env_fills:
  "fill_column run_env [[7, 7, 7], [7, 7, 7, 7, 7]] (encoded_column_new (Some 2) Wire_None, []) =
     Ok (\<lparr>ec_chunks = [Ch_Lz4 \<lparr>cd_slab = 0, cd_offset = 0\<rparr> 1 8 Tr_Plain Cf_Block], ec_pending = None,
          ec_compression = Cm_Enabled Tr_Plain, ec_fixed_width = Some 2, ec_wire = Wire_None, ec_bytes = 0\<rparr>,
         [\<lparr>sl_capacity = compressed_arena_slab_bytes, sl_data = [1]\<rparr>])"
  by code_simp

theorem stored_column_uploads_witness:
  "\<exists>pieces. upload_chunks run_env [\<lparr>sl_capacity = compressed_arena_slab_bytes, sl_data = [1, 5]\<rparr>] False
     [Ch_Lz4 \<lparr>cd_slab = 0, cd_offset = 0\<rparr> 1 8 Tr_Plain Cf_Block] no_scratch = Ok pieces \<and> concat pieces = replicate 8 7"
proof -
  let ?grown = "[\<lparr>sl_capacity = compressed_arena_slab_bytes, sl_data = [1, 5]\<rparr>]"
  have "arena_grows [\<lparr>sl_capacity = compressed_arena_slab_bytes, sl_data = [1]\<rparr>] ?grown" by (simp add: arena_grows_def)
  moreover have "arena_wf []" by (simp add: arena_wf_def)
  ultimately have "case upload_chunks run_env ?grown False [Ch_Lz4 \<lparr>cd_slab = 0, cd_offset = 0\<rparr> 1 8 Tr_Plain Cf_Block] no_scratch of
      Ok pieces \<Rightarrow> concat pieces = concat [[7, 7, 7], [7, 7, 7, 7, 7]] | Err e \<Rightarrow> upload_refused run_env e | Panic \<Rightarrow> False"
    using stored_column_uploads [OF run_env_documented, where ?arena0.0 = "[]" and inputs = "[[7, 7, 7], [7, 7, 7, 7, 7]]"
        and fixed_width = "Some 2" and wire = Wire_None]
    unfolding run_env_fills by simp
  moreover have "\<not> upload_refused run_env e" for e by (simp add: upload_refused_def run_env_def Let_def)
  ultimately show ?thesis by (auto simp: numeral_eq_Suc split: result.splits)
qed

end
