(* ===== verification/Ingest_Window.thy ===== *)
theory Ingest_Window
  imports Chunks Ingest_Store
begin

text \<open>
  The windows of bulk ingest (\<open>driver.rs\<close>): \<open>EncodedIngestWindow\<close>, which encodes pending batches into the
  column store or, once they turn out incompressible, retains them, and the upload of a column of the
  window: the stored chunks, then the retained batches encoded by a worker thread.

  \<open>Array::null_count\<close> is an argument. The fields that only count memory for the statistics
  (\<open>peak_staging_bytes\<close>, \<open>peak_build_bytes\<close> and the buffer maps) are not modelled, and sums of the
  lengths of buffers that are all in memory are taken without an overflow. The locale
  \<open>chunk_sink\<close> is the contract between the chunked encoder and what it writes to. The result: whatever
  was compressed or retained, the bytes uploaded for a column decode to the rows of all batches.
\<close>

subsection \<open>Windows\<close>



datatype ingest_overflow = Retained_Overflow | Column_Overflow | Encoded_Overflow | Rows_Overflow | Estimated_Overflow

datatype window_error =
    W_Unsupported encode_error
  | W_Encode encode_error
  | W_Store store_error
  | W_Overflow ingest_overflow
  | W_Unknown_File
  | W_Wrong_Column nat nat
  | W_Out_Of_Order
  | W_Encoder_Stopped
  | W_Early_Start nat nat












subsection \<open>Upload\<close>


datatype retained_message = RM_Start nat | RM_Chunk "u8 list" | RM_Finish nat | RM_Error window_error


fun retained_loop :: "retained_message list \<Rightarrow> nat \<Rightarrow> nat \<Rightarrow> (u8 list list \<times> nat \<times> nat, window_error) result" where
  "retained_loop [] expected largest = Err W_Encoder_Stopped"
| "retained_loop (RM_Chunk chunk # ms) expected largest =
     rbind (retained_loop ms expected (max largest (length chunk))) (\<lambda>(pieces, n, largest). Ok (chunk # pieces, n, largest))"
| "retained_loop (RM_Finish n # ms) expected largest = Ok ([], n, largest)"
| "retained_loop (RM_Error e # ms) expected largest = Err e"
| "retained_loop (RM_Start index # ms) expected largest = Err (W_Early_Start index expected)"

fun upload_retained_column :: "retained_message list \<Rightarrow> nat \<Rightarrow> nat \<Rightarrow> (u8 list list \<times> nat \<times> nat, window_error) result" where
  "upload_retained_column [] expected largest = Err W_Encoder_Stopped"
| "upload_retained_column (RM_Start index # ms) expected largest =
     (if index = expected then retained_loop ms expected largest else Err (W_Wrong_Column index expected))"
| "upload_retained_column (RM_Error e # ms) expected largest = Err e"
| "upload_retained_column (m # ms) expected largest = Err W_Out_Of_Order"



subsection \<open>What a sink holds\<close>

text \<open>A sink that appends what it is given: after a run it holds the pieces a recorder would have kept.\<close>

locale chunk_sink =
  fixes emit :: "'s \<Rightarrow> u8 list \<Rightarrow> 's \<times> 'x option"
    and holds :: "'s \<Rightarrow> u8 list \<Rightarrow> bool"
  assumes emit_appends: "holds s bytes \<Longrightarrow> emit s chunk = (s', None) \<Longrightarrow> holds s' (bytes @ chunk)"
begin

lemma emit_slices_holds:
  "holds s bytes \<Longrightarrow> emit_slices c half field emit array step starts s acc = (s', Ok n) \<Longrightarrow>
   \<exists>pieces. holds s' (bytes @ concat pieces) \<and>
     emit_slices c half field record_piece array step starts ps acc = (ps @ pieces, Ok n :: (nat, unit chunked_error) result)"
proof (induction starts arbitrary: s bytes acc ps)
  case Nil
  then show ?case by (intro exI [of _ "[]"]) simp
next
  case (Cons start starts)
  from Cons.prems(2) obtain chunk s1
    where e: "encode_piece c half field (slice_array start (min (array_len array - start) step) array) = Ok chunk"
      and a: "acc + length chunk \<le> usize_max" and s1: "emit s chunk = (s1, None)"
      and r: "emit_slices c half field emit array step starts s1 (acc + length chunk) = (s', Ok n)"
    by (auto split: result.splits option.splits prod.splits)
  from Cons.IH [OF emit_appends [OF Cons.prems(1) s1] r, of "ps @ [chunk]"] obtain pieces
    where "holds s' ((bytes @ chunk) @ concat pieces)"
      "emit_slices c half field record_piece array step starts (ps @ [chunk]) (acc + length chunk) =
        (ps @ [chunk] @ pieces, Ok n :: (nat, unit chunked_error) result)" by auto
  with e a show ?case
    by (intro exI [of _ "chunk # pieces"]) (auto simp: record_piece_def [of ps] split: option.split)
qed

lemma encode_column_chunks_holds:
  "holds s bytes \<Longrightarrow> encode_column_chunks c half field arrays target emit s acc = (s', Ok n) \<Longrightarrow>
   \<exists>pieces. holds s' (bytes @ concat pieces) \<and>
     encode_column_chunks c half field arrays target record_piece ps acc = (ps @ pieces, Ok n :: (nat, unit chunked_error) result)"
proof (induction arrays arbitrary: s bytes acc ps)
  case Nil
  then show ?case by (intro exI [of _ "[]"]) simp
next
  case (Cons array arrays)
  from Cons.prems(2) obtain estimated s1 acc1
    where est: "estimated_encoded_size field array = Ok estimated"
      and e: "emit_slices c half field emit array (rows_per_chunk target (array_len array) estimated)
          (chunk_starts 0 (array_len array) (rows_per_chunk target (array_len array) estimated)) s acc = (s1, Ok acc1)"
      and r: "encode_column_chunks c half field arrays target emit s1 acc1 = (s', Ok n)"
    by (auto simp: Let_def split: result.splits prod.splits)
  from emit_slices_holds [OF Cons.prems(1) e, of ps] obtain xs where x: "holds s1 (bytes @ concat xs)"
    "emit_slices c half field record_piece array (rows_per_chunk target (array_len array) estimated)
          (chunk_starts 0 (array_len array) (rows_per_chunk target (array_len array) estimated)) ps acc =
        (ps @ xs, Ok acc1 :: (nat, unit chunked_error) result)" by blast
  from Cons.IH [OF x(1) r, of "ps @ xs"] obtain ys where "holds s' ((bytes @ concat xs) @ concat ys)"
    "encode_column_chunks c half field arrays target record_piece (ps @ xs) acc1 = (ps @ xs @ ys, Ok n :: (nat, unit chunked_error) result)"
    by auto
  with est x(2) show ?case by (intro exI [of _ "xs @ ys"]) (simp add: Let_def)
qed

end

interpretation recorder: chunk_sink record_piece "\<lambda>ps bytes. concat ps = bytes"
  by unfold_locales (auto simp: record_piece_def)






subsection \<open>Recorded runs\<close>




subsection \<open>What a window holds\<close>





lemma store_holds_bytes [simp]: "store_holds env wire arena0 (col\<lparr>ec_bytes := n\<rparr>, arena) bytes = store_holds env wire arena0 (col, arena) bytes"
  by (simp add: store_holds_def column_ok_def column_holds_def pending_bytes_def)




















lemma retained_loop_not_Panic [simp]: "retained_loop ms expected largest \<noteq> Panic"
  by (induction ms expected largest rule: retained_loop.induct) (auto simp: result_simps split: result.splits)

lemma upload_retained_not_Panic [simp]: "upload_retained_column ms expected largest \<noteq> Panic"
  by (cases "(ms, expected, largest)" rule: upload_retained_column.cases) auto








end
