(* ===== verification/Spec2Isabelle.thy ===== *)
theory Spec2Isabelle
  imports Chunks Prefetch Prepared_Cache Metadata_Objects Metadata_Safe Ingest_Window
begin

text \<open>
  The MonetDB driver for Arrow Database Connectivity (ADBC): a Rust library in two crates under
  \<open>src/crates/\<close>. The crate \<open>monetdb-arrow\<close> translates between MonetDB's binary wire format and Arrow
  arrays; the crate \<open>adbc-monetdb\<close> implements the ADBC driver on top of it: it sends queries, binds
  parameters, reads results window by window, lists the catalog and loads tables. This library
  models the parts of the two crates that compute, and proves what makes them correct.

  \<^bold>\<open>Conventions.\<close> A Rust function is a HOL function to \<open>result\<close>: a value \<open>Ok\<close>, an error
  \<open>Err\<close> returned with the question-mark operator, or a \<open>Panic\<close> for an index, slice, \<open>expect\<close> or
  overflowing reservation (\<open>Rust_Prelude\<close>). Text and byte buffers are lists of 8-bit words (\<open>Bytes\<close>,
  \<open>Text\<close>). Sizes are natural numbers with the bounds of \<open>usize\<close> written out where the code checks them;
  signed integers of the wire are integers within the width of their type. Loops are structural
  recursion or functions with a termination proof.

  \<^bold>\<open>Bounds.\<close> Three loops are counted. The digits of a float stop after 17, the size of the buffer the
  standard library formats into, and its decimal exponent is searched between -330 and 330, which
  holds every finite double; running out is a \<open>Panic\<close>. The groups of an IPv6 address are at most eight.
  Draining a reader takes a number of calls, and the theorems state how many are enough (the number
  of rows plus two) and that the reader then has ended.

  \<^bold>\<open>Wire format\<close> (\<open>exportbin.rs\<close>, \<open>wire.rs\<close>). \<open>Exportbin\<close> parses a response frame: header line, column
  ranges, table of contents, in-frame error. Parsing never panics, the columns are disjoint slices
  between header and table of contents, and a frame that was laid out by the server's rules parses
  back to its columns.

  \<^bold>\<open>Types\<close> (\<open>decode.rs\<close>, \<open>encode.rs\<close>, \<open>wire.rs\<close>). \<open>Monet_Types\<close> maps MonetDB types to Arrow fields and
  back and proves the round trip; \<open>Arrow_Arrays\<close> models arrays and what the Arrow library checks;
  \<open>Calendar\<close> shows that \<open>days_from_civil\<close> counts days; \<open>Inet_Text\<close> is the text of addresses.

  \<^bold>\<open>Decoder\<close> (\<open>decode.rs\<close>). \<open>Decode_Fixed\<close> and \<open>Decode_Var\<close> read one column, \<open>Decode\<close> a frame,
  \<open>Decode_Owned\<close> a frame whose memory becomes the memory of the arrays. Decoding any bytes returns
  without a panic, provided the rows of an address column are few enough for 32-bit text offsets,
  which the code does not check; a decoded batch has the announced schema and row count and is one Arrow accepts;
  the fast path for strings and the zero-copy path agree with the plain ones, errors included.

  \<^bold>\<open>Encoder\<close> (\<open>encode.rs\<close>). \<open>Encode_Fixed\<close>, \<open>Encode_Var\<close> and \<open>Encode\<close> write one column. \<open>Column_Codec\<close>
  states the contract between a writer and a reader of one row as the locale \<open>row_codec\<close> (and
  \<open>array_codec\<close>, \<open>chrono_lib\<close>) and interprets it for every fixed-width type; \<open>Roundtrip\<close> concludes that
  every encodable column decodes to its cells. \<open>Chunks\<close> shows the same for the encoder that emits
  bounded pieces and borrows native memory, and bounds the pieces.

  \<^bold>\<open>Reading results\<close> (\<open>driver.rs\<close>). \<open>Read_Window\<close> chooses the number of rows of a window (locale
  \<open>row_scheduler\<close>); \<open>Readers\<close> models the readers and proves that a result is delivered once, in order,
  and that reading ends (locale \<open>row_stream\<close>); \<open>Prefetch\<close> models the reader with a worker thread as a
  step relation over two bounded channels: every interleaving delivers a prefix of one sequence, all
  of it at the end, in a bounded number of steps and without deadlock.

  \<^bold>\<open>Bulk ingest\<close> (\<open>driver.rs\<close>). \<open>Ingest_Store\<close> is the column store of an upload: pieces collected in
  buffers, compressed or shuffled and compressed into a shared arena, or kept raw. Whatever it chose,
  it gives back the bytes it was given. \<open>Ingest_Window\<close> models the window that encodes batches into the
  store (locale \<open>chunk_sink\<close>, the contract between the chunked encoder and its sink) or retains them,
  and the upload of a column; what is uploaded decodes to the rows of all batches.

  \<^bold>\<open>Queries\<close> (\<open>driver/parameters.rs\<close>). \<open>Sql_Scan\<close> is the scanner that finds statements and markers,
  \<open>Sql_Template\<close> compiles and renders templates, \<open>Sql_Literal\<close> writes the literal of an Arrow value.
  \<open>Sql_Inert\<close>, \<open>Sql_Lockstep\<close> and \<open>Sql_Safe\<close> prove that a bound value cannot change how a query is
  read: the scans of the template and of the rendered text run in lockstep.

  \<^bold>\<open>Prepared statements\<close> (\<open>driver.rs\<close>). \<open>Prepared_Cache\<close> refines a bounded least-recently-used list
  (locale \<open>simulation\<close>), whatever the iteration order of the hash map, and prepares a query at the
  configured execution.

  \<^bold>\<open>Catalog\<close> (\<open>driver/metadata.rs\<close>). \<open>Like_Pattern\<close> shows that the matcher of the filters decides the
  language of its pattern; \<open>Metadata\<close> models the queries, the loops over their rows and the nested
  result; \<open>Metadata_Objects\<close> proves that the rows are listed completely, grouped and in order;
  \<open>Metadata_Safe\<close> proves that no filter can change how a catalog query is read.

  \<^bold>\<open>Parameters of the model.\<close> Code outside the repository is an argument: the cursor of the \<open>monetdb\<close>
  crate (a function that answers a request for rows with any bytes or an error), the Arrow
  constructors that can refuse (\<open>arrow_lib\<close>), \<open>chrono\<close> and \<open>half\<close> conversions, the error picked by a
  parallel collect of \<open>rayon\<close>, the Unicode alphanumeric table, the LZ4 compressor, the NULL
  count of an array, and the address, growth policy and refusal of allocations. Where a theorem needs something of them it is a named hypothesis, and a witness
  instantiates it.

  \<^bold>\<open>Not modelled.\<close> The inline row decoder, which re-reads values through the textual row reader of
  the \<open>monetdb\<close> crate; connection setup, TLS, timeouts and option tables; error mapping and JSON
  diagnostics; transactions, savepoints and atomic scopes, whose meaning is the server's; the
  coalescing, memory reservation and prefetch of ingest windows; execution of prepared statements and its retries; statistics
  texts; the C entry points, build scripts and the Python wrappers.
\<close>

end
